(* ===== verification/Prelude.thy ===== *)
theory Prelude
  imports Main "HOL-Library.Word" "HOL-Library.Multiset"
begin

text \<open>
  The vocabulary the component theories share: the machine integer types, C++ exceptions as
  values, the searches and erasures the containers are written with, the decimal printing of
  integers, and two interfaces (\<open>step_invariant\<close>, \<open>step_refinement\<close>) that lift one-step
  facts to runs of operations.
\<close>

section \<open>Types\<close>

type_synonym u16 = "16 word"
type_synonym u64 = "64 word"

text \<open>Rewrite rules over the operations of the order levels, the books and the engine.\<close>

named_theorems book_simps

section \<open>Exceptions as values\<close>

text \<open>
  A C++ exception is a value carrying its message; a computation that may throw returns
  \<open>Inl\<close> of the exception or \<open>Inr\<close> of the result, and \<open>bind_e\<close> runs the rest of the
  function only when nothing was thrown.
\<close>

datatype cpp_exn = CppExn string

type_synonym 'a throws = "cpp_exn + 'a"

definition bind_e :: "'a throws \<Rightarrow> ('a \<Rightarrow> 'b throws) \<Rightarrow> 'b throws" where
  "bind_e m f = (case m of Inl e \<Rightarrow> Inl e | Inr x \<Rightarrow> f x)"

lemma bind_e_simps [simp]:
  "bind_e (Inl e) f = Inl e"
  "bind_e (Inr x) f = f x"
  by (simp_all add: bind_e_def)

lemma bind_e_Inr_iff: "bind_e m f = Inr y \<longleftrightarrow> (\<exists>x. m = Inr x \<and> f x = Inr y)"
  by (cases m) auto

section \<open>First match: search, erase, change in place\<close>

text \<open>
  \<open>erase_first\<close> is the loop that erases the first element with a property and returns,
  \<open>update_first\<close> the \<open>find_if\<close> followed by a change of the element found.
\<close>

fun erase_first :: "('a \<Rightarrow> bool) \<Rightarrow> 'a list \<Rightarrow> 'a list" where
  "erase_first P [] = []"
| "erase_first P (x # xs) = (if P x then xs else x # erase_first P xs)"

fun update_first :: "('a \<Rightarrow> bool) \<Rightarrow> ('a \<Rightarrow> 'a) \<Rightarrow> 'a list \<Rightarrow> 'a list" where
  "update_first P f [] = []"
| "update_first P f (x # xs) = (if P x then f x # xs else x # update_first P f xs)"

lemma erase_first_none: "find P xs = None \<Longrightarrow> erase_first P xs = xs"
  by (induction xs) (auto split: if_splits)

lemma update_first_none: "find P xs = None \<Longrightarrow> update_first P f xs = xs"
  by (induction xs) (auto split: if_splits)

lemma find_Some_mem: "find P xs = Some x \<Longrightarrow> x \<in> set xs \<and> P x"
  by (induction xs) (auto split: if_splits)

lemma set_erase_first: "set (erase_first P xs) \<subseteq> set xs"
  by (induction xs) auto

lemma erase_first_subset: "x \<in> set (erase_first P xs) \<Longrightarrow> x \<in> set xs"
  using set_erase_first by fastforce

lemma set_update_first: "x \<in> set (update_first P f xs) \<Longrightarrow> x \<in> set xs \<or> (\<exists>y \<in> set xs. x = f y)"
  by (induction xs) (auto split: if_splits)

lemma length_update_first [simp]: "length (update_first P f xs) = length xs"
  by (induction xs) auto

lemma update_first_Nil_iff [simp]: "update_first P f xs = [] \<longleftrightarrow> xs = []"
  by (cases xs) auto

lemma mset_erase_first: "find P xs = Some x \<Longrightarrow> mset xs = add_mset x (mset (erase_first P xs))"
  by (induction xs) (auto split: if_splits)

lemma mset_update_first:
  "find P xs = Some x \<Longrightarrow> mset (update_first P f xs) = add_mset (f x) (mset (erase_first P xs))"
  by (induction xs) (auto split: if_splits)

lemma length_erase_first: "find P xs = Some x \<Longrightarrow> length xs = Suc (length (erase_first P xs))"
  by (induction xs) (auto split: if_splits)

lemma erase_first_split:
  "find P xs = Some x \<Longrightarrow>
   \<exists>ys zs. xs = ys @ x # zs \<and> erase_first P xs = ys @ zs \<and> (\<forall>y \<in> set ys. \<not> P y) \<and> P x"
proof (induction xs)
  case (Cons a xs)
  show ?case
  proof (cases "P a")
    case True
    with Cons.prems show ?thesis by (intro exI [of _ "[]"] exI [of _ xs]) auto
  next
    case False
    with Cons obtain ys zs where "xs = ys @ x # zs" "erase_first P xs = ys @ zs"
      "\<forall>y \<in> set ys. \<not> P y" "P x" by auto
    with False show ?thesis by (intro exI [of _ "a # ys"] exI [of _ zs]) auto
  qed
qed simp

lemma update_first_split:
  "find P xs = Some x \<Longrightarrow>
   \<exists>ys zs. xs = ys @ x # zs \<and> update_first P f xs = ys @ f x # zs \<and> (\<forall>y \<in> set ys. \<not> P y) \<and> P x"
proof (induction xs)
  case (Cons a xs)
  show ?case
  proof (cases "P a")
    case True
    with Cons.prems show ?thesis by (intro exI [of _ "[]"] exI [of _ xs]) auto
  next
    case False
    with Cons obtain ys zs where "xs = ys @ x # zs" "update_first P f xs = ys @ f x # zs"
      "\<forall>y \<in> set ys. \<not> P y" "P x" by auto
    with False show ?thesis by (intro exI [of _ "a # ys"] exI [of _ zs]) auto
  qed
qed simp

lemmas find_none_simps = erase_first_none update_first_none

section \<open>C strings and decimal numbers\<close>

text \<open>
  \<open>as_string().c_str()\<close> assigned to a \<open>std::string\<close> stops at the first NUL byte.
\<close>

definition c_str :: "string \<Rightarrow> string" where
  "c_str s = takeWhile (\<lambda>c. c \<noteq> CHR 0x00) s"

lemma c_str_id: "CHR 0x00 \<notin> set s \<Longrightarrow> c_str s = s"
  unfolding c_str_def by (rule takeWhile_eq_all_conv [THEN iffD2]) auto

text \<open>\<open>std::to_string\<close> and the stream output of integers: decimal, a minus sign first.\<close>

definition digit_char :: "nat \<Rightarrow> char" where
  "digit_char d = char_of (48 + d)"

fun dec_nat :: "nat \<Rightarrow> string" where
  "dec_nat n = (if n < 10 then [digit_char n] else dec_nat (n div 10) @ [digit_char (n mod 10)])"

declare dec_nat.simps [simp del]

definition to_string :: "int \<Rightarrow> string" where
  "to_string i = (if i < 0 then CHR ''-'' # dec_nat (nat (- i)) else dec_nat (nat i))"

definition parse_nat :: "string \<Rightarrow> nat" where
  "parse_nat s = foldl (\<lambda>a c. 10 * a + (of_char c - 48)) 0 s"

definition parse_int :: "string \<Rightarrow> int" where
  "parse_int s = (case s of c # cs \<Rightarrow> if c = CHR ''-'' then - int (parse_nat cs) else int (parse_nat s)
                          | [] \<Rightarrow> 0)"

lemma digit_value: "d < 10 \<Longrightarrow> (of_char (digit_char d) :: nat) - 48 = d"
  by (simp add: digit_char_def)

lemma parse_dec_nat: "parse_nat (dec_nat n) = n"
proof (induction n rule: dec_nat.induct)
  case (1 n)
  show ?case
  proof (cases "n < 10")
    case True
    then show ?thesis by (subst dec_nat.simps) (simp add: parse_nat_def digit_value)
  next
    case False
    with "1.IH" have "parse_nat (dec_nat (n div 10)) = n div 10" by simp
    with False show ?thesis by (subst dec_nat.simps) (simp add: parse_nat_def digit_value)
  qed
qed

lemma dec_nat_nonempty [simp]: "dec_nat n \<noteq> []"
  by (subst dec_nat.simps) simp

lemma dec_nat_digits: "c \<in> set (dec_nat n) \<Longrightarrow> \<exists>d < 10. c = digit_char d"
proof (induction n rule: dec_nat.induct)
  case (1 n)
  show ?case
  proof (cases "n < 10")
    case True
    with "1.prems" show ?thesis by (subst (asm) dec_nat.simps) auto
  next
    case False
    with "1.prems" have "c \<in> set (dec_nat (n div 10)) \<or> c = digit_char (n mod 10)"
      by (subst (asm) dec_nat.simps) auto
    with "1.IH" False show ?thesis by (auto intro: exI [of _ "n mod 10"])
  qed
qed

lemma digit_char_neq_minus: "d < 10 \<Longrightarrow> digit_char d \<noteq> CHR ''-''"
proof
  assume "d < 10" and "digit_char d = CHR ''-''"
  then have "(of_char (digit_char d) :: nat) = of_char (CHR ''-'')" by simp
  with \<open>d < 10\<close> show False by (simp add: digit_char_def)
qed

lemma parse_to_string: "parse_int (to_string i) = i"
proof (cases "i < 0")
  case True
  then show ?thesis by (simp add: to_string_def parse_int_def parse_dec_nat)
next
  case False
  obtain c cs where c: "dec_nat (nat i) = c # cs" by (cases "dec_nat (nat i)") auto
  then have "c \<in> set (dec_nat (nat i))" by simp
  then obtain d where "d < 10" and "c = digit_char d" using dec_nat_digits by blast
  then have "c \<noteq> CHR ''-''" using digit_char_neq_minus by simp
  with False c show ?thesis
    using parse_dec_nat [of "nat i"] by (simp add: to_string_def parse_int_def)
qed

lemma to_string_inj: "to_string i = to_string j \<Longrightarrow> i = j"
  using parse_to_string by metis

lemma to_string_nonempty [simp]: "to_string i \<noteq> []"
  by (simp add: to_string_def)

lemma unat_bound: "unat (a :: u64) < 2 ^ 64"
  using unsigned_less [of a] by simp

lemma length_dec_nat: "n < 10 ^ k \<Longrightarrow> length (dec_nat n) \<le> max 1 k"
proof (induction k arbitrary: n)
  case 0
  then show ?case by (simp add: dec_nat.simps)
next
  case (Suc k)
  show ?case
  proof (cases "n < 10")
    case True
    then show ?thesis by (simp add: dec_nat.simps)
  next
    case False
    then have "n div 10 < 10 ^ k" using Suc.prems by (simp add: less_mult_imp_div_less mult.commute)
    from Suc.IH [OF this] have "length (dec_nat (n div 10)) \<le> max 1 k" .
    moreover have "0 < k" using Suc.prems False by (cases k) auto
    ultimately show ?thesis using False by (subst dec_nat.simps) simp
  qed
qed

lemma length_dec_u64: "length (dec_nat (unat (n :: u64))) \<le> 20"
proof -
  have "unat n < 10 ^ 20" by (rule less_le_trans [OF unat_bound]) simp
  from length_dec_nat [OF this] show ?thesis by simp
qed

section \<open>From one step to a run\<close>

text \<open>
  Components are driven by sequences of events. An operation that keeps an invariant keeps it
  over any sequence; an operation that commutes with an abstraction function makes the whole
  run an abstract run.
\<close>

locale step_invariant =
  fixes step :: "'s \<Rightarrow> 'e \<Rightarrow> 's"
    and inv :: "'s \<Rightarrow> bool"
  assumes step_inv: "inv s \<Longrightarrow> inv (step s e)"
begin

lemma run_inv: "inv s \<Longrightarrow> inv (foldl step s es)"
  by (induction es arbitrary: s) (auto intro: step_inv)

end

locale step_refinement = step_invariant step inv
  for step :: "'s \<Rightarrow> 'e \<Rightarrow> 's" and inv :: "'s \<Rightarrow> bool" +
  fixes abs :: "'s \<Rightarrow> 'a"
    and astep :: "'a \<Rightarrow> 'e \<Rightarrow> 'a"
  assumes abs_step: "inv s \<Longrightarrow> abs (step s e) = astep (abs s) e"
begin

lemma run_abs: "inv s \<Longrightarrow> abs (foldl step s es) = foldl astep (abs s) es"
  by (induction es arbitrary: s) (simp_all add: abs_step step_inv)

end

end
