(* ===== verification/Json.thy ===== *)
theory Json
  imports Prelude
begin

text \<open>
  The part of \<open>boost::json\<close> the program calls, as a parameter of the model: a record of the
  functions \<open>value::at\<close>, \<open>as_string\<close>, \<open>as_int64\<close>, \<open>as_bool\<close>, \<open>as_array\<close>,
  \<open>as_object().contains\<close>, the kind tests and the stream parser, over an arbitrary type
  \<open>'j\<close> of values. The state of a stream parser is the text it has consumed so far:
  \<open>write\<close> and \<open>write_some\<close> say how many characters they take, \<open>done\<close> whether the text is a
  complete document, and \<open>release\<close> gives its value. The accessors throw when the value is of another kind or the key is
  missing; the library's code is not part of the repository, so nothing more is fixed here.
\<close>

record 'j json_api =
  j_at :: "'j \<Rightarrow> string \<Rightarrow> 'j throws"
  j_as_string :: "'j \<Rightarrow> string throws"
  j_as_int64 :: "'j \<Rightarrow> u64 throws"
  j_as_bool :: "'j \<Rightarrow> bool throws"
  j_as_array :: "'j \<Rightarrow> 'j list throws"
  j_contains :: "'j \<Rightarrow> string \<Rightarrow> bool throws"
  j_is_array :: "'j \<Rightarrow> bool"
  j_is_int64 :: "'j \<Rightarrow> bool"
  j_is_string :: "'j \<Rightarrow> bool"
  p_write :: "string \<Rightarrow> nat"
  p_release :: "string \<Rightarrow> 'j throws"
  p_write_some :: "string \<Rightarrow> string \<Rightarrow> nat"
  p_done :: "string \<Rightarrow> bool"

text \<open>
  \<open>at(key)\<close> followed by an accessor, the way every field is read. \<open>as_int64\<close> gives the
  64 bits of the signed value; storing them in an unsigned field keeps the bits.
\<close>

definition at_string :: "'j json_api \<Rightarrow> 'j \<Rightarrow> string \<Rightarrow> string throws" where
  "at_string J j k = bind_e (j_at J j k) (j_as_string J)"

definition at_int64 :: "'j json_api \<Rightarrow> 'j \<Rightarrow> string \<Rightarrow> u64 throws" where
  "at_int64 J j k = bind_e (j_at J j k) (j_as_int64 J)"

definition at_bool :: "'j json_api \<Rightarrow> 'j \<Rightarrow> string \<Rightarrow> bool throws" where
  "at_bool J j k = bind_e (j_at J j k) (j_as_bool J)"

lemma at_string_Inr: "at_string J j k = Inr s \<longleftrightarrow> (\<exists>v. j_at J j k = Inr v \<and> j_as_string J v = Inr s)"
  by (simp add: at_string_def bind_e_Inr_iff)

section \<open>A concrete instance\<close>

text \<open>
  A value type with the documented accessors, used to evaluate the model on concrete messages:
  the message text of this instance is a key into a table of documents, so that
  \<open>p_release\<close> needs no JSON grammar.
\<close>

datatype jval =
    JNull
  | JBool bool
  | JInt u64
  | JStr string
  | JArr "jval list"
  | JObj "(string \<times> jval) list"

fun jval_at :: "jval \<Rightarrow> string \<Rightarrow> jval throws" where
  "jval_at (JObj m) k = (case map_of m k of Some v \<Rightarrow> Inr v | None \<Rightarrow> Inl (CppExn ''out of range''))"
| "jval_at v k = Inl (CppExn ''not an object'')"

fun jval_contains :: "jval \<Rightarrow> string \<Rightarrow> bool throws" where
  "jval_contains (JObj m) k = Inr (map_of m k \<noteq> None)"
| "jval_contains v k = Inl (CppExn ''not an object'')"

fun jval_string :: "jval \<Rightarrow> string throws" where
  "jval_string (JStr s) = Inr s"
| "jval_string v = Inl (CppExn ''not a string'')"

fun jval_int64 :: "jval \<Rightarrow> u64 throws" where
  "jval_int64 (JInt i) = Inr i"
| "jval_int64 v = Inl (CppExn ''not an int64'')"

fun jval_bool :: "jval \<Rightarrow> bool throws" where
  "jval_bool (JBool b) = Inr b"
| "jval_bool v = Inl (CppExn ''not a bool'')"

fun jval_array :: "jval \<Rightarrow> jval list throws" where
  "jval_array (JArr xs) = Inr xs"
| "jval_array v = Inl (CppExn ''not an array'')"

definition jval_api :: "(string \<times> jval) list \<Rightarrow> jval json_api" where
  "jval_api docs =
     \<lparr>j_at = jval_at, j_as_string = jval_string, j_as_int64 = jval_int64, j_as_bool = jval_bool,
      j_as_array = jval_array, j_contains = jval_contains,
      j_is_array = (\<lambda>v. case v of JArr _ \<Rightarrow> True | _ \<Rightarrow> False),
      j_is_int64 = (\<lambda>v. case v of JInt _ \<Rightarrow> True | _ \<Rightarrow> False),
      j_is_string = (\<lambda>v. case v of JStr _ \<Rightarrow> True | _ \<Rightarrow> False),
      p_write = length,
      p_release = (\<lambda>t. case map_of docs t of Some d \<Rightarrow> Inr d
                                            | None \<Rightarrow> Inl (CppExn ''incomplete JSON'')),
      p_write_some = (\<lambda>t c. length c),
      p_done = (\<lambda>t. map_of docs t \<noteq> None)\<rparr>"

lemma jval_api_simps [simp]:
  "j_at (jval_api docs) = jval_at"
  "j_as_string (jval_api docs) = jval_string"
  "j_as_int64 (jval_api docs) = jval_int64"
  "j_as_bool (jval_api docs) = jval_bool"
  "j_as_array (jval_api docs) = jval_array"
  "j_contains (jval_api docs) = jval_contains"
  "p_write (jval_api docs) = length"
  "p_write_some (jval_api docs) t c = length c"
  "p_done (jval_api docs) t = (map_of docs t \<noteq> None)"
  "p_release (jval_api docs) t =
     (case map_of docs t of Some d \<Rightarrow> Inr d | None \<Rightarrow> Inl (CppExn ''incomplete JSON''))"
  by (simp_all add: jval_api_def)

end
