(* ===== verification/OrderData.thy ===== *)
theory OrderData
  imports Json
begin

text \<open>
  \<open>order_data.h\<close> and \<open>order_data.cpp\<close>: the order, amend and cancel requests and the
  replies, read from JSON and validated, and the texts the replies are sent and logged as.
  Prices and volumes are \<open>std::uint64_t\<close>, so words of 64 bits; a time point is its count of
  nanoseconds since the epoch.
\<close>

section \<open>Order requests\<close>

record OrderDataBase =
  od_account :: string
  od_instrument :: string
  od_price :: u64
  od_volume :: u64
  od_type :: string
  od_isBuySide :: bool
  od_orderTime :: int
  od_orderDuration :: int
  od_id :: string
  od_clientId :: string

type_synonym OrderInsertData = OrderDataBase

record OrderAmendData = OrderDataBase +
  od_newPrice :: u64
  od_newVolume :: u64

definition OrderDataBase_ctor ::
  "string \<Rightarrow> string \<Rightarrow> u64 \<Rightarrow> u64 \<Rightarrow> string \<Rightarrow> bool \<Rightarrow> int \<Rightarrow> int \<Rightarrow> string \<Rightarrow> string \<Rightarrow> OrderDataBase" where
  "OrderDataBase_ctor acc ins p v ty b t d i c =
     \<lparr>od_account = acc, od_instrument = ins, od_price = p, od_volume = v, od_type = ty,
      od_isBuySide = b, od_orderTime = t, od_orderDuration = d, od_id = i, od_clientId = c\<rparr>"

definition OrderAmendData_ctor ::
  "string \<Rightarrow> string \<Rightarrow> u64 \<Rightarrow> u64 \<Rightarrow> u64 \<Rightarrow> u64 \<Rightarrow> string \<Rightarrow> bool \<Rightarrow> int \<Rightarrow> int \<Rightarrow> string \<Rightarrow> string \<Rightarrow> OrderAmendData" where
  "OrderAmendData_ctor acc ins p np v nv ty b t d i c =
     \<lparr>od_account = acc, od_instrument = ins, od_price = p, od_volume = v, od_type = ty,
      od_isBuySide = b, od_orderTime = t, od_orderDuration = d, od_id = i, od_clientId = c,
      od_newPrice = np, od_newVolume = nv\<rparr>"

text \<open>The objects a default constructor leaves: empty strings, zeros, the buy side.\<close>

definition OrderInsertData_default :: OrderInsertData where
  "OrderInsertData_default = OrderDataBase_ctor [] [] 0 0 [] True 0 0 [] []"

definition OrderAmendData_default :: OrderAmendData where
  "OrderAmendData_default = OrderAmendData_ctor [] [] 0 0 0 0 [] True 0 0 [] []"

record OrderCancelData =
  oc_instrument :: string
  oc_price :: u64
  oc_isBuySide :: bool
  oc_id :: string
  oc_clientId :: string

definition OrderCancelData_ctor :: "string \<Rightarrow> u64 \<Rightarrow> bool \<Rightarrow> string \<Rightarrow> string \<Rightarrow> OrderCancelData" where
  "OrderCancelData_ctor ins p b i c =
     \<lparr>oc_instrument = ins, oc_price = p, oc_isBuySide = b, oc_id = i, oc_clientId = c\<rparr>"

definition OrderCancelData_default :: OrderCancelData where
  "OrderCancelData_default = OrderCancelData_ctor [] 0 True [] []"

text \<open>
  \<open>GetPriceAsDouble\<close> divides the integers before it converts, so the fraction of the price
  (six decimal places) is lost; the value converted is this one.
\<close>

definition GetPriceAsDouble :: "u64 \<Rightarrow> nat" where
  "GetPriceAsDouble p = unat p div 1000000"

section \<open>Validation\<close>

definition OrderDataBase_Validate :: "'x OrderDataBase_scheme \<Rightarrow> bool" where
  "OrderDataBase_Validate d \<longleftrightarrow>
     od_price d > 0 \<and> od_volume d > 0 \<and> od_orderTime d > 0 \<and>
     od_id d \<noteq> [] \<and> od_clientId d \<noteq> [] \<and> od_account d \<noteq> [] \<and> od_instrument d \<noteq> [] \<and>
     (od_isBuySide d = True \<or> od_isBuySide d = False)"

definition OrderAmendData_Validate :: "OrderAmendData \<Rightarrow> bool" where
  "OrderAmendData_Validate d \<longleftrightarrow> OrderDataBase_Validate d \<and> od_newPrice d > 0 \<and> od_newVolume d > 0"

definition OrderCancelData_Validate :: "OrderCancelData \<Rightarrow> bool" where
  "OrderCancelData_Validate d \<longleftrightarrow>
     oc_instrument d \<noteq> [] \<and> oc_price d > 0 \<and> oc_id d \<noteq> [] \<and> oc_clientId d \<noteq> [] \<and>
     (oc_isBuySide d = True \<or> oc_isBuySide d = False)"

section \<open>Reading a request from JSON\<close>

text \<open>
  \<open>now\<close> is what \<open>high_resolution_clock::now()\<close> returns during the call. The result is the
  object and the verdict of \<open>Validate\<close>; a missing field or a field of another kind throws.
\<close>

definition OrderDataBase_SetData ::
  "'j json_api \<Rightarrow> int \<Rightarrow> 'j \<Rightarrow> OrderDataBase \<Rightarrow> (OrderDataBase \<times> bool) throws" where
  "OrderDataBase_SetData J now data d =
     bind_e (at_string J data ''Account'') (\<lambda>acc.
     bind_e (at_int64 J data ''Price'') (\<lambda>p.
     bind_e (at_int64 J data ''Volume'') (\<lambda>v.
     bind_e (at_string J data ''Type'') (\<lambda>ty.
     bind_e (at_bool J data ''IsBuy'') (\<lambda>b.
     bind_e (at_string J data ''ClientId'') (\<lambda>c.
     bind_e (at_string J data ''Instrument'') (\<lambda>ins.
       let d' = d\<lparr>od_account := c_str acc, od_price := p, od_volume := v, od_type := c_str ty,
                  od_isBuySide := b, od_orderTime := now, od_clientId := c_str c,
                  od_instrument := c_str ins, od_id := to_string now\<rparr>
       in Inr (d', OrderDataBase_Validate d'))))))))"

definition OrderAmendData_SetData ::
  "'j json_api \<Rightarrow> int \<Rightarrow> 'j \<Rightarrow> OrderAmendData \<Rightarrow> (OrderAmendData \<times> bool) throws" where
  "OrderAmendData_SetData J now data d =
     bind_e (at_string J data ''Account'') (\<lambda>acc.
     bind_e (at_int64 J data ''Price'') (\<lambda>p.
     bind_e (at_int64 J data ''NewPrice'') (\<lambda>np.
     bind_e (at_int64 J data ''Volume'') (\<lambda>v.
     bind_e (at_int64 J data ''NewVolume'') (\<lambda>nv.
     bind_e (at_string J data ''Type'') (\<lambda>ty.
     bind_e (at_bool J data ''IsBuy'') (\<lambda>b.
     bind_e (at_string J data ''ClientId'') (\<lambda>c.
     bind_e (at_string J data ''Instrument'') (\<lambda>ins.
       let d' = d\<lparr>od_account := c_str acc, od_price := p, od_newPrice := np, od_volume := v,
                  od_newVolume := nv, od_type := c_str ty, od_isBuySide := b,
                  od_orderTime := now, od_clientId := c_str c, od_instrument := c_str ins,
                  od_id := to_string now\<rparr>
       in Inr (d', OrderAmendData_Validate d'))))))))))"

definition OrderCancelData_SetData ::
  "'j json_api \<Rightarrow> 'j \<Rightarrow> OrderCancelData \<Rightarrow> (OrderCancelData \<times> bool) throws" where
  "OrderCancelData_SetData J data d =
     bind_e (at_string J data ''Instrument'') (\<lambda>ins.
     bind_e (at_int64 J data ''Price'') (\<lambda>p.
     bind_e (at_bool J data ''IsBuy'') (\<lambda>b.
     bind_e (at_string J data ''Id'') (\<lambda>i.
     bind_e (at_string J data ''ClientId'') (\<lambda>c.
       let d' = d\<lparr>oc_instrument := c_str ins, oc_price := p, oc_isBuySide := b,
                  oc_id := c_str i, oc_clientId := c_str c\<rparr>
       in Inr (d', OrderCancelData_Validate d'))))))"

section \<open>Replies\<close>

record OrderReply =
  reply_id :: string
  reply_clientId :: string

definition OrderReply_ctor :: "string \<Rightarrow> string \<Rightarrow> OrderReply" where
  "OrderReply_ctor i c = \<lparr>reply_id = i, reply_clientId = c\<rparr>"

definition OrderReply_eq :: "OrderReply \<Rightarrow> OrderReply \<Rightarrow> bool" where
  "OrderReply_eq a b \<longleftrightarrow> reply_id a = reply_id b \<and> reply_clientId a = reply_clientId b"

record Trade =
  trade_account :: string
  trade_tradedPrice :: u64
  trade_tradedVolume :: u64
  trade_id :: string
  trade_clientId :: string

definition Trade_ctor :: "string \<Rightarrow> u64 \<Rightarrow> u64 \<Rightarrow> string \<Rightarrow> string \<Rightarrow> Trade" where
  "Trade_ctor acc p v i c =
     \<lparr>trade_account = acc, trade_tradedPrice = p, trade_tradedVolume = v, trade_id = i,
      trade_clientId = c\<rparr>"

definition Trade_eq :: "Trade \<Rightarrow> Trade \<Rightarrow> bool" where
  "Trade_eq a b \<longleftrightarrow> trade_account a = trade_account b \<and> trade_tradedPrice a = trade_tradedPrice b \<and>
     trade_tradedVolume a = trade_tradedVolume b \<and> trade_clientId a = trade_clientId b \<and>
     trade_id a = trade_id b"

record ErrorReply =
  err_clientId :: string
  err_errorMessage :: string

definition ErrorReply_ctor :: "string \<Rightarrow> string \<Rightarrow> ErrorReply" where
  "ErrorReply_ctor c m = \<lparr>err_clientId = c, err_errorMessage = m\<rparr>"

section \<open>Message texts\<close>

text \<open>The texts sent to the client; \<open>dq\<close> is a text between double quotes.\<close>

definition dq :: "string \<Rightarrow> string" where
  "dq s = CHR 0x22 # s @ [CHR 0x22]"

definition msg_OrderReply :: "OrderReply \<Rightarrow> string" where
  "msg_OrderReply r =
     ''{'' @ dq ''OrderReply'' @ '':{'' @ dq ''Id'' @ '':'' @ dq (reply_id r)
     @ '','' @ dq ''ClientId'' @ '':'' @ dq (reply_clientId r) @ ''}}''"

definition msg_Trade :: "Trade \<Rightarrow> string" where
  "msg_Trade t =
     ''{'' @ dq ''Trade'' @ '':''
     @ '','' @ dq ''Id'' @ '':'' @ dq (trade_id t)
     @ ''{'' @ dq ''ClientId'' @ '':'' @ dq (trade_clientId t)
     @ '','' @ dq ''Account'' @ '':'' @ dq (trade_account t)
     @ '','' @ dq ''TradedPrice'' @ '':'' @ dec_nat (unat (trade_tradedPrice t))
     @ '','' @ dq ''TradedVolume'' @ '':'' @ dec_nat (unat (trade_tradedVolume t))
     @ ''}'' @ ''}''"

definition msg_ErrorReply :: "ErrorReply \<Rightarrow> string" where
  "msg_ErrorReply e =
     ''{'' @ dq ''ErrorReply'' @ '':{'' @ dq ''ClientId'' @ '':'' @ dq (err_clientId e)
     @ '','' @ dq ''Error'' @ '':'' @ err_errorMessage e @ ''}}''"

text \<open>
  The texts written to the log. \<open>ConvertToTimeval\<close> truncates to microseconds and leaves
  \<open>0\<close> for a time that is not after the epoch; \<open>gmtime\<close> gives the time of day of the seconds.
\<close>

definition ConvertToTimeval :: "int \<Rightarrow> int \<times> int" where
  "ConvertToTimeval t =
     (let usec = (if t < 0 then - ((- t) div 1000) else t div 1000)
      in if usec > 0 then (usec div 1000000, usec mod 1000000) else (0, 0))"

definition show_OrderTime :: "int \<Rightarrow> string" where
  "show_OrderTime t =
     (let (sec, usec) = ConvertToTimeval t
      in to_string (sec div 3600 mod 24) @ '':'' @ to_string (sec div 60 mod 60) @ '':''
         @ to_string (sec mod 60) @ ''.'' @ to_string usec)"

definition show_OrderReply :: "OrderReply \<Rightarrow> string" where
  "show_OrderReply r =
     ''{Id:'' @ reply_id r @ '',ClientId:'' @ reply_clientId r @ ''}''"

definition show_Trade :: "Trade \<Rightarrow> string" where
  "show_Trade t =
     ''{Account:'' @ trade_account t
     @ '',TradedPrice:'' @ dec_nat (unat (trade_tradedPrice t))
     @ '',TradedVolume:'' @ dec_nat (unat (trade_tradedVolume t))
     @ '',Id:'' @ trade_id t @ '',ClientId:'' @ trade_clientId t @ ''}''"

definition show_OrderInsertData :: "OrderInsertData \<Rightarrow> string" where
  "show_OrderInsertData d =
     ''Instrument:'' @ od_instrument d @ '',Price:'' @ dec_nat (unat (od_price d))
     @ '',Volume:'' @ dec_nat (unat (od_volume d))
     @ '',Side:'' @ (if od_isBuySide d then ''Bid'' else ''Ask'')
     @ '',Id:'' @ od_id d @ '',ClientId:'' @ od_clientId d @ '',Account:'' @ od_account d
     @ '',Type:'' @ od_type d @ '',Time:'' @ show_OrderTime (od_orderTime d)"

definition show_OrderAmendData :: "OrderAmendData \<Rightarrow> string" where
  "show_OrderAmendData d =
     ''Instrument:'' @ od_instrument d @ '',Price:'' @ dec_nat (unat (od_price d))
     @ '',NewPrice:'' @ dec_nat (unat (od_newPrice d))
     @ '',Volume:'' @ dec_nat (unat (od_volume d))
     @ '',NewVolume:'' @ dec_nat (unat (od_newVolume d))
     @ '',Side:'' @ (if od_isBuySide d then ''Bid'' else ''Ask'')
     @ '',Id:'' @ od_id d @ '',ClientId:'' @ od_clientId d @ '',Account:'' @ od_account d
     @ '',Type:'' @ od_type d @ '',Time:'' @ show_OrderTime (od_orderTime d)"

definition show_OrderCancelData :: "OrderCancelData \<Rightarrow> string" where
  "show_OrderCancelData d =
     ''Instrument:'' @ oc_instrument d @ '',Price:'' @ dec_nat (unat (oc_price d))
     @ '',Side:'' @ (if oc_isBuySide d then ''Bid'' else ''Ask'')
     @ '',Id:'' @ oc_id d @ '',ClientId:'' @ oc_clientId d"

section \<open>What an accepted request satisfies\<close>

lemma OrderDataBase_SetData_Inr:
  "OrderDataBase_SetData J now data d = Inr (d', ok) \<longleftrightarrow>
   (\<exists>acc p v ty b c ins.
      at_string J data ''Account'' = Inr acc \<and> at_int64 J data ''Price'' = Inr p \<and>
      at_int64 J data ''Volume'' = Inr v \<and> at_string J data ''Type'' = Inr ty \<and>
      at_bool J data ''IsBuy'' = Inr b \<and> at_string J data ''ClientId'' = Inr c \<and>
      at_string J data ''Instrument'' = Inr ins \<and>
      d' = d\<lparr>od_account := c_str acc, od_price := p, od_volume := v, od_type := c_str ty,
             od_isBuySide := b, od_orderTime := now, od_clientId := c_str c,
             od_instrument := c_str ins, od_id := to_string now\<rparr> \<and>
      ok = OrderDataBase_Validate d')"
  by (auto simp: OrderDataBase_SetData_def bind_e_Inr_iff Let_def)

lemma OrderAmendData_SetData_Inr:
  "OrderAmendData_SetData J now data d = Inr (d', ok) \<longleftrightarrow>
   (\<exists>acc p np v nv ty b c ins.
      at_string J data ''Account'' = Inr acc \<and> at_int64 J data ''Price'' = Inr p \<and>
      at_int64 J data ''NewPrice'' = Inr np \<and> at_int64 J data ''Volume'' = Inr v \<and>
      at_int64 J data ''NewVolume'' = Inr nv \<and> at_string J data ''Type'' = Inr ty \<and>
      at_bool J data ''IsBuy'' = Inr b \<and> at_string J data ''ClientId'' = Inr c \<and>
      at_string J data ''Instrument'' = Inr ins \<and>
      d' = d\<lparr>od_account := c_str acc, od_price := p, od_newPrice := np, od_volume := v,
             od_newVolume := nv, od_type := c_str ty, od_isBuySide := b, od_orderTime := now,
             od_clientId := c_str c, od_instrument := c_str ins, od_id := to_string now\<rparr> \<and>
      ok = OrderAmendData_Validate d')"
  by (auto simp: OrderAmendData_SetData_def bind_e_Inr_iff Let_def)

lemma OrderCancelData_SetData_Inr:
  "OrderCancelData_SetData J data d = Inr (d', ok) \<longleftrightarrow>
   (\<exists>ins p b i c.
      at_string J data ''Instrument'' = Inr ins \<and> at_int64 J data ''Price'' = Inr p \<and>
      at_bool J data ''IsBuy'' = Inr b \<and> at_string J data ''Id'' = Inr i \<and>
      at_string J data ''ClientId'' = Inr c \<and>
      d' = d\<lparr>oc_instrument := c_str ins, oc_price := p, oc_isBuySide := b,
             oc_id := c_str i, oc_clientId := c_str c\<rparr> \<and>
      ok = OrderCancelData_Validate d')"
  by (auto simp: OrderCancelData_SetData_def bind_e_Inr_iff Let_def)

text \<open>The verdict is \<open>Validate\<close> of the object read, and an amend gets a fresh id as well.\<close>

lemma SetData_verdict:
  "OrderDataBase_SetData J now data d = Inr (d', ok) \<Longrightarrow> ok = OrderDataBase_Validate d'"
  by (auto simp: OrderDataBase_SetData_Inr)

lemma amend_SetData_id:
  "OrderAmendData_SetData J now data d = Inr (d', ok) \<Longrightarrow> od_id d' = to_string now"
  by (auto simp: OrderAmendData_SetData_Inr)

lemma amend_SetData_verdict:
  "OrderAmendData_SetData J now data d = Inr (d', ok) \<Longrightarrow> ok = OrderAmendData_Validate d'"
  by (auto simp: OrderAmendData_SetData_Inr)

lemma cancel_SetData_verdict:
  "OrderCancelData_SetData J data d = Inr (d', ok) \<Longrightarrow> ok = OrderCancelData_Validate d'"
  by (auto simp: OrderCancelData_SetData_Inr)

text \<open>
  The JSON numbers are signed and the fields unsigned: the bits of a negative number are a
  value of at least \<open>2 ^ 63\<close>, which passes the test \<open>> 0\<close>.
\<close>

lemma sint_neg_unat:
  assumes neg: "sint (p :: u64) < 0"
  shows "2 ^ 63 \<le> unat p"
proof (rule ccontr)
  assume "\<not> 2 ^ 63 \<le> unat p"
  then have "int (unat p) < int (2 ^ 63)" by (simp only: of_nat_less_iff not_le)
  then have b: "uint p < 2 ^ 63" by (simp only: uint_nat of_nat_power of_nat_numeral)
  have "sint p = signed_take_bit 63 (uint p)" by (simp add: sint_uint)
  also have "\<dots> = uint p"
  proof (rule signed_take_bit_int_eq_self)
    show "- (2 ^ 63) \<le> uint p" by (rule order_trans [OF _ uint_ge_0]) simp
    show "uint p < 2 ^ 63" by (rule b)
  qed
  finally show False using neg by simp
qed

section \<open>The texts\<close>

lemma OrderReply_eq_iff: "OrderReply_eq a b \<longleftrightarrow> a = b"
  by (auto simp: OrderReply_eq_def)

lemma Trade_eq_iff: "Trade_eq a b \<longleftrightarrow> a = b"
  by (auto simp: Trade_eq_def)

lemma quote_split:
  "CHR 0x22 \<notin> set s \<Longrightarrow> CHR 0x22 \<notin> set t \<Longrightarrow>
   s @ CHR 0x22 # u = t @ CHR 0x22 # w \<Longrightarrow> s = t \<and> u = w"
proof (induction s arbitrary: t)
  case Nil
  then show ?case by (cases t) auto
next
  case (Cons c s)
  then show ?case by (cases t) auto
qed

text \<open>The trade text: a colon followed by a comma, and an object with no comma before it.\<close>

lemma msg_Trade_shape:
  "\<exists>rest. msg_Trade t = ''{'' @ dq ''Trade'' @ '':,'' @ dq ''Id'' @ '':'' @ dq (trade_id t) @ ''{'' @ rest"
  by (simp add: msg_Trade_def)

text \<open>The error message is written without quotes.\<close>

lemma msg_ErrorReply_unquoted:
  "\<exists>pre. msg_ErrorReply e = pre @ dq ''Error'' @ '':'' @ err_errorMessage e @ ''}}''"
  by (simp add: msg_ErrorReply_def)

text \<open>The fields of a logged time lie in their ranges and give the microseconds back.\<close>

lemma ConvertToTimeval_parts:
  assumes "ConvertToTimeval t = (s, u)"
  shows "0 \<le> s \<and> 0 \<le> u \<and> u < 1000000 \<and> s * 1000000 + u = max 0 (t div 1000)"
proof (cases "t < 1000")
  case True
  then have "t div 1000 \<le> 0" by linarith
  moreover have "- ((- t) div 1000) \<le> 0" if "t < 0" using that by (simp add: pos_imp_zdiv_nonneg_iff)
  ultimately show ?thesis using assms by (auto simp: ConvertToTimeval_def Let_def split: if_splits)
next
  case False
  then have "0 < t div 1000" by linarith
  with False assms show ?thesis
    by (auto simp: ConvertToTimeval_def Let_def pos_imp_zdiv_nonneg_iff)
qed

end
