(* ===== verification/OrderLevel.thy ===== *)
theory OrderLevel
  imports OrderData
begin

text \<open>
  \<open>OrderLevel\<close>: the orders of one price in the order of their arrival (\<open>m_TimeQueue\<close>, a
  deque, here a list with the front first). Operations that change the level return it; a
  callback passed by the caller is an argument, and a \<open>Trade\<close> handed to \<open>tradedFn\<close> is returned.
\<close>

type_synonym OrderLevel = "OrderInsertData list"

section \<open>Operations\<close>

text \<open>
  \<open>Insert\<close> appends (the named rvalue reference is copied, so the caller's object stays as it
  is) and returns the inserted order; \<open>insert\<close> of a deque never returns \<open>end()\<close>.
\<close>

definition OrderLevel_Insert :: "OrderInsertData \<Rightarrow> OrderLevel \<Rightarrow> OrderLevel \<times> OrderInsertData option" where
  "OrderLevel_Insert d q = (q @ [d], Some d)"

definition OrderLevel_ctor :: "OrderInsertData \<Rightarrow> OrderLevel" where
  "OrderLevel_ctor d = fst (OrderLevel_Insert d [])"

definition OrderLevel_GetSize :: "OrderLevel \<Rightarrow> nat" where
  "OrderLevel_GetSize q = length q"

definition OrderLevel_IsEmpty :: "OrderLevel \<Rightarrow> bool" where
  "OrderLevel_IsEmpty q \<longleftrightarrow> q = []"

definition OrderLevel_GetTopLevel :: "OrderLevel \<Rightarrow> OrderInsertData option" where
  "OrderLevel_GetTopLevel q = (case q of [] \<Rightarrow> None | d # _ \<Rightarrow> Some d)"

definition OrderLevel_GetLastOrder :: "OrderLevel \<Rightarrow> OrderInsertData option" where
  "OrderLevel_GetLastOrder q = (if q = [] then None else Some (last q))"

text \<open>
  \<open>TradeTopLevel volume\<close>: the front order trades \<open>volume\<close> or all it has, its trade is
  reported, and it leaves the level when nothing is left of it. Returned: the level, the volume
  traded and the trades reported (at most one).
\<close>

definition OrderLevel_TradeTopLevel :: "u64 \<Rightarrow> OrderLevel \<Rightarrow> OrderLevel \<times> u64 \<times> Trade list" where
  "OrderLevel_TradeTopLevel vol q =
     (case q of
        [] \<Rightarrow> (q, 0, [])
      | front # rest \<Rightarrow>
          let (front', traded) =
                (if od_volume front \<ge> vol then (front\<lparr>od_volume := od_volume front - vol\<rparr>, vol)
                 else (front\<lparr>od_volume := 0\<rparr>, od_volume front));
              trade = Trade_ctor (od_account front') (od_price front') traded (od_id front') (od_clientId front')
          in (if od_volume front' = 0 then rest else front' # rest, traded, [trade]))"

text \<open>\<open>GetLevels\<close> calls \<open>fn\<close> on the orders until it returns false.\<close>

fun OrderLevel_GetLevels :: "(OrderInsertData \<Rightarrow> bool) \<Rightarrow> OrderLevel \<Rightarrow> bool" where
  "OrderLevel_GetLevels fn [] = True"
| "OrderLevel_GetLevels fn (d # q) = (if \<not> fn d then False else OrderLevel_GetLevels fn q)"

definition has_id :: "string \<Rightarrow> OrderInsertData \<Rightarrow> bool" where
  "has_id i d \<longleftrightarrow> od_id d = i"

text \<open>\<open>CancelOrder\<close> erases the first order with the id.\<close>

definition OrderLevel_CancelOrder :: "string \<Rightarrow> OrderLevel \<Rightarrow> OrderLevel \<times> bool" where
  "OrderLevel_CancelOrder i q =
     (case find (has_id i) q of None \<Rightarrow> (q, False) | Some _ \<Rightarrow> (erase_first (has_id i) q, True))"

text \<open>\<open>Find\<close> runs \<open>fn\<close> on the first order with the id, in place.\<close>

definition OrderLevel_Find ::
  "string \<Rightarrow> (OrderInsertData \<Rightarrow> OrderInsertData) \<Rightarrow> OrderLevel \<Rightarrow> OrderLevel \<times> bool" where
  "OrderLevel_Find i fn q =
     (case find (has_id i) q of None \<Rightarrow> (q, False) | Some _ \<Rightarrow> (update_first (has_id i) fn q, True))"

definition OrderLevel_ChangeOrderVolume :: "string \<Rightarrow> u64 \<Rightarrow> OrderLevel \<Rightarrow> OrderLevel \<times> bool" where
  "OrderLevel_ChangeOrderVolume i v q = OrderLevel_Find i (\<lambda>d. d\<lparr>od_volume := v\<rparr>) q"

text \<open>
  \<open>MoveOrder\<close> hands the order found to \<open>moveOrderFn\<close> and erases it; the order handed over
  is returned, for the caller to run the rest of its callback on.
\<close>

definition OrderLevel_MoveOrder :: "string \<Rightarrow> OrderLevel \<Rightarrow> (OrderLevel \<times> OrderInsertData) option" where
  "OrderLevel_MoveOrder i q =
     (case find (has_id i) q of None \<Rightarrow> None | Some d \<Rightarrow> Some (erase_first (has_id i) q, d))"

text \<open>The text of a level in the log.\<close>

definition show_OrderLevel :: "OrderLevel \<Rightarrow> string" where
  "show_OrderLevel q =
     ''{'' @ concat (map (\<lambda>d. ''{'' @ dec_nat (unat (od_volume d)) @ ''@''
                              @ dec_nat (GetPriceAsDouble (od_price d)) @ ''};'') q) @ ''}''"

section \<open>Trading at the front\<close>

lemma has_id_update [simp]:
  "has_id i (d\<lparr>od_volume := v\<rparr>) = has_id i d"
  "has_id i (d\<lparr>od_price := p\<rparr>) = has_id i d"
  by (simp_all add: has_id_def)

lemma TradeTopLevel_Nil [simp]: "OrderLevel_TradeTopLevel v [] = ([], 0, [])"
  by (simp add: OrderLevel_TradeTopLevel_def)

definition traded_of :: "OrderInsertData \<Rightarrow> u64 \<Rightarrow> Trade" where
  "traded_of d v = Trade_ctor (od_account d) (od_price d) v (od_id d) (od_clientId d)"

definition reduce_front :: "u64 \<Rightarrow> OrderLevel \<Rightarrow> OrderLevel" where
  "reduce_front v q =
     (case q of [] \<Rightarrow> []
      | d # rest \<Rightarrow> if od_volume d = v then rest else d\<lparr>od_volume := od_volume d - v\<rparr> # rest)"

lemma TradeTopLevel_Cons:
  "OrderLevel_TradeTopLevel v (d # q) =
     (reduce_front (min v (od_volume d)) (d # q), min v (od_volume d),
      [traded_of d (min v (od_volume d))])"
  by (auto simp: OrderLevel_TradeTopLevel_def reduce_front_def traded_of_def Let_def min_def not_le)

text \<open>The volume of a list of orders, as a natural number.\<close>

definition volume_sum :: "OrderInsertData list \<Rightarrow> nat" where
  "volume_sum q = sum_list (map (\<lambda>d. unat (od_volume d)) q)"

lemma volume_sum_simps [simp]:
  "volume_sum [] = 0"
  "volume_sum (d # q) = unat (od_volume d) + volume_sum q"
  "volume_sum (q @ r) = volume_sum q + volume_sum r"
  by (simp_all add: volume_sum_def)

lemma volume_sum_mset: "volume_sum q = (\<Sum>d \<in># mset q. unat (od_volume d))"
  by (induction q) simp_all

lemma volume_sum_reduce_front:
  "v \<le> od_volume d \<Longrightarrow> volume_sum (reduce_front v (d # q)) + unat v = volume_sum (d # q)"
  by (auto simp: reduce_front_def unat_sub word_le_nat_alt)

lemma length_reduce_front: "length (reduce_front v q) \<le> length q"
  by (auto simp: reduce_front_def split: list.splits)

lemma reduce_front_all: "reduce_front (od_volume d) (d # q) = q"
  by (simp add: reduce_front_def)

end
