(* ===== verification/StdMap.thy ===== *)
theory StdMap
  imports Prelude
begin

text \<open>
  \<open>std::map<Key, T, Compare>\<close> as the sorted list of its pairs, with the comparison as a
  parameter \<open>lt\<close>: \<open>find\<close>, \<open>emplace\<close>, \<open>erase\<close>, the access through an iterator and
  \<open>begin\<close>, as the standard describes them. Two keys are equivalent when neither is before the
  other. The laws hold for every strict total order (locale \<open>strict_compare\<close>), which
  \<open>std::greater\<close> and \<open>std::less\<close> on 64-bit unsigned prices are.
\<close>

section \<open>Operations\<close>

definition key_equiv :: "('k \<Rightarrow> 'k \<Rightarrow> bool) \<Rightarrow> 'k \<Rightarrow> 'k \<Rightarrow> bool" where
  "key_equiv lt a b \<longleftrightarrow> \<not> lt a b \<and> \<not> lt b a"

fun smap_find :: "('k \<Rightarrow> 'k \<Rightarrow> bool) \<Rightarrow> 'k \<Rightarrow> ('k \<times> 'v) list \<Rightarrow> 'v option" where
  "smap_find lt k [] = None"
| "smap_find lt k ((a, v) # m) = (if key_equiv lt k a then Some v else smap_find lt k m)"

text \<open>\<open>emplace\<close> inserts at the key's place; an equivalent key already there stays unchanged.\<close>

fun smap_emplace :: "('k \<Rightarrow> 'k \<Rightarrow> bool) \<Rightarrow> 'k \<Rightarrow> 'v \<Rightarrow> ('k \<times> 'v) list \<Rightarrow> ('k \<times> 'v) list" where
  "smap_emplace lt k v [] = [(k, v)]"
| "smap_emplace lt k v ((a, w) # m) =
     (if lt k a then (k, v) # (a, w) # m
      else if lt a k then (a, w) # smap_emplace lt k v m
      else (a, w) # m)"

fun smap_erase :: "('k \<Rightarrow> 'k \<Rightarrow> bool) \<Rightarrow> 'k \<Rightarrow> ('k \<times> 'v) list \<Rightarrow> ('k \<times> 'v) list" where
  "smap_erase lt k [] = []"
| "smap_erase lt k ((a, v) # m) = (if key_equiv lt k a then m else (a, v) # smap_erase lt k m)"

text \<open>Assignment through an iterator at \<open>k\<close>.\<close>

fun smap_set :: "('k \<Rightarrow> 'k \<Rightarrow> bool) \<Rightarrow> 'k \<Rightarrow> 'v \<Rightarrow> ('k \<times> 'v) list \<Rightarrow> ('k \<times> 'v) list" where
  "smap_set lt k v [] = []"
| "smap_set lt k v ((a, w) # m) = (if key_equiv lt k a then (a, v) # m else (a, w) # smap_set lt k v m)"

text \<open>\<open>m[k] = v\<close>: an assignment to the element at \<open>k\<close>, inserted first when it is missing.\<close>

definition smap_assign :: "('k \<Rightarrow> 'k \<Rightarrow> bool) \<Rightarrow> 'k \<Rightarrow> 'v \<Rightarrow> ('k \<times> 'v) list \<Rightarrow> ('k \<times> 'v) list" where
  "smap_assign lt k v m = (case smap_find lt k m of None \<Rightarrow> smap_emplace lt k v m | Some _ \<Rightarrow> smap_set lt k v m)"

definition smap_sorted :: "('k \<Rightarrow> 'k \<Rightarrow> bool) \<Rightarrow> ('k \<times> 'v) list \<Rightarrow> bool" where
  "smap_sorted lt m \<longleftrightarrow> sorted_wrt lt (map fst m)"

lemma smap_sorted_Nil [simp]: "smap_sorted lt []"
  by (simp add: smap_sorted_def)

lemma smap_sorted_Cons [simp]:
  "smap_sorted lt ((k, v) # m) \<longleftrightarrow> (\<forall>(a, w) \<in> set m. lt k a) \<and> smap_sorted lt m"
  by (auto simp: smap_sorted_def)

lemma smap_find_mem: "smap_find lt k m = Some v \<Longrightarrow> \<exists>a. (a, v) \<in> set m \<and> key_equiv lt k a"
  by (induction m) (auto split: if_splits)

lemma set_smap_erase: "set (smap_erase lt k m) \<subseteq> set m"
  by (induction m) (auto split: if_splits)

lemma set_smap_emplace: "set (smap_emplace lt k v m) \<subseteq> insert (k, v) (set m)"
  by (induction m) (auto split: if_splits)

lemma smap_sorted_erase: "smap_sorted lt m \<Longrightarrow> smap_sorted lt (smap_erase lt k m)"
  by (induction m) (auto dest!: set_smap_erase [THEN subsetD])

lemma keys_smap_set [simp]: "map fst (smap_set lt k v m) = map fst m"
  by (induction m) auto

lemma smap_sorted_set [simp]: "smap_sorted lt (smap_set lt k v m) = smap_sorted lt m"
  by (simp add: smap_sorted_def)

lemma smap_erase_absent: "smap_find lt k m = None \<Longrightarrow> smap_erase lt k m = m"
  by (induction m) (auto split: if_splits)

section \<open>Laws of the comparison\<close>

locale strict_compare =
  fixes lt :: "'k \<Rightarrow> 'k \<Rightarrow> bool"
  assumes lt_irrefl: "\<not> lt a a"
    and lt_trans: "lt a b \<Longrightarrow> lt b c \<Longrightarrow> lt a c"
    and lt_total: "a \<noteq> b \<Longrightarrow> lt a b \<or> lt b a"
begin

lemma equiv_iff [simp]: "key_equiv lt a b \<longleftrightarrow> a = b"
  using lt_irrefl lt_total by (auto simp: key_equiv_def)

lemma lt_asym: "lt a b \<Longrightarrow> \<not> lt b a"
  using lt_irrefl lt_trans by blast

lemma not_lt_eq: "\<not> lt a b \<Longrightarrow> \<not> lt b a \<Longrightarrow> a = b"
  using lt_total by blast

lemma find_map_of: "smap_find lt k m = map_of m k"
  by (induction m) auto

lemma set_emplace_absent:
  "smap_find lt k m = None \<Longrightarrow> set (smap_emplace lt k v m) = insert (k, v) (set m)"
  by (induction m) (auto split: if_splits dest: not_lt_eq)

lemma mset_emplace_absent:
  "smap_find lt k m = None \<Longrightarrow> mset (smap_emplace lt k v m) = add_mset (k, v) (mset m)"
  by (induction m) (auto split: if_splits dest: not_lt_eq)

lemma find_Some_mem_pair: "smap_find lt k m = Some v \<Longrightarrow> (k, v) \<in> set m"
  by (simp add: find_map_of map_of_SomeD)

lemma emplace_present:
  "smap_sorted lt m \<Longrightarrow> smap_find lt k m = Some w \<Longrightarrow> smap_emplace lt k v m = m"
proof (induction m)
  case (Cons p m)
  obtain a u where p: "p = (a, u)" by fastforce
  show ?case
  proof (cases "a = k")
    case True
    with p show ?thesis using lt_irrefl by simp
  next
    case False
    with Cons.prems p have k: "smap_find lt k m = Some w" and s: "smap_sorted lt m" by auto
    from k have "(k, w) \<in> set m" by (rule find_Some_mem_pair)
    with Cons.prems p have "lt a k" by auto
    with Cons.IH [OF s k] p show ?thesis using lt_asym by auto
  qed
qed simp

lemma sorted_emplace: "smap_sorted lt m \<Longrightarrow> smap_sorted lt (smap_emplace lt k v m)"
proof (induction m)
  case (Cons p m)
  obtain a u where p: "p = (a, u)" by fastforce
  show ?case
  proof (cases "lt k a")
    case True
    with Cons.prems p show ?thesis by (auto intro: lt_trans)
  next
    case False
    with Cons p show ?thesis by (auto dest!: set_smap_emplace [THEN subsetD])
  qed
qed simp

lemma find_emplace_absent:
  "smap_find lt k m = None \<Longrightarrow>
   smap_find lt j (smap_emplace lt k v m) = (if j = k then Some v else smap_find lt j m)"
  by (induction m) (auto split: if_splits dest: not_lt_eq)

lemma find_set:
  "smap_find lt j (smap_set lt k v m) =
     (if j = k then map_option (\<lambda>_. v) (smap_find lt k m) else smap_find lt j m)"
  by (induction m) auto

lemma find_assign: "smap_find lt j (smap_assign lt k v m) = (if j = k then Some v else smap_find lt j m)"
  by (cases "smap_find lt k m") (simp_all add: smap_assign_def find_set find_emplace_absent)

lemma sorted_assign: "smap_sorted lt m \<Longrightarrow> smap_sorted lt (smap_assign lt k v m)"
  by (simp add: smap_assign_def sorted_emplace split: option.split)

lemma find_mem_iff: "smap_sorted lt m \<Longrightarrow> smap_find lt k m = Some v \<longleftrightarrow> (k, v) \<in> set m"
proof (induction m)
  case (Cons p m)
  obtain a u where p: "p = (a, u)" by fastforce
  show ?case using Cons p lt_irrefl by auto
qed simp

lemma set_assign: "smap_sorted lt m \<Longrightarrow> (j, w) \<in> set (smap_assign lt k v m) \<longleftrightarrow> (if j = k then w = v else (j, w) \<in> set m)"
  by (simp add: find_mem_iff [symmetric] sorted_assign find_assign) auto

lemma mem_set: "(j, w) \<in> set (smap_set lt k v m) \<Longrightarrow> (j, w) \<in> set m \<or> j = k \<and> w = v"
  by (induction m) (auto split: if_splits)

lemma sorted_distinct: "smap_sorted lt m \<Longrightarrow> distinct (map fst m)"
proof (induction m)
  case (Cons p m)
  then show ?case using lt_irrefl by (cases p) fastforce
qed simp

lemma find_erase:
  "smap_sorted lt m \<Longrightarrow> smap_find lt j (smap_erase lt k m) = (if j = k then None else smap_find lt j m)"
proof (induction m)
  case (Cons p m)
  obtain a u where p: "p = (a, u)" by fastforce
  have none: "smap_find lt a m = None" if "\<forall>(b, w) \<in> set m. lt a b"
  proof (rule ccontr)
    assume "smap_find lt a m \<noteq> None"
    then obtain w where "smap_find lt a m = Some w" by auto
    then have "(a, w) \<in> set m" by (rule find_Some_mem_pair)
    with that show False using lt_irrefl by auto
  qed
  show ?case using Cons p none by auto
qed simp

lemma erase_filter: "smap_sorted lt m \<Longrightarrow> smap_erase lt k m = List.filter (\<lambda>p. fst p \<noteq> k) m"
proof (induction m)
  case (Cons p m)
  obtain a u where p: "p = (a, u)" by fastforce
  show ?case
  proof (cases "a = k")
    case True
    with Cons.prems p have "\<forall>q \<in> set m. fst q \<noteq> k" using lt_irrefl by fastforce
    with True p show ?thesis by (simp add: filter_id_conv)
  next
    case False
    with Cons p show ?thesis by auto
  qed
qed simp

lemma smap_set_map: "smap_sorted lt m \<Longrightarrow> smap_set lt k v m = map (\<lambda>p. if fst p = k then (k, v) else p) m"
proof (induction m)
  case (Cons p m)
  obtain a u where p: "p = (a, u)" by fastforce
  show ?case
  proof (cases "a = k")
    case True
    with Cons.prems p have "\<forall>q \<in> set m. fst q \<noteq> k" using lt_irrefl by fastforce
    then have "map (\<lambda>p. if fst p = k then (k, v) else p) m = m" by (intro map_idI) auto
    with True p show ?thesis by simp
  next
    case False
    with Cons p show ?thesis by auto
  qed
qed simp

lemma find_split:
  "smap_sorted lt m \<Longrightarrow> smap_find lt k m = Some v \<Longrightarrow>
   \<exists>xs ys. m = xs @ (k, v) # ys \<and> (\<forall>w. smap_set lt k w m = xs @ (k, w) # ys)
     \<and> smap_erase lt k m = xs @ ys"
proof (induction m)
  case (Cons p m)
  obtain a u where p: "p = (a, u)" by fastforce
  show ?case
  proof (cases "a = k")
    case True
    with Cons.prems p show ?thesis by (intro exI [of _ "[]"] exI [of _ m]) auto
  next
    case False
    with Cons.prems p have "smap_find lt k m = Some v" "smap_sorted lt m" by auto
    with Cons.IH obtain xs ys where "m = xs @ (k, v) # ys"
      "\<forall>w. smap_set lt k w m = xs @ (k, w) # ys" "smap_erase lt k m = xs @ ys" by blast
    with p False show ?thesis by (intro exI [of _ "p # xs"] exI [of _ ys]) auto
  qed
qed simp

lemma emplace_split:
  "smap_sorted lt m \<Longrightarrow> smap_find lt k m = None \<Longrightarrow>
   \<exists>xs ys. m = xs @ ys \<and> smap_emplace lt k v m = xs @ (k, v) # ys"
proof (induction m)
  case (Cons p m)
  obtain a u where p: "p = (a, u)" by fastforce
  show ?case
  proof (cases "lt k a")
    case True
    with p show ?thesis by (intro exI [of _ "[]"] exI [of _ "p # m"]) auto
  next
    case False
    with Cons.prems p have "smap_find lt k m = None" "smap_sorted lt m" and "lt a k"
      using lt_total by (auto split: if_splits)
    with Cons.IH obtain xs ys where "m = xs @ ys" "smap_emplace lt k v m = xs @ (k, v) # ys"
      by blast
    with p False \<open>lt a k\<close> show ?thesis by (intro exI [of _ "p # xs"] exI [of _ ys]) auto
  qed
qed simp

lemma erase_emplace:
  assumes "smap_sorted lt m" and "smap_find lt k m = None"
  shows "smap_erase lt k (smap_emplace lt k v m) = m"
proof -
  have n: "List.filter (\<lambda>p. fst p \<noteq> k) m = m"
    using assms(2) find_mem_iff [OF assms(1), of k] by (auto simp: filter_id_conv)
  from emplace_split [OF assms, of v] obtain xs ys
    where e: "m = xs @ ys" "smap_emplace lt k v m = xs @ (k, v) # ys" by blast
  have "smap_erase lt k (smap_emplace lt k v m) = List.filter (\<lambda>p. fst p \<noteq> k) (smap_emplace lt k v m)"
    by (rule erase_filter [OF sorted_emplace [OF assms(1)]])
  also have "\<dots> = List.filter (\<lambda>p. fst p \<noteq> k) xs @ List.filter (\<lambda>p. fst p \<noteq> k) ys" by (simp add: e(2))
  also have "\<dots> = m" using n by (simp add: e(1))
  finally show ?thesis .
qed

end

section \<open>The two comparisons of the order books\<close>

text \<open>\<open>std::greater<uint64_t>\<close> orders the bids, \<open>std::less<uint64_t>\<close> the asks.\<close>

definition std_greater :: "u64 \<Rightarrow> u64 \<Rightarrow> bool" where
  "std_greater a b \<longleftrightarrow> b < a"

definition std_less :: "u64 \<Rightarrow> u64 \<Rightarrow> bool" where
  "std_less a b \<longleftrightarrow> a < b"

interpretation bid_cmp: strict_compare std_greater
  by unfold_locales (auto simp: std_greater_def)

interpretation ask_cmp: strict_compare std_less
  by unfold_locales (auto simp: std_less_def)

end
