(* ===== verification/OrderBook.thy ===== *)
theory OrderBook
  imports OrderLevel StdMap
begin

text \<open>
  \<open>OrderBook<TCompare>\<close>: one side of the book, a \<open>std::map\<close> from prices to levels. Every
  operation takes the comparison \<open>lt\<close> and returns the new map with what the method returns.
  The specification of a book is the function from a price to its queue (\<open>queue_at\<close>).
\<close>

type_synonym OrderBook = "(u64 \<times> OrderLevel) list"

section \<open>Operations\<close>

definition OrderBook_RemoveLevelAtPrice ::
  "(u64 \<Rightarrow> u64 \<Rightarrow> bool) \<Rightarrow> u64 \<Rightarrow> OrderBook \<Rightarrow> OrderBook" where
  "OrderBook_RemoveLevelAtPrice lt p b =
     (case smap_find lt p b of Some _ \<Rightarrow> smap_erase lt p b | None \<Rightarrow> b)"

definition OrderBook_Insert ::
  "(u64 \<Rightarrow> u64 \<Rightarrow> bool) \<Rightarrow> OrderInsertData \<Rightarrow> OrderBook \<Rightarrow> OrderBook \<times> OrderInsertData option" where
  "OrderBook_Insert lt d b =
     (case smap_find lt (od_price d) b of
        Some lvl \<Rightarrow>
          let (lvl', inserted) = OrderLevel_Insert d lvl
          in (smap_set lt (od_price d) lvl' b, inserted)
      | None \<Rightarrow>
          (smap_emplace lt (od_price d) (OrderLevel_ctor d) b,
           OrderLevel_GetLastOrder (OrderLevel_ctor d)))"

text \<open>
  In the last branch \<open>emplace\<close> runs while the order is still in its old level, and does nothing
  when the new price already has a level; the order is erased from the old level either way.
\<close>

definition OrderBook_Amend ::
  "(u64 \<Rightarrow> u64 \<Rightarrow> bool) \<Rightarrow> OrderAmendData \<Rightarrow> OrderBook \<Rightarrow> OrderBook \<times> bool" where
  "OrderBook_Amend lt a b =
     (case smap_find lt (od_price a) b of
        None \<Rightarrow> (b, False)
      | Some lvl \<Rightarrow>
          if od_newVolume a = 0 then
            (let (lvl', found) = OrderLevel_CancelOrder (od_id a) lvl;
                 b' = smap_set lt (od_price a) lvl' b
             in if found
                then (if OrderLevel_IsEmpty lvl' then OrderBook_RemoveLevelAtPrice lt (od_price a) b' else b',
                      True)
                else (b, False))
          else if od_price a = od_newPrice a then
            (let (lvl', found) = OrderLevel_ChangeOrderVolume (od_id a) (od_newVolume a) lvl
             in if found then (smap_set lt (od_price a) lvl' b, True) else (b, False))
          else
            (case OrderLevel_MoveOrder (od_id a) lvl of
               None \<Rightarrow> (b, False)
             | Some (lvl', d) \<Rightarrow>
                 let d' = d\<lparr>od_price := od_newPrice a, od_volume := od_newVolume a\<rparr>;
                     b1 = smap_emplace lt (od_newPrice a) (OrderLevel_ctor d') b;
                     b2 = smap_set lt (od_price a) lvl' b1
                 in (if OrderLevel_IsEmpty lvl' then smap_erase lt (od_price a) b2 else b2, True)))"

definition OrderBook_Cancel ::
  "(u64 \<Rightarrow> u64 \<Rightarrow> bool) \<Rightarrow> OrderCancelData \<Rightarrow> OrderBook \<Rightarrow> OrderBook \<times> bool" where
  "OrderBook_Cancel lt c b =
     (case smap_find lt (oc_price c) b of
        None \<Rightarrow> (b, False)
      | Some lvl \<Rightarrow>
          let (lvl', found) = OrderLevel_CancelOrder (oc_id c) lvl
          in if found then (smap_set lt (oc_price c) lvl' b, True) else (b, False))"

text \<open>The levels the callback of \<open>GetBook\<close> is called on, in the order of the map.\<close>

fun OrderBook_GetBook :: "(OrderLevel \<Rightarrow> bool) \<Rightarrow> OrderBook \<Rightarrow> OrderLevel list" where
  "OrderBook_GetBook fn [] = []"
| "OrderBook_GetBook fn ((p, lvl) # b) = (if \<not> fn lvl then [lvl] else lvl # OrderBook_GetBook fn b)"

text \<open>
  \<open>GetLevelAtPrice\<close> returns an optional of a pointer: the outer option is \<open>has_value()\<close>, the
  inner one the null pointer.
\<close>

definition OrderBook_GetLevelAtPrice ::
  "(u64 \<Rightarrow> u64 \<Rightarrow> bool) \<Rightarrow> u64 \<Rightarrow> OrderBook \<Rightarrow> OrderLevel option option" where
  "OrderBook_GetLevelAtPrice lt p b =
     (case smap_find lt p b of Some lvl \<Rightarrow> Some (Some lvl) | None \<Rightarrow> Some None)"

section \<open>Specification and invariants\<close>

definition orders :: "OrderBook \<Rightarrow> OrderInsertData list" where
  "orders b = concat (map snd b)"

definition queue_at :: "(u64 \<Rightarrow> u64 \<Rightarrow> bool) \<Rightarrow> OrderBook \<Rightarrow> u64 \<Rightarrow> OrderInsertData list" where
  "queue_at lt b p = (case smap_find lt p b of None \<Rightarrow> [] | Some lvl \<Rightarrow> lvl)"

text \<open>Every order lies at the level of its price and on its own side.\<close>

definition level_ok :: "bool \<Rightarrow> u64 \<Rightarrow> OrderLevel \<Rightarrow> bool" where
  "level_ok buy p lvl \<longleftrightarrow> (\<forall>d \<in> set lvl. od_price d = p \<and> od_isBuySide d = buy)"

definition book_ok :: "(u64 \<Rightarrow> u64 \<Rightarrow> bool) \<Rightarrow> bool \<Rightarrow> OrderBook \<Rightarrow> bool" where
  "book_ok lt buy b \<longleftrightarrow> smap_sorted lt b \<and> (\<forall>(p, lvl) \<in> set b. level_ok buy p lvl)"

definition no_empty :: "OrderBook \<Rightarrow> bool" where
  "no_empty b \<longleftrightarrow> (\<forall>(p, lvl) \<in> set b. lvl \<noteq> [])"

definition vol_pos :: "OrderBook \<Rightarrow> bool" where
  "vol_pos b \<longleftrightarrow> (\<forall>d \<in> set (orders b). od_volume d \<noteq> 0)"

text \<open>The order an amend to another price puts into the book.\<close>

definition amended :: "OrderAmendData \<Rightarrow> OrderInsertData \<Rightarrow> OrderInsertData" where
  "amended a d = d\<lparr>od_price := od_newPrice a, od_volume := od_newVolume a\<rparr>"

lemma orders_simps [simp]:
  "orders [] = []"
  "orders ((p, lvl) # b) = lvl @ orders b"
  "orders (b @ c) = orders b @ orders c"
  by (simp_all add: orders_def)

lemma no_empty_simps [simp]:
  "no_empty []"
  "no_empty ((p, lvl) # b) \<longleftrightarrow> lvl \<noteq> [] \<and> no_empty b"
  "no_empty (b @ c) \<longleftrightarrow> no_empty b \<and> no_empty c"
  by (auto simp: no_empty_def)

lemma level_ok_simps [simp]:
  "level_ok buy p []"
  "level_ok buy p (d # q) \<longleftrightarrow> od_price d = p \<and> od_isBuySide d = buy \<and> level_ok buy p q"
  "level_ok buy p (q @ r) \<longleftrightarrow> level_ok buy p q \<and> level_ok buy p r"
  by (auto simp: level_ok_def)

lemma book_ok_Nil [simp]: "book_ok lt buy []"
  by (simp add: book_ok_def)

lemma book_ok_Cons [simp]:
  "book_ok lt buy ((p, lvl) # b) \<longleftrightarrow>
     (\<forall>(a, w) \<in> set b. lt p a) \<and> level_ok buy p lvl \<and> book_ok lt buy b"
  by (auto simp: book_ok_def)

lemma book_ok_levels: "book_ok lt buy b \<Longrightarrow> (p, lvl) \<in> set b \<Longrightarrow> level_ok buy p lvl"
  by (auto simp: book_ok_def)

lemma level_ok_subset: "level_ok buy p q \<Longrightarrow> set r \<subseteq> set q \<Longrightarrow> level_ok buy p r"
  by (auto simp: level_ok_def)

lemma in_orders: "d \<in> set (orders b) \<longleftrightarrow> (\<exists>(p, lvl) \<in> set b. d \<in> set lvl)"
  by (force simp: orders_def)

lemma CancelOrder_cases:
  obtains (found) d where "find (has_id i) q = Some d"
      and "OrderLevel_CancelOrder i q = (erase_first (has_id i) q, True)"
  | (absent) "find (has_id i) q = None" and "OrderLevel_CancelOrder i q = (q, False)"
  by (cases "find (has_id i) q") (auto simp: OrderLevel_CancelOrder_def)

lemma ChangeOrderVolume_cases:
  obtains (found) d where "find (has_id i) q = Some d"
      and "OrderLevel_ChangeOrderVolume i v q = (update_first (has_id i) (\<lambda>d. d\<lparr>od_volume := v\<rparr>) q, True)"
  | (absent) "find (has_id i) q = None" and "OrderLevel_ChangeOrderVolume i v q = (q, False)"
  by (cases "find (has_id i) q") (auto simp: OrderLevel_ChangeOrderVolume_def OrderLevel_Find_def)

lemma level_ok_update_volume:
  "level_ok buy p q \<Longrightarrow> level_ok buy p (update_first P (\<lambda>d. d\<lparr>od_volume := v\<rparr>) q)"
  by (auto simp: level_ok_def dest!: set_update_first)

section \<open>What the operations do to a side\<close>

text \<open>
  The laws below hold for any strict total order of prices; the books use them for
  \<open>std::greater\<close> (bids) and \<open>std::less\<close> (asks).
\<close>

locale price_compare = strict_compare lt for lt :: "u64 \<Rightarrow> u64 \<Rightarrow> bool"
begin

lemma find_level_ok: "book_ok lt buy b \<Longrightarrow> smap_find lt p b = Some lvl \<Longrightarrow> level_ok buy p lvl"
  by (auto dest: find_Some_mem_pair intro: book_ok_levels)

lemma book_ok_set:
  "book_ok lt buy b \<Longrightarrow> level_ok buy p lvl \<Longrightarrow> book_ok lt buy (smap_set lt p lvl b)"
proof (induction b)
  case (Cons x b)
  obtain a w where x: "x = (a, w)" by fastforce
  have "fst ` set (smap_set lt p lvl b) = fst ` set b" by (metis keys_smap_set set_map)
  then have "\<forall>k \<in> fst ` set (smap_set lt p lvl b). lt a k" if "\<forall>(k, v) \<in> set b. lt a k"
    using that by force
  with Cons x show ?case by (auto split: if_splits)
qed simp

lemma book_ok_erase: "book_ok lt buy b \<Longrightarrow> book_ok lt buy (smap_erase lt p b)"
  using set_smap_erase [of lt p b] smap_sorted_erase [of lt b p] by (auto simp: book_ok_def)

lemma book_ok_emplace:
  "book_ok lt buy b \<Longrightarrow> level_ok buy p lvl \<Longrightarrow> book_ok lt buy (smap_emplace lt p lvl b)"
  using set_smap_emplace [of lt p lvl b] sorted_emplace [of b p lvl] by (auto simp: book_ok_def)

lemma no_empty_set: "no_empty b \<Longrightarrow> lvl \<noteq> [] \<Longrightarrow> no_empty (smap_set lt p lvl b)"
  by (induction b) auto

lemma no_empty_erase: "no_empty b \<Longrightarrow> no_empty (smap_erase lt p b)"
  by (induction b) auto

lemma no_empty_emplace: "no_empty b \<Longrightarrow> lvl \<noteq> [] \<Longrightarrow> no_empty (smap_emplace lt p lvl b)"
  by (induction b) auto

lemma no_empty_erase_set: "no_empty b \<Longrightarrow> no_empty (smap_erase lt p (smap_set lt p lvl b))"
  by (induction b) auto

lemma Remove_eq: "OrderBook_RemoveLevelAtPrice lt p b = smap_erase lt p b"
  by (simp add: OrderBook_RemoveLevelAtPrice_def smap_erase_absent split: option.split)

lemma queue_at_set:
  "smap_find lt p b \<noteq> None \<Longrightarrow> queue_at lt (smap_set lt p lvl b) = (queue_at lt b)(p := lvl)"
  by (auto simp: queue_at_def find_set fun_eq_iff)

lemma queue_at_emplace:
  "smap_find lt p b = None \<Longrightarrow> queue_at lt (smap_emplace lt p lvl b) = (queue_at lt b)(p := lvl)"
  by (auto simp: queue_at_def find_emplace_absent fun_eq_iff)

lemma queue_at_erase:
  "book_ok lt buy b \<Longrightarrow> queue_at lt (smap_erase lt p b) = (queue_at lt b)(p := [])"
  by (auto simp: queue_at_def find_erase book_ok_def fun_eq_iff)

lemma mset_orders_set:
  assumes "book_ok lt buy b" and "smap_find lt p b = Some lvl"
  shows "mset (orders (smap_set lt p lvl' b)) + mset lvl = mset (orders b) + mset lvl'"
proof -
  from assms obtain xs ys where "b = xs @ (p, lvl) # ys" "smap_set lt p lvl' b = xs @ (p, lvl') # ys"
    using find_split [of b p lvl] by (auto simp: book_ok_def)
  then show ?thesis by simp
qed

lemma mset_orders_emplace:
  assumes "book_ok lt buy b" and "smap_find lt p b = None"
  shows "mset (orders (smap_emplace lt p lvl b)) = mset (orders b) + mset lvl"
proof -
  from assms obtain xs ys where "b = xs @ ys" "smap_emplace lt p lvl b = xs @ (p, lvl) # ys"
    using emplace_split [of b p lvl] by (auto simp: book_ok_def)
  then show ?thesis by simp
qed

lemma orders_erase_empty:
  assumes "book_ok lt buy b" and "smap_find lt p b = Some []"
  shows "orders (smap_erase lt p b) = orders b"
proof -
  from assms obtain xs ys where "b = xs @ (p, []) # ys" "smap_erase lt p b = xs @ ys"
    using find_split [of b p "[]"] by (auto simp: book_ok_def)
  then show ?thesis by simp
qed

subsection \<open>Insert\<close>

lemma Insert_result: "snd (OrderBook_Insert lt d b) = Some d"
  by (auto simp: OrderBook_Insert_def OrderLevel_Insert_def OrderLevel_ctor_def
      OrderLevel_GetLastOrder_def split: option.split)

lemma Insert_book:
  "fst (OrderBook_Insert lt d b) =
     (case smap_find lt (od_price d) b of
        Some lvl \<Rightarrow> smap_set lt (od_price d) (lvl @ [d]) b
      | None \<Rightarrow> smap_emplace lt (od_price d) [d] b)"
  by (auto simp: OrderBook_Insert_def OrderLevel_Insert_def OrderLevel_ctor_def split: option.split)

lemma Insert_ok:
  "book_ok lt (od_isBuySide d) b \<Longrightarrow> book_ok lt (od_isBuySide d) (fst (OrderBook_Insert lt d b))"
  using find_level_ok
  by (auto simp: Insert_book intro!: book_ok_set book_ok_emplace split: option.split)

lemma Insert_no_empty: "no_empty b \<Longrightarrow> no_empty (fst (OrderBook_Insert lt d b))"
  by (auto simp: Insert_book intro!: no_empty_set no_empty_emplace split: option.split)

lemma Insert_queue_at:
  "queue_at lt (fst (OrderBook_Insert lt d b)) =
     (queue_at lt b)(od_price d := queue_at lt b (od_price d) @ [d])"
  by (cases "smap_find lt (od_price d) b")
    (simp_all add: Insert_book queue_at_set queue_at_emplace, simp_all add: queue_at_def)

lemma Insert_mset:
  assumes "book_ok lt buy b"
  shows "mset (orders (fst (OrderBook_Insert lt d b))) = add_mset d (mset (orders b))"
proof (cases "smap_find lt (od_price d) b")
  case None
  with mset_orders_emplace [OF assms None] show ?thesis by (simp add: Insert_book)
next
  case (Some lvl)
  from mset_orders_set [OF assms Some, of "lvl @ [d]"] Some show ?thesis
    by (simp add: Insert_book union_commute add.assoc)
qed

subsection \<open>Cancel\<close>

lemma Cancel_eq:
  "OrderBook_Cancel lt c b =
     (let q = queue_at lt b (oc_price c)
      in if find (has_id (oc_id c)) q = None then (b, False)
         else (smap_set lt (oc_price c) (erase_first (has_id (oc_id c)) q) b, True))"
  by (auto simp: OrderBook_Cancel_def queue_at_def OrderLevel_CancelOrder_def Let_def split: option.split)

lemma find_queue: "find P (queue_at lt b p) = Some d \<Longrightarrow> smap_find lt p b = Some (queue_at lt b p)"
  by (auto simp: queue_at_def split: option.splits)

lemma queue_ok: "book_ok lt buy b \<Longrightarrow> level_ok buy p (queue_at lt b p)"
  by (auto simp: queue_at_def find_level_ok split: option.split)

lemma erase_queue_ok: "book_ok lt buy b \<Longrightarrow> level_ok buy p (erase_first P (queue_at lt b p))"
  using queue_ok level_ok_subset set_erase_first by metis

lemma update_queue_ok:
  "book_ok lt buy b \<Longrightarrow> level_ok buy p (update_first P (\<lambda>d. d\<lparr>od_volume := v\<rparr>) (queue_at lt b p))"
  using queue_ok level_ok_update_volume by blast

lemma mset_erase_queue:
  assumes "book_ok lt buy b" and "find P (queue_at lt b p) = Some d"
  shows "mset (orders b) = add_mset d (mset (orders (smap_set lt p (erase_first P (queue_at lt b p)) b)))"
  using mset_orders_set [OF assms(1) find_queue [OF assms(2)], of "erase_first P (queue_at lt b p)"]
    mset_erase_first [OF assms(2)] by simp

lemma Cancel_ok: "book_ok lt buy b \<Longrightarrow> book_ok lt buy (fst (OrderBook_Cancel lt c b))"
  by (auto simp: Cancel_eq Let_def intro: book_ok_set erase_queue_ok)

lemma Cancel_true_iff:
  "snd (OrderBook_Cancel lt c b) \<longleftrightarrow> (\<exists>d \<in> set (queue_at lt b (oc_price c)). od_id d = oc_id c)"
proof (cases "find (has_id (oc_id c)) (queue_at lt b (oc_price c))")
  case None
  then show ?thesis by (auto simp: Cancel_eq Let_def find_None_iff has_id_def)
next
  case (Some d)
  with find_Some_mem [OF Some] show ?thesis by (auto simp: Cancel_eq Let_def has_id_def)
qed

lemma Cancel_false: "\<not> snd (OrderBook_Cancel lt c b) \<Longrightarrow> fst (OrderBook_Cancel lt c b) = b"
  by (auto simp: Cancel_eq Let_def split: if_splits)

lemma Cancel_queue_at:
  "queue_at lt (fst (OrderBook_Cancel lt c b)) =
     (queue_at lt b)(oc_price c := erase_first (has_id (oc_id c)) (queue_at lt b (oc_price c)))"
proof (cases "find (has_id (oc_id c)) (queue_at lt b (oc_price c))")
  case None
  then show ?thesis by (simp add: Cancel_eq erase_first_none)
next
  case (Some d)
  with find_queue [OF Some] show ?thesis by (simp add: Cancel_eq Let_def queue_at_set)
qed

lemma Cancel_mset:
  assumes "book_ok lt buy b" and "find (has_id (oc_id c)) (queue_at lt b (oc_price c)) = Some d"
  shows "mset (orders b) = add_mset d (mset (orders (fst (OrderBook_Cancel lt c b))))"
  using mset_erase_queue [OF assms] assms(2) by (simp add: Cancel_eq Let_def)

subsection \<open>Amend\<close>

lemma Amend_absent:
  "find (has_id (od_id a)) (queue_at lt b (od_price a)) = None \<Longrightarrow> OrderBook_Amend lt a b = (b, False)"
  by (auto simp: OrderBook_Amend_def queue_at_def OrderLevel_CancelOrder_def OrderLevel_MoveOrder_def
      OrderLevel_ChangeOrderVolume_def OrderLevel_Find_def split: option.splits)

lemma Amend_zero:
  assumes "find (has_id (od_id a)) (queue_at lt b (od_price a)) = Some d" and "od_newVolume a = 0"
  shows "OrderBook_Amend lt a b =
    (let q = erase_first (has_id (od_id a)) (queue_at lt b (od_price a));
         b' = smap_set lt (od_price a) q b
     in (if q = [] then smap_erase lt (od_price a) b' else b', True))"
  using assms find_queue [OF assms(1)]
  by (auto simp: OrderBook_Amend_def OrderLevel_CancelOrder_def OrderLevel_IsEmpty_def Remove_eq Let_def)

lemma Amend_volume:
  assumes "find (has_id (od_id a)) (queue_at lt b (od_price a)) = Some d" and "od_newVolume a \<noteq> 0"
    and "od_newPrice a = od_price a"
  shows "OrderBook_Amend lt a b =
    (smap_set lt (od_price a)
       (update_first (has_id (od_id a)) (\<lambda>d. d\<lparr>od_volume := od_newVolume a\<rparr>) (queue_at lt b (od_price a))) b,
     True)"
  using assms find_queue [OF assms(1)]
  by (auto simp: OrderBook_Amend_def OrderLevel_ChangeOrderVolume_def OrderLevel_Find_def Let_def)

lemma Amend_move:
  assumes "find (has_id (od_id a)) (queue_at lt b (od_price a)) = Some d" and "od_newVolume a \<noteq> 0"
    and "od_newPrice a \<noteq> od_price a"
  shows "OrderBook_Amend lt a b =
    (let q = erase_first (has_id (od_id a)) (queue_at lt b (od_price a));
         b2 = smap_set lt (od_price a) q (smap_emplace lt (od_newPrice a) [amended a d] b)
     in (if q = [] then smap_erase lt (od_price a) b2 else b2, True))"
  using assms find_queue [OF assms(1)]
  by (auto simp: OrderBook_Amend_def OrderLevel_MoveOrder_def OrderLevel_IsEmpty_def amended_def
      OrderLevel_ctor_def OrderLevel_Insert_def Let_def)

lemma amended_ok:
  assumes "book_ok lt buy b" and "find P (queue_at lt b p) = Some d"
  shows "level_ok buy (od_newPrice a) [amended a d]"
  using queue_ok [OF assms(1), of p] find_Some_mem [OF assms(2)] by (auto simp: level_ok_def amended_def)

lemma Amend_ok:
  assumes ok: "book_ok lt buy b"
  shows "book_ok lt buy (fst (OrderBook_Amend lt a b))"
proof (cases "find (has_id (od_id a)) (queue_at lt b (od_price a))")
  case None
  with ok show ?thesis by (simp add: Amend_absent)
next
  case (Some d)
  note side = erase_queue_ok [OF ok] update_queue_ok [OF ok] amended_ok [OF ok Some]
  consider "od_newVolume a = 0" | "od_newVolume a \<noteq> 0" "od_newPrice a = od_price a"
    | "od_newVolume a \<noteq> 0" "od_newPrice a \<noteq> od_price a" by blast
  then show ?thesis
    by cases (use ok side in \<open>auto simp: Amend_zero [OF Some] Amend_volume [OF Some] Amend_move [OF Some]
        Let_def intro!: book_ok_erase book_ok_set book_ok_emplace\<close>)
qed

lemma Amend_no_empty:
  assumes "no_empty b"
  shows "no_empty (fst (OrderBook_Amend lt a b))"
proof (cases "find (has_id (od_id a)) (queue_at lt b (od_price a))")
  case None
  with assms show ?thesis by (simp add: Amend_absent)
next
  case (Some d)
  then have q: "queue_at lt b (od_price a) \<noteq> []" by auto
  consider "od_newVolume a = 0" | "od_newVolume a \<noteq> 0" "od_newPrice a = od_price a"
    | "od_newVolume a \<noteq> 0" "od_newPrice a \<noteq> od_price a" by blast
  then show ?thesis
    by cases (use assms q in \<open>auto simp: Amend_zero [OF Some] Amend_volume [OF Some] Amend_move [OF Some]
        Let_def intro!: no_empty_erase_set no_empty_set no_empty_emplace\<close>)
qed

text \<open>The queues after an amend, in each branch.\<close>

lemma Amend_volume_queue_at:
  assumes "find (has_id (od_id a)) (queue_at lt b (od_price a)) = Some d" and "od_newVolume a \<noteq> 0"
    and "od_newPrice a = od_price a"
  shows "queue_at lt (fst (OrderBook_Amend lt a b)) =
    (queue_at lt b)(od_price a :=
       update_first (has_id (od_id a)) (\<lambda>d. d\<lparr>od_volume := od_newVolume a\<rparr>) (queue_at lt b (od_price a)))"
  using find_queue [OF assms(1)] by (simp add: Amend_volume [OF assms] queue_at_set)

lemma Amend_zero_queue_at:
  assumes "book_ok lt buy b"
    and "find (has_id (od_id a)) (queue_at lt b (od_price a)) = Some d" and "od_newVolume a = 0"
  shows "queue_at lt (fst (OrderBook_Amend lt a b)) =
    (queue_at lt b)(od_price a := erase_first (has_id (od_id a)) (queue_at lt b (od_price a)))"
proof -
  let ?q = "erase_first (has_id (od_id a)) (queue_at lt b (od_price a))"
  let ?b' = "smap_set lt (od_price a) ?q b"
  have b': "queue_at lt ?b' = (queue_at lt b)(od_price a := ?q)"
    using find_queue [OF assms(2)] by (simp add: queue_at_set)
  have e: "queue_at lt (smap_erase lt (od_price a) ?b') = (queue_at lt ?b')(od_price a := [])"
    by (rule queue_at_erase [OF book_ok_set [OF assms(1) erase_queue_ok [OF assms(1)]]])
  show ?thesis
  proof (cases "?q = []")
    case True
    from e [unfolded b'] True show ?thesis by (simp add: Amend_zero [OF assms(2,3)])
  next
    case False
    with b' show ?thesis by (simp add: Amend_zero [OF assms(2,3)])
  qed
qed

lemma Amend_move_queue_at:
  assumes ok: "book_ok lt buy b"
    and d: "find (has_id (od_id a)) (queue_at lt b (od_price a)) = Some d"
    and v: "od_newVolume a \<noteq> 0" and np: "od_newPrice a \<noteq> od_price a"
  shows "queue_at lt (fst (OrderBook_Amend lt a b)) =
    (queue_at lt b)
      (od_price a := erase_first (has_id (od_id a)) (queue_at lt b (od_price a)),
       od_newPrice a := (if smap_find lt (od_newPrice a) b = None then [amended a d]
                         else queue_at lt b (od_newPrice a)))"
proof -
  let ?q = "erase_first (has_id (od_id a)) (queue_at lt b (od_price a))"
  let ?b1 = "smap_emplace lt (od_newPrice a) [amended a d] b"
  let ?b2 = "smap_set lt (od_price a) ?q ?b1"
  have b1: "queue_at lt ?b1 = (queue_at lt b)
      (od_newPrice a := (if smap_find lt (od_newPrice a) b = None then [amended a d]
                         else queue_at lt b (od_newPrice a)))"
    using ok by (cases "smap_find lt (od_newPrice a) b")
      (simp_all add: queue_at_emplace emplace_present book_ok_def)
  have p: "smap_find lt (od_price a) ?b1 \<noteq> None"
    using find_queue [OF d] np ok
    by (cases "smap_find lt (od_newPrice a) b")
      (simp_all add: find_emplace_absent emplace_present book_ok_def)
  have ok2: "book_ok lt buy ?b2"
    by (intro book_ok_set book_ok_emplace erase_queue_ok amended_ok [OF ok d] ok)
  have b2: "queue_at lt ?b2 = (queue_at lt ?b1)(od_price a := ?q)"
    using p by (rule queue_at_set)
  have b3: "queue_at lt (smap_erase lt (od_price a) ?b2) = (queue_at lt ?b2)(od_price a := [])"
    using ok2 by (rule queue_at_erase)
  show ?thesis
  proof (cases "?q = []")
    case True
    from b3 [unfolded b2 b1] True np show ?thesis
      by (simp add: Amend_move [OF d v np] fun_upd_twist)
  next
    case False
    from b2 [unfolded b1] False np show ?thesis
      by (simp add: Amend_move [OF d v np] Let_def fun_upd_twist)
  qed
qed

text \<open>
  All orders of the side after a move: where the new price has no level the order has moved;
  where it has one, the order is gone.
\<close>

lemma Amend_move_mset:
  assumes ok: "book_ok lt buy b"
    and d: "find (has_id (od_id a)) (queue_at lt b (od_price a)) = Some d"
    and v: "od_newVolume a \<noteq> 0" and np: "od_newPrice a \<noteq> od_price a"
  shows "add_mset d (mset (orders (fst (OrderBook_Amend lt a b)))) =
    mset (orders b) + (if smap_find lt (od_newPrice a) b = None then {#amended a d#} else {#})"
proof -
  let ?old = "queue_at lt b (od_price a)"
  let ?q = "erase_first (has_id (od_id a)) ?old"
  let ?b1 = "smap_emplace lt (od_newPrice a) [amended a d] b"
  let ?b2 = "smap_set lt (od_price a) ?q ?b1"
  have ok1: "book_ok lt buy ?b1" by (intro book_ok_emplace amended_ok [OF ok d] ok)
  have ok2: "book_ok lt buy ?b2" by (intro book_ok_set ok1 erase_queue_ok ok)
  have f1: "smap_find lt (od_price a) ?b1 = Some ?old"
    using find_queue [OF d] np ok
    by (cases "smap_find lt (od_newPrice a) b")
      (simp_all add: find_emplace_absent emplace_present book_ok_def)
  have m1: "mset (orders ?b1) =
      mset (orders b) + (if smap_find lt (od_newPrice a) b = None then {#amended a d#} else {#})"
    using ok mset_orders_emplace [OF ok, of "od_newPrice a"]
    by (cases "smap_find lt (od_newPrice a) b") (simp_all add: emplace_present book_ok_def)
  have m2: "add_mset d (mset (orders ?b2)) = mset (orders ?b1)"
    using mset_orders_set [OF ok1 f1, of ?q] mset_erase_first [OF d] by simp
  have f2: "smap_find lt (od_price a) ?b2 = Some ?q" using f1 by (simp add: find_set)
  have m3: "mset (orders (fst (OrderBook_Amend lt a b))) = mset (orders ?b2)"
  proof (cases "?q = []")
    case True
    with orders_erase_empty [OF ok2, of "od_price a"] f2 show ?thesis
      by (simp add: Amend_move [OF d v np])
  next
    case False
    then show ?thesis by (simp add: Amend_move [OF d v np] Let_def)
  qed
  from m1 m2 m3 show ?thesis by simp
qed

lemma Amend_true_iff:
  "snd (OrderBook_Amend lt a b) \<longleftrightarrow> (\<exists>d \<in> set (queue_at lt b (od_price a)). od_id d = od_id a)"
proof (cases "find (has_id (od_id a)) (queue_at lt b (od_price a))")
  case None
  then show ?thesis by (auto simp: Amend_absent find_None_iff has_id_def)
next
  case (Some d)
  consider "od_newVolume a = 0" | "od_newVolume a \<noteq> 0" "od_newPrice a = od_price a"
    | "od_newVolume a \<noteq> 0" "od_newPrice a \<noteq> od_price a" by blast
  then have "snd (OrderBook_Amend lt a b)"
    by cases (auto simp: Amend_zero [OF Some] Amend_volume [OF Some] Amend_move [OF Some] Let_def)
  with find_Some_mem [OF Some] show ?thesis by (auto simp: has_id_def)
qed

lemma Amend_false: "\<not> snd (OrderBook_Amend lt a b) \<Longrightarrow> OrderBook_Amend lt a b = (b, False)"
  by (rule Amend_absent) (auto simp: Amend_true_iff find_None_iff has_id_def)

end

interpretation bids: price_compare std_greater
  by unfold_locales

interpretation asks: price_compare std_less
  by unfold_locales

end
