(* ===== verification/Matching.thy ===== *)
theory Matching
  imports OrderBook
begin

text \<open>
  The matching loop of \<open>MatchingEngine\<close>: \<open>ExecuteOrder\<close> with the body of its endless loop, the
  specification of matching on two lists of orders, and the refinement between them.
\<close>

section \<open>The matching loop\<close>

definition matchPricePredicate :: "OrderInsertData \<Rightarrow> OrderInsertData \<Rightarrow> bool" where
  "matchPricePredicate newOrder bestOrder =
     (if od_isBuySide newOrder then od_price newOrder \<ge> od_price bestOrder
      else od_price bestOrder \<ge> od_price newOrder)"

text \<open>
  One pass through the body of the loop: \<open>None\<close> where the code returns, otherwise both sides
  after the pass and the trades sent in it. \<open>std::begin\<close> of a map is the head of the list.
\<close>

definition ExecuteOrder_body ::
  "(u64 \<Rightarrow> u64 \<Rightarrow> bool) \<Rightarrow> (u64 \<Rightarrow> u64 \<Rightarrow> bool) \<Rightarrow> OrderBook \<Rightarrow> OrderBook
     \<Rightarrow> (OrderBook \<times> OrderBook \<times> Trade list) option" where
  "ExecuteOrder_body ltO ltM opp my =
     (case my of [] \<Rightarrow> None
      | (myKey, myLevel) # myRest \<Rightarrow>
        if OrderLevel_IsEmpty myLevel then None else
        (case OrderLevel_GetTopLevel myLevel of None \<Rightarrow> None
         | Some myBest \<Rightarrow>
           (case opp of [] \<Rightarrow> None
            | (oppKey, oppLevel) # oppRest \<Rightarrow>
              if OrderLevel_IsEmpty oppLevel then None else
              (case OrderLevel_GetTopLevel oppLevel of None \<Rightarrow> None
               | Some oppBest \<Rightarrow>
                 if \<not> matchPricePredicate myBest oppBest then None
                 else
                   let (oppLevel', tradedVolume, oppTrades) =
                         OrderLevel_TradeTopLevel (od_volume myBest) oppLevel;
                       (myLevel', otherSideTradedVolume, myTrades) =
                         OrderLevel_TradeTopLevel tradedVolume myLevel;
                       opp' = (oppKey, oppLevel') # oppRest;
                       my' = (myKey, myLevel') # myRest
                   in Some (if OrderLevel_IsEmpty oppLevel'
                            then OrderBook_RemoveLevelAtPrice ltO (od_price oppBest) opp' else opp',
                            if OrderLevel_IsEmpty myLevel'
                            then OrderBook_RemoveLevelAtPrice ltM (od_price myBest) my' else my',
                            oppTrades @ myTrades)))))"

lemma length_orders_erase: "length (orders (smap_erase lt p b)) \<le> length (orders b)"
  by (induction b) auto

lemma length_orders_remove: "length (orders (OrderBook_RemoveLevelAtPrice lt p b)) \<le> length (orders b)"
  by (auto simp: OrderBook_RemoveLevelAtPrice_def length_orders_erase split: option.split)

lemma GetTopLevel_Some: "OrderLevel_GetTopLevel q = Some d \<longleftrightarrow> (\<exists>r. q = d # r)"
  by (auto simp: OrderLevel_GetTopLevel_def split: list.split)

lemma min_front: "min (min v w) v = min v (w :: u64)"
  by (simp add: min.commute min.left_commute)

text \<open>What a pass does when both sides have a front order.\<close>

lemma body_fronts:
  assumes "matchPricePredicate md od" and "t = min (od_volume md) (od_volume od)"
  shows "ExecuteOrder_body ltO ltM ((ok, od # oq) # orest) ((mk, md # mq) # mrest) =
    Some (if reduce_front t (od # oq) = []
          then OrderBook_RemoveLevelAtPrice ltO (od_price od) ((ok, reduce_front t (od # oq)) # orest)
          else (ok, reduce_front t (od # oq)) # orest,
          if reduce_front t (md # mq) = []
          then OrderBook_RemoveLevelAtPrice ltM (od_price md) ((mk, reduce_front t (md # mq)) # mrest)
          else (mk, reduce_front t (md # mq)) # mrest,
          [traded_of od t, traded_of md t])"
  using assms(1) unfolding assms(2)
  by (simp add: ExecuteOrder_body_def OrderLevel_IsEmpty_def OrderLevel_GetTopLevel_def
      TradeTopLevel_Cons Let_def min_front)

lemma body_None_iff:
  "ExecuteOrder_body ltO ltM opp my = None \<longleftrightarrow>
   \<not> (\<exists>ok od oq orest mk md mq mrest. opp = (ok, od # oq) # orest \<and> my = (mk, md # mq) # mrest \<and>
        matchPricePredicate md od)"
  by (auto simp: ExecuteOrder_body_def OrderLevel_IsEmpty_def OrderLevel_GetTopLevel_def
      TradeTopLevel_Cons Let_def split: list.split)

lemma body_SomeE:
  assumes "ExecuteOrder_body ltO ltM opp my = Some r"
  obtains ok od oq orest mk md mq mrest where
    "opp = (ok, od # oq) # orest" "my = (mk, md # mq) # mrest" "matchPricePredicate md od"
  using assms body_None_iff [of ltO ltM opp my] by force

text \<open>A pass erases the front order of at least one side, so the loop ends.\<close>

lemma length_side_step:
  "length (orders (if reduce_front t (d # q) = []
                   then OrderBook_RemoveLevelAtPrice lt p ((k, reduce_front t (d # q)) # b)
                   else (k, reduce_front t (d # q)) # b)) \<le> length (reduce_front t (d # q)) + length (orders b)"
  using length_orders_remove [of lt p "(k, reduce_front t (d # q)) # b"]
  by (cases "reduce_front t (d # q) = []") simp_all

lemma body_decreases:
  assumes "ExecuteOrder_body ltO ltM opp my = Some (opp', my', ts)"
  shows "length (orders opp') + length (orders my') < length (orders opp) + length (orders my)"
proof -
  from assms obtain ok od oq orest mk md mq mrest where
    e: "opp = (ok, od # oq) # orest" "my = (mk, md # mq) # mrest" and m: "matchPricePredicate md od"
    by (rule body_SomeE)
  let ?t = "min (od_volume md) (od_volume od)"
  from assms have opp': "opp' = (if reduce_front ?t (od # oq) = []
        then OrderBook_RemoveLevelAtPrice ltO (od_price od) ((ok, reduce_front ?t (od # oq)) # orest)
        else (ok, reduce_front ?t (od # oq)) # orest)"
    and my': "my' = (if reduce_front ?t (md # mq) = []
        then OrderBook_RemoveLevelAtPrice ltM (od_price md) ((mk, reduce_front ?t (md # mq)) # mrest)
        else (mk, reduce_front ?t (md # mq)) # mrest)"
    unfolding e body_fronts [OF m refl] by simp_all
  have "length (reduce_front ?t (od # oq)) + length (reduce_front ?t (md # mq)) < length (od # oq) + length (md # mq)"
    by (auto simp: reduce_front_def min_def)
  moreover have "length (orders opp') \<le> length (reduce_front ?t (od # oq)) + length (orders orest)"
    unfolding opp' by (rule length_side_step)
  moreover have "length (orders my') \<le> length (reduce_front ?t (md # mq)) + length (orders mrest)"
    unfolding my' by (rule length_side_step)
  ultimately show ?thesis by (simp add: e)
qed

function ExecuteOrder ::
  "(u64 \<Rightarrow> u64 \<Rightarrow> bool) \<Rightarrow> (u64 \<Rightarrow> u64 \<Rightarrow> bool) \<Rightarrow> OrderBook \<Rightarrow> OrderBook
     \<Rightarrow> OrderBook \<times> OrderBook \<times> Trade list" where
  "ExecuteOrder ltO ltM opp my =
     (case ExecuteOrder_body ltO ltM opp my of
        None \<Rightarrow> (opp, my, [])
      | Some (opp', my', ts) \<Rightarrow>
          let (opp'', my'', ts') = ExecuteOrder ltO ltM opp' my' in (opp'', my'', ts @ ts'))"
  by pat_completeness auto
termination
  by (relation "measure (\<lambda>(ltO, ltM, opp, my). length (orders opp) + length (orders my))")
    (auto dest: body_decreases)

declare ExecuteOrder.simps [simp del]

section \<open>The matching as an operation on two lists of orders\<close>

text \<open>
  The specification knows no levels: each side is the list of its orders in priority order, and
  as long as the two heads match, both trade the smaller of their volumes. A fill names the two
  orders as they were and the volume.
\<close>

type_synonym fill = "OrderInsertData \<times> OrderInsertData \<times> u64"

function match_lists ::
  "OrderInsertData list \<Rightarrow> OrderInsertData list
     \<Rightarrow> OrderInsertData list \<times> OrderInsertData list \<times> fill list" where
  "match_lists [] ms = ([], ms, [])"
| "match_lists (x # os) [] = (x # os, [], [])"
| "match_lists (x # os) (y # ms) =
     (if \<not> matchPricePredicate y x then (x # os, y # ms, [])
      else
        let t = min (od_volume y) (od_volume x);
            (os', ms', fs) = match_lists (reduce_front t (x # os)) (reduce_front t (y # ms))
        in (os', ms', (x, y, t) # fs))"
  by pat_completeness auto
termination
  by (relation "measure (\<lambda>(os, ms). length os + length ms)") (auto simp: reduce_front_def min_def)

fun trades_of :: "fill list \<Rightarrow> Trade list" where
  "trades_of [] = []"
| "trades_of ((x, y, t) # fs) = traded_of x t # traded_of y t # trades_of fs"

section \<open>The loop refines the specification\<close>

lemma reduce_front_append:
  "reduce_front t (d # q) @ r = reduce_front t ((d # q) @ r)"
  by (simp add: reduce_front_def)

lemma level_ok_reduce: "level_ok buy p (d # q) \<Longrightarrow> level_ok buy p (reduce_front t (d # q))"
  by (auto simp: reduce_front_def)

context price_compare
begin

text \<open>What a pass does to one side: it reduces the front of its orders.\<close>

definition trade_side :: "u64 \<Rightarrow> OrderInsertData \<Rightarrow> OrderLevel \<Rightarrow> u64 \<Rightarrow> OrderBook \<Rightarrow> OrderBook" where
  "trade_side t d q k b =
     (if reduce_front t (d # q) = [] then OrderBook_RemoveLevelAtPrice lt (od_price d) ((k, reduce_front t (d # q)) # b)
      else (k, reduce_front t (d # q)) # b)"

lemma trade_side_ok:
  "book_ok lt buy ((k, d # q) # b) \<Longrightarrow> book_ok lt buy (trade_side t d q k b)"
  using level_ok_reduce [of buy k d q t] by (auto simp: trade_side_def Remove_eq)

lemma trade_side_no_empty:
  "book_ok lt buy ((k, d # q) # b) \<Longrightarrow> no_empty ((k, d # q) # b) \<Longrightarrow> no_empty (trade_side t d q k b)"
  by (auto simp: trade_side_def Remove_eq)

lemma trade_side_orders:
  "book_ok lt buy ((k, d # q) # b) \<Longrightarrow>
   orders (trade_side t d q k b) = reduce_front t (d # q @ orders b)"
  using reduce_front_append [of t d q "orders b"] by (auto simp: trade_side_def Remove_eq)

text \<open>The first order of a side has a best price of the side.\<close>

lemma front_best:
  assumes "book_ok lt buy ((k, d # q) # b)" and "y \<in> set (orders ((k, d # q) # b))"
  shows "od_price y = od_price d \<or> lt (od_price d) (od_price y)"
proof -
  from assms(2) obtain p lvl where p: "(p, lvl) \<in> set ((k, d # q) # b)" and y: "y \<in> set lvl"
    unfolding in_orders by blast
  from book_ok_levels [OF assms(1) p] y have "od_price y = p" by (auto simp: level_ok_def)
  with assms(1) p show ?thesis by auto
qed

lemma orders_side: "book_ok lt buy b \<Longrightarrow> y \<in> set (orders b) \<Longrightarrow> od_isBuySide y = buy"
  by (auto simp: in_orders level_ok_def dest!: book_ok_levels)

end

text \<open>
  The side of the requester and the side it matches against: two orders of prices that rank
  prices the opposite way, for a buyer and for a seller.
\<close>

locale matching_sides =
  opp: price_compare ltO + my: price_compare ltM for ltO ltM :: "u64 \<Rightarrow> u64 \<Rightarrow> bool" +
  fixes buy :: bool
  assumes my_better: "ltM a b \<longleftrightarrow> (if buy then b < a else a < b)"
    and opp_better: "ltO a b \<longleftrightarrow> (if buy then a < b else b < a)"
begin

definition sides_ok :: "OrderBook \<Rightarrow> OrderBook \<Rightarrow> bool" where
  "sides_ok x y \<longleftrightarrow> book_ok ltO (\<not> buy) x \<and> book_ok ltM buy y \<and> no_empty x \<and> no_empty y"

lemma body_fronts_sides:
  assumes "matchPricePredicate md od"
  shows "ExecuteOrder_body ltO ltM ((ok, od # oq) # orest) ((mk, md # mq) # mrest) =
    (let t = min (od_volume md) (od_volume od)
     in Some (opp.trade_side t od oq ok orest, my.trade_side t md mq mk mrest,
              [traded_of od t, traded_of md t]))"
  by (simp add: body_fronts [OF assms refl] opp.trade_side_def my.trade_side_def Let_def)

text \<open>A pass of the loop is a step of the matching of lists.\<close>

lemma body_step:
  assumes ok: "sides_ok x y" and b: "ExecuteOrder_body ltO ltM x y = Some (x', y', ts)"
  shows "sides_ok x' y' \<and>
    (\<forall>os ms fs. match_lists (orders x') (orders y') = (os, ms, fs) \<longrightarrow>
      (\<exists>f. match_lists (orders x) (orders y) = (os, ms, f # fs) \<and> ts = trades_of [f]))"
proof -
  from b obtain ok od oq orest mk md mq mrest where
    e: "x = (ok, od # oq) # orest" "y = (mk, md # mq) # mrest" and m: "matchPricePredicate md od"
    by (rule body_SomeE)
  let ?t = "min (od_volume md) (od_volume od)"
  from b have x': "x' = opp.trade_side ?t od oq ok orest" and y': "y' = my.trade_side ?t md mq mk mrest"
    and ts: "ts = [traded_of od ?t, traded_of md ?t]"
    unfolding e body_fronts_sides [OF m] by (simp_all add: Let_def)
  from ok have bo: "book_ok ltO (\<not> buy) ((ok, od # oq) # orest)" "no_empty ((ok, od # oq) # orest)"
    and bm: "book_ok ltM buy ((mk, md # mq) # mrest)" "no_empty ((mk, md # mq) # mrest)"
    unfolding sides_ok_def e by blast+
  have "sides_ok x' y'"
    unfolding sides_ok_def x' y'
    using opp.trade_side_ok [OF bo(1)] opp.trade_side_no_empty [OF bo]
      my.trade_side_ok [OF bm(1)] my.trade_side_no_empty [OF bm] by blast
  moreover have "orders x' = reduce_front ?t (od # oq @ orders orest)"
    unfolding x' by (rule opp.trade_side_orders [OF bo(1)])
  moreover have "orders y' = reduce_front ?t (md # mq @ orders mrest)"
    unfolding y' by (rule my.trade_side_orders [OF bm(1)])
  ultimately show ?thesis using m by (simp add: e ts Let_def)
qed

lemma body_ok:
  assumes ok: "book_ok ltO (\<not> buy) x" "book_ok ltM buy y"
    and b: "ExecuteOrder_body ltO ltM x y = Some (x', y', ts)"
  shows "book_ok ltO (\<not> buy) x' \<and> book_ok ltM buy y'"
proof -
  from b obtain ok od oq orest mk md mq mrest where
    e: "x = (ok, od # oq) # orest" "y = (mk, md # mq) # mrest" and m: "matchPricePredicate md od"
    by (rule body_SomeE)
  let ?t = "min (od_volume md) (od_volume od)"
  from b have x': "x' = opp.trade_side ?t od oq ok orest" and y': "y' = my.trade_side ?t md mq mk mrest"
    unfolding e body_fronts_sides [OF m] by (simp_all add: Let_def)
  show ?thesis unfolding x' y'
    using opp.trade_side_ok [OF ok(1) [unfolded e]] my.trade_side_ok [OF ok(2) [unfolded e]] by blast
qed

lemma ExecuteOrder_ok:
  assumes "book_ok ltO (\<not> buy) x" "book_ok ltM buy y" and "ExecuteOrder ltO ltM x y = (x', y', ts)"
  shows "book_ok ltO (\<not> buy) x' \<and> book_ok ltM buy y'"
  using assms
proof (induction "length (orders x) + length (orders y)" arbitrary: x y ts rule: less_induct)
  case less
  show ?case
  proof (cases "ExecuteOrder_body ltO ltM x y")
    case None
    with less.prems show ?thesis by (simp add: ExecuteOrder.simps [of ltO ltM x y])
  next
    case (Some r)
    obtain x1 y1 t1 where r: "r = (x1, y1, t1)" by (cases r)
    obtain t2 where e: "ExecuteOrder ltO ltM x1 y1 = (x', y', t2)"
      using less.prems(3) Some r
      by (auto simp: ExecuteOrder.simps [of ltO ltM x y] Let_def split: prod.splits)
    from body_ok [OF less.prems(1,2) Some [unfolded r]] have "book_ok ltO (\<not> buy) x1" "book_ok ltM buy y1"
      by blast+
    from less.hyps [OF body_decreases [OF Some [unfolded r]] this e] show ?thesis .
  qed
qed

lemma matchPrice_None:
  assumes ok: "sides_ok x y" and b: "ExecuteOrder_body ltO ltM x y = None"
  shows "match_lists (orders x) (orders y) = (orders x, orders y, [])"
proof (cases "orders x = [] \<or> orders y = []")
  case True
  then show ?thesis by (cases "orders x"; cases "orders y") auto
next
  case False
  then obtain ok lo orest mk lm mrest where e: "x = (ok, lo) # orest" "y = (mk, lm) # mrest"
    by (cases x; cases y) auto
  with ok obtain od oq md mq where "lo = od # oq" "lm = md # mq"
    by (cases lo; cases lm) (auto simp: sides_ok_def)
  with b e show ?thesis unfolding body_None_iff by auto
qed

theorem ExecuteOrder_refines:
  assumes "sides_ok x y" and "ExecuteOrder ltO ltM x y = (x', y', ts)"
  shows "sides_ok x' y' \<and> (\<exists>fs. match_lists (orders x) (orders y) = (orders x', orders y', fs) \<and> ts = trades_of fs)"
  using assms
proof (induction "length (orders x) + length (orders y)" arbitrary: x y ts rule: less_induct)
  case less
  show ?case
  proof (cases "ExecuteOrder_body ltO ltM x y")
    case None
    with less.prems matchPrice_None [OF less.prems(1) None] show ?thesis
      by (auto simp: ExecuteOrder.simps [of ltO ltM x y])
  next
    case (Some r)
    obtain x1 y1 t1 where r: "r = (x1, y1, t1)" by (cases r)
    obtain t2 where e: "ExecuteOrder ltO ltM x1 y1 = (x', y', t2)" and ts: "ts = t1 @ t2"
      using less.prems(2) Some r
      by (auto simp: ExecuteOrder.simps [of ltO ltM x y] Let_def split: prod.splits)
    note step = body_step [OF less.prems(1) Some [unfolded r]]
    from less.hyps [OF body_decreases [OF Some [unfolded r]] conjunct1 [OF step] e]
    obtain fs where ok: "sides_ok x' y'"
      and m: "match_lists (orders x1) (orders y1) = (orders x', orders y', fs)" and t2: "t2 = trades_of fs"
      by blast
    from step m obtain f where f: "match_lists (orders x) (orders y) = (orders x', orders y', f # fs)"
      "t1 = trades_of [f]" by blast
    have "trades_of [f] @ trades_of fs = trades_of (f # fs)" by (cases f) simp
    with f ok t2 ts show ?thesis by auto
  qed
qed

text \<open>When the loop returns, no order of one side matches an order of the other.\<close>

lemma match_lists_heads:
  "match_lists os ms = (x # os', y # ms', fs) \<Longrightarrow> \<not> matchPricePredicate y x"
  by (induction os ms arbitrary: fs rule: match_lists.induct)
    (auto simp: Let_def split: if_splits prod.splits)

lemma heads_uncrossed:
  assumes ok: "sides_ok x y" and cross: "orders x \<noteq> [] \<Longrightarrow> orders y \<noteq> [] \<Longrightarrow>
      \<not> matchPricePredicate (hd (orders y)) (hd (orders x))"
    and a: "a \<in> set (orders x)" and b: "b \<in> set (orders y)"
  shows "\<not> matchPricePredicate b a"
proof -
  from a b have "x \<noteq> []" "y \<noteq> []" by auto
  then obtain ok lo orest mk lm mrest where e1: "x = (ok, lo) # orest" "y = (mk, lm) # mrest"
    by (cases x; cases y) auto
  with ok obtain od oq md mq where "lo = od # oq" "lm = md # mq"
    by (cases lo; cases lm) (auto simp: sides_ok_def)
  with e1 have e: "x = (ok, od # oq) # orest" "y = (mk, md # mq) # mrest" by simp_all
  from ok have bo: "book_ok ltO (\<not> buy) ((ok, od # oq) # orest)"
    and bm: "book_ok ltM buy ((mk, md # mq) # mrest)"
    unfolding sides_ok_def e by blast+
  have "\<not> matchPricePredicate md od" using cross by (simp add: e)
  moreover have "od_isBuySide md = buy" using my.orders_side [OF bm, of md] by simp
  moreover have "od_isBuySide b = buy" using my.orders_side [OF bm] b e by blast
  moreover have "od_price a = od_price od \<or> ltO (od_price od) (od_price a)"
    by (rule opp.front_best [OF bo a [unfolded e]])
  moreover have "od_price b = od_price md \<or> ltM (od_price md) (od_price b)"
    by (rule my.front_best [OF bm b [unfolded e]])
  ultimately show ?thesis
    by (cases buy) (auto simp: matchPricePredicate_def my_better opp_better not_le)
qed

lemma ExecuteOrder_uncrossed:
  assumes "sides_ok x y" and "ExecuteOrder ltO ltM x y = (x', y', ts)"
    and "a \<in> set (orders x')" and "b \<in> set (orders y')"
  shows "\<not> matchPricePredicate b a"
proof -
  from ExecuteOrder_refines [OF assms(1,2)] obtain fs where ok: "sides_ok x' y'"
    and m: "match_lists (orders x) (orders y) = (orders x', orders y', fs)" by blast
  have "\<not> matchPricePredicate (hd (orders y')) (hd (orders x'))"
    if "orders x' \<noteq> []" "orders y' \<noteq> []"
    using match_lists_heads [of "orders x" "orders y" "hd (orders x')" "tl (orders x')"
        "hd (orders y')" "tl (orders y')" fs] m that by simp
  from heads_uncrossed [OF ok this assms(3,4)] show ?thesis by blast
qed

end

text \<open>The comparison of the bids and of the asks, and the two as the sides of a requester.\<close>

definition side_lt :: "bool \<Rightarrow> u64 \<Rightarrow> u64 \<Rightarrow> bool" where
  "side_lt buy = (if buy then std_greater else std_less)"

lemma side_lt_simps [simp]: "side_lt True = std_greater" "side_lt False = std_less"
  by (simp_all add: side_lt_def)

interpretation sides: matching_sides "side_lt (\<not> buy)" "side_lt buy" buy for buy
  by unfold_locales (auto simp: side_lt_def std_less_def std_greater_def split: if_splits)

section \<open>What the matching of lists does\<close>

text \<open>
  The volume that leaves each side is the volume filled; every fill is of positive volume when
  all orders are; a side keeps its orders in their order, the first of them reduced at most.
\<close>

definition filled :: "fill list \<Rightarrow> nat" where
  "filled fs = sum_list (map (\<lambda>(x, y, t). unat t) fs)"

lemma filled_simps [simp]:
  "filled [] = 0"
  "filled ((x, y, t) # fs) = unat t + filled fs"
  by (simp_all add: filled_def)

lemma match_lists_volume:
  "match_lists os ms = (os', ms', fs) \<Longrightarrow>
   volume_sum os = volume_sum os' + filled fs \<and> volume_sum ms = volume_sum ms' + filled fs"
proof (induction os ms arbitrary: os' ms' fs rule: match_lists.induct)
  case (3 x os y ms)
  show ?case
  proof (cases "matchPricePredicate y x")
    case False
    with "3.prems" show ?thesis by auto
  next
    case True
    let ?t = "min (od_volume y) (od_volume x)"
    from "3.prems" True obtain fs1 where
      m: "match_lists (reduce_front ?t (x # os)) (reduce_front ?t (y # ms)) = (os', ms', fs1)"
      and fs: "fs = (x, y, ?t) # fs1"
      by (auto simp: Let_def split: prod.splits)
    from "3.IH" [of ?t] True m
    have "volume_sum (reduce_front ?t (x # os)) = volume_sum os' + filled fs1"
      "volume_sum (reduce_front ?t (y # ms)) = volume_sum ms' + filled fs1" by auto
    moreover have "?t \<le> od_volume x" "?t \<le> od_volume y" by simp_all
    ultimately show ?thesis
      using volume_sum_reduce_front [of ?t x os] volume_sum_reduce_front [of ?t y ms] fs by simp
  qed
qed auto

text \<open>The rest of a queue after its front has been worked on.\<close>

definition front_rest :: "OrderInsertData list \<Rightarrow> OrderInsertData list \<Rightarrow> bool" where
  "front_rest os' os \<longleftrightarrow>
     (\<exists>gone rest. os = gone @ rest \<and>
       (os' = rest \<or> (\<exists>d r v. rest = d # r \<and> os' = d\<lparr>od_volume := v\<rparr> # r \<and> v \<le> od_volume d)))"

lemma front_restI:
  "os = gone @ rest \<Longrightarrow> os' = rest \<Longrightarrow> front_rest os' os"
  "os = gone @ d # r \<Longrightarrow> os' = d\<lparr>od_volume := v\<rparr> # r \<Longrightarrow> v \<le> od_volume d \<Longrightarrow> front_rest os' os"
  unfolding front_rest_def by blast+

lemma front_restE:
  assumes "front_rest os' os"
  obtains (all) gone where "os = gone @ os'"
  | (part) gone d r v where "os = gone @ d # r" "os' = d\<lparr>od_volume := v\<rparr> # r" "v \<le> od_volume d"
  using assms unfolding front_rest_def by blast

lemma front_rest_refl: "front_rest os os"
  by (rule front_restI(1) [of _ "[]"]) simp_all

lemma front_rest_Cons: "front_rest os' os \<Longrightarrow> front_rest os' (x # os)"
  by (erule front_restE) (auto intro: front_restI(1) [of _ "x # _"] front_restI(2) [of _ "x # _"])

lemma front_rest_reduced:
  assumes f: "front_rest os' (x\<lparr>od_volume := v\<rparr> # os)" and v: "v \<le> od_volume x"
  shows "front_rest os' (x # os)"
  using f
proof (cases rule: front_restE)
  case (all gone)
  then show ?thesis
    using v by (cases "gone") (auto intro: front_restI(2) [of _ "[]" x] front_rest_Cons front_restI(1))
next
  case (part gone d r w)
  show ?thesis
  proof (cases "gone")
    case Nil
    with part v have "os' = x\<lparr>od_volume := w\<rparr> # os" "w \<le> od_volume x" by auto
    then show ?thesis by (intro front_restI(2) [of _ "[]" x os]) auto
  next
    case (Cons a as)
    with part have "os = as @ d # r" by simp
    with part have "front_rest os' os" by (intro front_restI(2) [of _ as d r]) auto
    then show ?thesis by (rule front_rest_Cons)
  qed
qed

lemma front_rest_reduce:
  assumes "front_rest os' (reduce_front t (x # os))" and "t \<le> od_volume x"
  shows "front_rest os' (x # os)"
proof -
  from assms(2) have "od_volume x - t \<le> od_volume x" by (simp add: word_sub_le)
  with assms show ?thesis
    by (cases "od_volume x = t")
      (auto simp: reduce_front_def intro: front_rest_Cons front_rest_reduced)
qed

lemma match_lists_front_rest:
  "match_lists os ms = (os', ms', fs) \<Longrightarrow> front_rest os' os \<and> front_rest ms' ms"
proof (induction os ms arbitrary: os' ms' fs rule: match_lists.induct)
  case (3 x os y ms)
  show ?case
  proof (cases "matchPricePredicate y x")
    case False
    with "3.prems" show ?thesis by (auto simp: front_rest_refl)
  next
    case True
    let ?t = "min (od_volume y) (od_volume x)"
    from "3.prems" True obtain fs1 where
      m: "match_lists (reduce_front ?t (x # os)) (reduce_front ?t (y # ms)) = (os', ms', fs1)"
      by (auto simp: Let_def split: prod.splits)
    from "3.IH" [of ?t] True m
    have "front_rest os' (reduce_front ?t (x # os))" "front_rest ms' (reduce_front ?t (y # ms))" by auto
    then show ?thesis using front_rest_reduce [of os' ?t x os] front_rest_reduce [of ms' ?t y ms] by simp
  qed
qed (auto simp: front_rest_refl)

text \<open>
  Every fill is between two orders that match, of the smaller of their volumes, and the orders
  named are those of the two sides up to the volume.
\<close>

definition from_side :: "OrderInsertData list \<Rightarrow> OrderInsertData \<Rightarrow> bool" where
  "from_side os x \<longleftrightarrow> (\<exists>d \<in> set os. \<exists>v \<le> od_volume d. x = d\<lparr>od_volume := v\<rparr>)"

lemma from_side_reduce:
  assumes "from_side (reduce_front t (x # os)) z" and t: "t \<le> od_volume x"
  shows "from_side (x # os) z"
proof -
  from t have le: "od_volume x - t \<le> od_volume x" by (simp add: word_sub_le)
  from assms show ?thesis
    using order_trans [OF _ le]
    by (auto simp: from_side_def reduce_front_def split: if_splits)
qed

lemma from_side_head: "from_side (x # os) x"
  unfolding from_side_def by (intro bexI [of _ x] exI [of _ "od_volume x"]) auto

lemma match_lists_fills:
  "match_lists os ms = (os', ms', fs) \<Longrightarrow> (x, y, t) \<in> set fs \<Longrightarrow>
   matchPricePredicate y x \<and> t = min (od_volume y) (od_volume x) \<and> from_side os x \<and> from_side ms y"
proof (induction os ms arbitrary: os' ms' fs rule: match_lists.induct)
  case (3 a os b ms)
  show ?case
  proof (cases "matchPricePredicate b a")
    case False
    with "3.prems" show ?thesis by auto
  next
    case True
    let ?t = "min (od_volume b) (od_volume a)"
    from "3.prems"(1) True obtain fs1 where
      m: "match_lists (reduce_front ?t (a # os)) (reduce_front ?t (b # ms)) = (os', ms', fs1)"
      and fs: "fs = (a, b, ?t) # fs1"
      by (auto simp: Let_def split: prod.splits)
    show ?thesis
    proof (cases "(x, y, t) \<in> set fs1")
      case False
      with "3.prems"(2) fs True show ?thesis by (auto simp: from_side_head)
    next
      case in1: True
      from "3.IH" [of ?t, OF _ refl m in1] True
      have "matchPricePredicate y x \<and> t = min (od_volume y) (od_volume x)"
        "from_side (reduce_front ?t (a # os)) x" "from_side (reduce_front ?t (b # ms)) y" by auto
      then show ?thesis using from_side_reduce [of ?t a os x] from_side_reduce [of ?t b ms y] by simp
    qed
  qed
qed auto

end
