(* ===== verification/MatchingEngine.thy ===== *)
theory MatchingEngine
  imports Matching
begin

text \<open>
  \<open>MatchingEngine\<close>: the two sides of one instrument and the
  three order requests. Messages are returned in the order they are sent, each with the endpoint
  it is sent to. The mutex is held for the whole of a request, so a request is one step
  (theory \<open>EngineThreads\<close> justifies this for any number of threads).
\<close>

section \<open>Messages\<close>

datatype Message = MsgOrderReply OrderReply | MsgErrorReply ErrorReply | MsgTrade Trade

text \<open>The three overloads of \<open>CreateAndSendMessage\<close>: the text handed to the channel.\<close>

fun CreateAndSendMessage :: "Message \<Rightarrow> 'ep \<Rightarrow> string \<times> 'ep" where
  "CreateAndSendMessage (MsgOrderReply r) ep = (msg_OrderReply r, ep)"
| "CreateAndSendMessage (MsgTrade t) ep = (msg_Trade t, ep)"
| "CreateAndSendMessage (MsgErrorReply e) ep = (msg_ErrorReply e, ep)"

section \<open>The engine\<close>

record MatchingEngine =
  me_Bids :: OrderBook
  me_Asks :: OrderBook

definition MatchingEngine_ctor :: MatchingEngine where
  "MatchingEngine_ctor = \<lparr>me_Bids = [], me_Asks = []\<rparr>"

text \<open>\<open>CheckMatch\<close>: the requester's side against the other one; the trades go to the requester.\<close>

definition MatchingEngine_CheckMatch ::
  "bool \<Rightarrow> 'ep \<Rightarrow> MatchingEngine \<Rightarrow> MatchingEngine \<times> (Message \<times> 'ep) list" where
  "MatchingEngine_CheckMatch buy ep e =
     (if buy then
        (let (asks, bids, ts) = ExecuteOrder std_less std_greater (me_Asks e) (me_Bids e)
         in (e\<lparr>me_Asks := asks, me_Bids := bids\<rparr>, map (\<lambda>t. (MsgTrade t, ep)) ts))
      else
        (let (bids, asks, ts) = ExecuteOrder std_greater std_less (me_Bids e) (me_Asks e)
         in (e\<lparr>me_Bids := bids, me_Asks := asks\<rparr>, map (\<lambda>t. (MsgTrade t, ep)) ts)))"

definition MatchingEngine_InsertOrder ::
  "OrderInsertData \<Rightarrow> MatchingEngine \<Rightarrow> MatchingEngine \<times> OrderInsertData option" where
  "MatchingEngine_InsertOrder d e =
     (if od_isBuySide d
      then (let (b, r) = OrderBook_Insert std_greater d (me_Bids e) in (e\<lparr>me_Bids := b\<rparr>, r))
      else (let (b, r) = OrderBook_Insert std_less d (me_Asks e) in (e\<lparr>me_Asks := b\<rparr>, r)))"

definition MatchingEngine_OrderInsert ::
  "OrderInsertData \<Rightarrow> 'ep \<Rightarrow> MatchingEngine \<Rightarrow> MatchingEngine \<times> (Message \<times> 'ep) list" where
  "MatchingEngine_OrderInsert d ep e =
     (case MatchingEngine_InsertOrder d e of
        (e1, Some inserted) \<Rightarrow>
          let (e2, ms) = MatchingEngine_CheckMatch (od_isBuySide d) ep e1
          in (e2, (MsgOrderReply (OrderReply_ctor (od_id inserted) (od_clientId inserted)), ep) # ms)
      | (e1, None) \<Rightarrow>
          (e1, [(MsgErrorReply (ErrorReply_ctor (od_clientId d) ''Failed to insert order''), ep)]))"

definition MatchingEngine_Amend :: "OrderAmendData \<Rightarrow> MatchingEngine \<Rightarrow> MatchingEngine \<times> bool" where
  "MatchingEngine_Amend a e =
     (if od_isBuySide a
      then (let (b, r) = OrderBook_Amend std_greater a (me_Bids e) in (e\<lparr>me_Bids := b\<rparr>, r))
      else (let (b, r) = OrderBook_Amend std_less a (me_Asks e) in (e\<lparr>me_Asks := b\<rparr>, r)))"

definition MatchingEngine_OrderAmend ::
  "OrderAmendData \<Rightarrow> 'ep \<Rightarrow> MatchingEngine \<Rightarrow> MatchingEngine \<times> (Message \<times> 'ep) list" where
  "MatchingEngine_OrderAmend a ep e =
     (let (e1, amended) = MatchingEngine_Amend a e
      in if amended then
           (let (e2, ms) = MatchingEngine_CheckMatch (od_isBuySide a) ep e1
            in (e2, (MsgOrderReply (OrderReply_ctor (od_id a) (od_clientId a)), ep) # ms))
         else (e1, [(MsgErrorReply (ErrorReply_ctor (od_clientId a) ''Failed to amend order''), ep)]))"

definition MatchingEngine_Cancel :: "OrderCancelData \<Rightarrow> MatchingEngine \<Rightarrow> MatchingEngine \<times> bool" where
  "MatchingEngine_Cancel c e =
     (if oc_isBuySide c
      then (let (b, r) = OrderBook_Cancel std_greater c (me_Bids e) in (e\<lparr>me_Bids := b\<rparr>, r))
      else (let (b, r) = OrderBook_Cancel std_less c (me_Asks e) in (e\<lparr>me_Asks := b\<rparr>, r)))"

definition MatchingEngine_OrderCancel ::
  "OrderCancelData \<Rightarrow> 'ep \<Rightarrow> MatchingEngine \<Rightarrow> MatchingEngine \<times> (Message \<times> 'ep) list" where
  "MatchingEngine_OrderCancel c ep e =
     (let (e1, cancelled) = MatchingEngine_Cancel c e
      in if cancelled
         then (e1, [(MsgOrderReply (OrderReply_ctor (oc_id c) (oc_clientId c)), ep)])
         else (e1, [(MsgErrorReply (ErrorReply_ctor (oc_clientId c) ''Failed to cancel order''), ep)]))"

text \<open>
  \<open>GetOrderBook\<close> walks both sides, the asks first; its callback returns true on every order.
  Nothing is sent. Returned: the levels visited.
\<close>

definition MatchingEngine_GetOrderBook :: "MatchingEngine \<Rightarrow> OrderLevel list" where
  "MatchingEngine_GetOrderBook e =
     (let printOrderLevel = OrderLevel_GetLevels (\<lambda>d. True)
      in OrderBook_GetBook printOrderLevel (me_Asks e) @ OrderBook_GetBook printOrderLevel (me_Bids e))"

section \<open>Sides and invariants of the engine\<close>

definition side :: "bool \<Rightarrow> MatchingEngine \<Rightarrow> OrderBook" where
  "side buy e = (if buy then me_Bids e else me_Asks e)"

definition side_queue :: "bool \<Rightarrow> MatchingEngine \<Rightarrow> u64 \<Rightarrow> OrderInsertData list" where
  "side_queue buy e = queue_at (side_lt buy) (side buy e)"

text \<open>Every order is on its side and at its price; \<open>engine_full\<close>: and no level is empty.\<close>

definition engine_ok :: "MatchingEngine \<Rightarrow> bool" where
  "engine_ok e \<longleftrightarrow> book_ok std_greater True (me_Bids e) \<and> book_ok std_less False (me_Asks e)"

definition engine_full :: "MatchingEngine \<Rightarrow> bool" where
  "engine_full e \<longleftrightarrow> no_empty (me_Bids e) \<and> no_empty (me_Asks e)"

definition uncrossed :: "MatchingEngine \<Rightarrow> bool" where
  "uncrossed e \<longleftrightarrow>
     (\<forall>b \<in> set (orders (me_Bids e)). \<forall>a \<in> set (orders (me_Asks e)). od_price b < od_price a)"

lemma engine_ok_ctor: "engine_ok MatchingEngine_ctor" "engine_full MatchingEngine_ctor" "uncrossed MatchingEngine_ctor"
  by (simp_all add: engine_ok_def engine_full_def uncrossed_def MatchingEngine_ctor_def)

section \<open>The requests over a side\<close>

text \<open>The operations again with the side as an argument, so that proofs need not split on it.\<close>

definition set_side :: "bool \<Rightarrow> OrderBook \<Rightarrow> MatchingEngine \<Rightarrow> MatchingEngine" where
  "set_side buy b e = (if buy then e\<lparr>me_Bids := b\<rparr> else e\<lparr>me_Asks := b\<rparr>)"

lemma side_set_side [simp]: "side x (set_side y b e) = (if x = y then b else side x e)"
  by (simp add: side_def set_side_def)

lemma set_side_set_side [simp]: "set_side x b (set_side x c e) = set_side x b e"
  by (simp add: set_side_def)

lemma set_side_self [simp]: "set_side x (side x e) e = e"
  by (simp add: set_side_def side_def)

lemma engine_ok_side: "engine_ok e \<longleftrightarrow> (\<forall>x. book_ok (side_lt x) x (side x e))"
  by (auto simp: engine_ok_def side_def all_bool_eq)

lemma engine_okD: "engine_ok e \<Longrightarrow> book_ok (side_lt x) x (side x e)"
  by (simp add: engine_ok_side)

lemma engine_full_side: "engine_full e \<longleftrightarrow> (\<forall>x. no_empty (side x e))"
  by (auto simp: engine_full_def side_def all_bool_eq)

lemma engine_fullD: "engine_full e \<Longrightarrow> no_empty (side x e)"
  by (simp add: engine_full_side)

lemma engine_ok_set: "engine_ok e \<Longrightarrow> book_ok (side_lt x) x b \<Longrightarrow> engine_ok (set_side x b e)"
  by (simp add: engine_ok_side)

lemma engine_full_set: "engine_full e \<Longrightarrow> no_empty b \<Longrightarrow> engine_full (set_side x b e)"
  by (simp add: engine_full_side)

lemma CheckMatch_eq:
  "MatchingEngine_CheckMatch buy ep e =
     (case ExecuteOrder (side_lt (\<not> buy)) (side_lt buy) (side (\<not> buy) e) (side buy e) of
        (x, y, ts) \<Rightarrow> (set_side buy y (set_side (\<not> buy) x e), map (\<lambda>t. (MsgTrade t, ep)) ts))"
  by (auto simp: MatchingEngine_CheckMatch_def side_def set_side_def split: prod.split)

lemma InsertOrder_eq:
  "MatchingEngine_InsertOrder d e =
     (set_side (od_isBuySide d)
        (fst (OrderBook_Insert (side_lt (od_isBuySide d)) d (side (od_isBuySide d) e))) e, Some d)"
proof -
  have "snd (OrderBook_Insert (side_lt (od_isBuySide d)) d (side (od_isBuySide d) e)) = Some d"
    by (rule sides.my.Insert_result)
  then show ?thesis
    by (auto simp: MatchingEngine_InsertOrder_def side_def set_side_def Let_def split: prod.split)
qed

definition inserted :: "OrderInsertData \<Rightarrow> MatchingEngine \<Rightarrow> MatchingEngine" where
  "inserted d e = fst (MatchingEngine_InsertOrder d e)"

definition insert_reply :: "OrderInsertData \<Rightarrow> Message" where
  "insert_reply d = MsgOrderReply (OrderReply_ctor (od_id d) (od_clientId d))"

lemma OrderInsert_eq:
  "MatchingEngine_OrderInsert d ep e =
     (case MatchingEngine_CheckMatch (od_isBuySide d) ep (inserted d e) of
        (e2, ms) \<Rightarrow> (e2, (insert_reply d, ep) # ms))"
  by (simp add: MatchingEngine_OrderInsert_def InsertOrder_eq inserted_def insert_reply_def)

lemma engine_Amend_eq:
  "MatchingEngine_Amend a e =
     (set_side (od_isBuySide a) (fst (OrderBook_Amend (side_lt (od_isBuySide a)) a (side (od_isBuySide a) e))) e,
      snd (OrderBook_Amend (side_lt (od_isBuySide a)) a (side (od_isBuySide a) e)))"
  by (auto simp: MatchingEngine_Amend_def side_def set_side_def Let_def split: prod.split)

lemma engine_Cancel_eq:
  "MatchingEngine_Cancel c e =
     (set_side (oc_isBuySide c) (fst (OrderBook_Cancel (side_lt (oc_isBuySide c)) c (side (oc_isBuySide c) e))) e,
      snd (OrderBook_Cancel (side_lt (oc_isBuySide c)) c (side (oc_isBuySide c) e)))"
  by (auto simp: MatchingEngine_Cancel_def side_def set_side_def Let_def split: prod.split)

section \<open>The invariants\<close>

lemma inserted_ok: "engine_ok e \<Longrightarrow> engine_ok (inserted d e)"
  by (auto simp: inserted_def InsertOrder_eq intro!: engine_ok_set sides.my.Insert_ok engine_okD)

lemma inserted_full: "engine_full e \<Longrightarrow> engine_full (inserted d e)"
  by (auto simp: inserted_def InsertOrder_eq intro!: engine_full_set sides.my.Insert_no_empty engine_fullD)

lemma CheckMatch_ok:
  assumes "engine_ok e"
  shows "engine_ok (fst (MatchingEngine_CheckMatch buy ep e))"
proof -
  obtain x y ts where x: "ExecuteOrder (side_lt (\<not> buy)) (side_lt buy) (side (\<not> buy) e) (side buy e) = (x, y, ts)"
    by (metis prod_cases3)
  from sides.ExecuteOrder_ok [OF engine_okD [OF assms] engine_okD [OF assms] x] assms x
  show ?thesis by (auto simp: CheckMatch_eq intro!: engine_ok_set)
qed

lemma sides_okI: "engine_ok e \<Longrightarrow> engine_full e \<Longrightarrow> sides.sides_ok buy (side (\<not> buy) e) (side buy e)"
  by (simp add: sides.sides_ok_def engine_okD engine_fullD)

text \<open>What \<open>CheckMatch\<close> does to an engine without empty levels.\<close>

lemma CheckMatch_refines:
  assumes "engine_ok e" "engine_full e" and "MatchingEngine_CheckMatch buy ep e = (e', ms)"
  shows "engine_full e' \<and>
    (\<exists>fs. match_lists (orders (side (\<not> buy) e)) (orders (side buy e)) =
            (orders (side (\<not> buy) e'), orders (side buy e'), fs) \<and>
          ms = map (\<lambda>t. (MsgTrade t, ep)) (trades_of fs))"
proof -
  obtain x y ts where x: "ExecuteOrder (side_lt (\<not> buy)) (side_lt buy) (side (\<not> buy) e) (side buy e) = (x, y, ts)"
    by (metis prod_cases3)
  from sides.ExecuteOrder_refines [OF sides_okI [OF assms(1,2)] x] assms(2,3) x show ?thesis
    by (auto simp: CheckMatch_eq sides.sides_ok_def intro!: engine_full_set)
qed

lemma CheckMatch_uncrossed:
  assumes "engine_ok e" "engine_full e"
  shows "uncrossed (fst (MatchingEngine_CheckMatch buy ep e))"
proof -
  obtain x y ts where x: "ExecuteOrder (side_lt (\<not> buy)) (side_lt buy) (side (\<not> buy) e) (side buy e) = (x, y, ts)"
    by (metis prod_cases3)
  from sides.ExecuteOrder_ok [OF engine_okD [OF assms(1)] engine_okD [OF assms(1)] x]
  have b: "\<And>d. d \<in> set (orders y) \<Longrightarrow> od_isBuySide d = buy" using sides.my.orders_side by blast
  from sides.ExecuteOrder_uncrossed [OF sides_okI [OF assms] x] b
  have "\<And>a d. a \<in> set (orders x) \<Longrightarrow> d \<in> set (orders y) \<Longrightarrow>
      (if buy then od_price d < od_price a else od_price a < od_price d)"
    by (force simp: matchPricePredicate_def not_le)
  with x show ?thesis
    by (cases buy) (auto simp: CheckMatch_eq uncrossed_def set_side_def)
qed

lemma CheckMatch_to_requester:
  "(m, ep') \<in> set (snd (MatchingEngine_CheckMatch buy ep e)) \<Longrightarrow> ep' = ep \<and> (\<exists>t. m = MsgTrade t)"
  by (auto simp: CheckMatch_eq split: prod.splits)

end
