(* ===== verification/OrderEventProcessor.thy ===== *)
theory OrderEventProcessor
  imports MatchingEngine
begin

text \<open>
  \<open>OrderEventProcessor\<close>: a received buffer is parsed, read as a request and handed to the
  \<open>IOrderHandler\<close> interface, which is a record of its four functions over an arbitrary state.
  A handler call returns the new state and the messages sent; an exception leaves the
  function before the handler has been called, so nothing has changed then.
\<close>

section \<open>The interface of the handlers\<close>

record ('s, 'ep) IOrderHandler =
  h_HandleOrderInsert :: "OrderInsertData \<Rightarrow> 'ep \<Rightarrow> 's \<Rightarrow> 's \<times> (Message \<times> 'ep) list"
  h_HandleOrderAmend :: "OrderAmendData \<Rightarrow> 'ep \<Rightarrow> 's \<Rightarrow> 's \<times> (Message \<times> 'ep) list"
  h_HandleOrderCancel :: "OrderCancelData \<Rightarrow> 'ep \<Rightarrow> 's \<Rightarrow> 's \<times> (Message \<times> 'ep) list"
  h_GetOrderBook :: "string \<Rightarrow> 'ep \<Rightarrow> 's \<Rightarrow> 's \<times> (Message \<times> 'ep) list"

section \<open>Operations\<close>

text \<open>A request that fails its validation is logged and dropped.\<close>

definition Processor_HandleOrderInsert ::
  "'j json_api \<Rightarrow> ('s, 'ep) IOrderHandler \<Rightarrow> int \<Rightarrow> 'j \<Rightarrow> 'ep \<Rightarrow> 's \<Rightarrow> ('s \<times> (Message \<times> 'ep) list) throws" where
  "Processor_HandleOrderInsert J H now data ep s =
     bind_e (OrderDataBase_SetData J now data OrderInsertData_default) (\<lambda>(d, ok).
       Inr (if ok then h_HandleOrderInsert H d ep s else (s, [])))"

definition Processor_HandleOrderCancel ::
  "'j json_api \<Rightarrow> ('s, 'ep) IOrderHandler \<Rightarrow> 'j \<Rightarrow> 'ep \<Rightarrow> 's \<Rightarrow> ('s \<times> (Message \<times> 'ep) list) throws" where
  "Processor_HandleOrderCancel J H data ep s =
     bind_e (OrderCancelData_SetData J data OrderCancelData_default) (\<lambda>(c, ok).
       Inr (if ok then h_HandleOrderCancel H c ep s else (s, [])))"

definition Processor_HandleOrderAmend ::
  "'j json_api \<Rightarrow> ('s, 'ep) IOrderHandler \<Rightarrow> int \<Rightarrow> 'j \<Rightarrow> 'ep \<Rightarrow> 's \<Rightarrow> ('s \<times> (Message \<times> 'ep) list) throws" where
  "Processor_HandleOrderAmend J H now data ep s =
     bind_e (OrderAmendData_SetData J now data OrderAmendData_default) (\<lambda>(a, ok).
       Inr (if ok then h_HandleOrderAmend H a ep s else (s, [])))"

definition Processor_GetOrderBook ::
  "'j json_api \<Rightarrow> ('s, 'ep) IOrderHandler \<Rightarrow> 'j \<Rightarrow> 'ep \<Rightarrow> 's \<Rightarrow> ('s \<times> (Message \<times> 'ep) list) throws" where
  "Processor_GetOrderBook J H data ep s =
     bind_e (at_string J data ''Instrument'') (\<lambda>i. Inr (h_GetOrderBook H (c_str i) ep s))"

definition Processor_Process ::
  "'j json_api \<Rightarrow> ('s, 'ep) IOrderHandler \<Rightarrow> int \<Rightarrow> string \<Rightarrow> 'ep \<Rightarrow> 's \<Rightarrow> ('s \<times> (Message \<times> 'ep) list) throws" where
  "Processor_Process J H now buf ep s =
     (if p_write J buf = 0 then Inr (s, [])
      else
        bind_e (p_release J buf) (\<lambda>root.
        bind_e (j_at J root ''Action'') (\<lambda>action.
        bind_e (j_at J root ''Data'') (\<lambda>data.
        bind_e (j_as_string J action) (\<lambda>a.
          if a = ''Insert'' then Processor_HandleOrderInsert J H now data ep s
          else if a = ''Cancel'' then Processor_HandleOrderCancel J H data ep s
          else if a = ''Amend'' then Processor_HandleOrderAmend J H now data ep s
          else if a = ''GetBook'' then Processor_GetOrderBook J H data ep s
          else Inr (s, []))))))"

section \<open>What a buffer can lead to\<close>

lemma HandleOrderInsert_cases:
  "Processor_HandleOrderInsert J H now data ep s = Inr r \<Longrightarrow>
   r = (s, []) \<or> (\<exists>d. OrderDataBase_SetData J now data OrderInsertData_default = Inr (d, True) \<and>
                    r = h_HandleOrderInsert H d ep s)"
  by (auto simp: Processor_HandleOrderInsert_def bind_e_Inr_iff split: if_splits)

lemma HandleOrderAmend_cases:
  "Processor_HandleOrderAmend J H now data ep s = Inr r \<Longrightarrow>
   r = (s, []) \<or> (\<exists>a. OrderAmendData_SetData J now data OrderAmendData_default = Inr (a, True) \<and>
                    r = h_HandleOrderAmend H a ep s)"
  by (auto simp: Processor_HandleOrderAmend_def bind_e_Inr_iff split: if_splits)

lemma HandleOrderCancel_cases:
  "Processor_HandleOrderCancel J H data ep s = Inr r \<Longrightarrow>
   r = (s, []) \<or> (\<exists>c. OrderCancelData_SetData J data OrderCancelData_default = Inr (c, True) \<and>
                    r = h_HandleOrderCancel H c ep s)"
  by (auto simp: Processor_HandleOrderCancel_def bind_e_Inr_iff split: if_splits)

lemma GetOrderBook_cases:
  "Processor_GetOrderBook J H data ep s = Inr r \<Longrightarrow> \<exists>i. r = h_GetOrderBook H i ep s"
  by (auto simp: Processor_GetOrderBook_def bind_e_Inr_iff)

lemma Process_branches:
  assumes "Processor_Process J H now buf ep s = Inr r"
  obtains (nothing) "r = (s, [])"
  | (insert) data where "Processor_HandleOrderInsert J H now data ep s = Inr r"
  | (cancel) data where "Processor_HandleOrderCancel J H data ep s = Inr r"
  | (amend) data where "Processor_HandleOrderAmend J H now data ep s = Inr r"
  | (book) data where "Processor_GetOrderBook J H data ep s = Inr r"
proof (cases "p_write J buf = 0")
  case True
  show ?thesis by (rule nothing) (use assms True in \<open>simp add: Processor_Process_def\<close>)
next
  case False
  with assms obtain a data where d:
    "(if a = ''Insert'' then Processor_HandleOrderInsert J H now data ep s
      else if a = ''Cancel'' then Processor_HandleOrderCancel J H data ep s
      else if a = ''Amend'' then Processor_HandleOrderAmend J H now data ep s
      else if a = ''GetBook'' then Processor_GetOrderBook J H data ep s
      else Inr (s, [])) = Inr r"
    unfolding Processor_Process_def by (auto simp only: bind_e_Inr_iff if_False)
  consider "a = ''Insert''" | "a = ''Cancel''" | "a = ''Amend''" | "a = ''GetBook''"
    | "a \<noteq> ''Insert''" "a \<noteq> ''Cancel''" "a \<noteq> ''Amend''" "a \<noteq> ''GetBook''" by blast
  then show ?thesis
  proof cases
    case 5
    show ?thesis by (rule nothing) (use d 5 in simp)
  qed (use d insert cancel amend book in simp_all)
qed

text \<open>
  A buffer is dropped, or it leads to one call of the handler, with a request read from it and
  validated; an insert and an amend carry the time of their reception as their identifier.
\<close>

lemma Process_cases:
  assumes "Processor_Process J H now buf ep s = Inr r"
  obtains (nothing) "r = (s, [])"
  | (insert) d where "OrderDataBase_Validate d" "od_id d = to_string now" "r = h_HandleOrderInsert H d ep s"
  | (cancel) c where "OrderCancelData_Validate c" "r = h_HandleOrderCancel H c ep s"
  | (amend) a where "OrderAmendData_Validate a" "od_id a = to_string now" "r = h_HandleOrderAmend H a ep s"
  | (book) i where "r = h_GetOrderBook H i ep s"
  using assms
proof (cases rule: Process_branches)
  case nothing
  then show thesis by (rule that)
next
  case (insert data)
  from HandleOrderInsert_cases [OF insert] show thesis
    using that(1,2) by (auto simp: OrderDataBase_SetData_Inr)
next
  case (cancel data)
  from HandleOrderCancel_cases [OF cancel] show thesis
  proof (elim disjE exE conjE)
    fix c assume "OrderCancelData_SetData J data OrderCancelData_default = Inr (c, True)"
      and r: "r = h_HandleOrderCancel H c ep s"
    then show thesis using that(3) [OF _ r] cancel_SetData_verdict by metis
  qed (rule that(1))
next
  case (amend data)
  from HandleOrderAmend_cases [OF amend] show thesis
  proof (elim disjE exE conjE)
    fix a assume "OrderAmendData_SetData J now data OrderAmendData_default = Inr (a, True)"
      and r: "r = h_HandleOrderAmend H a ep s"
    then show thesis using that(4) [OF _ _ r] amend_SetData_verdict amend_SetData_id by metis
  qed (rule that(1))
next
  case (book data)
  from GetOrderBook_cases [OF book] show thesis using that(5) by blast
qed

section \<open>What the processor keeps, whatever the handler\<close>

text \<open>
  The handlers promise an invariant of their state and that they answer the sender only; an
  insert need promise it only for a validated order that carries the identifier it was given.
\<close>

locale order_handler =
  fixes H :: "('s, 'ep) IOrderHandler"
    and inv :: "int \<Rightarrow> 's \<Rightarrow> bool"
  assumes insert_inv: "inv now s \<Longrightarrow> OrderDataBase_Validate d \<Longrightarrow> od_id d = to_string now \<Longrightarrow>
      inv now (fst (h_HandleOrderInsert H d ep s))"
    and amend_inv: "inv now s \<Longrightarrow> inv now (fst (h_HandleOrderAmend H a ep s))"
    and cancel_inv: "inv now s \<Longrightarrow> inv now (fst (h_HandleOrderCancel H c ep s))"
    and book_inv: "inv now s \<Longrightarrow> inv now (fst (h_GetOrderBook H i ep s))"
    and insert_to: "(m, x) \<in> set (snd (h_HandleOrderInsert H d ep s)) \<Longrightarrow> x = ep"
    and amend_to: "(m, x) \<in> set (snd (h_HandleOrderAmend H a ep s)) \<Longrightarrow> x = ep"
    and cancel_to: "(m, x) \<in> set (snd (h_HandleOrderCancel H c ep s)) \<Longrightarrow> x = ep"
    and book_to: "(m, x) \<in> set (snd (h_GetOrderBook H i ep s)) \<Longrightarrow> x = ep"
begin

lemma process_inv:
  assumes inv: "inv now s" and p: "Processor_Process J H now buf ep s = Inr (s', ms)"
  shows "inv now s'"
  using p
proof (cases rule: Process_cases)
  case (insert d)
  with insert_inv [OF inv, of d ep] show ?thesis by (metis fst_conv)
next
  case (cancel c)
  with cancel_inv [OF inv, of c ep] show ?thesis by (metis fst_conv)
next
  case (amend a)
  with amend_inv [OF inv, of a ep] show ?thesis by (metis fst_conv)
next
  case (book i)
  with book_inv [OF inv, of i ep] show ?thesis by (metis fst_conv)
qed (use inv in simp)

lemma process_to_sender:
  assumes p: "Processor_Process J H now buf ep s = Inr (s', ms)" and m: "(m, x) \<in> set ms"
  shows "x = ep"
  using p
proof (cases rule: Process_cases)
  case (insert d)
  with insert_to [of m x d ep s] m show ?thesis by (metis snd_conv)
next
  case (cancel c)
  with cancel_to [of m x c ep s] m show ?thesis by (metis snd_conv)
next
  case (amend a)
  with amend_to [of m x a ep s] m show ?thesis by (metis snd_conv)
next
  case (book i)
  with book_to [of m x i ep s] m show ?thesis by (metis snd_conv)
qed (use m in simp)

end

end
