(* ===== verification/EngineProps.thy ===== *)
theory EngineProps
  imports MatchingEngine
begin

text \<open>
  What the requests of a matching engine do: the matching after an insert and an amend, the
  accounting of volumes, who trades, what a cancel removes, what an amend moves, and which
  messages are sent.
\<close>

section \<open>Sample engines\<close>

definition sample_order :: "bool \<Rightarrow> u64 \<Rightarrow> u64 \<Rightarrow> string \<Rightarrow> OrderInsertData" where
  "sample_order b p v i = OrderDataBase_ctor ''A'' ''X'' p v ''Limit'' b 0 0 i ''C''"

definition sample_amend :: "bool \<Rightarrow> u64 \<Rightarrow> u64 \<Rightarrow> u64 \<Rightarrow> string \<Rightarrow> OrderAmendData" where
  "sample_amend b p np nv i = OrderAmendData_ctor ''A'' ''X'' p np 0 nv ''Limit'' b 0 0 i ''C''"

definition sample_engine :: MatchingEngine where
  "sample_engine =
     \<lparr>me_Bids = [(99, [sample_order True 99 5 ''b1'']), (98, [sample_order True 98 7 ''b2''])],
      me_Asks = [(101, [sample_order False 101 4 ''a1'', sample_order False 101 6 ''a2'']),
                 (103, [sample_order False 103 2 ''a3''])]\<rparr>"

lemmas sample_simps = sample_order_def sample_amend_def sample_engine_def OrderDataBase_ctor_def
  OrderAmendData_ctor_def side_def std_greater_def std_less_def

lemma sample_ok: "engine_ok sample_engine" "engine_full sample_engine" "uncrossed sample_engine"
  by (simp_all add: engine_ok_def engine_full_def uncrossed_def sample_simps)

lemma sample_order_fields [simp]:
  "od_id (sample_order b p v i) = i" "od_price (sample_order b p v i) = p"
  "od_volume (sample_order b p v i) = v" "od_isBuySide (sample_order b p v i) = b"
  "(sample_order b p v i)\<lparr>od_volume := w\<rparr> = sample_order b p w i"
  "(sample_order b p v i)\<lparr>od_price := q\<rparr> = sample_order b q v i"
  by (simp_all add: sample_order_def OrderDataBase_ctor_def)

lemma sample_amend_fields [simp]:
  "od_id (sample_amend b p np nv i) = i" "od_price (sample_amend b p np nv i) = p"
  "od_newPrice (sample_amend b p np nv i) = np" "od_newVolume (sample_amend b p np nv i) = nv"
  "od_isBuySide (sample_amend b p np nv i) = b"
  by (simp_all add: sample_amend_def OrderAmendData_ctor_def)

lemma sample_queues:
  "side_queue False sample_engine 101 = [sample_order False 101 4 ''a1'', sample_order False 101 6 ''a2'']"
  "side_queue True sample_engine 98 = [sample_order True 98 7 ''b2'']"
  by (simp_all add: side_queue_def queue_at_def key_equiv_def side_def std_greater_def std_less_def
      sample_engine_def)

lemma sample_levels:
  "smap_find (side_lt True) 100 (side True sample_engine) = None"
  "smap_find (side_lt True) 99 (side True sample_engine) = Some [sample_order True 99 5 ''b1'']"
  by (simp_all add: key_equiv_def side_def std_greater_def sample_engine_def)

section \<open>Inserting an order\<close>

lemma insert_uncrossed_eq:
  "fst (MatchingEngine_OrderInsert d ep e) =
     fst (MatchingEngine_CheckMatch (od_isBuySide d) ep (inserted d e))"
  by (simp add: OrderInsert_eq split: prod.split)

text \<open>
  C4: After an insert into an engine without an empty level no bid reaches the price of an ask,
  and there is again no empty level. (A cancel can leave an empty level behind.)
\<close>

theorem insert_uncrossed:
  assumes "engine_ok e" and "engine_full e"
  shows "uncrossed (fst (MatchingEngine_OrderInsert d ep e)) \<and> engine_full (fst (MatchingEngine_OrderInsert d ep e))"
proof -
  obtain e' ms where c: "MatchingEngine_CheckMatch (od_isBuySide d) ep (inserted d e) = (e', ms)" by fastforce
  from CheckMatch_refines [OF inserted_ok [OF assms(1)] inserted_full [OF assms(2)] c]
    CheckMatch_uncrossed [OF inserted_ok [OF assms(1)] inserted_full [OF assms(2)], of "od_isBuySide d" ep d]
  show ?thesis by (simp add: insert_uncrossed_eq c)
qed

theorem insert_uncrossed_witness:
  "uncrossed (fst (MatchingEngine_OrderInsert (sample_order True 102 15 ''b3'') (0::nat) sample_engine))"
  by (rule insert_uncrossed [OF sample_ok(1,2), THEN conjunct1])

lemma inserted_side:
  "side x (inserted d e) =
     (if x = od_isBuySide d then fst (OrderBook_Insert (side_lt x) d (side x e)) else side x e)"
  by (simp add: inserted_def InsertOrder_eq)

lemma insert_matching:
  assumes "engine_ok e" and "engine_full e" and "MatchingEngine_OrderInsert d ep e = (e', ms)"
  obtains fs where
    "match_lists (orders (side (\<not> od_isBuySide d) e)) (orders (side (od_isBuySide d) (inserted d e))) =
       (orders (side (\<not> od_isBuySide d) e'), orders (side (od_isBuySide d) e'), fs)"
    and "ms = (insert_reply d, ep) # map (\<lambda>t. (MsgTrade t, ep)) (trades_of fs)"
    and "engine_full e'"
proof -
  obtain ms' where c: "MatchingEngine_CheckMatch (od_isBuySide d) ep (inserted d e) = (e', ms')"
    and ms: "ms = (insert_reply d, ep) # ms'"
    using assms(3) by (auto simp: OrderInsert_eq split: prod.splits)
  have s: "side (\<not> od_isBuySide d) (inserted d e) = side (\<not> od_isBuySide d) e"
    by (simp add: inserted_side)
  from CheckMatch_refines [OF inserted_ok [OF assms(1)] inserted_full [OF assms(2)] c] s ms
  show thesis by (auto intro: that)
qed

text \<open>
  Inserting an order is the matching of two lists: the orders of the other side against
  those of the order's side with the order in it. The requester gets the reply and then two
  trades for each fill, in the order of the fills.
\<close>

theorem insert_refines:
  assumes "engine_ok e" and "engine_full e"
  shows "\<exists>e' fs.
    MatchingEngine_OrderInsert d ep e =
      (e', (insert_reply d, ep) # map (\<lambda>t. (MsgTrade t, ep)) (trades_of fs)) \<and>
    match_lists (orders (side (\<not> od_isBuySide d) e))
                (orders (fst (OrderBook_Insert (side_lt (od_isBuySide d)) d (side (od_isBuySide d) e)))) =
      (orders (side (\<not> od_isBuySide d) e'), orders (side (od_isBuySide d) e'), fs)"
proof -
  obtain e' ms where r: "MatchingEngine_OrderInsert d ep e = (e', ms)" by fastforce
  from insert_matching [OF assms r] obtain fs where
    m: "match_lists (orders (side (\<not> od_isBuySide d) e)) (orders (side (od_isBuySide d) (inserted d e))) =
       (orders (side (\<not> od_isBuySide d) e'), orders (side (od_isBuySide d) e'), fs)"
    and ms: "ms = (insert_reply d, ep) # map (\<lambda>t. (MsgTrade t, ep)) (trades_of fs)" .
  show ?thesis
    by (intro exI [of _ e'] exI [of _ fs] conjI) (use m in \<open>simp_all add: r ms inserted_side\<close>)
qed

theorem insert_refines_witness:
  "\<exists>e' fs.
    MatchingEngine_OrderInsert (sample_order True 102 15 ''b3'') (0::nat) sample_engine =
      (e', (insert_reply (sample_order True 102 15 ''b3''), 0) # map (\<lambda>t. (MsgTrade t, 0)) (trades_of fs)) \<and>
    match_lists (orders (side (\<not> od_isBuySide (sample_order True 102 15 ''b3'')) sample_engine))
                (orders (fst (OrderBook_Insert (side_lt (od_isBuySide (sample_order True 102 15 ''b3'')))
                   (sample_order True 102 15 ''b3'')
                   (side (od_isBuySide (sample_order True 102 15 ''b3'')) sample_engine)))) =
      (orders (side (\<not> od_isBuySide (sample_order True 102 15 ''b3'')) e'),
       orders (side (od_isBuySide (sample_order True 102 15 ''b3'')) e'), fs)"
  by (rule insert_refines [OF sample_ok(1,2)])

text \<open>
  C6: Volume is conserved by an insert into an engine without an empty level: the other side loses
  some volume \<open>n\<close>, the own side gains the volume of the order less \<open>n\<close>, and the volumes of the
  trades sent add up to twice \<open>n\<close>, one trade for each side.
\<close>

theorem insert_volume:
  assumes "engine_ok e" and "engine_full e" and "MatchingEngine_OrderInsert d ep e = (e', ms)"
  shows "\<exists>n. volume_sum (orders (side (\<not> od_isBuySide d) e)) =
           volume_sum (orders (side (\<not> od_isBuySide d) e')) + n \<and>
         volume_sum (orders (side (od_isBuySide d) e)) + unat (od_volume d) =
           volume_sum (orders (side (od_isBuySide d) e')) + n \<and>
         sum_list (map (\<lambda>(m, ep). case m of MsgTrade t \<Rightarrow> unat (trade_tradedVolume t) | _ \<Rightarrow> 0) ms) = 2 * n"
proof -
  from insert_matching [OF assms] obtain fs where
    m: "match_lists (orders (side (\<not> od_isBuySide d) e)) (orders (side (od_isBuySide d) (inserted d e))) =
       (orders (side (\<not> od_isBuySide d) e'), orders (side (od_isBuySide d) e'), fs)"
    and ms: "ms = (insert_reply d, ep) # map (\<lambda>t. (MsgTrade t, ep)) (trades_of fs)" by metis
  have "mset (orders (side (od_isBuySide d) (inserted d e))) = add_mset d (mset (orders (side (od_isBuySide d) e)))"
    using sides.my.Insert_mset [OF engine_okD [OF assms(1)]] by (simp add: inserted_side)
  then have "volume_sum (orders (side (od_isBuySide d) (inserted d e))) =
      unat (od_volume d) + volume_sum (orders (side (od_isBuySide d) e))"
    by (simp add: volume_sum_mset)
  moreover have "sum_list (map (\<lambda>(m, ep). case m of MsgTrade t \<Rightarrow> unat (trade_tradedVolume t) | _ \<Rightarrow> 0) ms) = 2 * filled fs"
    unfolding ms by (induction fs rule: trades_of.induct)
      (simp_all add: insert_reply_def traded_of_def Trade_ctor_def)
  ultimately show ?thesis using match_lists_volume [OF m] by (intro exI [of _ "filled fs"]) simp
qed

theorem insert_volume_witness:
  "case MatchingEngine_OrderInsert (sample_order True 102 15 ''b3'') (0 :: nat) sample_engine of
     (e', ms) \<Rightarrow> volume_sum (orders (me_Asks e')) = 2 \<and> volume_sum (orders (me_Bids e')) = 17 \<and>
       sum_list (map (\<lambda>(m, ep). case m of MsgTrade t \<Rightarrow> unat (trade_tradedVolume t) | _ \<Rightarrow> 0) ms) = 20"
proof -
  obtain e' ms where r: "MatchingEngine_OrderInsert (sample_order True 102 15 ''b3'') (0 :: nat) sample_engine = (e', ms)"
    by fastforce
  have "volume_sum (orders (me_Asks (fst (MatchingEngine_OrderInsert (sample_order True 102 15 ''b3'') (0 :: nat) sample_engine)))) = 2"
    by code_simp
  then have a: "volume_sum (orders (side False e')) = 2" by (simp add: r side_def)
  from a have a': "volume_sum (orders (me_Asks e')) = 2" by (simp add: side_def)
  have v: "volume_sum (orders (side False sample_engine)) = 12" "volume_sum (orders (side True sample_engine)) = 12"
    by (simp_all add: side_def sample_simps)
  have d: "od_isBuySide (sample_order True 102 15 ''b3'') = True" "unat (od_volume (sample_order True 102 15 ''b3'')) = 15"
    by simp_all
  from insert_volume [OF sample_ok(1,2) r] show ?thesis
    by (simp add: r d a a' v) (simp add: side_def)
qed

text \<open>
  In a book that is not crossed only the new order takes: every fill is between an order
  of the other side and what is left of the new one, at a price the new one accepts.
\<close>

theorem insert_only_taker:
  assumes "engine_ok e" and "engine_full e" and "uncrossed e"
    and "match_lists (orders (side (\<not> od_isBuySide d) e))
           (orders (fst (OrderBook_Insert (side_lt (od_isBuySide d)) d (side (od_isBuySide d) e)))) = (os, ms, fs)"
    and "(x, y, t) \<in> set fs"
  shows "(\<exists>v \<le> od_volume d. y = d\<lparr>od_volume := v\<rparr>) \<and>
    from_side (orders (side (\<not> od_isBuySide d) e)) x \<and> matchPricePredicate d x \<and>
    t = min (od_volume y) (od_volume x)"
proof -
  let ?b = "od_isBuySide d"
  from match_lists_fills [OF assms(4,5)] have m: "matchPricePredicate y x" "t = min (od_volume y) (od_volume x)"
    and x: "from_side (orders (side (\<not> ?b) e)) x"
    and y: "from_side (orders (fst (OrderBook_Insert (side_lt ?b) d (side ?b e)))) y" by blast+
  from y obtain y0 v where y0: "y0 \<in> set (orders (fst (OrderBook_Insert (side_lt ?b) d (side ?b e))))"
    and v: "v \<le> od_volume y0" "y = y0\<lparr>od_volume := v\<rparr>" by (auto simp: from_side_def)
  from x obtain x0 w where x0: "x0 \<in> set (orders (side (\<not> ?b) e))" and xw: "x = x0\<lparr>od_volume := w\<rparr>"
    by (auto simp: from_side_def)
  have "y0 \<in># mset (orders (fst (OrderBook_Insert (side_lt ?b) d (side ?b e))))" using y0 by simp
  then have "y0 = d \<or> y0 \<in> set (orders (side ?b e))"
    unfolding sides.my.Insert_mset [OF engine_okD [OF assms(1)]] by simp
  moreover have "y0 \<notin> set (orders (side ?b e))"
  proof
    assume in_e: "y0 \<in> set (orders (side ?b e))"
    have "od_isBuySide y0 = ?b" by (rule sides.my.orders_side [OF engine_okD [OF assms(1)] in_e])
    with m(1) v(2) xw have "if ?b then od_price x0 \<le> od_price y0 else od_price y0 \<le> od_price x0"
      by (auto simp: matchPricePredicate_def)
    with assms(3) in_e x0 show False
      by (cases ?b) (auto simp: uncrossed_def side_def not_less [symmetric])
  qed
  ultimately have "y0 = d" by blast
  moreover from this m(1) v(2) have "matchPricePredicate d x"
    by (simp add: matchPricePredicate_def split: if_splits)
  ultimately show ?thesis using v m(2) x by blast
qed

theorem insert_only_taker_witness:
  "(\<exists>v \<le> (15 :: u64). sample_order True 102 15 ''b3'' = (sample_order True 102 15 ''b3'')\<lparr>od_volume := v\<rparr>) \<and>
   from_side (orders (side (\<not> od_isBuySide (sample_order True 102 15 ''b3'')) sample_engine)) (sample_order False 101 4 ''a1'')"
proof -
  let ?d = "sample_order True 102 15 ''b3''"
  obtain os ms fs where m: "match_lists (orders (side (\<not> od_isBuySide ?d) sample_engine))
      (orders (fst (OrderBook_Insert (side_lt (od_isBuySide ?d)) ?d (side (od_isBuySide ?d) sample_engine)))) = (os, ms, fs)"
    by (metis prod_cases3)
  have "(sample_order False 101 4 ''a1'', ?d, 4) \<in> set fs"
    using m by (auto simp: sample_simps OrderBook_Insert_def OrderLevel_ctor_def OrderLevel_Insert_def
        key_equiv_def matchPricePredicate_def Let_def split: prod.splits)
  from insert_only_taker [OF sample_ok m this] show ?thesis
    by (simp add: sample_order_def OrderDataBase_ctor_def)
qed

section \<open>Amending an order\<close>

lemma Amend_side:
  "side x (fst (MatchingEngine_Amend a e)) =
     (if x = od_isBuySide a then fst (OrderBook_Amend (side_lt x) a (side x e)) else side x e)"
  by (simp add: engine_Amend_eq)

lemma Amend_engine_ok: "engine_ok e \<Longrightarrow> engine_ok (fst (MatchingEngine_Amend a e))"
  by (auto simp: engine_Amend_eq intro!: engine_ok_set sides.my.Amend_ok engine_okD)

lemma Amend_engine_full: "engine_full e \<Longrightarrow> engine_full (fst (MatchingEngine_Amend a e))"
  by (auto simp: engine_Amend_eq intro!: engine_full_set sides.my.Amend_no_empty engine_fullD)

lemma OrderAmend_true:
  "snd (MatchingEngine_Amend a e) \<Longrightarrow>
   MatchingEngine_OrderAmend a ep e =
     (case MatchingEngine_CheckMatch (od_isBuySide a) ep (fst (MatchingEngine_Amend a e)) of
        (e2, ms) \<Rightarrow> (e2, (MsgOrderReply (OrderReply_ctor (od_id a) (od_clientId a)), ep) # ms))"
  by (cases "MatchingEngine_Amend a e") (simp add: MatchingEngine_OrderAmend_def)

lemma OrderAmend_false:
  "\<not> snd (MatchingEngine_Amend a e) \<Longrightarrow>
   MatchingEngine_OrderAmend a ep e =
     (e, [(MsgErrorReply (ErrorReply_ctor (od_clientId a) ''Failed to amend order''), ep)])"
  by (simp add: MatchingEngine_OrderAmend_def engine_Amend_eq sides.my.Amend_false)

text \<open>After an amend, whether it found its order or not, the book stays uncrossed.\<close>

theorem amend_uncrossed:
  assumes "engine_ok e" and "engine_full e" and "uncrossed e"
  shows "uncrossed (fst (MatchingEngine_OrderAmend a ep e))"
proof (cases "snd (MatchingEngine_Amend a e)")
  case True
  with CheckMatch_uncrossed [OF Amend_engine_ok [OF assms(1)] Amend_engine_full [OF assms(2)]]
  show ?thesis by (simp add: OrderAmend_true case_prod_unfold)
next
  case False
  with assms(3) show ?thesis by (simp add: OrderAmend_false)
qed

theorem amend_uncrossed_witness:
  "uncrossed (fst (MatchingEngine_OrderAmend (sample_amend True 98 105 3 ''b2'') (0::nat) sample_engine))"
  by (rule amend_uncrossed [OF sample_ok])

text \<open>
  An amend of the volume alone changes the order where it stands in its queue: every
  order of the book keeps its place, the other queues and the other side are untouched.
\<close>

theorem amend_volume_in_place:
  assumes "engine_ok e" and "xs @ d # ys = side_queue (od_isBuySide a) e (od_price a)"
    and "od_id d = od_id a" and "\<forall>x \<in> set xs. od_id x \<noteq> od_id a"
    and "od_newPrice a = od_price a" and "od_newVolume a \<noteq> 0"
  shows "snd (MatchingEngine_Amend a e) \<and>
    side_queue (od_isBuySide a) (fst (MatchingEngine_Amend a e)) =
      (side_queue (od_isBuySide a) e)(od_price a := xs @ d\<lparr>od_volume := od_newVolume a\<rparr> # ys) \<and>
    side (\<not> od_isBuySide a) (fst (MatchingEngine_Amend a e)) = side (\<not> od_isBuySide a) e"
proof -
  let ?q = "side_queue (od_isBuySide a) e (od_price a)"
  have f: "find (has_id (od_id a)) (xs @ d # ys) = Some d"
    using assms(3,4) by (induction xs) (auto simp: has_id_def)
  have u: "update_first (has_id (od_id a)) g (xs @ d # ys) = xs @ g d # ys" for g
    using assms(3,4) by (induction xs) (auto simp: has_id_def)
  note f' = f [unfolded assms(2) side_queue_def]
  have "d \<in> set (xs @ d # ys)" by simp
  then have "snd (MatchingEngine_Amend a e)"
    unfolding engine_Amend_eq snd_conv sides.my.Amend_true_iff assms(2) side_queue_def
    using assms(3) by blast
  moreover have "side_queue (od_isBuySide a) (fst (MatchingEngine_Amend a e)) =
      (side_queue (od_isBuySide a) e)(od_price a := xs @ d\<lparr>od_volume := od_newVolume a\<rparr> # ys)"
    using sides.my.Amend_volume_queue_at [OF f' assms(6,5)] assms(2)
    by (simp add: side_queue_def Amend_side flip: u)
  ultimately show ?thesis by (simp add: Amend_side)
qed

theorem amend_volume_in_place_witness:
  "side_queue False (fst (MatchingEngine_Amend (sample_amend False 101 101 9 ''a2'') sample_engine)) 101 =
     [sample_order False 101 4 ''a1'', sample_order False 101 9 ''a2'']"
  using amend_volume_in_place [of sample_engine "[sample_order False 101 4 ''a1'']"
      "sample_order False 101 6 ''a2''" "[]" "sample_amend False 101 101 9 ''a2''", OF sample_ok(1)]
  by (simp add: sample_queues)



text \<open>
  An amend of the price to one without a level puts the order at the end of a level of its
  own, and takes it out of its old queue; no other queue changes.
\<close>

theorem amend_move_queues:
  assumes "engine_ok e"
    and "find (has_id (od_id a)) (side_queue (od_isBuySide a) e (od_price a)) = Some d"
    and "od_newVolume a \<noteq> 0" and "od_newPrice a \<noteq> od_price a"
    and "smap_find (side_lt (od_isBuySide a)) (od_newPrice a) (side (od_isBuySide a) e) = None"
  shows "side_queue (od_isBuySide a) (fst (MatchingEngine_Amend a e)) =
    (side_queue (od_isBuySide a) e)
      (od_price a := erase_first (has_id (od_id a)) (side_queue (od_isBuySide a) e (od_price a)),
       od_newPrice a := [amended a d])"
  using sides.my.Amend_move_queue_at [OF engine_okD [OF assms(1)] assms(2) [unfolded side_queue_def] assms(3,4)]
    assms(5)
  by (simp add: side_queue_def Amend_side)

theorem amend_move_queues_witness:
  "side_queue True (fst (MatchingEngine_Amend (sample_amend True 98 100 7 ''b2'') sample_engine)) =
    (side_queue True sample_engine)(98 := [], 100 := [sample_order True 100 7 ''b2''])"
  using amend_move_queues [of sample_engine "sample_amend True 98 100 7 ''b2''" "sample_order True 98 7 ''b2''",
      OF sample_ok(1)]
  by (simp add: sample_queues sample_levels has_id_def amended_def del: side_lt_simps)

section \<open>Cancelling an order\<close>

lemma Cancel_side:
  "side x (fst (MatchingEngine_Cancel c e)) =
     (if x = oc_isBuySide c then fst (OrderBook_Cancel (side_lt x) c (side x e)) else side x e)"
  by (simp add: engine_Cancel_eq)

lemma Cancel_engine_ok: "engine_ok e \<Longrightarrow> engine_ok (fst (MatchingEngine_Cancel c e))"
  by (auto simp: engine_Cancel_eq intro!: engine_ok_set sides.my.Cancel_ok engine_okD)

lemma OrderCancel_eq:
  "MatchingEngine_OrderCancel c ep e =
     (if \<exists>d \<in> set (side_queue (oc_isBuySide c) e (oc_price c)). od_id d = oc_id c
      then (fst (MatchingEngine_Cancel c e), [(MsgOrderReply (OrderReply_ctor (oc_id c) (oc_clientId c)), ep)])
      else (e, [(MsgErrorReply (ErrorReply_ctor (oc_clientId c) ''Failed to cancel order''), ep)]))"
  using sides.my.Cancel_true_iff [of "oc_isBuySide c" c "side (oc_isBuySide c) e"]
    sides.my.Cancel_false [of "oc_isBuySide c" c "side (oc_isBuySide c) e"]
  by (auto simp: MatchingEngine_OrderCancel_def engine_Cancel_eq side_queue_def)

text \<open>
  C9: A cancel removes the first order with the id from the queue of the price it names, and
  nothing else; every other queue, the other side and all other orders stay as they are.
\<close>

theorem cancel_exact:
  assumes "engine_ok e"
    and "find (has_id (oc_id c)) (side_queue (oc_isBuySide c) e (oc_price c)) = Some d"
    and "MatchingEngine_OrderCancel c ep e = (e', ms)"
  shows "ms = [(MsgOrderReply (OrderReply_ctor (oc_id c) (oc_clientId c)), ep)] \<and>
    add_mset d (mset (orders (side (oc_isBuySide c) e'))) = mset (orders (side (oc_isBuySide c) e)) \<and>
    side_queue (oc_isBuySide c) e' =
      (side_queue (oc_isBuySide c) e)
        (oc_price c := erase_first (has_id (oc_id c)) (side_queue (oc_isBuySide c) e (oc_price c))) \<and>
    side (\<not> oc_isBuySide c) e' = side (\<not> oc_isBuySide c) e"
proof -
  from find_Some_mem [OF assms(2)]
  have "\<exists>d \<in> set (side_queue (oc_isBuySide c) e (oc_price c)). od_id d = oc_id c" by (auto simp: has_id_def)
  with assms(3) have e': "e' = fst (MatchingEngine_Cancel c e)"
    and ms: "ms = [(MsgOrderReply (OrderReply_ctor (oc_id c) (oc_clientId c)), ep)]"
    by (simp_all add: OrderCancel_eq)
  show ?thesis
    using sides.my.Cancel_mset [OF engine_okD [OF assms(1)] assms(2) [unfolded side_queue_def]] ms
    by (simp add: e' Cancel_side side_queue_def sides.my.Cancel_queue_at)
qed

theorem cancel_exact_witness:
  "side_queue False (fst (MatchingEngine_OrderCancel (OrderCancelData_ctor ''X'' 101 False ''a1'' ''C'') (0::nat) sample_engine)) 101 =
     [sample_order False 101 6 ''a2'']"
  using cancel_exact [where e = sample_engine and c = "OrderCancelData_ctor ''X'' 101 False ''a1'' ''C''"
      and d = "sample_order False 101 4 ''a1''" and ep = "0 :: nat", OF sample_ok(1) _ prod.collapse [symmetric]]
  by (simp add: sample_queues OrderCancelData_ctor_def has_id_def)

text \<open>An empty level at the head of either side stops the matching loop at once.\<close>

lemma CheckMatch_blocked:
  assumes "side x e = (p, []) # rest"
  shows "MatchingEngine_CheckMatch buy ep e = (e, [])"
proof -
  have "ExecuteOrder_body (side_lt (\<not> buy)) (side_lt buy) (side (\<not> buy) e) (side buy e) = None"
    using assms by (cases "x = buy") (auto simp: body_None_iff)
  then show ?thesis
    by (simp add: CheckMatch_eq ExecuteOrder.simps [of _ _ "side (\<not> buy) e"])
qed

section \<open>Messages and failures\<close>

text \<open>
  C12: A request is answered exactly once and to its sender only: an insert by its reply, an amend
  and a cancel by the reply or by the error that names the request, and every further message is
  a trade of the same request, sent to the same endpoint.
\<close>

theorem engine_answers:
  "(\<exists>ts. snd (MatchingEngine_OrderInsert d ep e) = (insert_reply d, ep) # map (\<lambda>t. (MsgTrade t, ep)) ts) \<and>
   (\<exists>ts. snd (MatchingEngine_OrderAmend a ep e) =
      (if snd (MatchingEngine_Amend a e) then MsgOrderReply (OrderReply_ctor (od_id a) (od_clientId a))
       else MsgErrorReply (ErrorReply_ctor (od_clientId a) ''Failed to amend order''), ep) #
      map (\<lambda>t. (MsgTrade t, ep)) ts \<and> (\<not> snd (MatchingEngine_Amend a e) \<longrightarrow> ts = [])) \<and>
   snd (MatchingEngine_OrderCancel c ep e) =
     [(if snd (MatchingEngine_Cancel c e) then MsgOrderReply (OrderReply_ctor (oc_id c) (oc_clientId c))
       else MsgErrorReply (ErrorReply_ctor (oc_clientId c) ''Failed to cancel order''), ep)]"
proof (intro conjI)
  show "\<exists>ts. snd (MatchingEngine_OrderInsert d ep e) = (insert_reply d, ep) # map (\<lambda>t. (MsgTrade t, ep)) ts"
    by (auto simp: OrderInsert_eq CheckMatch_eq split: prod.split)
  show "\<exists>ts. snd (MatchingEngine_OrderAmend a ep e) =
      (if snd (MatchingEngine_Amend a e) then MsgOrderReply (OrderReply_ctor (od_id a) (od_clientId a))
       else MsgErrorReply (ErrorReply_ctor (od_clientId a) ''Failed to amend order''), ep) #
      map (\<lambda>t. (MsgTrade t, ep)) ts \<and> (\<not> snd (MatchingEngine_Amend a e) \<longrightarrow> ts = [])"
    by (cases "snd (MatchingEngine_Amend a e)")
      (auto simp: OrderAmend_true OrderAmend_false CheckMatch_eq split: prod.split)
  show "snd (MatchingEngine_OrderCancel c ep e) =
     [(if snd (MatchingEngine_Cancel c e) then MsgOrderReply (OrderReply_ctor (oc_id c) (oc_clientId c))
       else MsgErrorReply (ErrorReply_ctor (oc_clientId c) ''Failed to cancel order''), ep)]"
    by (simp add: MatchingEngine_OrderCancel_def case_prod_unfold)
qed

theorem engine_answers_witness:
  "snd (MatchingEngine_OrderCancel (OrderCancelData_ctor ''X'' 50 True ''zz'' ''C'') (3::nat) MatchingEngine_ctor) =
     [(MsgErrorReply (ErrorReply_ctor ''C'' ''Failed to cancel order''), 3)]"
  using engine_answers [where c = "OrderCancelData_ctor ''X'' 50 True ''zz'' ''C''" and ep = "3 :: nat"
      and e = MatchingEngine_ctor]
  by (simp add: MatchingEngine_Cancel_def MatchingEngine_ctor_def OrderBook_Cancel_def OrderCancelData_ctor_def)

text \<open>
  An amend succeeds exactly when the queue of its price and side holds an order with its id,
  likewise a cancel, and one that does not succeed changes nothing.
\<close>

theorem amend_cancel_failure:
  "(snd (MatchingEngine_Amend a e) \<longleftrightarrow> (\<exists>d \<in> set (side_queue (od_isBuySide a) e (od_price a)). od_id d = od_id a)) \<and>
   (snd (MatchingEngine_Cancel c e) \<longleftrightarrow> (\<exists>d \<in> set (side_queue (oc_isBuySide c) e (oc_price c)). od_id d = oc_id c)) \<and>
   (snd (MatchingEngine_Amend a e) \<or> fst (MatchingEngine_OrderAmend a ep e) = e) \<and>
   (snd (MatchingEngine_Cancel c e) \<or> fst (MatchingEngine_OrderCancel c ep e) = e)"
  by (cases "snd (MatchingEngine_Amend a e)")
    (auto simp: OrderAmend_false OrderCancel_eq engine_Amend_eq engine_Cancel_eq side_queue_def
      sides.my.Amend_true_iff sides.my.Cancel_true_iff)

text \<open>The invariant of the engine over its requests.\<close>

lemma OrderInsert_ok: "engine_ok e \<Longrightarrow> engine_ok (fst (MatchingEngine_OrderInsert d ep e))"
  unfolding insert_uncrossed_eq by (intro CheckMatch_ok inserted_ok)

lemma OrderAmend_ok: "engine_ok e \<Longrightarrow> engine_ok (fst (MatchingEngine_OrderAmend a ep e))"
  by (cases "snd (MatchingEngine_Amend a e)")
    (simp_all add: OrderAmend_true OrderAmend_false case_prod_unfold CheckMatch_ok Amend_engine_ok)

lemma OrderCancel_ok: "engine_ok e \<Longrightarrow> engine_ok (fst (MatchingEngine_OrderCancel c ep e))"
  by (simp add: OrderCancel_eq Cancel_engine_ok)

lemma GetBook_all: "OrderBook_GetBook (\<lambda>lvl. True) b = map snd b"
  by (induction b) auto

lemma GetLevels_all: "OrderLevel_GetLevels (\<lambda>d. True) = (\<lambda>q. True)"
proof
  show "OrderLevel_GetLevels (\<lambda>d. True) q = True" for q by (induction q) auto
qed

text \<open>A book request visits every order once, the asks before the bids, the best first.\<close>

theorem get_book_visits:
  "concat (MatchingEngine_GetOrderBook e) = orders (me_Asks e) @ orders (me_Bids e)"
  by (simp add: MatchingEngine_GetOrderBook_def GetLevels_all GetBook_all orders_def)

text \<open>
  Inserting into a side refines the map from prices to queues: the order goes to the end of
  the queue of its price, every other queue stays, and the order inserted is returned.
\<close>

theorem book_insert_queues:
  "queue_at (side_lt buy) (fst (OrderBook_Insert (side_lt buy) d b)) =
     (queue_at (side_lt buy) b)(od_price d := queue_at (side_lt buy) b (od_price d) @ [d]) \<and>
   snd (OrderBook_Insert (side_lt buy) d b) = Some d"
  using sides.my.Insert_queue_at sides.my.Insert_result by blast

section \<open>The loop ends\<close>

text \<open>The endless loop of \<open>ExecuteOrder\<close>, left after at most \<open>n\<close> passes or not at all.\<close>

fun ExecuteOrder_passes ::
  "(u64 \<Rightarrow> u64 \<Rightarrow> bool) \<Rightarrow> (u64 \<Rightarrow> u64 \<Rightarrow> bool) \<Rightarrow> nat \<Rightarrow> OrderBook \<Rightarrow> OrderBook
     \<Rightarrow> (OrderBook \<times> OrderBook \<times> Trade list) option" where
  "ExecuteOrder_passes ltO ltM n opp my =
     (case ExecuteOrder_body ltO ltM opp my of
        None \<Rightarrow> Some (opp, my, [])
      | Some (opp', my', ts) \<Rightarrow>
          (case n of
             0 \<Rightarrow> None
           | Suc m \<Rightarrow> map_option (\<lambda>(x, y, ts'). (x, y, ts @ ts')) (ExecuteOrder_passes ltO ltM m opp' my')))"

declare ExecuteOrder_passes.simps [simp del]

lemma body_two_trades: "ExecuteOrder_body ltO ltM opp my = Some (opp', my', ts) \<Longrightarrow> length ts = 2"
proof -
  assume b: "ExecuteOrder_body ltO ltM opp my = Some (opp', my', ts)"
  then obtain ok od oq orest mk md mq mrest where "opp = (ok, od # oq) # orest" "my = (mk, md # mq) # mrest"
    and m: "matchPricePredicate md od" by (rule body_SomeE)
  with b show "length ts = 2" by (auto simp: body_fronts [OF m refl])
qed

lemma passes_enough:
  "length (orders opp) + length (orders my) \<le> n \<Longrightarrow>
   ExecuteOrder_passes ltO ltM n opp my = Some (ExecuteOrder ltO ltM opp my) \<and>
   length (snd (snd (ExecuteOrder ltO ltM opp my))) \<le> 2 * n"
proof (induction n arbitrary: opp my)
  case 0
  have "ExecuteOrder_body ltO ltM opp my = None"
  proof (rule ccontr)
    assume "ExecuteOrder_body ltO ltM opp my \<noteq> None"
    then obtain opp' my' ts where "ExecuteOrder_body ltO ltM opp my = Some (opp', my', ts)" by auto
    from body_decreases [OF this] 0 show False by simp
  qed
  then show ?case by (simp add: ExecuteOrder_passes.simps [of ltO ltM 0] ExecuteOrder.simps [of ltO ltM opp my])
next
  case (Suc n)
  show ?case
  proof (cases "ExecuteOrder_body ltO ltM opp my")
    case None
    then show ?thesis by (simp add: ExecuteOrder_passes.simps [of ltO ltM "Suc n"] ExecuteOrder.simps [of ltO ltM opp my])
  next
    case (Some r)
    obtain opp' my' ts where r: "r = (opp', my', ts)" by (cases r)
    from body_decreases [OF Some [unfolded r]] Suc.prems have "length (orders opp') + length (orders my') \<le> n" by simp
    from Suc.IH [OF this] body_two_trades [OF Some [unfolded r]] Some r show ?thesis
      by (simp add: ExecuteOrder_passes.simps [of ltO ltM "Suc n"] ExecuteOrder.simps [of ltO ltM opp my] case_prod_unfold Let_def)
  qed
qed

text \<open>
  C7: The endless loop of the matching ends whatever the two books hold, sorted or not, with
  volumes of zero or not: it is left after no more passes than there are orders in the books,
  with at most two trades for each pass.
\<close>

theorem matching_ends:
  "ExecuteOrder_passes ltO ltM (length (orders opp) + length (orders my)) opp my = Some (ExecuteOrder ltO ltM opp my) \<and>
   length (snd (snd (ExecuteOrder ltO ltM opp my))) \<le> 2 * (length (orders opp) + length (orders my))"
  by (rule passes_enough [OF order_refl])

end
