(* ===== verification/MatchingEngineModule.thy ===== *)
theory MatchingEngineModule
  imports OrderEventProcessor EngineProps
begin

text \<open>
  \<open>MatchingEngineModule\<close>: one engine per configured instrument, the handlers that look the
  engine up, and the reception of a message. The module's state is its map of engines.
\<close>

section \<open>Configuration\<close>

type_synonym engines = "string \<rightharpoonup> MatchingEngine"

text \<open>
  \<open>LoadConfig\<close> puts a new engine at every instrument of the array, also where one is there
  already. An element that is not a string throws, after the ones before it have been stored.
\<close>

fun load_instruments :: "'j json_api \<Rightarrow> 'j list \<Rightarrow> engines \<Rightarrow> engines \<times> bool throws" where
  "load_instruments J [] m = (m, Inr True)"
| "load_instruments J (v # vs) m =
     (case j_as_string J v of
        Inl x \<Rightarrow> (m, Inl x)
      | Inr i \<Rightarrow> load_instruments J vs (m(c_str i \<mapsto> MatchingEngine_ctor)))"

definition MatchingEngineModule_LoadConfig :: "'j json_api \<Rightarrow> 'j \<Rightarrow> engines \<Rightarrow> engines \<times> bool throws" where
  "MatchingEngineModule_LoadConfig J moduleValue m =
     (case bind_e (j_at J moduleValue ''Instruments'') (j_as_array J) of
        Inl x \<Rightarrow> (m, Inl x)
      | Inr vs \<Rightarrow> load_instruments J vs m)"

definition MatchingEngineModule_Start :: bool where
  "MatchingEngineModule_Start = True"

section \<open>The handlers\<close>

definition Module_HandleOrderInsert ::
  "OrderInsertData \<Rightarrow> 'ep \<Rightarrow> engines \<Rightarrow> engines \<times> (Message \<times> 'ep) list" where
  "Module_HandleOrderInsert d ep m =
     (case m (od_instrument d) of
        None \<Rightarrow> (m, [])
      | Some e \<Rightarrow> let (e', ms) = MatchingEngine_OrderInsert d ep e in (m(od_instrument d \<mapsto> e'), ms))"

definition Module_HandleOrderAmend ::
  "OrderAmendData \<Rightarrow> 'ep \<Rightarrow> engines \<Rightarrow> engines \<times> (Message \<times> 'ep) list" where
  "Module_HandleOrderAmend a ep m =
     (case m (od_instrument a) of
        None \<Rightarrow> (m, [])
      | Some e \<Rightarrow> let (e', ms) = MatchingEngine_OrderAmend a ep e in (m(od_instrument a \<mapsto> e'), ms))"

definition Module_HandleOrderCancel ::
  "OrderCancelData \<Rightarrow> 'ep \<Rightarrow> engines \<Rightarrow> engines \<times> (Message \<times> 'ep) list" where
  "Module_HandleOrderCancel c ep m =
     (case m (oc_instrument c) of
        None \<Rightarrow> (m, [])
      | Some e \<Rightarrow> let (e', ms) = MatchingEngine_OrderCancel c ep e in (m(oc_instrument c \<mapsto> e'), ms))"

text \<open>A book request walks the book and sends nothing; the levels visited are only logged.\<close>

definition Module_GetOrderBook :: "string \<Rightarrow> 'ep \<Rightarrow> engines \<Rightarrow> engines \<times> (Message \<times> 'ep) list" where
  "Module_GetOrderBook i ep m =
     (case m i of None \<Rightarrow> (m, []) | Some e \<Rightarrow> let visited = MatchingEngine_GetOrderBook e in (m, []))"

definition module_handler :: "(engines, 'ep) IOrderHandler" where
  "module_handler =
     \<lparr>h_HandleOrderInsert = Module_HandleOrderInsert, h_HandleOrderAmend = Module_HandleOrderAmend,
      h_HandleOrderCancel = Module_HandleOrderCancel, h_GetOrderBook = Module_GetOrderBook\<rparr>"

definition Module_OnWebSocketDataReceived ::
  "'j json_api \<Rightarrow> int \<Rightarrow> string \<Rightarrow> 'ep \<Rightarrow> engines \<Rightarrow> (engines \<times> (Message \<times> 'ep) list) throws" where
  "Module_OnWebSocketDataReceived J now buf ep m = Processor_Process J module_handler now buf ep m"

lemma module_handler_simps [simp]:
  "h_HandleOrderInsert module_handler = Module_HandleOrderInsert"
  "h_HandleOrderAmend module_handler = Module_HandleOrderAmend"
  "h_HandleOrderCancel module_handler = Module_HandleOrderCancel"
  "h_GetOrderBook module_handler = Module_GetOrderBook"
  by (simp_all add: module_handler_def)

section \<open>The identifiers in the books\<close>

text \<open>The matching loop and the operations bring no identifier into a book that is not the request's.\<close>

definition ids :: "OrderBook \<Rightarrow> string set" where
  "ids b = od_id ` set (orders b)"

definition engine_ids :: "MatchingEngine \<Rightarrow> string set" where
  "engine_ids e = ids (me_Bids e) \<union> ids (me_Asks e)"

lemma ids_simps [simp]: "ids [] = {}" "ids ((p, lvl) # b) = od_id ` set lvl \<union> ids b"
  by (auto simp: ids_def)

lemma ids_erase: "ids (smap_erase lt p b) \<subseteq> ids b"
  by (induction b) (auto split: if_splits)

lemma ids_Remove: "ids (OrderBook_RemoveLevelAtPrice lt p b) \<subseteq> ids b"
  using ids_erase by (auto simp: OrderBook_RemoveLevelAtPrice_def split: option.split)

lemma ids_set: "ids (smap_set lt p lvl b) \<subseteq> ids b \<union> od_id ` set lvl"
  by (induction b) (auto split: if_splits)

lemma ids_emplace: "ids (smap_emplace lt p lvl b) \<subseteq> ids b \<union> od_id ` set lvl"
  by (induction b) (auto split: if_splits)

lemma ids_reduce_front: "od_id ` set (reduce_front t (d # q)) \<subseteq> od_id ` set (d # q)"
  by (auto simp: reduce_front_def)

lemma ids_pass:
  "ids (if reduce_front t (d # q) = [] then OrderBook_RemoveLevelAtPrice lt p ((k, reduce_front t (d # q)) # b)
      else (k, reduce_front t (d # q)) # b) \<subseteq> ids ((k, d # q) # b)"
proof -
  have "ids ((k, reduce_front t (d # q)) # b) \<subseteq> ids ((k, d # q) # b)"
    using ids_reduce_front [of t d q] unfolding ids_simps by blast
  moreover have "ids (OrderBook_RemoveLevelAtPrice lt p ((k, reduce_front t (d # q)) # b))
      \<subseteq> ids ((k, reduce_front t (d # q)) # b)" by (rule ids_Remove)
  ultimately show ?thesis by (simp only: split: if_split) blast
qed

lemma body_ids:
  assumes "ExecuteOrder_body ltO ltM x y = Some (x', y', ts)"
  shows "ids x' \<subseteq> ids x \<and> ids y' \<subseteq> ids y"
proof -
  from assms obtain ok od oq orest mk md mq mrest where
    e: "x = (ok, od # oq) # orest" "y = (mk, md # mq) # mrest" and m: "matchPricePredicate md od"
    by (rule body_SomeE)
  from assms have x': "x' = (if reduce_front (min (od_volume md) (od_volume od)) (od # oq) = []
        then OrderBook_RemoveLevelAtPrice ltO (od_price od)
          ((ok, reduce_front (min (od_volume md) (od_volume od)) (od # oq)) # orest)
        else (ok, reduce_front (min (od_volume md) (od_volume od)) (od # oq)) # orest)"
    and y': "y' = (if reduce_front (min (od_volume md) (od_volume od)) (md # mq) = []
        then OrderBook_RemoveLevelAtPrice ltM (od_price md)
          ((mk, reduce_front (min (od_volume md) (od_volume od)) (md # mq)) # mrest)
        else (mk, reduce_front (min (od_volume md) (od_volume od)) (md # mq)) # mrest)"
    unfolding e body_fronts [OF m refl] by simp_all
  show ?thesis unfolding e x' y' by (intro conjI ids_pass)
qed

lemma ExecuteOrder_ids:
  "ExecuteOrder ltO ltM x y = (x', y', ts) \<Longrightarrow> ids x' \<subseteq> ids x \<and> ids y' \<subseteq> ids y"
proof (induction ltO ltM x y arbitrary: ts rule: ExecuteOrder.induct)
  case (1 ltO ltM x y)
  show ?case
  proof (cases "ExecuteOrder_body ltO ltM x y")
    case None
    with "1.prems" show ?thesis by (simp add: ExecuteOrder.simps [of ltO ltM x y])
  next
    case (Some r)
    obtain x1 y1 t1 where r: "r = (x1, y1, t1)" by (cases r)
    obtain t2 where e: "ExecuteOrder ltO ltM x1 y1 = (x', y', t2)"
      using "1.prems" Some r
      by (auto simp: ExecuteOrder.simps [of ltO ltM x y] Let_def split: prod.splits)
    from "1.IH" [OF Some [unfolded r] refl refl e] body_ids [OF Some [unfolded r]] show ?thesis by auto
  qed
qed

lemma engine_ids_side: "engine_ids e = ids (side True e) \<union> ids (side False e)"
  by (simp add: engine_ids_def side_def)

lemma engine_ids_set: "engine_ids (set_side x b e) \<subseteq> ids b \<union> engine_ids e"
  by (cases x) (auto simp: engine_ids_side)

lemma ids_level: "smap_find lt p b = Some lvl \<Longrightarrow> od_id ` set lvl \<subseteq> ids b"
  by (drule smap_find_mem) (force simp: ids_def in_orders)

lemma ids_queue_at: "od_id ` set (queue_at lt b p) \<subseteq> ids b"
  by (cases "smap_find lt p b") (simp_all add: queue_at_def ids_level)

lemma ids_side: "ids (side x e) \<subseteq> engine_ids e"
  by (cases x) (auto simp: engine_ids_side)

lemma CheckMatch_ids: "engine_ids (fst (MatchingEngine_CheckMatch buy ep e)) \<subseteq> engine_ids e"
proof -
  obtain x y ts where x: "ExecuteOrder (side_lt (\<not> buy)) (side_lt buy) (side (\<not> buy) e) (side buy e) = (x, y, ts)"
    by (metis prod_cases3)
  from ExecuteOrder_ids [OF x] have "ids x \<subseteq> engine_ids e" "ids y \<subseteq> engine_ids e"
    using ids_side by blast+
  moreover have "fst (MatchingEngine_CheckMatch buy ep e) = set_side buy y (set_side (\<not> buy) x e)"
    by (simp add: CheckMatch_eq x)
  ultimately show ?thesis
    using engine_ids_set [of buy y "set_side (\<not> buy) x e"] engine_ids_set [of "\<not> buy" x e] by auto
qed

lemma engine_ids_set_le:
  "ids b \<subseteq> ids (side x e) \<union> X \<Longrightarrow> engine_ids (set_side x b e) \<subseteq> engine_ids e \<union> X"
  using engine_ids_set [of x b e] ids_side [of x e] by blast

lemma Insert_ids: "ids (fst (OrderBook_Insert (side_lt buy) d b)) \<subseteq> ids b \<union> {od_id d}"
proof (cases "smap_find (side_lt buy) (od_price d) b")
  case None
  then show ?thesis
    using ids_emplace [of "side_lt buy" "od_price d" "[d]" b] by (simp add: sides.my.Insert_book)
next
  case (Some lvl)
  have "od_id ` set (lvl @ [d]) \<subseteq> ids b \<union> {od_id d}" using ids_level [OF Some] by auto
  with ids_set [of "side_lt buy" "od_price d" "lvl @ [d]" b]
  have "ids (smap_set (side_lt buy) (od_price d) (lvl @ [d]) b) \<subseteq> ids b \<union> {od_id d}"
    by (meson Un_least Un_upper1 order_trans)
  with Some show ?thesis by (simp add: sides.my.Insert_book)
qed

lemma Cancel_ids: "ids (fst (OrderBook_Cancel (side_lt buy) c b)) \<subseteq> ids b \<union> {}"
proof -
  let ?q = "erase_first (has_id (oc_id c)) (queue_at (side_lt buy) b (oc_price c))"
  have "od_id ` set ?q \<subseteq> ids b"
    using set_erase_first ids_queue_at by (metis image_mono order_trans)
  with ids_set [of "side_lt buy" "oc_price c" ?q b]
  have "ids (smap_set (side_lt buy) (oc_price c) ?q b) \<subseteq> ids b"
    by (meson Un_least order_refl order_trans)
  then show ?thesis by (simp add: sides.my.Cancel_eq Let_def)
qed

lemma inserted_ids: "engine_ids (inserted d e) \<subseteq> engine_ids e \<union> {od_id d}"
  unfolding inserted_def InsertOrder_eq fst_conv by (rule engine_ids_set_le [OF Insert_ids])

lemma OrderInsert_ids:
  "engine_ids (fst (MatchingEngine_OrderInsert d ep e)) \<subseteq> engine_ids e \<union> {od_id d}"
  unfolding insert_uncrossed_eq by (rule order_trans [OF CheckMatch_ids inserted_ids])

lemma OrderCancel_ids: "engine_ids (fst (MatchingEngine_OrderCancel c ep e)) \<subseteq> engine_ids e"
  using engine_ids_set_le [OF Cancel_ids] by (simp add: OrderCancel_eq engine_Cancel_eq)

lemma Amend_ids: "ids (fst (OrderBook_Amend (side_lt buy) a b)) \<subseteq> ids b \<union> {}"
proof (cases "find (has_id (od_id a)) (queue_at (side_lt buy) b (od_price a))")
  case None
  then show ?thesis by (simp add: sides.my.Amend_absent)
next
  case (Some d)
  let ?q = "queue_at (side_lt buy) b (od_price a)"
  let ?e = "erase_first (has_id (od_id a)) ?q"
  let ?u = "update_first (has_id (od_id a)) (\<lambda>d. d\<lparr>od_volume := od_newVolume a\<rparr>) ?q"
  have q: "od_id ` set ?q \<subseteq> ids b" by (rule ids_queue_at)
  have e: "od_id ` set ?e \<subseteq> ids b" using q set_erase_first by (metis image_mono order_trans)
  have "od_id ` set ?u \<subseteq> od_id ` set ?q" by (force dest: set_update_first)
  with q have u: "od_id ` set ?u \<subseteq> ids b" by (rule order_trans [rotated])
  have am: "od_id ` set [amended a d] \<subseteq> ids b"
    using find_Some_mem [OF Some] q by (auto simp: amended_def)
  have set_e: "ids (smap_set (side_lt buy) (od_price a) ?e c) \<subseteq> ids b" if "ids c \<subseteq> ids b" for c
    using ids_set [of "side_lt buy" "od_price a" ?e c] that e by (meson Un_least order_trans)
  have set_u: "ids (smap_set (side_lt buy) (od_price a) ?u b) \<subseteq> ids b"
    using ids_set [of "side_lt buy" "od_price a" ?u b] u by (meson Un_least order_refl order_trans)
  have emp: "ids (smap_emplace (side_lt buy) (od_newPrice a) [amended a d] b) \<subseteq> ids b"
    using ids_emplace [of "side_lt buy" "od_newPrice a" "[amended a d]" b] am
    by (meson Un_least order_refl order_trans)
  consider "od_newVolume a = 0" | "od_newVolume a \<noteq> 0" "od_newPrice a = od_price a"
    | "od_newVolume a \<noteq> 0" "od_newPrice a \<noteq> od_price a" by blast
  then show ?thesis
  proof cases
    case 1
    then show ?thesis
      using set_e [OF order_refl] order_trans [OF ids_erase set_e [OF order_refl]]
      by (cases "?e = []") (simp_all add: sides.my.Amend_zero [OF Some] Let_def)
  next
    case 2
    then show ?thesis using set_u by (simp add: sides.my.Amend_volume [OF Some])
  next
    case 3
    then show ?thesis
      using set_e [OF emp] order_trans [OF ids_erase set_e [OF emp]]
      by (cases "?e = []") (simp_all add: sides.my.Amend_move [OF Some] Let_def)
  qed
qed

lemma OrderAmend_ids: "engine_ids (fst (MatchingEngine_OrderAmend a ep e)) \<subseteq> engine_ids e"
proof (cases "snd (MatchingEngine_Amend a e)")
  case True
  have "engine_ids (fst (MatchingEngine_Amend a e)) \<subseteq> engine_ids e"
    using engine_ids_set_le [OF Amend_ids] by (simp add: engine_Amend_eq)
  with True CheckMatch_ids [of "od_isBuySide a" ep "fst (MatchingEngine_Amend a e)"] show ?thesis
    by (simp add: OrderAmend_true case_prod_unfold)
next
  case False
  then show ?thesis by (simp add: OrderAmend_false)
qed

section \<open>The module as a state machine\<close>

text \<open>
  The events of the module are the buffers received, each with the time of its reception and its
  sender. An exception leaves the engines as they are.
\<close>

type_synonym 'ep received = "int \<times> string \<times> 'ep"

definition module_step :: "'j json_api \<Rightarrow> engines \<Rightarrow> 'ep received \<Rightarrow> engines" where
  "module_step J m ev =
     (case ev of (now, buf, ep) \<Rightarrow>
       case Module_OnWebSocketDataReceived J now buf ep m of Inl x \<Rightarrow> m | Inr (m', ms) \<Rightarrow> m')"

definition engines_ok :: "engines \<Rightarrow> bool" where
  "engines_ok m \<longleftrightarrow> (\<forall>e \<in> ran m. engine_ok e)"

lemma engines_okD: "engines_ok m \<Longrightarrow> m i = Some e \<Longrightarrow> engine_ok e"
  by (auto simp: engines_ok_def ran_def)

lemma engines_ok_upd: "engines_ok m \<Longrightarrow> engine_ok e \<Longrightarrow> engines_ok (m(i \<mapsto> e))"
  by (auto simp: engines_ok_def ran_def)

text \<open>Every identifier in the books is the time of an earlier reception.\<close>

definition ids_before :: "int \<Rightarrow> engines \<Rightarrow> bool" where
  "ids_before now m \<longleftrightarrow> (\<forall>e \<in> ran m. engine_ids e \<subseteq> to_string ` {..<now})"

lemma ids_before_upd: "ids_before now m \<Longrightarrow> engine_ids e \<subseteq> to_string ` {..<now} \<Longrightarrow> ids_before now (m(i \<mapsto> e))"
  by (auto simp: ids_before_def ran_def)

lemma ids_beforeD: "ids_before now m \<Longrightarrow> m i = Some e \<Longrightarrow> engine_ids e \<subseteq> to_string ` {..<now}"
  by (auto simp: ids_before_def ran_def)

lemma ids_before_mono: "ids_before now m \<Longrightarrow> now \<le> later \<Longrightarrow> ids_before later m"
  by (force simp: ids_before_def)

text \<open>The invariant of the module, as the laws of a handler.\<close>

definition module_inv :: "int \<Rightarrow> engines \<Rightarrow> bool" where
  "module_inv now m \<longleftrightarrow> engines_ok m \<and> ids_before (now + 1) m"

lemma module_inv_upd:
  "module_inv now m \<Longrightarrow> engine_ok e \<Longrightarrow> engine_ids e \<subseteq> to_string ` {..<now + 1} \<Longrightarrow> module_inv now (m(i \<mapsto> e))"
  by (simp add: module_inv_def engines_ok_upd ids_before_upd)

lemma module_inv_engine:
  "module_inv now m \<Longrightarrow> m i = Some e \<Longrightarrow> engine_ok e \<and> engine_ids e \<subseteq> to_string ` {..<now + 1}"
  unfolding module_inv_def using engines_okD ids_beforeD by blast

lemma handler_insert_inv:
  assumes inv: "module_inv now m" and i: "od_id d = to_string now"
  shows "module_inv now (fst (Module_HandleOrderInsert d ep m))"
proof (cases "m (od_instrument d)")
  case (Some e)
  note e = module_inv_engine [OF inv Some]
  have "engine_ids (fst (MatchingEngine_OrderInsert d ep e)) \<subseteq> to_string ` {..<now + 1}"
    using OrderInsert_ids [of d ep e] e i by fastforce
  with inv e Some show ?thesis
    by (simp add: Module_HandleOrderInsert_def case_prod_unfold Let_def module_inv_upd OrderInsert_ok)
qed (use inv in \<open>simp add: Module_HandleOrderInsert_def\<close>)

lemma handler_amend_inv:
  assumes inv: "module_inv now m"
  shows "module_inv now (fst (Module_HandleOrderAmend a ep m))"
proof (cases "m (od_instrument a)")
  case (Some e)
  note e = module_inv_engine [OF inv Some]
  have "engine_ids (fst (MatchingEngine_OrderAmend a ep e)) \<subseteq> to_string ` {..<now + 1}"
    using OrderAmend_ids [of a ep e] e by blast
  with inv e Some show ?thesis
    by (simp add: Module_HandleOrderAmend_def case_prod_unfold Let_def module_inv_upd OrderAmend_ok)
qed (use inv in \<open>simp add: Module_HandleOrderAmend_def\<close>)

lemma handler_cancel_inv:
  assumes inv: "module_inv now m"
  shows "module_inv now (fst (Module_HandleOrderCancel c ep m))"
proof (cases "m (oc_instrument c)")
  case (Some e)
  note e = module_inv_engine [OF inv Some]
  have "engine_ids (fst (MatchingEngine_OrderCancel c ep e)) \<subseteq> to_string ` {..<now + 1}"
    using OrderCancel_ids [of c ep e] e by blast
  with inv e Some show ?thesis
    by (simp add: Module_HandleOrderCancel_def case_prod_unfold Let_def module_inv_upd OrderCancel_ok)
qed (use inv in \<open>simp add: Module_HandleOrderCancel_def\<close>)

lemma engine_insert_to: "(msg, x) \<in> set (snd (MatchingEngine_OrderInsert d ep e)) \<Longrightarrow> x = ep"
  by (auto simp: OrderInsert_eq CheckMatch_eq split: prod.splits)

lemma engine_amend_to: "(msg, x) \<in> set (snd (MatchingEngine_OrderAmend a ep e)) \<Longrightarrow> x = ep"
  by (cases "snd (MatchingEngine_Amend a e)")
    (auto simp: OrderAmend_true OrderAmend_false CheckMatch_eq split: prod.splits)

lemma engine_cancel_to: "(msg, x) \<in> set (snd (MatchingEngine_OrderCancel c ep e)) \<Longrightarrow> x = ep"
  by (auto simp: OrderCancel_eq split: if_splits)

lemma handler_insert_to: "(msg, x) \<in> set (snd (Module_HandleOrderInsert d ep m)) \<Longrightarrow> x = ep"
  by (auto simp: Module_HandleOrderInsert_def case_prod_unfold Let_def dest: engine_insert_to split: option.splits)

lemma handler_amend_to: "(msg, x) \<in> set (snd (Module_HandleOrderAmend a ep m)) \<Longrightarrow> x = ep"
  by (auto simp: Module_HandleOrderAmend_def case_prod_unfold Let_def dest: engine_amend_to split: option.splits)

lemma handler_cancel_to: "(msg, x) \<in> set (snd (Module_HandleOrderCancel c ep m)) \<Longrightarrow> x = ep"
  by (auto simp: Module_HandleOrderCancel_def case_prod_unfold Let_def dest: engine_cancel_to split: option.splits)

lemma handler_book: "Module_GetOrderBook i ep m = (m, [])"
  by (simp add: Module_GetOrderBook_def Let_def split: option.split)

interpretation handlers: order_handler module_handler module_inv
  by unfold_locales
    (auto simp: handler_insert_inv handler_amend_inv handler_cancel_inv handler_book
      dest: handler_insert_to handler_amend_to handler_cancel_to)

end
