(* ===== verification/Logger.thy ===== *)
theory Logger
  imports Prelude
begin

text \<open>
  \<open>logger.hpp\<close>: the bounded line buffer, the levels, the queue between the logging threads and
  the consumer thread, and where the lines are written. The queue and the formatting are library
  code: a formatted text is an argument, and so is what a push onto the queue answers.
\<close>

section \<open>Buffers and levels\<close>

text \<open>\<open>TrivialBuffer\<close>: the characters in use; a push past the end is ignored.\<close>

definition TrivialBuffer_push_back :: "nat \<Rightarrow> 'a \<Rightarrow> 'a list \<Rightarrow> 'a list" where
  "TrivialBuffer_push_back buffer_size c b = (if length b < buffer_size then b @ [c] else b)"

definition TrivialBuffer_clear :: "'a list \<Rightarrow> 'a list" where
  "TrivialBuffer_clear b = []"

text \<open>A \<open>back_insert_iterator\<close> pushes the characters one by one.\<close>

definition TrivialBuffer_insert :: "nat \<Rightarrow> 'a list \<Rightarrow> 'a list \<Rightarrow> 'a list" where
  "TrivialBuffer_insert buffer_size cs b = foldl (\<lambda>b c. TrivialBuffer_push_back buffer_size c b) b cs"

definition MaxLogLineLength :: nat where
  "MaxLogLineLength = 5 * 1024"

datatype LogLevel = LogLevel_None | LogLevel_Trace | LogLevel_Debug | LogLevel_Info | LogLevel_Warning | LogLevel_Error | LogLevel_Fatal

fun level_num :: "LogLevel \<Rightarrow> nat" where
  "level_num LogLevel_None = 0" | "level_num LogLevel_Trace = 1" | "level_num LogLevel_Debug = 2" | "level_num LogLevel_Info = 3"
| "level_num LogLevel_Warning = 4" | "level_num LogLevel_Error = 5" | "level_num LogLevel_Fatal = 6"

text \<open>The levels compare as the numbers of the enumeration.\<close>

instantiation LogLevel :: linorder
begin

definition less_eq_LogLevel :: "LogLevel \<Rightarrow> LogLevel \<Rightarrow> bool" where
  "less_eq_LogLevel a b \<longleftrightarrow> level_num a \<le> level_num b"

definition less_LogLevel :: "LogLevel \<Rightarrow> LogLevel \<Rightarrow> bool" where
  "less_LogLevel a b \<longleftrightarrow> level_num a < level_num b"

instance
proof
  fix x y z :: LogLevel
  show "(x < y) = (x \<le> y \<and> \<not> y \<le> x)" by (auto simp: less_LogLevel_def less_eq_LogLevel_def)
  show "x \<le> x" by (simp add: less_eq_LogLevel_def)
  show "x \<le> y \<Longrightarrow> y \<le> z \<Longrightarrow> x \<le> z" by (simp add: less_eq_LogLevel_def)
  show "x \<le> y \<Longrightarrow> y \<le> x \<Longrightarrow> x = y" by (cases x; cases y) (simp_all add: less_eq_LogLevel_def)
  show "x \<le> y \<or> y \<le> x" by (auto simp: less_eq_LogLevel_def)
qed

end

definition log_levels :: "(string \<times> LogLevel) list" where
  "log_levels =
     [('''', LogLevel_None), (''TRACE'', LogLevel_Trace), (''DEBUG'', LogLevel_Debug), (''INFO'', LogLevel_Info),
      (''WARN'', LogLevel_Warning), (''ERROR'', LogLevel_Error), (''FATAL'', LogLevel_Fatal)]"

definition Logger_GetLevel :: "string \<Rightarrow> LogLevel" where
  "Logger_GetLevel s = (case map_of log_levels s of Some l \<Rightarrow> l | None \<Rightarrow> LogLevel_Info)"

text \<open>The name a level is formatted as.\<close>

fun level_name :: "LogLevel \<Rightarrow> string" where
  "level_name LogLevel_Info = ''INFO''"
| "level_name LogLevel_Debug = ''DEBUG''"
| "level_name LogLevel_Trace = ''TRACE''"
| "level_name LogLevel_Error = ''ERROR''"
| "level_name LogLevel_Warning = ''WARN''"
| "level_name LogLevel_Fatal = ''FATAL''"
| "level_name LogLevel_None = ''NONE''"

section \<open>The logger\<close>

record Logger =
  lg_queue :: "string list"
  lg_file :: "string option"
  lg_console :: string
  lg_level :: LogLevel

definition Logger_ctor :: Logger where
  "Logger_ctor = \<lparr>lg_queue = [], lg_file = None, lg_console = [], lg_level = LogLevel_Info\<rparr>"

definition Logger_SetLevel :: "LogLevel \<Rightarrow> Logger \<Rightarrow> Logger" where
  "Logger_SetLevel l lg = lg\<lparr>lg_level := l\<rparr>"

text \<open>
  \<open>SetLogFile\<close> closes the old file, prints the path, opens the new one for appending (\<open>opened\<close>
  is the outcome, \<open>before\<close> what the file holds then) and starts it with a fixed line.
\<close>

definition Logger_SetLogFile :: "string \<Rightarrow> string option \<Rightarrow> Logger \<Rightarrow> Logger \<times> bool" where
  "Logger_SetLogFile path opened lg =
     (let lg1 = lg\<lparr>lg_file := None, lg_console := lg_console lg @ path @ '','' @ path @ [CHR 0x0A]\<rparr>
      in case opened of
           Some before \<Rightarrow> (lg1\<lparr>lg_file := Some (before @ ''Start new log file entry'')\<rparr>, True)
         | None \<Rightarrow> (lg1, False))"

definition Logger_TestLevel :: "LogLevel \<Rightarrow> Logger \<Rightarrow> bool" where
  "Logger_TestLevel l lg \<longleftrightarrow> lg_level lg \<noteq> LogLevel_None \<and> l \<ge> lg_level lg"

text \<open>The line of a message: a prefix, the text and a newline, as far as they fit.\<close>

definition log_line :: "string \<Rightarrow> string \<Rightarrow> string" where
  "log_line prefix txt =
     TrivialBuffer_insert MaxLogLineLength [CHR 0x0A]
       (TrivialBuffer_insert MaxLogLineLength txt
         (TrivialBuffer_insert MaxLogLineLength prefix []))"

definition Logger_PrintFull :: "Logger \<Rightarrow> Logger" where
  "Logger_PrintFull lg = lg\<lparr>lg_console := lg_console lg @ ''Log Queue full!!!'' @ [CHR 0x0A]\<rparr>"

definition Logger_Push :: "string \<Rightarrow> Logger \<Rightarrow> Logger" where
  "Logger_Push b lg = lg\<lparr>lg_queue := lg_queue lg @ [b]\<rparr>"

text \<open>The retry loop: each round prints and pushes again; \<open>answers\<close> are the outcomes of \<open>push\<close>.\<close>

fun log_retry :: "bool list \<Rightarrow> string \<Rightarrow> Logger \<Rightarrow> Logger option" where
  "log_retry [] b lg = None"
| "log_retry (a # as) b lg =
     (let lg1 = Logger_PrintFull lg in if a then Some (Logger_Push b lg1) else log_retry as b lg1)"

definition Logger_log :: "bool \<Rightarrow> bool list \<Rightarrow> string \<Rightarrow> string \<Rightarrow> Logger \<Rightarrow> Logger option" where
  "Logger_log bounded_ok answers prefix txt lg =
     (let b = log_line prefix txt
      in if \<not> bounded_ok then log_retry answers b lg else Some (Logger_Push b lg))"

text \<open>The \<open>LOG_\<close> macros log only what passes the level.\<close>

definition LOG :: "LogLevel \<Rightarrow> bool \<Rightarrow> bool list \<Rightarrow> string \<Rightarrow> string \<Rightarrow> Logger \<Rightarrow> Logger option" where
  "LOG l bounded_ok answers prefix txt lg =
     (if Logger_TestLevel l lg then Logger_log bounded_ok answers prefix txt lg else Some lg)"

text \<open>
  \<open>WaitAndWrite\<close> writes all of the queue, to the file when one is open; \<open>signalled\<close> is whether
  the wait ended by a notification and not by its timeout.
\<close>

definition Logger_write :: "string \<Rightarrow> Logger \<Rightarrow> Logger" where
  "Logger_write b lg =
     (case lg_file lg of
        Some f \<Rightarrow> lg\<lparr>lg_file := Some (f @ b)\<rparr>
      | None \<Rightarrow> lg\<lparr>lg_console := lg_console lg @ b\<rparr>)"

definition Logger_WaitAndWrite :: "bool \<Rightarrow> Logger \<Rightarrow> Logger" where
  "Logger_WaitAndWrite signalled lg =
     (if signalled \<and> lg_queue lg \<noteq> []
      then (foldl (\<lambda>lg b. Logger_write b lg) lg (lg_queue lg))\<lparr>lg_queue := []\<rparr>
      else lg)"

section \<open>Buffers\<close>

lemma TrivialBuffer_insert_Cons [simp]:
  "TrivialBuffer_insert n (c # cs) b = TrivialBuffer_insert n cs (TrivialBuffer_push_back n c b)"
  "TrivialBuffer_insert n [] b = b"
  by (simp_all add: TrivialBuffer_insert_def)

lemma TrivialBuffer_insert_eq:
  "length b \<le> n \<Longrightarrow> TrivialBuffer_insert n cs b = take n (b @ cs)"
proof (induction cs arbitrary: b)
  case (Cons c cs)
  show ?case
  proof (cases "length b < n")
    case True
    with Cons.IH [of "b @ [c]"] show ?thesis by (simp add: TrivialBuffer_push_back_def)
  next
    case False
    with Cons.prems have "length b = n" by simp
    with Cons.IH [of b] show ?thesis by (simp add: TrivialBuffer_push_back_def)
  qed
qed simp

lemma TrivialBuffer_insert_take: "TrivialBuffer_insert n cs (take n x) = take n (x @ cs)"
  by (cases "length x \<le> n") (simp_all add: TrivialBuffer_insert_eq)

lemma log_line_eq: "log_line prefix txt = take MaxLogLineLength (prefix @ txt @ [CHR 0x0A])"
proof -
  have "TrivialBuffer_insert n a [] = take n a" for n and a :: string
    using TrivialBuffer_insert_take [of n a "[]"] by simp
  then show ?thesis by (simp only: log_line_def TrivialBuffer_insert_take append_assoc)
qed

text \<open>
  A logged line is the prefix, the text and a newline cut to 5120 characters; when they
  are longer the newline is among what is lost, and the next line continues on the same one.
\<close>

theorem log_line_truncates:
  "length (log_line prefix txt) = min (5 * 1024) (length prefix + length txt + 1) \<and>
   (length prefix + length txt < 5 * 1024 \<or> log_line prefix txt = take (5 * 1024) (prefix @ txt))"
  by (auto simp: log_line_eq MaxLogLineLength_def)

text \<open>
  Level names: every level but the silent one reads back from its name, an unknown name is
  \<open>INFO\<close>, and so is \<open>NONE\<close>: the name the silent level is printed as does not read back.
\<close>

theorem level_names:
  "(l = LogLevel_None \<or> Logger_GetLevel (level_name l) = l) \<and> Logger_GetLevel (level_name LogLevel_None) = LogLevel_Info \<and>
   (s \<in> {'''', ''TRACE'', ''DEBUG'', ''INFO'', ''WARN'', ''ERROR'', ''FATAL''} \<or> Logger_GetLevel s = LogLevel_Info)"
  by (cases l) (auto simp: Logger_GetLevel_def log_levels_def)

section \<open>The writer\<close>

lemma write_file: "foldl (\<lambda>lg b. Logger_write b lg) (lg\<lparr>lg_file := Some f\<rparr>) q = lg\<lparr>lg_file := Some (f @ concat q)\<rparr>"
  by (induction q arbitrary: f) (simp_all add: Logger_write_def)

text \<open>The events of a logger whose file is set: threads log lines, the consumer wakes up.\<close>

datatype log_event = Ev_LOG LogLevel bool "bool list" string string | Ev_Wait bool | Ev_SetLevel LogLevel

fun log_step :: "Logger \<Rightarrow> log_event \<Rightarrow> Logger" where
  "log_step lg (Ev_LOG l ok as prefix txt) = (case LOG l ok as prefix txt lg of Some lg' \<Rightarrow> lg' | None \<Rightarrow> lg)"
| "log_step lg (Ev_Wait signalled) = Logger_WaitAndWrite signalled lg"
| "log_step lg (Ev_SetLevel l) = Logger_SetLevel l lg"

text \<open>What has been or will be written to the file, and what an event adds to it.\<close>

definition log_written :: "Logger \<Rightarrow> string" where
  "log_written lg = (case lg_file lg of Some f \<Rightarrow> f | None \<Rightarrow> []) @ concat (lg_queue lg)"

definition event_line :: "LogLevel \<Rightarrow> log_event \<Rightarrow> string" where
  "event_line level e =
     (case e of
        Ev_LOG l ok as prefix txt \<Rightarrow>
          if level \<noteq> LogLevel_None \<and> l \<ge> level \<and> (ok \<or> True \<in> set as) then log_line prefix txt else []
      | _ \<Rightarrow> [])"

fun log_spec :: "LogLevel \<times> string \<Rightarrow> log_event \<Rightarrow> LogLevel \<times> string" where
  "log_spec (level, out) (Ev_SetLevel l) = (l, out)"
| "log_spec (level, out) e = (level, out @ event_line level e)"

lemma log_retry_result:
  "log_retry as b lg = (if True \<in> set as then Some (Logger_Push b (lg\<lparr>lg_console := lg_console lg @
       concat (replicate (Suc (length (takeWhile Not as))) (''Log Queue full!!!'' @ [CHR 0x0A]))\<rparr>)) else None)"
  by (induction as arbitrary: lg) (simp_all add: Let_def Logger_PrintFull_def Logger_Push_def)

interpretation log_run: step_refinement log_step "\<lambda>lg. lg_file lg \<noteq> None"
    "\<lambda>lg. (lg_level lg, log_written lg)" log_spec
proof
  fix lg :: Logger and e
  assume f: "lg_file lg \<noteq> None"
  then obtain f where lf: "lg_file lg = Some f" by blast
  have w: "lg = lg\<lparr>lg_file := Some f\<rparr>" by (simp flip: lf)
  show "lg_file (log_step lg e) \<noteq> None"
  proof (cases e)
    case (Ev_Wait s)
    with lf write_file [where lg = lg and f = f and q = "lg_queue lg"] show ?thesis
      by (simp add: Logger_WaitAndWrite_def flip: w)
  qed (use f in \<open>auto simp: LOG_def Logger_log_def log_retry_result Logger_Push_def Logger_SetLevel_def
      Let_def split: option.split\<close>)
  show "(lg_level (log_step lg e), log_written (log_step lg e)) = log_spec (lg_level lg, log_written lg) e"
  proof (cases e)
    case (Ev_Wait s)
    with lf write_file [where lg = lg and f = f and q = "lg_queue lg"] show ?thesis
      by (simp add: Logger_WaitAndWrite_def log_written_def event_line_def flip: w)
  qed (auto simp: LOG_def Logger_log_def log_retry_result Logger_Push_def Logger_SetLevel_def
      Logger_TestLevel_def log_written_def event_line_def Let_def split: option.split)
qed

text \<open>
  Over any interleaving of logging threads, wake-ups and level changes, what is in the file
  and in the queue is exactly the lines that passed the level, each once and in the order they
  were pushed; nothing is dropped when the queue is full.
\<close>

theorem log_in_order:
  assumes "lg_file lg \<noteq> None"
  shows "(lg_level (foldl log_step lg es), log_written (foldl log_step lg es)) =
    foldl log_spec (lg_level lg, log_written lg) es"
  by (rule log_run.run_abs [OF assms])

theorem log_in_order_witness:
  "log_written (foldl log_step (fst (Logger_SetLogFile ''f'' (Some []) Logger_ctor))
     [Ev_LOG LogLevel_Info True [] ''p'' ''a'', Ev_Wait True, Ev_LOG LogLevel_Debug True [] ''p'' ''b'',
      Ev_LOG LogLevel_Error False [False, True] ''p'' ''c'']) =
   ''Start new log file entry'' @ log_line ''p'' ''a'' @ log_line ''p'' ''c''"
proof -
  let ?lg = "fst (Logger_SetLogFile ''f'' (Some []) Logger_ctor)"
  have "lg_file ?lg \<noteq> None" by (simp add: Logger_SetLogFile_def Let_def)
  from log_in_order [OF this, of "[Ev_LOG LogLevel_Info True [] ''p'' ''a'', Ev_Wait True, Ev_LOG LogLevel_Debug True [] ''p'' ''b'',
      Ev_LOG LogLevel_Error False [False, True] ''p'' ''c'']"]
  show ?thesis
    by (simp add: Logger_SetLogFile_def Logger_ctor_def log_written_def event_line_def
        less_eq_LogLevel_def Let_def)
qed

end
