(* ===== verification/Channels.thy ===== *)
theory Channels
  imports MatchingEngineModule Logger
begin

text \<open>
  The modules of a channel, \<open>ChannelBase\<close> and \<open>WebSocketChannel\<close>, and \<open>Application\<close>: the
  configuration read from a JSON document, the start sequence, and the delivery of a received
  buffer to the modules. An exception while the configuration is read leaves \<open>main\<close>, so the
  state it leaves behind is not kept. Opening sockets and files is a parameter.
\<close>

section \<open>Modules\<close>

datatype Module =
    TcpClientModule string "32 word"
  | LogModule
  | EngineModule engines

text \<open>\<open>CreateModule\<close> picks a factory by the module's name; an unknown name gives a null pointer.\<close>

definition WebSocketChannel_CreateModule :: "string \<Rightarrow> Module option" where
  "WebSocketChannel_CreateModule moduleName =
     (if moduleName = ''TcpClientModule'' then Some (TcpClientModule [] 0)
      else if moduleName = ''LogModule'' then Some LogModule
      else if moduleName = ''MatchingEngineModule'' then Some (EngineModule (\<lambda>i. None))
      else None)"

definition TcpClientModule_LoadConfig :: "'j json_api \<Rightarrow> 'j \<Rightarrow> (Module \<times> bool) throws" where
  "TcpClientModule_LoadConfig J v =
     bind_e (at_string J v ''Address'') (\<lambda>a.
     bind_e (at_int64 J v ''Port'') (\<lambda>p. Inr (TcpClientModule (c_str a) (ucast p), True)))"

fun Module_LoadConfig :: "'j json_api \<Rightarrow> 'j \<Rightarrow> Module \<Rightarrow> (Module \<times> bool) throws" where
  "Module_LoadConfig J v (TcpClientModule a p) = TcpClientModule_LoadConfig J v"
| "Module_LoadConfig J v LogModule = Inr (LogModule, True)"
| "Module_LoadConfig J v (EngineModule m) =
     (case MatchingEngineModule_LoadConfig J v m of
        (m', Inl x) \<Rightarrow> Inl x
      | (m', Inr ok) \<Rightarrow> Inr (EngineModule m', ok))"

fun Module_Start :: "(string \<Rightarrow> 32 word \<Rightarrow> bool) \<Rightarrow> Module \<Rightarrow> bool" where
  "Module_Start connect (TcpClientModule a p) = connect a p"
| "Module_Start connect LogModule = True"
| "Module_Start connect (EngineModule m) = MatchingEngineModule_Start"

fun IModule_OnWebSocketDataReceived ::
  "'j json_api \<Rightarrow> int \<Rightarrow> string \<Rightarrow> 'ep \<Rightarrow> Module \<Rightarrow> (Module \<times> (Message \<times> 'ep) list) throws" where
  "IModule_OnWebSocketDataReceived J now buf ep (TcpClientModule a p) = Inr (TcpClientModule a p, [])"
| "IModule_OnWebSocketDataReceived J now buf ep LogModule = Inr (LogModule, [])"
| "IModule_OnWebSocketDataReceived J now buf ep (EngineModule m) =
     (case Module_OnWebSocketDataReceived J now buf ep m of
        Inl x \<Rightarrow> Inl x
      | Inr (m', ms) \<Rightarrow> Inr (EngineModule m', ms))"

section \<open>Channels\<close>

record Channel =
  ch_name :: string
  ch_address :: string
  ch_port :: "32 word"
  ch_modules :: "Module list"

definition WebSocketChannel_ctor :: Channel where
  "WebSocketChannel_ctor = \<lparr>ch_name = [], ch_address = [], ch_port = 0, ch_modules = []\<rparr>"

definition WebSocketChannel_LoadChannelConfig ::
  "'j json_api \<Rightarrow> 'j \<Rightarrow> Channel \<Rightarrow> (Channel \<times> bool) throws" where
  "WebSocketChannel_LoadChannelConfig J cfg ch =
     bind_e (j_contains J cfg ''Port'') (\<lambda>hasPort.
     if \<not> hasPort then Inr (ch, False) else
     bind_e (j_at J cfg ''Port'') (\<lambda>port.
     if \<not> j_is_int64 J port then Inr (ch, False) else
     bind_e (j_as_int64 J port) (\<lambda>p.
     let ch1 = ch\<lparr>ch_port := ucast p\<rparr> in
     bind_e (j_contains J cfg ''Address'') (\<lambda>hasAddress.
     if \<not> hasAddress then Inr (ch1, False) else
     bind_e (j_at J cfg ''Address'') (\<lambda>address.
     if \<not> j_is_string J address then Inr (ch1, False) else
     bind_e (j_as_string J address) (\<lambda>a. Inr (ch1\<lparr>ch_address := c_str a\<rparr>, True)))))))"

text \<open>The loop over the configured modules: the modules loaded, and false for its early return.\<close>

fun load_modules :: "'j json_api \<Rightarrow> 'j list \<Rightarrow> Module list \<Rightarrow> (Module list \<times> bool) throws" where
  "load_modules J [] ms = Inr (ms, True)"
| "load_modules J (v # vs) ms =
     bind_e (j_contains J v ''Name'') (\<lambda>named.
     if \<not> named then Inr (ms, False) else
     bind_e (at_string J v ''Name'') (\<lambda>n.
     case WebSocketChannel_CreateModule (c_str n) of
       None \<Rightarrow> load_modules J vs ms
     | Some m \<Rightarrow>
         bind_e (Module_LoadConfig J v m) (\<lambda>(m', ok). load_modules J vs (if ok then ms @ [m'] else ms))))"

definition ChannelBase_LoadConfig :: "'j json_api \<Rightarrow> 'j \<Rightarrow> Channel \<Rightarrow> (Channel \<times> bool) throws" where
  "ChannelBase_LoadConfig J cfg ch =
     bind_e (j_contains J cfg ''Name'') (\<lambda>hasName.
     if \<not> hasName then Inr (ch, False) else
     bind_e (j_contains J cfg ''Modules'') (\<lambda>hasModules.
     if \<not> hasModules then Inr (ch, False) else
     bind_e (at_string J cfg ''Name'') (\<lambda>n.
     bind_e (WebSocketChannel_LoadChannelConfig J cfg (ch\<lparr>ch_name := c_str n\<rparr>)) (\<lambda>(ch1, ok).
     if \<not> ok then Inr (ch1, False) else
     bind_e (j_at J cfg ''Modules'') (\<lambda>modules.
     if j_is_array J modules then
       bind_e (j_as_array J modules) (\<lambda>vs.
       bind_e (load_modules J vs (ch_modules ch1)) (\<lambda>(ms, through).
         let ch2 = ch1\<lparr>ch_modules := ms\<rparr> in Inr (ch2, through \<and> ms \<noteq> [])))
     else Inr (ch1, ch_modules ch1 \<noteq> []))))))"

fun ChannelBase_StartModules :: "(string \<Rightarrow> 32 word \<Rightarrow> bool) \<Rightarrow> Module list \<Rightarrow> bool" where
  "ChannelBase_StartModules connect [] = True"
| "ChannelBase_StartModules connect (m # ms) =
     (if \<not> Module_Start connect m then False else ChannelBase_StartModules connect ms)"

text \<open>\<open>listen\<close> is what the web socket server answers when it is started.\<close>

definition WebSocketChannel_Start ::
  "(string \<Rightarrow> 32 word \<Rightarrow> bool) \<Rightarrow> (string \<Rightarrow> 32 word \<Rightarrow> bool) \<Rightarrow> Channel \<Rightarrow> bool" where
  "WebSocketChannel_Start listen connect ch =
     (if \<not> listen (ch_address ch) (ch_port ch) then False
      else ChannelBase_StartModules connect (ch_modules ch))"

text \<open>
  A received buffer goes to all modules in order. An exception of one leaves the loop: the
  modules before it have handled the buffer, the ones after it have not.
\<close>

fun deliver ::
  "'j json_api \<Rightarrow> int \<Rightarrow> string \<Rightarrow> 'ep \<Rightarrow> Module list \<Rightarrow> Module list \<times> (Message \<times> 'ep) list \<times> unit throws" where
  "deliver J now buf ep [] = ([], [], Inr ())"
| "deliver J now buf ep (m # ms) =
     (case IModule_OnWebSocketDataReceived J now buf ep m of
        Inl x \<Rightarrow> (m # ms, [], Inl x)
      | Inr (m', out) \<Rightarrow>
          (case deliver J now buf ep ms of (ms', out', r) \<Rightarrow> (m' # ms', out @ out', r)))"

definition WebSocketChannel_OnWebSocketDataReceived ::
  "'j json_api \<Rightarrow> int \<Rightarrow> string \<Rightarrow> 'ep \<Rightarrow> Channel \<Rightarrow> Channel \<times> (Message \<times> 'ep) list \<times> unit throws" where
  "WebSocketChannel_OnWebSocketDataReceived J now buf ep ch =
     (case deliver J now buf ep (ch_modules ch) of (ms, out, r) \<Rightarrow> (ch\<lparr>ch_modules := ms\<rparr>, out, r))"

section \<open>The application\<close>

record Application =
  app_logger :: Logger
  app_channels :: "Channel list"

text \<open>\<open>std::getline\<close> until the end of the file: the text after the last newline is a line too.\<close>

fun getlines :: "string \<Rightarrow> string list" where
  "getlines [] = [[]]"
| "getlines (c # cs) =
     (if c = CHR 0x0A then [] # getlines cs
      else case getlines cs of [] \<Rightarrow> [[c]] | l # ls \<Rightarrow> (c # l) # ls)"

text \<open>The parser is fed line by line; \<open>None\<close> where the loop gives up.\<close>

fun parse_lines :: "'j json_api \<Rightarrow> string list \<Rightarrow> string \<Rightarrow> string option" where
  "parse_lines J [] consumed = Some consumed"
| "parse_lines J (c # cs) consumed =
     (let n = p_write_some J consumed c
      in if n = 0 then None else parse_lines J cs (consumed @ take n c))"

text \<open>
  The logging settings. \<open>openf\<close> says under what path a log file is opened and what the file
  holds when that succeeds; the file's path is the directory's text with the program's name.
\<close>

definition load_logging ::
  "'j json_api \<Rightarrow> (string \<Rightarrow> string \<times> string option) \<Rightarrow> string \<Rightarrow> 'j \<Rightarrow> Logger \<Rightarrow> Logger throws" where
  "load_logging J openf applicationName root lg =
     bind_e (j_contains J root ''Logging'') (\<lambda>has.
     if \<not> has then Inr lg else
     bind_e (j_at J root ''Logging'') (\<lambda>node.
     bind_e (j_contains J node ''LogDirectory'') (\<lambda>hasDir.
     bind_e (if hasDir
             then bind_e (at_string J node ''LogDirectory'') (\<lambda>dir.
               case openf (c_str dir @ applicationName @ ''.log'') of
                 (path, opened) \<Rightarrow> Inr (fst (Logger_SetLogFile path opened lg)))
             else Inr lg) (\<lambda>lg1.
     bind_e (at_string J node ''LogLevel'') (\<lambda>l.
       Inr (Logger_SetLevel (Logger_GetLevel (c_str l)) lg1))))))"

fun load_channels :: "'j json_api \<Rightarrow> 'j list \<Rightarrow> Channel list \<Rightarrow> (Channel list \<times> bool) throws" where
  "load_channels J (v # vs) (ch # chs) =
     bind_e (ChannelBase_LoadConfig J v ch) (\<lambda>(ch', ok).
     if \<not> ok then Inr (ch' # chs, False) else
     bind_e (load_channels J vs chs) (\<lambda>(chs', ok'). Inr (ch' # chs', ok')))"
| "load_channels J vs chs = Inr (chs, True)"

definition Application_LoadConfig ::
  "'j json_api \<Rightarrow> (string \<Rightarrow> string \<times> string option) \<Rightarrow> string option \<Rightarrow> string \<Rightarrow> Application
     \<Rightarrow> (Application \<times> bool) throws" where
  "Application_LoadConfig J openf configFile applicationName app =
     (case configFile of
        None \<Rightarrow> Inr (app, False)
      | Some txt \<Rightarrow>
          (case parse_lines J (getlines txt) [] of
             None \<Rightarrow> Inr (app, False)
           | Some consumed \<Rightarrow>
               if \<not> p_done J consumed then Inr (app, False) else
               bind_e (p_release J consumed) (\<lambda>root.
               bind_e (load_logging J openf applicationName root (app_logger app)) (\<lambda>lg.
               let app1 = app\<lparr>app_logger := lg\<rparr> in
               bind_e (j_contains J root ''Channels'') (\<lambda>has.
               if \<not> has then Inr (app1, False) else
               bind_e (j_at J root ''Channels'') (\<lambda>channels.
               if \<not> j_is_array J channels then Inr (app1, False) else
               bind_e (j_as_array J channels) (\<lambda>vs.
               if length vs \<noteq> length (app_channels app1) then Inr (app1, False) else
               bind_e (load_channels J vs (app_channels app1)) (\<lambda>(chs, ok).
                 Inr (app1\<lparr>app_channels := chs\<rparr>, ok)))))))))"

text \<open>\<open>Run\<close>: the exit code, and whether the service is run.\<close>

fun start_channels ::
  "(string \<Rightarrow> 32 word \<Rightarrow> bool) \<Rightarrow> (string \<Rightarrow> 32 word \<Rightarrow> bool) \<Rightarrow> Channel list \<Rightarrow> bool" where
  "start_channels listen connect [] = True"
| "start_channels listen connect (ch # chs) =
     (if \<not> WebSocketChannel_Start listen connect ch then False else start_channels listen connect chs)"

definition Application_ReadCommandline :: "string list \<Rightarrow> bool" where
  "Application_ReadCommandline argv = True"

definition Application_Run ::
  "'j json_api \<Rightarrow> (string \<Rightarrow> string \<times> string option) \<Rightarrow> (string \<Rightarrow> 32 word \<Rightarrow> bool) \<Rightarrow> (string \<Rightarrow> 32 word \<Rightarrow> bool)
     \<Rightarrow> string option \<Rightarrow> string list \<Rightarrow> string \<Rightarrow> Application \<Rightarrow> (Application \<times> int \<times> bool) throws" where
  "Application_Run J openf listen connect configFile argv stem app =
     (if \<not> Application_ReadCommandline argv then Inr (app, 1, False) else
      bind_e (Application_LoadConfig J openf configFile stem app) (\<lambda>(app1, ok).
      if \<not> ok then Inr (app1, 1, False)
      else if \<not> start_channels listen connect (app_channels app1) then Inr (app1, 1, False)
      else Inr (app1, 0, True)))"

text \<open>\<open>main\<close> builds two channels.\<close>

definition main_application :: Application where
  "main_application = \<lparr>app_logger = Logger_ctor, app_channels = [WebSocketChannel_ctor, WebSocketChannel_ctor]\<rparr>"

section \<open>What a loaded configuration is\<close>

lemma load_instruments_ok:
  "load_instruments J vs m = (m', Inr ok) \<Longrightarrow>
   ok \<and> dom m' = dom m \<union> {c_str s |s v. v \<in> set vs \<and> j_as_string J v = Inr s} \<and>
   (\<forall>i e. m' i = Some e \<longrightarrow> m i = Some e \<or> e = MatchingEngine_ctor)"
proof (induction vs arbitrary: m)
  case (Cons v vs)
  then obtain i where i: "j_as_string J v = Inr i" by (auto split: sum.splits)
  with Cons.prems have "load_instruments J vs (m(c_str i \<mapsto> MatchingEngine_ctor)) = (m', Inr ok)" by simp
  from Cons.IH [OF this] i show ?case
    by (auto split: if_splits) (metis option.inject fun_upd_apply)
qed simp

text \<open>
  Loading a matching engine module gives one empty engine per configured instrument and no
  other, however often an instrument is named.
\<close>

theorem engine_config:
  assumes "Module_LoadConfig J v (EngineModule (\<lambda>i. None)) = Inr (m, ok)"
  shows "\<exists>engines vs. m = EngineModule engines \<and> ok \<and>
    bind_e (j_at J v ''Instruments'') (j_as_array J) = Inr vs \<and>
    dom engines = {c_str s |s w. w \<in> set vs \<and> j_as_string J w = Inr s} \<and>
    ran engines \<subseteq> {MatchingEngine_ctor} \<and> engines_ok engines"
proof -
  from assms obtain e where l: "MatchingEngineModule_LoadConfig J v (\<lambda>i. None) = (e, Inr ok)"
    and m: "m = EngineModule e" by (auto split: prod.splits sum.splits)
  from l obtain vs where vs: "bind_e (j_at J v ''Instruments'') (j_as_array J) = Inr vs"
    and li: "load_instruments J vs (\<lambda>i. None) = (e, Inr ok)"
    by (auto simp: MatchingEngineModule_LoadConfig_def split: sum.splits)
  from load_instruments_ok [OF li] have ok: ok
    and d: "dom e = {c_str s |s w. w \<in> set vs \<and> j_as_string J w = Inr s}"
    and r: "ran e \<subseteq> {MatchingEngine_ctor}" by (auto simp: ran_def)
  from r have "engines_ok e" using engine_ok_ctor by (auto simp: engines_ok_def)
  with m ok vs d r show ?thesis by blast
qed

theorem engine_config_witness:
  "\<exists>engines. Module_LoadConfig (jval_api []) (JObj [(''Instruments'', JArr [JStr ''ABCN'', JStr ''INGB''])])
     (EngineModule (\<lambda>i. None)) = Inr (EngineModule engines, True) \<and> ran engines \<subseteq> {MatchingEngine_ctor}"
proof -
  have r: "Module_LoadConfig (jval_api []) (JObj [(''Instruments'', JArr [JStr ''ABCN'', JStr ''INGB''])])
     (EngineModule (\<lambda>i. None)) = Inr (EngineModule [''ABCN'' \<mapsto> MatchingEngine_ctor, ''INGB'' \<mapsto> MatchingEngine_ctor], True)"
    by (simp add: MatchingEngineModule_LoadConfig_def c_str_def)
  from engine_config [OF r] r show ?thesis by auto
qed

lemma parse_lines_empty:
  "\<forall>t. p_write_some J t [] = 0 \<Longrightarrow> [] \<in> set ls \<Longrightarrow> parse_lines J ls consumed = None"
  by (induction ls arbitrary: consumed) (auto simp: Let_def)

lemma getlines_nonempty [simp]: "getlines s \<noteq> []"
  by (induction s) (auto split: list.split)

lemma getlines_last_newline: "[] \<in> set (tl (getlines (s @ [CHR 0x0A])))"
proof (induction s)
  case (Cons c s)
  obtain l ls where "getlines (s @ [CHR 0x0A]) = l # ls" by (cases "getlines (s @ [CHR 0x0A])") auto
  with Cons show ?case by simp
qed simp

lemma getlines_newline_empty: "[] \<in> set (getlines (s @ [CHR 0x0A]))"
  using getlines_last_newline [of s] by (cases "getlines (s @ [CHR 0x0A])") auto

text \<open>
  A configuration file that ends with a newline, as text files do, or has an empty line in
  it, is rejected and nothing is loaded: the parser takes no character of an empty line, and the
  loop takes that for a failure to parse.
\<close>

theorem config_trailing_newline_rejected:
  assumes "\<forall>t. p_write_some J t [] = 0"
  shows "Application_LoadConfig J openf (Some (content @ [CHR 0x0A])) name app = Inr (app, False) \<and>
    ([] \<notin> set (getlines other) \<or> Application_LoadConfig J openf (Some other) name app = Inr (app, False))"
  using parse_lines_empty [OF assms] getlines_newline_empty [of content]
  by (auto simp: Application_LoadConfig_def)

theorem config_trailing_newline_rejected_witness:
  "Application_LoadConfig (jval_api [(''{}'', JObj [])]) (\<lambda>p. (p, None)) (Some (''{}'' @ [CHR 0x0A])) ''app'' main_application =
     Inr (main_application, False)"
  by (rule config_trailing_newline_rejected [THEN conjunct1]) simp

section \<open>Channels\<close>

lemma load_channels_ok:
  "load_channels J vs chs = Inr (chs', True) \<Longrightarrow> length vs = length chs \<Longrightarrow>
   length chs' = length chs \<and> (\<forall>ch \<in> set chs'. ch_modules ch \<noteq> [])"
proof (induction J vs chs arbitrary: chs' rule: load_channels.induct)
  case (1 J v vs ch chs)
  then obtain ch1 chs1 where c: "ChannelBase_LoadConfig J v ch = Inr (ch1, True)"
    and r: "load_channels J vs chs = Inr (chs1, True)" and chs': "chs' = ch1 # chs1"
    by (auto simp: bind_e_Inr_iff split: if_splits)
  from c have "ch_modules ch1 \<noteq> []"
    by (auto simp: ChannelBase_LoadConfig_def bind_e_Inr_iff Let_def split: if_splits)
  with "1.IH" [OF _ r] "1.prems"(2) chs' show ?case by auto
qed auto

text \<open>
  A configuration that loads configures every channel of the application, each with at least
  one module, and the number of configured channels is the number the program was built with.
\<close>

theorem config_loaded:
  assumes "Application_LoadConfig J openf file name app = Inr (app', True)"
  shows "length (app_channels app') = length (app_channels app) \<and>
    (\<forall>ch \<in> set (app_channels app'). ch_modules ch \<noteq> [])"
proof -
  from assms obtain vs chs where "load_channels J vs (app_channels app) = Inr (chs, True)"
    and "length vs = length (app_channels app)" and "app_channels app' = chs"
    by (auto simp: Application_LoadConfig_def bind_e_Inr_iff Let_def split: option.splits if_splits)
  with load_channels_ok show ?thesis by blast
qed

definition sample_config :: jval where
  "sample_config =
     JObj [(''Logging'', JObj [(''LogLevel'', JStr ''WARN'')]),
           (''Channels'', JArr [JObj [(''Name'', JStr ''Web''), (''Address'', JStr ''0.0.0.0''), (''Port'', JInt 4401),
              (''Modules'', JArr [JObj [(''Name'', JStr ''LogModule'')], JObj [(''Name'', JStr ''NoSuch'')]])]])]"

theorem config_loaded_witness:
  "\<exists>app'. Application_LoadConfig (jval_api [(''cfg'', sample_config)]) (\<lambda>p. (p, None)) (Some ''cfg'') ''app''
     (main_application\<lparr>app_channels := [WebSocketChannel_ctor]\<rparr>) = Inr (app', True) \<and>
     (\<forall>ch \<in> set (app_channels app'). ch_modules ch \<noteq> [])"
proof -
  have r: "Application_LoadConfig (jval_api [(''cfg'', sample_config)]) (\<lambda>p. (p, None)) (Some ''cfg'') ''app''
     (main_application\<lparr>app_channels := [WebSocketChannel_ctor]\<rparr>) =
     Inr (\<lparr>app_logger = Logger_ctor\<lparr>lg_level := LogLevel_Warning\<rparr>,
           app_channels = [\<lparr>ch_name = ''Web'', ch_address = ''0.0.0.0'', ch_port = 4401, ch_modules = [LogModule]\<rparr>]\<rparr>, True)"
    by (simp add: Application_LoadConfig_def load_logging_def ChannelBase_LoadConfig_def
        WebSocketChannel_LoadChannelConfig_def WebSocketChannel_CreateModule_def WebSocketChannel_ctor_def
        main_application_def sample_config_def jval_api_def at_string_def at_int64_def c_str_def
        Logger_GetLevel_def log_levels_def Logger_SetLevel_def Let_def)
  from config_loaded [OF r] r show ?thesis by blast
qed

text \<open>
  A buffer received by a channel reaches its modules in their order, each exactly once, and
  what they send is sent in that order; when one throws, the ones before it have handled the
  buffer and neither it nor any later one has changed.
\<close>

theorem deliver_in_order:
  assumes "deliver J now buf ep ms = (ms', out, r)"
  shows "\<exists>k outs. k \<le> length ms \<and> drop k ms' = drop k ms \<and> length ms' = length ms \<and> length outs = k \<and>
    (\<forall>i < k. IModule_OnWebSocketDataReceived J now buf ep (ms ! i) = Inr (ms' ! i, outs ! i)) \<and>
    out = concat outs \<and>
    (if k = length ms then r = Inr ()
     else \<exists>x. IModule_OnWebSocketDataReceived J now buf ep (ms ! k) = Inl x \<and> r = Inl x)"
  using assms
proof (induction ms arbitrary: ms' out r)
  case Nil
  then show ?case by simp
next
  case (Cons m ms)
  show ?case
  proof (cases "IModule_OnWebSocketDataReceived J now buf ep m")
    case (Inl x)
    with Cons.prems show ?thesis by (intro exI [of _ 0] exI [of _ "[]"]) auto
  next
    case (Inr mo)
    obtain m1 o1 where mo: "mo = (m1, o1)" by (cases mo)
    obtain ms1 out1 r1 where d: "deliver J now buf ep ms = (ms1, out1, r1)" by (metis prod_cases3)
    from Cons.prems Inr mo d have eq: "ms' = m1 # ms1" "out = o1 @ out1" "r = r1" by auto
    from Cons.IH [OF d] obtain k outs where k: "k \<le> length ms" "drop k ms1 = drop k ms" "length ms1 = length ms"
      "length outs = k" "out1 = concat outs"
      and i: "\<forall>i < k. IModule_OnWebSocketDataReceived J now buf ep (ms ! i) = Inr (ms1 ! i, outs ! i)"
      and last: "if k = length ms then r1 = Inr ()
        else \<exists>x. IModule_OnWebSocketDataReceived J now buf ep (ms ! k) = Inl x \<and> r1 = Inl x" by blast
    have "\<forall>i < Suc k. IModule_OnWebSocketDataReceived J now buf ep ((m # ms) ! i) = Inr ((m1 # ms1) ! i, (o1 # outs) ! i)"
      using i Inr mo by (auto simp: less_Suc_eq_0_disj)
    with k last show ?thesis unfolding eq
      by (intro exI [of _ "Suc k"] exI [of _ "o1 # outs"]) (auto split: if_splits)
  qed
qed

theorem deliver_in_order_witness:
  "\<exists>k outs. k \<le> length [LogModule, EngineModule Map.empty, LogModule] \<and>
     (\<forall>i < k. IModule_OnWebSocketDataReceived (jval_api []) 1 ''x'' (5 :: nat) ([LogModule, EngineModule Map.empty, LogModule] ! i) =
        Inr ([LogModule, EngineModule Map.empty, LogModule] ! i, outs ! i)) \<and>
     [] = concat outs \<and> k \<noteq> 3"
proof -
  have r: "deliver (jval_api []) 1 ''x'' (5 :: nat) [LogModule, EngineModule Map.empty, LogModule] =
      ([LogModule, EngineModule Map.empty, LogModule], [], Inl (CppExn ''incomplete JSON''))"
    by (simp add: Module_OnWebSocketDataReceived_def Processor_Process_def)
  obtain k outs where "k \<le> length [LogModule, EngineModule Map.empty, LogModule]"
    "\<forall>i < k. IModule_OnWebSocketDataReceived (jval_api []) 1 ''x'' (5 :: nat) ([LogModule, EngineModule Map.empty, LogModule] ! i) =
        Inr ([LogModule, EngineModule Map.empty, LogModule] ! i, outs ! i)"
    "[] = concat outs"
    "if k = length [LogModule, EngineModule Map.empty, LogModule]
     then (Inl (CppExn ''incomplete JSON'') :: unit throws) = Inr ()
     else \<exists>x. IModule_OnWebSocketDataReceived (jval_api []) 1 ''x'' (5 :: nat)
       ([LogModule, EngineModule Map.empty, LogModule] ! k) = Inl x \<and> (Inl (CppExn ''incomplete JSON'') :: unit throws) = Inl x"
    using deliver_in_order [OF r] by blast
  then show ?thesis by (auto simp: numeral_3_eq_3 split: if_splits)
qed

end
