(* ===== verification/Fifo.thy ===== *)
theory Fifo
  imports Prelude
begin

text \<open>
  The contract of the first-in-first-out buffers: a push of a block either appends the block to
  the contents or refuses it, a pop takes elements off the front. \<open>None\<close> is undefined
  behaviour of the code, after which nothing is promised. A run of such operations collects
  what was accepted and what was taken.
\<close>

datatype 'a fifo_op = Push "'a list" | Pop nat

fun fifo_run ::
  "('a list \<Rightarrow> 's \<Rightarrow> ('s \<times> bool) option) \<Rightarrow> (nat \<Rightarrow> 's \<Rightarrow> ('s \<times> 'a list) option) \<Rightarrow> 'a fifo_op list \<Rightarrow> 's
     \<Rightarrow> ('s \<times> 'a list \<times> 'a list) option" where
  "fifo_run push pop [] s = Some (s, [], [])"
| "fifo_run push pop (Push d # os) s =
     (case push d s of
        None \<Rightarrow> None
      | Some (s1, ok) \<Rightarrow>
          (case fifo_run push pop os s1 of
             None \<Rightarrow> None
           | Some (s2, pushed, popped) \<Rightarrow> Some (s2, (if ok then d else []) @ pushed, popped)))"
| "fifo_run push pop (Pop n # os) s =
     (case pop n s of
        None \<Rightarrow> None
      | Some (s1, out) \<Rightarrow>
          (case fifo_run push pop os s1 of
             None \<Rightarrow> None
           | Some (s2, pushed, popped) \<Rightarrow> Some (s2, pushed, out @ popped)))"

locale fifo =
  fixes push :: "'a list \<Rightarrow> 's \<Rightarrow> ('s \<times> bool) option"
    and pop :: "nat \<Rightarrow> 's \<Rightarrow> ('s \<times> 'a list) option"
    and inv :: "'s \<Rightarrow> bool"
    and contents :: "'s \<Rightarrow> 'a list"
  assumes push_law: "inv s \<Longrightarrow> push d s = Some (s', ok) \<Longrightarrow>
      inv s' \<and> contents s' = contents s @ (if ok then d else [])"
    and pop_law: "inv s \<Longrightarrow> pop n s = Some (s', out) \<Longrightarrow> inv s' \<and> contents s = out @ contents s'"
begin

lemma run_fifo:
  "inv s \<Longrightarrow> fifo_run push pop os s = Some (s', pushed, popped) \<Longrightarrow>
   inv s' \<and> popped @ contents s' = contents s @ pushed"
proof (induction os arbitrary: s pushed popped)
  case (Cons x os)
  show ?case
  proof (cases x)
    case (Push d)
    with Cons.prems obtain s1 ok pushed1 where p: "push d s = Some (s1, ok)"
      and r: "fifo_run push pop os s1 = Some (s', pushed1, popped)"
      and e: "pushed = (if ok then d else []) @ pushed1"
      by (auto split: option.splits)
    from push_law [OF Cons.prems(1) p] Cons.IH [OF _ r] e show ?thesis by auto
  next
    case (Pop n)
    with Cons.prems obtain s1 out popped1 where p: "pop n s = Some (s1, out)"
      and r: "fifo_run push pop os s1 = Some (s', pushed, popped1)"
      and e: "popped = out @ popped1"
      by (auto split: option.splits)
    from pop_law [OF Cons.prems(1) p] Cons.IH [OF _ r] e show ?thesis by auto
  qed
qed simp

end

end
