(* ===== verification/RingBuffer.thy ===== *)
theory RingBuffer
  imports Fifo
begin

text \<open>
  \<open>RingBuffer<char, N>\<close>: a linear buffer with a read and a write pointer, kept as offsets
  into it. Its elements are of one byte, as in the sessions that use it. \<open>memcpy\<close> on
  overlapping memory is undefined, and is \<open>None\<close> here.
\<close>

section \<open>Operations\<close>

record 'a RingBuffer =
  rb_buffer :: "'a list"
  rb_write :: nat
  rb_read :: nat

definition RingBuffer_ctor :: "'a list \<Rightarrow> 'a RingBuffer" where
  "RingBuffer_ctor storage = \<lparr>rb_buffer = storage, rb_write = 0, rb_read = 0\<rparr>"

text \<open>The difference of two pointers as a \<open>std::size_t\<close>.\<close>

definition ptr_diff :: "nat \<Rightarrow> nat \<Rightarrow> nat" where
  "ptr_diff a b = nat ((int a - int b) mod 2 ^ 64)"

definition RingBuffer_GetWriteBufferSize :: "'a RingBuffer \<Rightarrow> nat" where
  "RingBuffer_GetWriteBufferSize rb = ptr_diff (rb_write rb) 0"

definition RingBuffer_GetFreeWriteBufferSize :: "'a RingBuffer \<Rightarrow> nat" where
  "RingBuffer_GetFreeWriteBufferSize rb = ptr_diff (length (rb_buffer rb)) (RingBuffer_GetWriteBufferSize rb)"

definition RingBuffer_GetReadBufferSize :: "'a RingBuffer \<Rightarrow> nat" where
  "RingBuffer_GetReadBufferSize rb = ptr_diff (rb_write rb) (rb_read rb)"

definition RingBuffer_Commit :: "nat \<Rightarrow> 'a RingBuffer \<Rightarrow> 'a RingBuffer" where
  "RingBuffer_Commit n rb = rb\<lparr>rb_write := rb_write rb + n\<rparr>"

text \<open>
  \<open>memcpy\<close> of \<open>n\<close> elements from one offset of the buffer to another; \<open>None\<close> where the
  two ranges overlap.
\<close>

definition memcpy_within :: "nat \<Rightarrow> nat \<Rightarrow> nat \<Rightarrow> 'a list \<Rightarrow> 'a list option" where
  "memcpy_within dst src n b =
     (if 0 < n \<and> dst < src + n \<and> src < dst + n then None
      else Some (take dst b @ take n (drop src b) @ drop (dst + n) b))"

text \<open>\<open>GetWriteBuffer\<close> returns the offset to write at, or the null pointer.\<close>

definition RingBuffer_GetWriteBuffer :: "nat \<Rightarrow> 'a RingBuffer \<Rightarrow> ('a RingBuffer \<times> nat option) option" where
  "RingBuffer_GetWriteBuffer sz rb =
     (if rb_write rb + sz \<le> length (rb_buffer rb) then Some (rb, Some (rb_write rb))
      else
        let usedSize = ptr_diff (rb_write rb) (rb_read rb);
            lowFreeSize = ptr_diff (rb_read rb) 0;
            highFreeSize = ptr_diff (length (rb_buffer rb)) (rb_write rb)
        in if lowFreeSize + highFreeSize \<ge> sz then
             (case memcpy_within 0 (rb_read rb) usedSize (rb_buffer rb) of
                None \<Rightarrow> None
              | Some b \<Rightarrow> Some (rb\<lparr>rb_buffer := b, rb_read := 0, rb_write := usedSize\<rparr>, Some usedSize))
           else Some (rb, None))"

definition store_at :: "nat \<Rightarrow> 'a list \<Rightarrow> 'a list \<Rightarrow> 'a list" where
  "store_at p data b = take p b @ data @ drop (p + length data) b"

definition RingBuffer_WriteBuffer :: "'a list \<Rightarrow> 'a RingBuffer \<Rightarrow> ('a RingBuffer \<times> nat) option" where
  "RingBuffer_WriteBuffer data rb =
     (case RingBuffer_GetWriteBuffer (length data) rb of
        None \<Rightarrow> None
      | Some (rb1, Some p) \<Rightarrow>
          Some (RingBuffer_Commit (length data) (rb1\<lparr>rb_buffer := store_at p data (rb_buffer rb1)\<rparr>), length data)
      | Some (rb1, None) \<Rightarrow> Some (rb1, 0))"

text \<open>
  The overload with a function: it is given \<open>requestedSize\<close> elements to write into, and its
  effect is the elements it stores and the number it returns.
\<close>

definition RingBuffer_WriteBuffer_fn ::
  "(nat \<Rightarrow> 'a list \<times> nat) \<Rightarrow> nat \<Rightarrow> 'a RingBuffer \<Rightarrow> ('a RingBuffer \<times> bool) option" where
  "RingBuffer_WriteBuffer_fn writeFn requestedSize rb =
     (case RingBuffer_GetWriteBuffer requestedSize rb of
        None \<Rightarrow> None
      | Some (rb1, Some p) \<Rightarrow>
          (case writeFn requestedSize of
             (stored, bytesToCommit) \<Rightarrow>
               let rb2 = rb1\<lparr>rb_buffer := store_at p stored (rb_buffer rb1)\<rparr>
               in Some (if bytesToCommit > 0 \<and> bytesToCommit \<le> requestedSize
                        then (RingBuffer_Commit bytesToCommit rb2, True) else (rb2, False)))
      | Some (rb1, None) \<Rightarrow> Some (rb1, False))"

definition RingBuffer_GetReadBuffer :: "nat \<Rightarrow> 'a RingBuffer \<Rightarrow> nat option" where
  "RingBuffer_GetReadBuffer sz rb =
     (if sz \<le> ptr_diff (rb_write rb) (rb_read rb) then Some (rb_read rb) else None)"

text \<open>\<open>Flush\<close> constructs an exception when the size is too large, and does not throw it.\<close>

definition RingBuffer_Flush :: "nat \<Rightarrow> 'a RingBuffer \<Rightarrow> 'a RingBuffer" where
  "RingBuffer_Flush sz rb =
     (let rb1 = rb\<lparr>rb_read := rb_read rb + sz\<rparr>
      in if rb_write rb1 = rb_read rb1 then rb1\<lparr>rb_write := 0, rb_read := 0\<rparr> else rb1)"

text \<open>
  \<open>readFn\<close> is a function of the elements it is shown: it returns how many to flush, and something
  it makes of them. The latter is returned when \<open>readFn\<close> is called.
\<close>

definition RingBuffer_ReadBuffer ::
  "('a list \<Rightarrow> nat \<times> 'b) \<Rightarrow> 'a RingBuffer \<Rightarrow> 'a RingBuffer \<times> bool \<times> 'b option" where
  "RingBuffer_ReadBuffer readFn rb =
     (let readBytesAvailable = RingBuffer_GetReadBufferSize rb
      in case RingBuffer_GetReadBuffer readBytesAvailable rb of
           None \<Rightarrow> (rb, False, None)
         | Some p \<Rightarrow>
             (case readFn (take readBytesAvailable (drop p (rb_buffer rb))) of
                (bytesToFlush, x) \<Rightarrow>
                  if bytesToFlush > 0 then (RingBuffer_Flush bytesToFlush rb, True, Some x) else (rb, False, Some x)))"

text \<open>A reader that takes what it is shown, at most \<open>n\<close> elements, and flushes what it takes.\<close>

definition read_some :: "nat \<Rightarrow> 'a RingBuffer \<Rightarrow> 'a RingBuffer \<times> 'a list" where
  "read_some n rb =
     (case RingBuffer_ReadBuffer (\<lambda>shown. (min n (length shown), take n shown)) rb of
        (rb', ok, x) \<Rightarrow> (rb', case x of None \<Rightarrow> [] | Some taken \<Rightarrow> taken))"

section \<open>The contents\<close>

text \<open>A buffer in use: the pointers are in order and the storage has fewer than \<open>2 ^ 64\<close> bytes.\<close>

definition rb_ok :: "'a RingBuffer \<Rightarrow> bool" where
  "rb_ok rb \<longleftrightarrow> rb_read rb \<le> rb_write rb \<and> rb_write rb \<le> length (rb_buffer rb) \<and> length (rb_buffer rb) < 2 ^ 64"

definition rb_contents :: "'a RingBuffer \<Rightarrow> 'a list" where
  "rb_contents rb = take (rb_write rb - rb_read rb) (drop (rb_read rb) (rb_buffer rb))"

lemma ptr_diff_le: "b \<le> a \<Longrightarrow> a < 2 ^ 64 \<Longrightarrow> ptr_diff a b = a - b"
  by (simp add: ptr_diff_def nat_mod_distrib flip: of_nat_diff)

lemma rb_used: "rb_ok rb \<Longrightarrow> ptr_diff (rb_write rb) (rb_read rb) = rb_write rb - rb_read rb"
  by (simp add: rb_ok_def ptr_diff_le)

lemma length_contents: "rb_ok rb \<Longrightarrow> length (rb_contents rb) = rb_write rb - rb_read rb"
  by (auto simp: rb_ok_def rb_contents_def)

lemma read_size: "rb_ok rb \<Longrightarrow> RingBuffer_GetReadBufferSize rb = length (rb_contents rb)"
  by (simp add: RingBuffer_GetReadBufferSize_def rb_used length_contents)

text \<open>
  \<open>GetWriteBuffer\<close> keeps the contents; it finds room exactly when the contents and the
  request fit into the storage together, and it is undefined when it has to move contents that
  overlap the place they are moved to.
\<close>

lemma GetWriteBuffer_result:
  assumes ok: "rb_ok rb"
  shows "RingBuffer_GetWriteBuffer sz rb =
    (if rb_write rb + sz \<le> length (rb_buffer rb) then Some (rb, Some (rb_write rb))
     else if length (rb_contents rb) + sz > length (rb_buffer rb) then Some (rb, None)
     else if 0 < length (rb_contents rb) \<and> rb_read rb < length (rb_contents rb) then None
     else Some (rb\<lparr>rb_buffer := rb_contents rb @ drop (length (rb_contents rb)) (rb_buffer rb), rb_read := 0,
                   rb_write := length (rb_contents rb)\<rparr>, Some (length (rb_contents rb))))"
proof -
  let ?n = "length (rb_buffer rb)" let ?r = "rb_read rb" let ?w = "rb_write rb"
  have ord: "?r \<le> ?w" "?w \<le> ?n" "?n < 2 ^ 64" using ok by (simp_all add: rb_ok_def)
  have d: "ptr_diff ?w ?r = ?w - ?r" "ptr_diff ?r 0 = ?r" "ptr_diff ?n ?w = ?n - ?w"
    using ord by (simp_all add: ptr_diff_le)
  have f: "?r + (?n - ?w) < sz \<longleftrightarrow> ?w - ?r + sz > ?n" using ord by arith
  show ?thesis
    using ord f
    by (auto simp: RingBuffer_GetWriteBuffer_def d length_contents [OF ok] memcpy_within_def not_le
        rb_contents_def Let_def)
qed

lemma store_at_contents:
  "length b = w + k \<Longrightarrow> length data \<le> k \<Longrightarrow> r \<le> w \<Longrightarrow>
   take (w + length data - r) (drop r (store_at w data b)) = take (w - r) (drop r b) @ data"
  by (simp add: store_at_def take_drop)

lemma GetWriteBuffer_cases:
  assumes "rb_ok rb" and "RingBuffer_GetWriteBuffer sz rb = Some (rb1, p)"
  shows "rb_ok rb1 \<and> rb_contents rb1 = rb_contents rb \<and> length (rb_buffer rb1) = length (rb_buffer rb) \<and>
    (case p of None \<Rightarrow> rb1 = rb \<and> length (rb_contents rb) + sz > length (rb_buffer rb)
     | Some q \<Rightarrow> q = rb_write rb1 \<and> q + sz \<le> length (rb_buffer rb1))"
proof -
  have l: "length (rb_contents rb) \<le> length (rb_buffer rb)" by (simp add: rb_contents_def)
  show ?thesis
    using assms(2) assms(1) l
    by (auto simp: GetWriteBuffer_result [OF assms(1)] rb_ok_def rb_contents_def split: if_splits)
qed

lemma WriteBuffer_cases:
  assumes ok: "rb_ok rb" and w: "RingBuffer_WriteBuffer data rb = Some (rb', n)"
  shows "rb_ok rb' \<and> length (rb_buffer rb') = length (rb_buffer rb) \<and>
    (if length (rb_contents rb) + length data \<le> length (rb_buffer rb)
     then n = length data \<and> rb_contents rb' = rb_contents rb @ data
     else n = 0 \<and> rb' = rb)"
proof -
  obtain rb1 p where g: "RingBuffer_GetWriteBuffer (length data) rb = Some (rb1, p)"
    using w by (auto simp: RingBuffer_WriteBuffer_def split: option.splits)
  note c = GetWriteBuffer_cases [OF ok g]
  show ?thesis
  proof (cases p)
    case None
    with c w g show ?thesis by (auto simp: RingBuffer_WriteBuffer_def)
  next
    case (Some q)
    from c Some have q: "q = rb_write rb1" "q + length data \<le> length (rb_buffer rb1)" by auto
    from w g Some have rb': "rb' = RingBuffer_Commit (length data) (rb1\<lparr>rb_buffer := store_at q data (rb_buffer rb1)\<rparr>)"
      and n: "n = length data" by (auto simp: RingBuffer_WriteBuffer_def)
    have len: "length (store_at q data (rb_buffer rb1)) = length (rb_buffer rb1)"
      using q by (simp add: store_at_def)
    have r: "rb_read rb1 \<le> q" "rb_ok rb1" using c q by (auto simp: rb_ok_def)
    have "rb_contents rb' = rb_contents rb1 @ data"
      using store_at_contents [of "rb_buffer rb1" q "length (rb_buffer rb1) - q" data "rb_read rb1"] q r
      by (simp add: rb' rb_contents_def RingBuffer_Commit_def)
    moreover have "rb_ok rb'" using r q len by (simp add: rb' rb_ok_def RingBuffer_Commit_def)
    moreover have "length (rb_contents rb1) = q - rb_read rb1" using length_contents [OF r(2)] q by simp
    ultimately show ?thesis using c n q len by (auto simp: rb' RingBuffer_Commit_def)
  qed
qed

lemma Flush_result:
  assumes "rb_ok rb" and "n \<le> length (rb_contents rb)"
  shows "rb_ok (RingBuffer_Flush n rb) \<and> rb_contents (RingBuffer_Flush n rb) = drop n (rb_contents rb) \<and>
    rb_buffer (RingBuffer_Flush n rb) = rb_buffer rb"
  using assms
  by (auto simp: RingBuffer_Flush_def rb_ok_def rb_contents_def Let_def drop_take add.commute)

text \<open>The buffer as a queue of bytes: what is read is what the reader has taken.\<close>

definition rb_push :: "'a list \<Rightarrow> 'a RingBuffer \<Rightarrow> ('a RingBuffer \<times> bool) option" where
  "rb_push d rb = (case RingBuffer_WriteBuffer d rb of None \<Rightarrow> None | Some (rb', n) \<Rightarrow> Some (rb', n = length d))"

definition rb_pop :: "nat \<Rightarrow> 'a RingBuffer \<Rightarrow> ('a RingBuffer \<times> 'a list) option" where
  "rb_pop n rb = Some (read_some n rb)"

lemma ReadBuffer_result:
  assumes "rb_ok rb"
  shows "RingBuffer_ReadBuffer f rb =
    (case f (rb_contents rb) of
       (k, x) \<Rightarrow> if k > 0 then (RingBuffer_Flush k rb, True, Some x) else (rb, False, Some x))"
  using read_size [OF assms] rb_used [OF assms] length_contents [OF assms]
  by (simp add: RingBuffer_ReadBuffer_def RingBuffer_GetReadBuffer_def Let_def rb_contents_def)

lemma read_some_result:
  assumes "rb_ok rb" and "read_some n rb = (rb', out)"
  shows "rb_ok rb' \<and> out = take n (rb_contents rb) \<and> rb_contents rb' = drop n (rb_contents rb) \<and>
    length (rb_buffer rb') = length (rb_buffer rb)"
proof -
  let ?k = "min n (length (rb_contents rb))"
  from assms(2) have rb': "rb' = (if ?k > 0 then RingBuffer_Flush ?k rb else rb)" and out: "out = take n (rb_contents rb)"
    by (auto simp: read_some_def ReadBuffer_result [OF assms(1)] split: if_splits)
  from Flush_result [OF assms(1), of ?k] assms(1) show ?thesis by (auto simp: rb' out min_def)
qed

interpretation ring: fifo rb_push rb_pop rb_ok rb_contents
proof
  fix rb rb' :: "'a RingBuffer" and d ok
  assume rb: "rb_ok rb" and p: "rb_push d rb = Some (rb', ok)"
  then obtain n where w: "RingBuffer_WriteBuffer d rb = Some (rb', n)" and ok: "ok = (n = length d)"
    by (auto simp: rb_push_def split: option.splits)
  from WriteBuffer_cases [OF rb w] ok show "rb_ok rb' \<and> rb_contents rb' = rb_contents rb @ (if ok then d else [])"
    by (auto split: if_splits)
next
  fix rb rb' :: "'a RingBuffer" and n out
  assume rb: "rb_ok rb" and p: "rb_pop n rb = Some (rb', out)"
  then have "read_some n rb = (rb', out)" by (simp add: rb_pop_def)
  from read_some_result [OF rb this] show "rb_ok rb' \<and> rb_contents rb = out @ rb_contents rb'" by simp
qed

section \<open>Properties\<close>

text \<open>
  C25: First in, first out: from an empty ring buffer of less than \<open>2 ^ 64\<close> bytes, as long as no
  move of overlapping memory is needed, the bytes the readers have taken of what \<open>ReadBuffer\<close>
  showed them, followed by the bytes between the pointers, are the bytes of the accepted writes,
  whatever the sizes of the writes and the reads.
\<close>

theorem ring_fifo:
  assumes "length storage < 2 ^ 64"
    and "fifo_run rb_push rb_pop ops (RingBuffer_ctor storage) = Some (rb, pushed, popped)"
  shows "popped @ rb_contents rb = pushed \<and> rb_ok rb"
proof -
  have "rb_ok (RingBuffer_ctor storage)" "rb_contents (RingBuffer_ctor storage) = []"
    using assms(1) by (simp_all add: rb_ok_def rb_contents_def RingBuffer_ctor_def)
  from ring.run_fifo [OF this(1) assms(2)] this(2) show ?thesis by simp
qed

lemmas ring_eval = rb_push_def rb_pop_def read_some_def RingBuffer_WriteBuffer_def RingBuffer_GetWriteBuffer_def
  RingBuffer_ReadBuffer_def RingBuffer_GetReadBuffer_def RingBuffer_GetReadBufferSize_def
  RingBuffer_Commit_def RingBuffer_Flush_def RingBuffer_ctor_def rb_contents_def memcpy_within_def
  store_at_def ptr_diff_def Let_def

theorem ring_fifo_witness:
  "\<exists>rb. fifo_run rb_push rb_pop [Push [1, 2, 3], Pop 2, Push [4, 5], Pop 1] (RingBuffer_ctor [0, 0, 0, 0 :: nat]) =
     Some (rb, [1, 2, 3, 4, 5], [1, 2, 3]) \<and> [1, 2, 3] @ rb_contents rb = [1, 2, 3, 4, 5]"
proof -
  have r: "fifo_run rb_push rb_pop [Push [1, 2, 3], Pop 2, Push [4, 5], Pop 1] (RingBuffer_ctor [0, 0, 0, 0 :: nat]) =
     Some (\<lparr>rb_buffer = [3, 4, 5, 0], rb_write = 3, rb_read = 1\<rparr>, [1, 2, 3, 4, 5], [1, 2, 3])"
    by (simp add: ring_eval)
  from ring_fifo [OF _ r] r show ?thesis by simp
qed

text \<open>
  A write into a buffer in use is all or nothing: it is accepted exactly when the bytes in
  the buffer and the new ones fit into the storage together, and appends them then; otherwise
  it answers 0 and changes nothing.
\<close>

theorem ring_write:
  assumes "rb_ok rb" and "RingBuffer_WriteBuffer data rb = Some (rb', n)"
  shows "rb_ok rb' \<and>
    (if length (rb_contents rb) + length data \<le> length (rb_buffer rb)
     then n = length data \<and> rb_contents rb' = rb_contents rb @ data
     else n = 0 \<and> rb' = rb)"
  using WriteBuffer_cases [OF assms] by blast

theorem ring_write_witness:
  "rb_contents (fst (the (RingBuffer_WriteBuffer [4, 5] \<lparr>rb_buffer = [1, 2, 3, 0 :: nat], rb_write = 3, rb_read = 2\<rparr>))) = [3, 4, 5]"
proof -
  let ?rb = "\<lparr>rb_buffer = [1, 2, 3, 0 :: nat], rb_write = 3, rb_read = 2\<rparr>"
  have "rb_ok ?rb" by (simp add: rb_ok_def)
  moreover have r: "RingBuffer_WriteBuffer [4, 5] ?rb = Some (\<lparr>rb_buffer = [3, 4, 5, 0], rb_write = 3, rb_read = 0\<rparr>, 2)"
    by (simp add: ring_eval)
  ultimately have "rb_contents \<lparr>rb_buffer = [3, 4, 5, 0 :: nat], rb_write = 3, rb_read = 0\<rparr> = rb_contents ?rb @ [4, 5]"
    using ring_write [of ?rb "[4, 5]"] by (simp add: rb_contents_def)
  with r show ?thesis by (simp add: rb_contents_def)
qed

text \<open>
  A write is undefined exactly when it fits only after moving the contents to the front, and
  the contents are longer than the free space before them: the \<open>memcpy\<close> then has overlapping
  ranges.
\<close>

theorem ring_write_undefined:
  assumes "rb_ok rb"
  shows "RingBuffer_WriteBuffer data rb = None \<longleftrightarrow>
    rb_write rb + length data > length (rb_buffer rb) \<and>
    length (rb_contents rb) + length data \<le> length (rb_buffer rb) \<and>
    rb_contents rb \<noteq> [] \<and> rb_read rb < length (rb_contents rb)"
  by (auto simp: RingBuffer_WriteBuffer_def GetWriteBuffer_result [OF assms] split: option.split)

theorem ring_write_undefined_witness:
  "RingBuffer_WriteBuffer [7, 8, 9] \<lparr>rb_buffer = [0, 0, 1, 2, 3, 4, 5, 0, 0 :: nat], rb_write = 7, rb_read = 2\<rparr> = None"
  by (subst ring_write_undefined) (simp_all add: rb_ok_def rb_contents_def)

text \<open>
  A flush of more bytes than the buffer holds is not stopped: no exception is thrown, the read
  pointer passes the write pointer, and from then on the buffer reports almost \<open>2 ^ 64\<close> bytes
  to read.
\<close>

theorem ring_flush_overrun:
  assumes "rb_ok rb" and "length (rb_contents rb) < n" and "n < 2 ^ 64"
  shows "RingBuffer_GetReadBufferSize (RingBuffer_Flush n rb) = 2 ^ 64 - (n - length (rb_contents rb))"
proof -
  define k where "k = n - length (rb_contents rb)"
  have w: "rb_write rb + k = rb_read rb + n" and k: "0 < k" "k < 2 ^ 64"
    using assms length_contents [OF assms(1)] by (auto simp: rb_ok_def k_def)
  then have ne: "rb_write rb \<noteq> rb_read rb + n" by arith
  have e: "int (rb_write rb) - int (rb_read rb + n) = - int k" using w by linarith
  have "(- int k) mod 2 ^ 64 = (- int k + 2 ^ 64) mod 2 ^ 64" by simp
  also have "\<dots> = - int k + 2 ^ 64" using k by (intro mod_pos_pos_trivial) auto
  finally have "(int (rb_write rb) - int (rb_read rb + n)) mod 2 ^ 64 = 2 ^ 64 - int k"
    unfolding e by simp
  then have "nat ((int (rb_write rb) - int (rb_read rb + n)) mod 2 ^ 64) = 2 ^ 64 - k"
    using k by (simp add: nat_diff_distrib)
  with ne show ?thesis
    by (simp add: RingBuffer_Flush_def RingBuffer_GetReadBufferSize_def ptr_diff_def Let_def k_def)
qed

theorem ring_flush_overrun_witness:
  "RingBuffer_GetReadBufferSize (RingBuffer_Flush 5 \<lparr>rb_buffer = [1, 2, 3, 0 :: nat], rb_write = 3, rb_read = 1\<rparr>) = 2 ^ 64 - 3"
  using ring_flush_overrun [of "\<lparr>rb_buffer = [1, 2, 3, 0 :: nat], rb_write = 3, rb_read = 1\<rparr>" 5]
  by (simp add: rb_ok_def rb_contents_def)

text \<open>
  A read shows its function all bytes in the buffer, an empty buffer included (no bytes), and
  flushes as many as the function answers; flushing at most what was shown removes exactly that
  many from the front.
\<close>

theorem ring_read:
  assumes "rb_ok rb" and "f (rb_contents rb) = (k, x)"
  shows "RingBuffer_ReadBuffer f rb =
      (if k > 0 then (RingBuffer_Flush k rb, True, Some x) else (rb, False, Some x)) \<and>
    (k > length (rb_contents rb) \<or> rb_contents (fst (RingBuffer_ReadBuffer f rb)) = drop k (rb_contents rb))"
  using Flush_result [OF assms(1), of k] assms(2)
  by (cases "k \<le> length (rb_contents rb)") (auto simp: ReadBuffer_result [OF assms(1)])

theorem ring_read_witness:
  "rb_contents (fst (RingBuffer_ReadBuffer (\<lambda>bytes. (length bytes - 1, ())) \<lparr>rb_buffer = [1, 2, 3, 0 :: nat], rb_write = 3, rb_read = 1\<rparr>)) = [3]"
proof -
  let ?rb = "\<lparr>rb_buffer = [1, 2, 3, 0 :: nat], rb_write = 3, rb_read = 1\<rparr>"
  have ok: "rb_ok ?rb" and c: "rb_contents ?rb = [2, 3]" by (simp_all add: rb_ok_def rb_contents_def)
  have "length (rb_contents ?rb) < 1 \<or>
      rb_contents (fst (RingBuffer_ReadBuffer (\<lambda>bytes. (length bytes - 1, ())) ?rb)) = drop 1 (rb_contents ?rb)"
    by (rule ring_read [OF ok, THEN conjunct2]) (simp add: c [simplified])
  then show ?thesis unfolding c by simp
qed

text \<open>Writing through a function appends what it commits of what it stored.\<close>

lemma WriteBuffer_fn_result:
  assumes ok: "rb_ok rb" and w: "RingBuffer_WriteBuffer_fn f sz rb = Some (rb', b)"
    and f: "f sz = (stored, n)" and l: "length stored \<le> sz" "n \<le> length stored"
  shows "rb_ok rb' \<and> length (rb_buffer rb') = length (rb_buffer rb) \<and>
    rb_contents rb' = rb_contents rb @ (if b then take n stored else [])"
proof -
  obtain rb1 p where g: "RingBuffer_GetWriteBuffer sz rb = Some (rb1, p)"
    using w by (auto simp: RingBuffer_WriteBuffer_fn_def split: option.splits)
  note c = GetWriteBuffer_cases [OF ok g]
  show ?thesis
  proof (cases p)
    case None
    with w g c show ?thesis by (auto simp: RingBuffer_WriteBuffer_fn_def)
  next
    case (Some q)
    from c Some have q: "q = rb_write rb1" "q + sz \<le> length (rb_buffer rb1)" and ok1: "rb_ok rb1" by auto
    let ?b = "store_at q stored (rb_buffer rb1)"
    have b: "rb' = (if b then RingBuffer_Commit n (rb1\<lparr>rb_buffer := ?b\<rparr>) else rb1\<lparr>rb_buffer := ?b\<rparr>)"
      using w g f Some by (auto simp: RingBuffer_WriteBuffer_fn_def Let_def split: if_splits)
    have len: "length ?b = length (rb_buffer rb1)" using q l by (simp add: store_at_def)
    have r: "rb_read rb1 \<le> q" using ok1 q by (simp add: rb_ok_def)
    have same: "take (q - rb_read rb1) (drop (rb_read rb1) ?b) = rb_contents rb1"
      using q r by (simp add: store_at_def rb_contents_def drop_take)
    have more: "take (q + n - rb_read rb1) (drop (rb_read rb1) ?b) = rb_contents rb1 @ take n stored"
      using q r l by (simp add: store_at_def rb_contents_def drop_take)
    have "rb_ok rb'" using b len q r l ok1 by (auto simp: rb_ok_def RingBuffer_Commit_def)
    moreover have "rb_contents rb' = rb_contents rb1 @ (if b then take n stored else [])"
      using b same more q
      by (simp add: rb_contents_def [of "_\<lparr>rb_buffer := _, rb_write := _\<rparr>"] rb_contents_def [of "_\<lparr>rb_buffer := _\<rparr>"]
          RingBuffer_Commit_def)
    ultimately show ?thesis using c b len by (simp add: RingBuffer_Commit_def)
  qed
qed

end
