(* ===== verification/Sockets.thy ===== *)
theory Sockets
  imports RingBuffer StdMap
begin

text \<open>
  The TCP, TLS and web socket servers and their sessions. The I/O library is the outcome of each of
  its calls, an argument of the operation that makes the call; the calls of the session callback
  are recorded in order. The map of the sessions is a \<open>std::map\<close> keyed with the address and the
  port of the client; functions posted to the service wait in a queue until they are run.
\<close>

section \<open>Sessions\<close>

type_synonym 'a endpoint = "'a \<times> u16"

definition endpoint_less :: "'a::linorder endpoint \<Rightarrow> 'a endpoint \<Rightarrow> bool" where
  "endpoint_less a b \<longleftrightarrow> fst a < fst b \<or> (fst a = fst b \<and> snd a < snd b)"

interpretation endpoints: strict_compare "endpoint_less :: 'a::linorder endpoint \<Rightarrow> 'a endpoint \<Rightarrow> bool"
  by unfold_locales (auto simp: endpoint_less_def prod_eq_iff)

datatype 'a callback =
    OnSessionConnected "'a endpoint"
  | OnDataRead "'a endpoint" string
  | OnSessionClosed "'a endpoint"

record 'a session =
  m_RemoteEndpoint :: "'a endpoint"
  is_open :: bool
  m_ReceiveBuffer :: "char RingBuffer"

text \<open>
  Closing a session: the cleanup handler is called with the endpoint, then the socket is closed.
  The second component of the results below says whether the cleanup handler was called.
\<close>

definition HandleClosedSocket :: "'a session \<Rightarrow> 'a session \<times> bool" where
  "HandleClosedSocket s = (if is_open s then s\<lparr>is_open := False\<rparr> else s, True)"

text \<open>\<open>io = (failed, n)\<close> is the outcome of the write.\<close>

definition SessionBase_SendData :: "bool \<times> nat \<Rightarrow> 'a session \<Rightarrow> 'a session \<times> bool \<times> nat" where
  "SessionBase_SendData io s =
     (if is_open s then
        (if fst io then (let (s1, c) = HandleClosedSocket s in (s1, c, 0)) else (s, False, snd io))
      else (s, False, 0))"

text \<open>\<open>read_some\<close> with an error, or with the bytes it has read.\<close>

definition Session_ReadBuffer :: "string option \<Rightarrow> nat \<Rightarrow> string \<times> nat" where
  "Session_ReadBuffer r requestedBufferSize =
     (case r of None \<Rightarrow> ([], 0) | Some bytes \<Rightarrow> (bytes, length bytes))"

text \<open>
  The handler of \<open>async_wait\<close>: \<open>failed\<close> is its error code, \<open>bytesAvailable\<close> what the socket
  says it has, \<open>r\<close> the outcome of the read and \<open>on_data\<close> the callback, which is given the ring
  buffer and leaves it with what it has not taken; its second result is what it has taken. Results:
  the session, whether the cleanup handler was called, the callbacks, and whether the next read
  was started; \<open>None\<close> where the ring buffer copies overlapping memory.
\<close>

type_synonym data_handler = "char RingBuffer \<Rightarrow> char RingBuffer \<times> string"

definition SessionBase_ReadData ::
  "data_handler \<Rightarrow> bool \<Rightarrow> nat \<Rightarrow> string option \<Rightarrow> 'a session \<Rightarrow> ('a session \<times> bool \<times> 'a callback list \<times> bool) option" where
  "SessionBase_ReadData on_data failed bytesAvailable r s =
     (if failed then
        (let (s1, c) = HandleClosedSocket s in Some (s1, c, [], False))
      else if bytesAvailable > 0 then
        (case RingBuffer_WriteBuffer_fn (Session_ReadBuffer r) bytesAvailable (m_ReceiveBuffer s) of
           None \<Rightarrow> None
         | Some (rb, ok) \<Rightarrow>
             if ok then
               (case on_data rb of
                  (rb1, taken) \<Rightarrow>
                    Some (s\<lparr>m_ReceiveBuffer := rb1\<rparr>, False, [OnDataRead (m_RemoteEndpoint s) taken], True))
             else Some (s\<lparr>m_ReceiveBuffer := rb\<rparr>, False, [], True))
      else Some (s, False, [], True))"

text \<open>
  Accepting a connection: the answer and the callbacks. A TLS session makes a handshake first, a
  web socket session a handshake of each layer.
\<close>

definition TcpSession_Accept :: "'a session \<Rightarrow> bool \<times> 'a callback list" where
  "TcpSession_Accept s = (True, [OnSessionConnected (m_RemoteEndpoint s)])"

definition SslSession_Accept :: "bool \<Rightarrow> 'a session \<Rightarrow> bool \<times> 'a callback list" where
  "SslSession_Accept handshakeFailed s =
     (if handshakeFailed then (False, []) else (True, [OnSessionConnected (m_RemoteEndpoint s)]))"

definition WsSession_Accept :: "bool \<Rightarrow> bool \<Rightarrow> 'a session \<Rightarrow> bool \<times> 'a callback list" where
  "WsSession_Accept handshakeFailed acceptFailed s =
     (if handshakeFailed then (False, [])
      else if acceptFailed then (False, [])
      else (True, [OnSessionConnected (m_RemoteEndpoint s)]))"

text \<open>Connecting a client, with the failures of the calls in order.\<close>

definition TcpSession_Connect :: "bool \<Rightarrow> bool \<Rightarrow> 'a session \<Rightarrow> bool \<times> 'a callback list" where
  "TcpSession_Connect resolveFailed connectFailed s =
     (if resolveFailed then (False, [])
      else if connectFailed then (False, [])
      else (True, [OnSessionConnected (m_RemoteEndpoint s)]))"

definition SslSession_Connect :: "bool \<Rightarrow> bool \<Rightarrow> bool \<Rightarrow> 'a session \<Rightarrow> bool \<times> 'a callback list" where
  "SslSession_Connect resolveFailed connectFailed handshakeFailed s =
     (if resolveFailed then (False, [])
      else if connectFailed then (False, [])
      else if handshakeFailed then (False, [])
      else (True, [OnSessionConnected (m_RemoteEndpoint s)]))"

text \<open>The TLS handshake is made twice.\<close>

definition WsSession_Connect :: "bool \<Rightarrow> bool \<Rightarrow> bool \<Rightarrow> bool \<Rightarrow> bool \<Rightarrow> 'a session \<Rightarrow> bool \<times> 'a callback list" where
  "WsSession_Connect resolveFailed connectFailed handshakeFailed secondHandshakeFailed wsHandshakeFailed s =
     (if resolveFailed then (False, [])
      else if connectFailed then (False, [])
      else if handshakeFailed then (False, [])
      else if secondHandshakeFailed then (False, [])
      else if wsHandshakeFailed then (False, [])
      else (True, [OnSessionConnected (m_RemoteEndpoint s)]))"

text \<open>
  A web socket session reads whole messages into a buffer of its own; a failed read calls the
  cleanup handler. Results: the callbacks, whether the cleanup handler was called, and whether the
  next read was started.
\<close>

definition WsSession_ReadData :: "string option \<Rightarrow> 'a session \<Rightarrow> 'a callback list \<times> bool \<times> bool" where
  "WsSession_ReadData r s =
     (case r of
        Some msg \<Rightarrow> ([OnDataRead (m_RemoteEndpoint s) msg], False, True)
      | None \<Rightarrow> ([], True, False))"

text \<open>A pong or a ping: the answer, and whether the cleanup handler was called.\<close>

definition WsSession_SendPongReply :: "bool \<Rightarrow> bool \<times> bool" where
  "WsSession_SendPongReply failed = (if failed then (False, True) else (True, False))"

definition WsSession_SendPingRequest :: "bool \<Rightarrow> bool \<times> bool" where
  "WsSession_SendPingRequest failed = (if failed then (False, True) else (True, False))"

definition WsSession_SendWebSocketData :: "bool \<Rightarrow> 'a session \<Rightarrow> bool" where
  "WsSession_SendWebSocketData failed s = (if is_open s then (if failed then False else True) else False)"

datatype frame_type = Frame_close | Frame_ping | Frame_pong

text \<open>Whether a control frame calls the cleanup handler.\<close>

fun WsSession_HandleControlCallback :: "bool \<Rightarrow> frame_type \<Rightarrow> bool" where
  "WsSession_HandleControlCallback pongFailed Frame_close = True"
| "WsSession_HandleControlCallback pongFailed Frame_ping = snd (WsSession_SendPongReply pongFailed)"
| "WsSession_HandleControlCallback pongFailed Frame_pong = False"

section \<open>Servers\<close>

record 'a server =
  m_Accepting :: bool
  m_Sessions :: "('a endpoint \<times> 'a session) list"
  m_Posted :: "'a endpoint list"
  m_Calls :: "'a callback list"

definition Server_ctor :: "'a server" where
  "Server_ctor = \<lparr>m_Accepting = False, m_Sessions = [], m_Posted = [], m_Calls = []\<rparr>"

definition Server_HasConnectedClients :: "'a server \<Rightarrow> bool" where
  "Server_HasConnectedClients sv \<longleftrightarrow> m_Sessions sv \<noteq> []"

text \<open>\<open>Start\<close>: the calls resolve, open, set an option, bind and listen may fail.\<close>

definition Server_Start :: "bool \<Rightarrow> bool \<Rightarrow> bool \<Rightarrow> bool \<Rightarrow> bool \<Rightarrow> 'a server \<Rightarrow> 'a server \<times> bool" where
  "Server_Start resolveFailed openFailed optionFailed bindFailed listenFailed sv =
     (if resolveFailed then (sv, False)
      else if openFailed then (sv, False)
      else if optionFailed then (sv, False)
      else if bindFailed then (sv, False)
      else if listenFailed then (sv, False)
      else (sv\<lparr>m_Accepting := True\<rparr>, True))"

definition Server_CheckClosedSessions :: "'a::linorder endpoint \<Rightarrow> 'a server \<Rightarrow> 'a server \<times> nat" where
  "Server_CheckClosedSessions ep sv =
     (let sv1 = (case smap_find endpoint_less ep (m_Sessions sv) of
                   None \<Rightarrow> sv
                 | Some s \<Rightarrow> if \<not> is_open s then sv\<lparr>m_Sessions := smap_erase endpoint_less ep (m_Sessions sv)\<rparr> else sv)
      in (sv1, length (m_Sessions sv1)))"

text \<open>
  The cleanup handler a server gives its sessions: the one of the TCP server does nothing, the
  others post a function that checks the session and calls back.
\<close>

definition Tcp_cleanup :: "'a endpoint \<Rightarrow> 'a server \<Rightarrow> 'a server" where
  "Tcp_cleanup ep sv = sv"

definition Ssl_cleanup :: "'a endpoint \<Rightarrow> 'a server \<Rightarrow> 'a server" where
  "Ssl_cleanup ep sv = sv\<lparr>m_Posted := m_Posted sv @ [ep]\<rparr>"

definition removeSessionFn :: "'a::linorder endpoint \<Rightarrow> 'a server \<Rightarrow> 'a server" where
  "removeSessionFn ep sv =
     (let sv1 = fst (Server_CheckClosedSessions ep sv) in sv1\<lparr>m_Calls := m_Calls sv1 @ [OnSessionClosed ep]\<rparr>)"

definition run_posted :: "'a::linorder server \<Rightarrow> 'a server" where
  "run_posted sv = (case m_Posted sv of [] \<Rightarrow> sv | ep # eps \<Rightarrow> removeSessionFn ep (sv\<lparr>m_Posted := eps\<rparr>))"

text \<open>
  The handler of \<open>async_accept\<close>: \<open>accept\<close> is the one of the session. When the key is taken the
  new session is dropped, and the one in the map is erased.
\<close>

definition Server_Accept ::
  "('a session \<Rightarrow> bool \<times> 'a callback list) \<Rightarrow> string \<Rightarrow> bool \<Rightarrow> 'a::linorder endpoint \<Rightarrow> 'a server \<Rightarrow> 'a server" where
  "Server_Accept accept storage failed ep sv =
     (if failed then sv
      else
        let s = \<lparr>m_RemoteEndpoint = ep, is_open = True, m_ReceiveBuffer = RingBuffer_ctor storage\<rparr>
        in case smap_find endpoint_less ep (m_Sessions sv) of
             Some _ \<Rightarrow> sv\<lparr>m_Sessions := smap_erase endpoint_less ep (m_Sessions sv)\<rparr>
           | None \<Rightarrow>
               let m = smap_emplace endpoint_less ep s (m_Sessions sv);
                   (ok, calls) = accept s
               in sv\<lparr>m_Sessions := (if ok then m else smap_erase endpoint_less ep m),
                     m_Calls := m_Calls sv @ calls\<rparr>)"

definition TcpServer_Accept :: "string \<Rightarrow> bool \<Rightarrow> 'a::linorder endpoint \<Rightarrow> 'a server \<Rightarrow> 'a server" where
  "TcpServer_Accept = Server_Accept TcpSession_Accept"

definition SslServer_Accept :: "bool \<Rightarrow> string \<Rightarrow> bool \<Rightarrow> 'a::linorder endpoint \<Rightarrow> 'a server \<Rightarrow> 'a server" where
  "SslServer_Accept handshakeFailed = Server_Accept (SslSession_Accept handshakeFailed)"

definition WsServer_Accept :: "bool \<Rightarrow> bool \<Rightarrow> string \<Rightarrow> bool \<Rightarrow> 'a::linorder endpoint \<Rightarrow> 'a server \<Rightarrow> 'a server" where
  "WsServer_Accept handshakeFailed acceptFailed = Server_Accept (WsSession_Accept handshakeFailed acceptFailed)"

text \<open>Sending to one client; \<open>cleanup\<close> is the handler of the server.\<close>

definition Server_SendSocketData ::
  "('a endpoint \<Rightarrow> 'a server \<Rightarrow> 'a server) \<Rightarrow> bool \<times> nat \<Rightarrow> 'a::linorder endpoint \<Rightarrow> 'a server \<Rightarrow> 'a server \<times> nat" where
  "Server_SendSocketData cleanup io ep sv =
     (case smap_find endpoint_less ep (m_Sessions sv) of
        None \<Rightarrow> (sv, 0)
      | Some s \<Rightarrow>
          let (s1, closed, n) = SessionBase_SendData io s;
              sv1 = sv\<lparr>m_Sessions := smap_set endpoint_less ep s1 (m_Sessions sv)\<rparr>
          in (if closed then cleanup (m_RemoteEndpoint s) sv1 else sv1, n))"

text \<open>The loop of \<open>SendToAllClients\<close> over the keys of the map; \<open>io\<close> gives the outcome for each.\<close>

fun send_all ::
  "('a endpoint \<Rightarrow> 'a server \<Rightarrow> 'a server) \<Rightarrow> ('a endpoint \<Rightarrow> bool \<times> nat) \<Rightarrow> 'a::linorder endpoint list \<Rightarrow> 'a server \<Rightarrow> 'a server" where
  "send_all cleanup io [] sv = sv"
| "send_all cleanup io (ep # eps) sv = send_all cleanup io eps (fst (Server_SendSocketData cleanup (io ep) ep sv))"

definition Server_SendToAllClients ::
  "('a endpoint \<Rightarrow> 'a server \<Rightarrow> 'a server) \<Rightarrow> ('a endpoint \<Rightarrow> bool \<times> nat) \<Rightarrow> 'a::linorder server \<Rightarrow> 'a server" where
  "Server_SendToAllClients cleanup io sv = send_all cleanup io (map fst (m_Sessions sv)) sv"

text \<open>A read of a session of the server.\<close>

definition Server_on_readable ::
  "('a endpoint \<Rightarrow> 'a server \<Rightarrow> 'a server) \<Rightarrow> data_handler \<Rightarrow> bool \<Rightarrow> nat \<Rightarrow> string option \<Rightarrow> 'a::linorder endpoint \<Rightarrow>
   'a server \<Rightarrow> 'a server option" where
  "Server_on_readable cleanup on_data failed bytesAvailable r ep sv =
     (case smap_find endpoint_less ep (m_Sessions sv) of
        None \<Rightarrow> Some sv
      | Some s \<Rightarrow>
          (case SessionBase_ReadData on_data failed bytesAvailable r s of
             None \<Rightarrow> None
           | Some (s1, closed, calls, again) \<Rightarrow>
               let sv1 = sv\<lparr>m_Sessions := smap_set endpoint_less ep s1 (m_Sessions sv), m_Calls := m_Calls sv @ calls\<rparr>
               in Some (if closed then cleanup (m_RemoteEndpoint s) sv1 else sv1)))"

text \<open>The web socket server: a write does not close the session, a ping may call the cleanup handler.\<close>

definition WsServer_SendWebSocketData :: "bool \<Rightarrow> 'a::linorder endpoint \<Rightarrow> 'a server \<Rightarrow> bool" where
  "WsServer_SendWebSocketData failed ep sv =
     (case smap_find endpoint_less ep (m_Sessions sv) of
        None \<Rightarrow> False
      | Some s \<Rightarrow> WsSession_SendWebSocketData failed s)"

definition WsServer_SendPingRequest :: "('a endpoint \<Rightarrow> bool) \<Rightarrow> 'a server \<Rightarrow> 'a server \<times> bool" where
  "WsServer_SendPingRequest failed sv =
     (sv\<lparr>m_Posted := m_Posted sv @ List.filter (\<lambda>ep. snd (WsSession_SendPingRequest (failed ep))) (map fst (m_Sessions sv))\<rparr>, True)"

text \<open>After a read the library says whether the stream is still open.\<close>

definition WsServer_on_message :: "bool \<Rightarrow> string option \<Rightarrow> 'a::linorder endpoint \<Rightarrow> 'a server \<Rightarrow> 'a server" where
  "WsServer_on_message stillOpen r ep sv =
     (case smap_find endpoint_less ep (m_Sessions sv) of
        None \<Rightarrow> sv
      | Some s \<Rightarrow>
          let (calls, closed, again) = WsSession_ReadData r s;
              sv1 = sv\<lparr>m_Sessions := smap_set endpoint_less ep (s\<lparr>is_open := stillOpen\<rparr>) (m_Sessions sv),
                       m_Calls := m_Calls sv @ calls\<rparr>
          in if closed then Ssl_cleanup (m_RemoteEndpoint s) sv1 else sv1)"

definition WsServer_on_control :: "bool \<Rightarrow> frame_type \<Rightarrow> 'a::linorder endpoint \<Rightarrow> 'a server \<Rightarrow> 'a server" where
  "WsServer_on_control pongFailed kind ep sv =
     (case smap_find endpoint_less ep (m_Sessions sv) of
        None \<Rightarrow> sv
      | Some s \<Rightarrow> if WsSession_HandleControlCallback pongFailed kind then Ssl_cleanup (m_RemoteEndpoint s) sv else sv)"

end
