(* ===== verification/WebSocketLib.thy ===== *)
theory WebSocketLib
  imports Sockets
begin

text \<open>
  The library \<open>web_socket\<close>, which the channels of the application use: its server, sessions and
  client. Sessions are objects of a store, kept alive only by the pointers in the map of the
  server; the handlers they wait for hold a plain pointer to them. A handler of a session that
  was destroyed has undefined behaviour (\<open>None\<close>) where it uses the session. The calls of the I/O
  library are outcomes given to the operations, among them the closing of a stream, which can
  happen before the handler that reports it is run.
\<close>

section \<open>Sessions\<close>

datatype ws_wait = Wait_run | Wait_handshake | Wait_read

text \<open>
  A session with the state of its stream, the handlers it waits for, and what its writes have put
  on the stream, one text for each write.
\<close>

record WebSocketSession =
  ws_IsOpen :: bool
  ws_Waits :: "ws_wait list"
  ws_Written :: "string list"

definition WebSocketSession_ctor :: WebSocketSession where
  "WebSocketSession_ctor = \<lparr>ws_IsOpen = False, ws_Waits = [], ws_Written = []\<rparr>"

definition WebSocketSession_Accept :: "WebSocketSession \<Rightarrow> WebSocketSession" where
  "WebSocketSession_Accept s = s\<lparr>ws_Waits := ws_Waits s @ [Wait_run]\<rparr>"

definition runFunc :: "WebSocketSession \<Rightarrow> WebSocketSession" where
  "runFunc s = s\<lparr>ws_Waits := ws_Waits s @ [Wait_handshake]\<rparr>"

definition WebSocketSession_ReadData :: "WebSocketSession \<Rightarrow> WebSocketSession" where
  "WebSocketSession_ReadData s = s\<lparr>ws_Waits := ws_Waits s @ [Wait_read]\<rparr>"

definition acceptHandshakeFn :: "bool \<Rightarrow> WebSocketSession \<Rightarrow> WebSocketSession" where
  "acceptHandshakeFn failed s = (if failed then s else WebSocketSession_ReadData (s\<lparr>ws_IsOpen := True\<rparr>))"

text \<open>
  The outcome of a write: whether it failed, the number of bytes it has written (also when it
  failed), whether the stream is still open.
\<close>

type_synonym ws_write = "bool \<times> nat \<times> bool"

definition WebSocketSession_SendWebSocketData :: "ws_write \<Rightarrow> string \<Rightarrow> WebSocketSession \<Rightarrow> WebSocketSession \<times> bool" where
  "WebSocketSession_SendWebSocketData io sendBuffer s =
     (case io of
        (failed, n, stillOpen) \<Rightarrow>
          (s\<lparr>ws_IsOpen := (ws_IsOpen s \<and> stillOpen), ws_Written := ws_Written s @ [take n sendBuffer]\<rparr>, n \<noteq> 0 \<and> \<not> failed))"

text \<open>
  Connecting: \<open>resolve\<close>, \<open>connect\<close> and \<open>handshake\<close> say whether the call fails; the endpoint is
  made from the text of the address, and \<open>make_address\<close> gives the unspecified address for a text
  that is none, an error the next call overwrites. The port is a signed 16 bit integer.
\<close>

definition WebSocketSession_Connect ::
  "(string \<Rightarrow> 'a option) \<Rightarrow> 'a \<Rightarrow> (string \<Rightarrow> string \<Rightarrow> bool) \<Rightarrow> ('a endpoint \<Rightarrow> bool) \<Rightarrow> (string \<Rightarrow> bool) \<Rightarrow>
   string \<Rightarrow> u16 \<Rightarrow> WebSocketSession \<Rightarrow> WebSocketSession \<times> bool" where
  "WebSocketSession_Connect make_address unspecified resolve connect handshake address port s =
     (if resolve address (to_string (sint port)) then (s, False)
      else
        let endpoint = ((case make_address address of None \<Rightarrow> unspecified | Some a \<Rightarrow> a), port)
        in if connect endpoint then (s, False)
           else if handshake (address @ '':'' @ to_string (sint port)) then (s, False)
           else (WebSocketSession_ReadData (s\<lparr>ws_IsOpen := True\<rparr>), True))"

section \<open>The server\<close>

record 'a WebSocketServer =
  wss_Accepting :: bool
  wss_Heap :: "nat \<Rightarrow> WebSocketSession"
  wss_Fresh :: nat
  wss_Sessions :: "('a endpoint \<times> nat) list"
  wss_Checks :: nat
  wss_ReceivedFn :: bool

definition WebSocketServer_ctor :: "'a WebSocketServer" where
  "WebSocketServer_ctor =
     \<lparr>wss_Accepting = False, wss_Heap = (\<lambda>_. WebSocketSession_ctor), wss_Fresh = 0, wss_Sessions = [], wss_Checks = 0,
      wss_ReceivedFn = False\<rparr>"

definition SetWebSocketDataReceived :: "'a WebSocketServer \<Rightarrow> 'a WebSocketServer" where
  "SetWebSocketDataReceived sv = sv\<lparr>wss_ReceivedFn := True\<rparr>"

definition alive :: "'a WebSocketServer \<Rightarrow> nat \<Rightarrow> bool" where
  "alive sv i \<longleftrightarrow> i \<in> snd ` set (wss_Sessions sv)"

definition upd_session :: "nat \<Rightarrow> (WebSocketSession \<Rightarrow> WebSocketSession) \<Rightarrow> 'a WebSocketServer \<Rightarrow> 'a WebSocketServer" where
  "upd_session i f sv = sv\<lparr>wss_Heap := (wss_Heap sv)(i := f (wss_Heap sv i))\<rparr>"

definition WebSocketServer_Start :: "bool \<Rightarrow> bool \<Rightarrow> bool \<Rightarrow> bool \<Rightarrow> bool \<Rightarrow> 'a WebSocketServer \<Rightarrow> 'a WebSocketServer \<times> bool" where
  "WebSocketServer_Start addressFailed openFailed optionFailed bindFailed listenFailed sv =
     (if addressFailed then (sv, False)
      else if openFailed then (sv, False)
      else if optionFailed then (sv, False)
      else if bindFailed then (sv, False)
      else if listenFailed then (sv, False)
      else (sv\<lparr>wss_Accepting := True\<rparr>, True))"

text \<open>
  The loop of \<open>CheckClosedSessions\<close>, with the iterator as a position; \<open>closed\<close> is the test of a
  session. Results: the map and the number of sessions erased.
\<close>

function check_loop :: "('v \<Rightarrow> bool) \<Rightarrow> nat \<Rightarrow> ('k \<times> 'v) list \<Rightarrow> nat \<Rightarrow> ('k \<times> 'v) list \<times> nat" where
  "check_loop closed iter m n =
     (if iter < length m then
        if closed (snd (m ! iter)) then check_loop closed iter (take iter m @ drop (Suc iter) m) (Suc n)
        else check_loop closed (Suc iter) m n
      else (m, n))"
  by pat_completeness auto
termination
  by (relation "measure (\<lambda>(closed, iter, m, n). length m - iter)") auto

declare check_loop.simps [simp del]

definition CheckClosedSessions :: "'a WebSocketServer \<Rightarrow> 'a WebSocketServer \<times> nat" where
  "CheckClosedSessions sv =
     (case check_loop (\<lambda>i. \<not> ws_IsOpen (wss_Heap sv i)) 0 (wss_Sessions sv) 0 of
        (m, n) \<Rightarrow> (sv\<lparr>wss_Sessions := m\<rparr>, n))"

text \<open>
  The handler of \<open>async_accept\<close>: \<open>remote\<close> is what \<open>remote_endpoint\<close> gives, which throws when the
  peer is gone. The session is created, started and stored; a session under the same key is
  replaced, and the next accept is started unless an exception leaves the handler.
\<close>

definition WebSocketServer_Accept ::
  "bool \<Rightarrow> 'a::linorder endpoint throws \<Rightarrow> 'a WebSocketServer \<Rightarrow> 'a WebSocketServer \<times> unit throws" where
  "WebSocketServer_Accept failed remote sv =
     (if failed then (sv, Inr ())
      else case remote of
             Inl x \<Rightarrow> (sv\<lparr>wss_Accepting := False\<rparr>, Inl x)
           | Inr ep \<Rightarrow>
               (sv\<lparr>wss_Heap := (wss_Heap sv)(wss_Fresh sv := WebSocketSession_Accept WebSocketSession_ctor),
                   wss_Fresh := Suc (wss_Fresh sv),
                   wss_Sessions := smap_assign endpoint_less ep (wss_Fresh sv) (wss_Sessions sv)\<rparr>, Inr ()))"

definition WebSocketServer_SendWebSocketData ::
  "ws_write \<Rightarrow> string \<Rightarrow> 'a::linorder endpoint \<Rightarrow> 'a WebSocketServer \<Rightarrow> 'a WebSocketServer \<times> bool" where
  "WebSocketServer_SendWebSocketData io sendBuffer ep sv =
     (case smap_find endpoint_less ep (wss_Sessions sv) of
        Some i \<Rightarrow>
          (case WebSocketSession_SendWebSocketData io sendBuffer (wss_Heap sv i) of (s, ok) \<Rightarrow> (upd_session i (\<lambda>_. s) sv, ok))
      | None \<Rightarrow> (sv, False))"

text \<open>The callback \<open>on_data\<close> changes the server and the state it works on, and may throw.\<close>

type_synonym ('a, 'w) ws_callback =
  "string \<Rightarrow> 'a endpoint \<Rightarrow> 'a WebSocketServer \<times> 'w \<Rightarrow> ('a WebSocketServer \<times> 'w) \<times> unit throws"

definition WebSocketServer_OnDataRead :: "('a, 'w) ws_callback \<Rightarrow> ('a, 'w) ws_callback" where
  "WebSocketServer_OnDataRead on_data buf ep st =
     (if wss_ReceivedFn (fst st) then on_data buf ep st else (st, Inr ()))"

definition WebSocketServer_OnSessionClosed :: "'a WebSocketServer \<Rightarrow> 'a WebSocketServer" where
  "WebSocketServer_OnSessionClosed sv = sv\<lparr>wss_Checks := Suc (wss_Checks sv)\<rparr>"

text \<open>The handler of a read: what was read, and what \<open>remote_endpoint\<close> gives then.\<close>

datatype ws_read = Read_data string | Read_closed | Read_error

definition readDataFunc ::
  "('a, 'w) ws_callback \<Rightarrow> ws_read \<Rightarrow> 'a endpoint throws \<Rightarrow> nat \<Rightarrow> 'a WebSocketServer \<times> 'w \<Rightarrow>
   ('a WebSocketServer \<times> 'w) \<times> unit throws" where
  "readDataFunc on_data r remote i st =
     (case r of
        Read_closed \<Rightarrow> ((WebSocketServer_OnSessionClosed (fst st), snd st), Inr ())
      | Read_error \<Rightarrow> (st, Inr ())
      | Read_data buf \<Rightarrow>
          (case remote of
             Inl x \<Rightarrow> (st, Inl x)
           | Inr ep \<Rightarrow>
               (case WebSocketServer_OnDataRead on_data buf ep st of
                  (st1, Inl x) \<Rightarrow> (st1, Inl x)
                | (st1, Inr _) \<Rightarrow> ((upd_session i WebSocketSession_ReadData (fst st1), snd st1), Inr ()))))"

section \<open>The client\<close>

record WebSocketClient =
  wsc_Session :: "WebSocketSession option"

definition WebSocketClient_ctor :: WebSocketClient where
  "WebSocketClient_ctor = \<lparr>wsc_Session = None\<rparr>"

definition WebSocketClient_Start :: "(WebSocketSession \<Rightarrow> WebSocketSession \<times> bool) \<Rightarrow> WebSocketClient \<Rightarrow> WebSocketClient \<times> bool" where
  "WebSocketClient_Start connect cl =
     (case connect WebSocketSession_ctor of (s, ok) \<Rightarrow> (cl\<lparr>wsc_Session := Some s\<rparr>, ok))"

text \<open>\<open>None\<close> where the pointer to the session is null.\<close>

definition WebSocketClient_SendWebSocketData :: "ws_write \<Rightarrow> string \<Rightarrow> WebSocketClient \<Rightarrow> (WebSocketClient \<times> nat) option" where
  "WebSocketClient_SendWebSocketData io sendBuffer cl =
     (case wsc_Session cl of
        None \<Rightarrow> None
      | Some s \<Rightarrow>
          (case WebSocketSession_SendWebSocketData io sendBuffer s of (s1, ok) \<Rightarrow> Some (cl\<lparr>wsc_Session := Some s1\<rparr>, of_bool ok)))"

definition WebSocketClient_OnDataRead :: "bool \<Rightarrow> string \<Rightarrow> 'ep \<Rightarrow> (string \<times> 'ep) list" where
  "WebSocketClient_OnDataRead hasFn buf ep = (if hasFn then [(buf, ep)] else [])"

definition WebSocketClient_OnSessionClosed :: "WebSocketClient \<Rightarrow> WebSocketClient" where
  "WebSocketClient_OnSessionClosed cl = cl"

end
