(* ===== verification/WebSocketRun.thy ===== *)
theory WebSocketRun
  imports WebSocketLib
begin

text \<open>
  Runs of the web socket server: the handlers of the I/O library as events, the states they
  reach, and what holds in them. The events follow what the library documents: the handler of a
  destroyed session is called with an error, and a read fails only when the stream is not open
  any more. The locale \<open>data_callback\<close> says what the server needs of the function it hands the
  data to.
\<close>

section \<open>Checking for closed sessions\<close>

lemma check_loop_filter:
  "iter \<le> length m \<Longrightarrow>
   check_loop closed iter m n =
     (take iter m @ List.filter (\<lambda>p. \<not> closed (snd p)) (drop iter m),
      n + length (List.filter (\<lambda>p. closed (snd p)) (drop iter m)))"
proof (induction closed iter m n rule: check_loop.induct)
  case (1 closed iter m n)
  show ?case
  proof (cases "iter < length m")
    case False
    with "1.prems" show ?thesis by (subst check_loop.simps) simp
  next
    case True
    obtain k v where kv: "m ! iter = (k, v)" by fastforce
    from True have d: "drop iter m = (k, v) # drop (Suc iter) m" by (metis Cons_nth_drop_Suc kv)
    show ?thesis
    proof (cases "closed v")
      case c: True
      let ?m = "take iter m @ drop (Suc iter) m"
      from True have "iter \<le> length ?m" "take iter ?m = take iter m" "drop iter ?m = drop (Suc iter) m" by auto
      with "1.IH"(1) [OF True] c kv d True show ?thesis by (simp add: check_loop.simps [of closed iter])
    next
      case c: False
      with "1.IH"(2) [OF True] kv d True show ?thesis
        by (simp add: check_loop.simps [of closed iter] take_Suc_conv_app_nth)
    qed
  qed
qed

text \<open>
  C18: \<open>CheckClosedSessions\<close>, a loop that erases through the iterator it runs on, ends and is the
  filter of the open sessions; it returns how many it has erased.
\<close>

theorem check_is_filter:
  "CheckClosedSessions sv =
     (sv\<lparr>wss_Sessions := List.filter (\<lambda>p. ws_IsOpen (wss_Heap sv (snd p))) (wss_Sessions sv)\<rparr>,
      length (wss_Sessions sv) - length (List.filter (\<lambda>p. ws_IsOpen (wss_Heap sv (snd p))) (wss_Sessions sv)))"
proof -
  have "length (List.filter (\<lambda>p. \<not> ws_IsOpen (wss_Heap sv (snd p))) (wss_Sessions sv)) =
      length (wss_Sessions sv) - length (List.filter (\<lambda>p. ws_IsOpen (wss_Heap sv (snd p))) (wss_Sessions sv))"
    using sum_length_filter_compl [of "\<lambda>p. ws_IsOpen (wss_Heap sv (snd p))" "wss_Sessions sv"]
    by (simp add: case_prod_beta)
  then show ?thesis by (simp add: CheckClosedSessions_def check_loop_filter)
qed

lemmas check_simp = CheckClosedSessions_def check_loop_filter

section \<open>Events\<close>

datatype 'a ws_event =
    Ws_accept bool "'a endpoint throws"
  | Ws_run nat
  | Ws_handshake nat bool
  | Ws_closing nat
  | Ws_read nat ws_read "'a endpoint throws"
  | Ws_check

definition wait_over :: "ws_wait \<Rightarrow> nat \<Rightarrow> 'a WebSocketServer \<Rightarrow> 'a WebSocketServer" where
  "wait_over k i = upd_session i (\<lambda>s. s\<lparr>ws_Waits := remove1 k (ws_Waits s)\<rparr>)"

fun ws_enabled :: "'a ws_event \<Rightarrow> 'a WebSocketServer \<Rightarrow> bool" where
  "ws_enabled (Ws_accept failed remote) sv \<longleftrightarrow> wss_Accepting sv"
| "ws_enabled (Ws_run i) sv \<longleftrightarrow> Wait_run \<in> set (ws_Waits (wss_Heap sv i))"
| "ws_enabled (Ws_handshake i failed) sv \<longleftrightarrow>
     Wait_handshake \<in> set (ws_Waits (wss_Heap sv i)) \<and> (alive sv i \<or> failed)"
| "ws_enabled (Ws_closing i) sv \<longleftrightarrow> alive sv i \<and> ws_IsOpen (wss_Heap sv i)"
| "ws_enabled (Ws_read i r remote) sv \<longleftrightarrow>
     Wait_read \<in> set (ws_Waits (wss_Heap sv i)) \<and>
     (if alive sv i then (case r of Read_data _ \<Rightarrow> True | _ \<Rightarrow> \<not> ws_IsOpen (wss_Heap sv i)) else r = Read_error)"
| "ws_enabled Ws_check sv \<longleftrightarrow> 0 < wss_Checks sv"

fun ws_handle ::
  "('a::linorder, 'w) ws_callback \<Rightarrow> 'a ws_event \<Rightarrow> 'a WebSocketServer \<times> 'w \<Rightarrow>
   (('a WebSocketServer \<times> 'w) \<times> unit throws) option" where
  "ws_handle on_data (Ws_accept failed remote) (sv, w) =
     (case WebSocketServer_Accept failed remote sv of (sv1, r) \<Rightarrow> Some ((sv1, w), r))"
| "ws_handle on_data (Ws_run i) (sv, w) =
     (if alive sv i then Some ((upd_session i runFunc (wait_over Wait_run i sv), w), Inr ()) else None)"
| "ws_handle on_data (Ws_handshake i failed) (sv, w) =
     Some ((upd_session i (acceptHandshakeFn failed) (wait_over Wait_handshake i sv), w), Inr ())"
| "ws_handle on_data (Ws_closing i) (sv, w) = Some ((upd_session i (\<lambda>s. s\<lparr>ws_IsOpen := False\<rparr>) sv, w), Inr ())"
| "ws_handle on_data (Ws_read i r remote) (sv, w) =
     (if alive sv i then Some (readDataFunc on_data r remote i (wait_over Wait_read i sv, w)) else None)"
| "ws_handle on_data Ws_check (sv, w) =
     Some ((fst (CheckClosedSessions (sv\<lparr>wss_Checks := wss_Checks sv - 1\<rparr>)), w), Inr ())"

text \<open>The states reached from the start of the server by handlers that do not throw.\<close>

definition ws_started :: "'a WebSocketServer" where
  "ws_started = fst (WebSocketServer_Start False False False False False (SetWebSocketDataReceived WebSocketServer_ctor))"

inductive ws_reach :: "('a::linorder, 'w) ws_callback \<Rightarrow> 'w \<Rightarrow> 'a WebSocketServer \<times> 'w \<Rightarrow> bool"
  for on_data w0 where
  start: "ws_reach on_data w0 (ws_started, w0)"
| step: "ws_reach on_data w0 st \<Longrightarrow> ws_enabled e (fst st) \<Longrightarrow> ws_handle on_data e st = Some (st', Inr ()) \<Longrightarrow>
    ws_reach on_data w0 st'"

fun ws_run :: "('a::linorder, 'w) ws_callback \<Rightarrow> 'a ws_event list \<Rightarrow> 'a WebSocketServer \<times> 'w \<Rightarrow> ('a WebSocketServer \<times> 'w) option" where
  "ws_run on_data [] st = Some st"
| "ws_run on_data (e # es) st =
     (if ws_enabled e (fst st) then
        (case ws_handle on_data e st of Some (st', Inr _) \<Rightarrow> ws_run on_data es st' | _ \<Rightarrow> None)
      else None)"

lemma ws_run_reach: "ws_reach on_data w0 st \<Longrightarrow> ws_run on_data es st = Some st' \<Longrightarrow> ws_reach on_data w0 st'"
proof (induction es arbitrary: st)
  case (Cons e es)
  from Cons.prems(2) obtain st1 u where "ws_enabled e (fst st)" "ws_handle on_data e st = Some (st1, Inr u)"
    and r: "ws_run on_data es st1 = Some st'"
    by (auto split: if_splits option.splits sum.splits)
  with Cons.prems(1) have "ws_reach on_data w0 st1" by (cases u) (auto intro: ws_reach.step)
  with r Cons.IH show ?case by blast
qed simp

section \<open>The invariant of the sessions\<close>

text \<open>
  The sessions of the map are distinct objects; a session waits for one handler at most, and an
  open one for its next read.
\<close>

definition ws_inv :: "'a::linorder WebSocketServer \<Rightarrow> bool" where
  "ws_inv sv \<longleftrightarrow>
     smap_sorted endpoint_less (wss_Sessions sv) \<and> distinct (map snd (wss_Sessions sv)) \<and>
     (\<forall>i. alive sv i \<longrightarrow> i < wss_Fresh sv) \<and>
     (\<forall>i. wss_Fresh sv \<le> i \<longrightarrow> ws_Waits (wss_Heap sv i) = [] \<and> \<not> ws_IsOpen (wss_Heap sv i)) \<and>
     (\<forall>i. length (ws_Waits (wss_Heap sv i)) \<le> 1) \<and>
     (\<forall>i. ws_IsOpen (wss_Heap sv i) \<longrightarrow> ws_Waits (wss_Heap sv i) = [Wait_read])"

lemma ws_inv_other [simp]:
  "ws_inv (sv\<lparr>wss_Accepting := a\<rparr>) = ws_inv sv"
  "ws_inv (sv\<lparr>wss_Checks := n\<rparr>) = ws_inv sv"
  by (simp_all add: ws_inv_def alive_def)

text \<open>
  What writes can do to the sessions: those of \<open>C\<close> are not open any more, and \<open>W\<close> has been
  written on their streams.
\<close>

definition close_sessions :: "nat set \<Rightarrow> (nat \<Rightarrow> string list) \<Rightarrow> 'a WebSocketServer \<Rightarrow> 'a WebSocketServer" where
  "close_sessions C W sv =
     sv\<lparr>wss_Heap := (\<lambda>i. (wss_Heap sv i)\<lparr>ws_IsOpen := (ws_IsOpen (wss_Heap sv i) \<and> i \<notin> C),
                                        ws_Written := ws_Written (wss_Heap sv i) @ W i\<rparr>)\<rparr>"

lemma upd_session_simps [simp]:
  "wss_Sessions (upd_session i f sv) = wss_Sessions sv"
  "wss_Fresh (upd_session i f sv) = wss_Fresh sv"
  "wss_Accepting (upd_session i f sv) = wss_Accepting sv"
  "wss_Checks (upd_session i f sv) = wss_Checks sv"
  "wss_ReceivedFn (upd_session i f sv) = wss_ReceivedFn sv"
  "wss_Heap (upd_session i f sv) j = (if j = i then f (wss_Heap sv i) else wss_Heap sv j)"
  "alive (upd_session i f sv) = alive sv"
  by (simp_all add: upd_session_def alive_def fun_eq_iff)

lemma close_sessions_simps [simp]:
  "wss_Sessions (close_sessions C W sv) = wss_Sessions sv"
  "wss_Fresh (close_sessions C W sv) = wss_Fresh sv"
  "wss_Accepting (close_sessions C W sv) = wss_Accepting sv"
  "wss_Checks (close_sessions C W sv) = wss_Checks sv"
  "wss_ReceivedFn (close_sessions C W sv) = wss_ReceivedFn sv"
  "wss_Heap (close_sessions C W sv) j =
     (wss_Heap sv j)\<lparr>ws_IsOpen := (ws_IsOpen (wss_Heap sv j) \<and> j \<notin> C), ws_Written := ws_Written (wss_Heap sv j) @ W j\<rparr>"
  "alive (close_sessions C W sv) = alive sv"
  by (simp_all add: close_sessions_def alive_def fun_eq_iff)

lemma close_sessions_none [simp]: "close_sessions {} (\<lambda>_. []) sv = sv"
  by (simp add: close_sessions_def)

lemma close_sessions_again: "close_sessions D V (close_sessions C W sv) = close_sessions (C \<union> D) (\<lambda>i. W i @ V i) sv"
  by (auto simp: close_sessions_def fun_eq_iff)

text \<open>A write changes one session: whether its stream is open, and what has been written on it.\<close>

lemma send_closes: "\<exists>C W. fst (WebSocketServer_SendWebSocketData io buf ep sv) = close_sessions C W sv"
proof (cases "smap_find endpoint_less ep (wss_Sessions sv)")
  case None
  then have "fst (WebSocketServer_SendWebSocketData io buf ep sv) = close_sessions {} (\<lambda>_. []) sv"
    by (simp add: WebSocketServer_SendWebSocketData_def)
  then show ?thesis by blast
next
  case (Some i)
  obtain failed n stillOpen where io: "io = (failed, n, stillOpen)" by (cases io)
  with Some have "fst (WebSocketServer_SendWebSocketData io buf ep sv) =
      close_sessions (if stillOpen then {} else {i}) ((\<lambda>_. [])(i := [take n buf])) sv"
    by (auto simp: WebSocketServer_SendWebSocketData_def WebSocketSession_SendWebSocketData_def upd_session_def
        close_sessions_def fun_eq_iff)
  then show ?thesis by blast
qed

lemma ws_waits_single: "length ws \<le> 1 \<Longrightarrow> k \<in> set ws \<Longrightarrow> ws = [k]"
  by (cases ws) auto

lemma ws_inv_started: "ws_inv ws_started"
  by (simp add: ws_inv_def ws_started_def SetWebSocketDataReceived_def WebSocketServer_Start_def
      WebSocketServer_ctor_def WebSocketSession_ctor_def alive_def)

lemma ws_inv_accept:
  assumes "ws_inv sv"
  shows "ws_inv (fst (WebSocketServer_Accept failed remote sv))"
proof (cases "failed \<or> (\<exists>x. remote = Inl x)")
  case True
  with assms show ?thesis by (auto simp: WebSocketServer_Accept_def)
next
  case False
  then obtain ep where f: "\<not> failed" and r: "remote = Inr ep" by (cases remote) auto
  let ?n = "wss_Fresh sv" and ?m = "wss_Sessions sv"
  let ?sv = "fst (WebSocketServer_Accept failed remote sv)"
  from f r have e: "wss_Sessions ?sv = smap_assign endpoint_less ep ?n ?m"
    "wss_Heap ?sv = (wss_Heap sv)(?n := WebSocketSession_Accept WebSocketSession_ctor)" "wss_Fresh ?sv = Suc ?n"
    by (simp_all add: WebSocketServer_Accept_def)
  from assms have so: "smap_sorted endpoint_less ?m" and di: "distinct (map snd ?m)"
    and fr: "\<forall>i. alive sv i \<longrightarrow> i < ?n" and h: "\<forall>i. ?n \<le> i \<longrightarrow> ws_Waits (wss_Heap sv i) = [] \<and> \<not> ws_IsOpen (wss_Heap sv i)"
    by (auto simp: ws_inv_def)
  have al: "alive ?sv i \<Longrightarrow> i = ?n \<or> alive sv i" for i
    using endpoints.set_assign [OF so, of _ _ ep ?n] by (auto simp: alive_def e split: if_splits)
  have so': "smap_sorted endpoint_less (wss_Sessions ?sv)" using so by (simp add: e endpoints.sorted_assign)
  have nm: "?n \<notin> snd ` set ?m" using fr by (auto simp: alive_def)
  have "distinct (map snd (wss_Sessions ?sv))"
  proof (cases "smap_find endpoint_less ep ?m")
    case None
    from endpoints.emplace_split [OF so None, of ?n] obtain xs ys
      where "?m = xs @ ys" "smap_emplace endpoint_less ep ?n ?m = xs @ (ep, ?n) # ys" by blast
    with di nm None show ?thesis by (auto simp: e smap_assign_def)
  next
    case (Some i)
    from endpoints.find_split [OF so Some] obtain xs ys
      where "?m = xs @ (ep, i) # ys" "smap_set endpoint_less ep ?n ?m = xs @ (ep, ?n) # ys" by blast
    with di nm Some show ?thesis by (auto simp: e smap_assign_def)
  qed
  moreover have "\<forall>i. alive ?sv i \<longrightarrow> i < wss_Fresh ?sv" using al fr e(3) by fastforce
  ultimately show ?thesis using assms so'
    by (auto simp: ws_inv_def e(2,3) WebSocketSession_Accept_def WebSocketSession_ctor_def)
qed

lemma alive_fresh: "ws_inv sv \<Longrightarrow> alive sv i \<Longrightarrow> i < wss_Fresh sv"
  by (simp add: ws_inv_def)

text \<open>A handler that waited ends its wait; the session has none left.\<close>

lemma wait_over_none:
  assumes "ws_inv sv" and "k \<in> set (ws_Waits (wss_Heap sv i))"
  shows "ws_Waits (wss_Heap sv i) = [k]" and "ws_Waits (wss_Heap (wait_over k i sv) i) = []" and "i < wss_Fresh sv"
    and "k \<noteq> Wait_read \<Longrightarrow> \<not> ws_IsOpen (wss_Heap sv i)"
proof -
  from assms show w: "ws_Waits (wss_Heap sv i) = [k]" by (intro ws_waits_single) (auto simp: ws_inv_def)
  then show "ws_Waits (wss_Heap (wait_over k i sv) i) = []" by (simp add: wait_over_def)
  show "i < wss_Fresh sv" using assms by (auto simp: ws_inv_def WebSocketSession_ctor_def not_le [symmetric])
  show "\<not> ws_IsOpen (wss_Heap sv i)" if "k \<noteq> Wait_read" using assms(1) w that by (auto simp: ws_inv_def)
qed

lemma ws_inv_wait_over:
  assumes "ws_inv sv" and "k \<in> set (ws_Waits (wss_Heap sv i))"
    and "length (ws_Waits (f (wss_Heap (wait_over k i sv) i))) \<le> 1"
    and "ws_IsOpen (f (wss_Heap (wait_over k i sv) i)) \<longrightarrow> ws_Waits (f (wss_Heap (wait_over k i sv) i)) = [Wait_read]"
  shows "ws_inv (upd_session i f (wait_over k i sv))"
  using assms wait_over_none(3) [OF assms(1,2)] by (simp add: ws_inv_def wait_over_def)

lemma ws_inv_close: "ws_inv sv \<Longrightarrow> ws_inv (close_sessions C W sv)"
  by (auto simp: ws_inv_def WebSocketSession_ctor_def)

lemma ws_inv_check: "ws_inv sv \<Longrightarrow> ws_inv (fst (CheckClosedSessions (sv\<lparr>wss_Checks := n\<rparr>)))"
  by (auto simp: ws_inv_def check_simp alive_def smap_sorted_def sorted_wrt_map sorted_wrt_filter distinct_map
      intro: inj_on_subset)

section \<open>The data callback\<close>

locale data_callback =
  fixes on_data :: "('a::linorder, 'w) ws_callback"
  assumes on_data_closes: "\<exists>C W. fst (fst (on_data buf ep st)) = close_sessions C W (fst st)"
begin

lemma OnDataRead_closes: "\<exists>C W. fst (fst (WebSocketServer_OnDataRead on_data buf ep st)) = close_sessions C W (fst st)"
  using on_data_closes [of buf ep st] close_sessions_none [of "fst st", symmetric]
  by (cases "wss_ReceivedFn (fst st)") (auto simp: WebSocketServer_OnDataRead_def simp del: close_sessions_none)

lemma step_inv:
  assumes "ws_inv (fst st)" and "ws_enabled e (fst st)" and "ws_handle on_data e st = Some (st', Inr ())"
  shows "ws_inv (fst st')"
proof (cases e)
  case (Ws_accept failed remote)
  with assms ws_inv_accept [OF assms(1), of failed remote] show ?thesis by (cases st) (auto split: prod.splits)
next
  case (Ws_run i)
  with assms(2) have w: "Wait_run \<in> set (ws_Waits (wss_Heap (fst st) i))" by simp
  note wo = wait_over_none [OF assms(1) w]
  have "ws_inv (upd_session i runFunc (wait_over Wait_run i (fst st)))"
    by (rule ws_inv_wait_over [OF assms(1) w]) (use wo in \<open>simp_all add: runFunc_def wait_over_def\<close>)
  with assms(3) Ws_run show ?thesis by (cases st) (auto split: if_splits)
next
  case (Ws_handshake i failed)
  with assms(2) have w: "Wait_handshake \<in> set (ws_Waits (wss_Heap (fst st) i))" by simp
  note wo = wait_over_none [OF assms(1) w]
  have "ws_inv (upd_session i (acceptHandshakeFn failed) (wait_over Wait_handshake i (fst st)))"
    by (rule ws_inv_wait_over [OF assms(1) w])
       (use wo in \<open>simp_all add: acceptHandshakeFn_def WebSocketSession_ReadData_def wait_over_def\<close>)
  with assms(3) Ws_handshake show ?thesis by (cases st) auto
next
  case (Ws_closing i)
  have "upd_session i (\<lambda>s. s\<lparr>ws_IsOpen := False\<rparr>) (fst st) = close_sessions {i} (\<lambda>_. []) (fst st)"
    by (auto simp: upd_session_def close_sessions_def fun_eq_iff)
  with assms Ws_closing ws_inv_close [OF assms(1), of "{i}" "\<lambda>_. []"] show ?thesis by (cases st) auto
next
  case Ws_check
  with assms ws_inv_check [OF assms(1)] show ?thesis by (cases st) auto
next
  case (Ws_read i r remote)
  obtain sv w where st: "st = (sv, w)" by (cases st)
  from assms Ws_read st have w: "Wait_read \<in> set (ws_Waits (wss_Heap sv i))" and a: "alive sv i"
    and h: "readDataFunc on_data r remote i (wait_over Wait_read i sv, w) = (st', Inr ())"
    by (auto split: if_splits)
  from assms(1) st have inv: "ws_inv sv" by simp
  note wo = wait_over_none [OF inv w]
  show ?thesis
  proof (cases "\<exists>buf. r = Read_data buf")
    case False
    with assms(2) Ws_read st a have o: "\<not> ws_IsOpen (wss_Heap sv i)" by (cases r) auto
    have "ws_inv (upd_session i id (wait_over Wait_read i sv))"
      by (rule ws_inv_wait_over [OF inv w]) (use wo o in \<open>auto simp: wait_over_def\<close>)
    then have "ws_inv (wait_over Wait_read i sv)" by (simp add: upd_session_def)
    with False h show ?thesis
      by (cases r) (auto simp: readDataFunc_def WebSocketServer_OnSessionClosed_def)
  next
    case True
    then obtain buf where "r = Read_data buf" by blast
    with h obtain ep st1 where r: "remote = Inr ep"
      and d: "WebSocketServer_OnDataRead on_data buf ep (wait_over Wait_read i sv, w) = (st1, Inr ())"
      and st': "fst st' = upd_session i WebSocketSession_ReadData (fst st1)"
      by (auto simp: readDataFunc_def split: sum.splits prod.splits)
    from d OnDataRead_closes [of buf ep "(wait_over Wait_read i sv, w)"]
    obtain C W where "fst st1 = close_sessions C W (wait_over Wait_read i sv)" by auto
    then have "fst st' = close_sessions C W (upd_session i WebSocketSession_ReadData (wait_over Wait_read i sv))"
      by (auto simp: st' upd_session_def close_sessions_def fun_eq_iff WebSocketSession_ReadData_def)
    moreover have "ws_inv (upd_session i WebSocketSession_ReadData (wait_over Wait_read i sv))"
      by (rule ws_inv_wait_over [OF inv w]) (use wo in \<open>auto simp: WebSocketSession_ReadData_def\<close>)
    ultimately show ?thesis by (simp add: ws_inv_close)
  qed
qed

lemma reach_inv: "ws_reach on_data w0 st \<Longrightarrow> ws_inv (fst st)"
  by (induction rule: ws_reach.induct) (auto simp: ws_inv_started intro: step_inv)

text \<open>An open session of the map is always waiting for its next read.\<close>

lemma reach_open_reads:
  "ws_reach on_data w0 (sv, w) \<Longrightarrow> ws_IsOpen (wss_Heap sv i) \<Longrightarrow> ws_Waits (wss_Heap sv i) = [Wait_read]"
  using reach_inv by (fastforce simp: ws_inv_def)

end

section \<open>Sessions that stay\<close>

text \<open>
  A check leaves no closed session in the list, but none is posted for a session whose read
  failed with another error than the close of the peer, nor for one whose handshake failed.
\<close>

lemma check_leaves_open:
  "ws_handle on_data Ws_check (sv, w) = Some ((sv', w'), r) \<Longrightarrow> alive sv' i \<Longrightarrow> ws_IsOpen (wss_Heap sv' i)"
  by (auto simp: check_simp alive_def)

lemma failed_read_stays:
  "alive sv i \<Longrightarrow> ws_handle on_data (Ws_read i Read_error remote) (sv, w) = Some ((sv', w'), r) \<Longrightarrow>
   alive sv' i \<and> wss_Checks sv' = wss_Checks sv"
  by (auto simp: readDataFunc_def wait_over_def)

lemma failed_handshake_stays:
  "alive sv i \<Longrightarrow> ws_handle on_data (Ws_handshake i True) (sv, w) = Some ((sv', w'), r) \<Longrightarrow>
   alive sv' i \<and> wss_Checks sv' = wss_Checks sv"
  by (auto simp: wait_over_def)

section \<open>Connecting\<close>

lemma sint_high_port:
  fixes port :: u16
  assumes "32768 \<le> unat port"
  shows "sint port < 0"
proof -
  have l: "32768 \<le> uint port" using assms uint_nat [of port] by linarith
  have u: "uint port < 65536" using uint_bounded [of port] by simp
  have "sint port = signed_take_bit 15 (uint port)" by (simp add: sint_uint)
  also have "\<dots> = (uint port + 32768) mod 65536 - 32768"
    by (simp add: signed_take_bit_eq_take_bit_shift take_bit_eq_mod)
  also have "(uint port + 32768) mod 65536 = uint port - 32768"
  proof -
    have "uint port + 32768 = (uint port - 32768) + 65536" by simp
    then have "(uint port + 32768) mod 65536 = (uint port - 32768) mod 65536" by (metis mod_add_self2)
    also have "\<dots> = uint port - 32768" by (rule mod_pos_pos_trivial) (use l u in linarith)+
    finally show ?thesis .
  qed
  finally show ?thesis using u by simp
qed

text \<open>
  The client cannot reach everything a server can listen on: the port is printed as a signed
  number, so that with a resolver that knows no service of a negative number no port from 32768 on
  is reached; and a host given by name is resolved, but the connection is made to the unspecified
  address, so that it fails unless something listens there.
\<close>

theorem ws_connect_limits:
  assumes "\<And>a service. \<exists>n. service = CHR ''-'' # n \<Longrightarrow> resolve a service"
    and "32768 \<le> unat port \<or> make_address address = None \<and> connect (unspecified, port)"
  shows "WebSocketSession_Connect make_address unspecified resolve connect handshake address port s = (s, False)"
proof (cases "32768 \<le> unat port")
  case True
  from sint_high_port [OF this] have "\<exists>n. to_string (sint port) = CHR ''-'' # n" by (simp add: to_string_def)
  from assms(1) [OF this] show ?thesis by (simp add: WebSocketSession_Connect_def)
next
  case False
  with assms(2) show ?thesis by (simp add: WebSocketSession_Connect_def)
qed

theorem ws_connect_limits_witness:
  "WebSocketSession_Connect (\<lambda>_. Some (1 :: nat)) 0 (\<lambda>a service. hd service = CHR ''-'') (\<lambda>_. False) (\<lambda>_. False)
     ''10.0.0.1'' 40000 WebSocketSession_ctor = (WebSocketSession_ctor, False) \<and>
   WebSocketSession_Connect (\<lambda>_. None) (0 :: nat) (\<lambda>a service. hd service = CHR ''-'') (\<lambda>(a, p). a = 0) (\<lambda>_. False)
     ''host'' 80 WebSocketSession_ctor = (WebSocketSession_ctor, False)"
  by (intro conjI ws_connect_limits) auto

end
