(* ===== verification/Timers.thy ===== *)
theory Timers
  imports Prelude
begin

text \<open>
  \<open>Timer\<close> and \<open>Service\<close> of \<open>common\<close>. A timer holds the timer of the I/O library: when it
  expires, whether a wait is pending, and the completed waits whose handler has not run yet (true
  for an aborted one). A function given to a timer changes a state and says whether it restarts
  the timer, which every such function of the sources does last or not at all. The service runs
  handlers on its threads; a run is the sequence of the handlers with the thread each runs on.
\<close>

section \<open>Timers\<close>

record 'w Timer =
  m_TimerFunction :: "('w \<Rightarrow> 'w \<times> bool) option"
  m_Timeout :: "int option"
  m_Expiry :: int
  m_Waiting :: bool
  m_Completions :: "bool list"

text \<open>\<open>m_Timeout\<close> is not initialised.\<close>

definition Timer_ctor :: "'w Timer" where
  "Timer_ctor = \<lparr>m_TimerFunction = None, m_Timeout = None, m_Expiry = 0, m_Waiting = False, m_Completions = []\<rparr>"

text \<open>\<open>expires_after\<close> aborts a pending wait; \<open>async_wait\<close> starts one.\<close>

definition Timer_Start_timeout :: "int \<Rightarrow> int \<Rightarrow> 'w Timer \<Rightarrow> 'w Timer" where
  "Timer_Start_timeout now timeout t =
     t\<lparr>m_Timeout := Some timeout,
       m_Completions := m_Completions t @ (if m_Waiting t then [True] else []),
       m_Expiry := now + timeout,
       m_Waiting := True\<rparr>"

definition Timer_Restart :: "int \<Rightarrow> 'w Timer \<Rightarrow> 'w Timer option" where
  "Timer_Restart now t = (case m_Timeout t of None \<Rightarrow> None | Some timeout \<Rightarrow> Some (Timer_Start_timeout now timeout t))"

definition Timer_Start :: "int \<Rightarrow> ('w \<Rightarrow> 'w \<times> bool) \<Rightarrow> int \<Rightarrow> 'w Timer \<Rightarrow> 'w Timer" where
  "Timer_Start now timerFunc timeout t = Timer_Start_timeout now timeout (t\<lparr>m_TimerFunction := Some timerFunc\<rparr>)"

definition m_TimerHandler :: "bool \<Rightarrow> int \<Rightarrow> 'w \<times> 'w Timer \<Rightarrow> ('w \<times> 'w Timer) option" where
  "m_TimerHandler aborted now wt =
     (case wt of (w, t) \<Rightarrow>
        case m_TimerFunction t of
          None \<Rightarrow> Some (w, t)
        | Some f \<Rightarrow>
            if \<not> aborted then
              (let (w', restarts) = f w
               in if restarts then map_option (Pair w') (Timer_Restart now t) else Some (w', t))
            else Some (w, t))"

text \<open>
  The steps of a timer: time passes, a wait whose time has come completes, a thread of the service
  runs the handler of a completed wait, and the rest of the program changes the state as \<open>E\<close>
  allows.
\<close>

inductive timer_step :: "('w \<Rightarrow> 'w \<Rightarrow> bool) \<Rightarrow> int \<times> 'w \<times> 'w Timer \<Rightarrow> int \<times> 'w \<times> 'w Timer \<Rightarrow> bool"
  for E where
  passes: "now \<le> now' \<Longrightarrow> timer_step E (now, w, t) (now', w, t)"
| expires: "m_Waiting t \<Longrightarrow> m_Expiry t \<le> now \<Longrightarrow>
    timer_step E (now, w, t) (now, w, t\<lparr>m_Waiting := False, m_Completions := m_Completions t @ [False]\<rparr>)"
| handler: "m_Completions t = aborted # cs \<Longrightarrow> m_TimerHandler aborted now (w, t\<lparr>m_Completions := cs\<rparr>) = Some (w', t') \<Longrightarrow>
    timer_step E (now, w, t) (now, w', t')"
| environment: "E w w' \<Longrightarrow> timer_step E (now, w, t) (now, w', t)"

abbreviation timer_alone :: "int \<times> 'w \<times> 'w Timer \<Rightarrow> int \<times> 'w \<times> 'w Timer \<Rightarrow> bool" where
  "timer_alone \<equiv> timer_step (\<lambda>_ _. False)"

inductive_cases timer_stepE: "timer_step E (now, w, t) s"

text \<open>A restarting timer stays alive: a wait is pending or one that was not aborted has completed.\<close>

definition timer_alive :: "('w \<Rightarrow> 'w) \<Rightarrow> int \<Rightarrow> int \<times> 'w \<times> 'w Timer \<Rightarrow> bool" where
  "timer_alive f timeout s \<longleftrightarrow> (case s of (now, w, t) \<Rightarrow>
     m_TimerFunction t = Some (\<lambda>w. (f w, True)) \<and> m_Timeout t = Some timeout \<and>
     (m_Waiting t \<or> False \<in> set (m_Completions t)))"

lemma timer_alive_handler:
  "timer_alive f timeout (now, w, t) \<Longrightarrow> m_Completions t = aborted # cs \<Longrightarrow>
   \<exists>t'. m_TimerHandler aborted now (w, t\<lparr>m_Completions := cs\<rparr>) = Some (if aborted then w else f w, t') \<and>
        timer_alive f timeout (now, w', t') \<and>
        (aborted \<longrightarrow> t' = t\<lparr>m_Completions := cs\<rparr>)"
  by (cases aborted) (auto simp: timer_alive_def m_TimerHandler_def Timer_Restart_def Timer_Start_timeout_def)

lemma timer_alive_step:
  assumes "timer_step E s s'" and "timer_alive f timeout s"
  shows "timer_alive f timeout s'"
  using assms
proof (induction rule: timer_step.induct)
  case (handler t aborted cs now w w' t')
  from timer_alive_handler [OF handler.prems handler.hyps(1), of w'] handler.hyps(2) show ?case by auto
qed (auto simp: timer_alive_def)

lemma timer_alive_steps:
  assumes "(timer_step E)\<^sup>*\<^sup>* s s'" and "timer_alive f timeout s"
  shows "timer_alive f timeout s'"
  using assms by (induction rule: rtranclp_induct) (auto intro: timer_alive_step)

lemma timer_runs_completed:
  "timer_alive f timeout (now, w, t) \<Longrightarrow> m_Completions t = replicate n True @ False # cs \<Longrightarrow>
   \<exists>t'. timer_alone\<^sup>*\<^sup>* (now, w, t) (now, f w, t')"
proof (induction n arbitrary: t)
  case 0
  then have c: "m_Completions t = False # cs" by simp
  from timer_alive_handler [OF "0.prems"(1) c, of w]
  obtain t' where "m_TimerHandler False now (w, t\<lparr>m_Completions := cs\<rparr>) = Some (f w, t')" by auto
  from handler [OF c this] show ?case by blast
next
  case (Suc n)
  then have c: "m_Completions t = True # replicate n True @ False # cs" by simp
  let ?t = "t\<lparr>m_Completions := replicate n True @ False # cs\<rparr>"
  from timer_alive_handler [OF Suc.prems(1) c, of w]
  have "m_TimerHandler True now (w, ?t) = Some (w, ?t)" by auto
  from handler [OF c this] have s: "timer_alone (now, w, t) (now, w, ?t)" .
  from timer_alive_step [OF s Suc.prems(1)] have "timer_alive f timeout (now, w, ?t)" .
  from Suc.IH [OF this] obtain t' where "timer_alone\<^sup>*\<^sup>* (now, w, ?t) (now, f w, t')" by auto
  with s show ?case by (meson converse_rtranclp_into_rtranclp)
qed

lemma first_completed: "False \<in> set cs \<Longrightarrow> \<exists>n ds. cs = replicate n True @ False # ds"
proof (induction cs)
  case (Cons c cs)
  show ?case
  proof (cases c)
    case True
    with Cons obtain n ds where "cs = replicate n True @ False # ds" by auto
    with True show ?thesis by (intro exI [of _ "Suc n"] exI [of _ ds]) simp
  next
    case False
    then show ?thesis by (intro exI [of _ 0] exI [of _ cs]) simp
  qed
qed simp

lemma timer_next_call:
  assumes a: "timer_alive f timeout (now', w', t')"
  shows "\<exists>now'' t''. timer_alone\<^sup>*\<^sup>* (now', w', t') (now'', f w', t'')"
proof (cases "False \<in> set (m_Completions t')")
  case True
  with first_completed obtain n cs where "m_Completions t' = replicate n True @ False # cs" by blast
  from timer_runs_completed [OF a this] show ?thesis by blast
next
  case False
  let ?now = "max now' (m_Expiry t')"
  let ?t = "t'\<lparr>m_Waiting := False, m_Completions := m_Completions t' @ [False]\<rparr>"
  from a False have "m_Waiting t'" by (simp add: timer_alive_def)
  then have e: "timer_alone (?now, w', t') (?now, w', ?t)" by (intro expires) auto
  have p: "timer_alone (now', w', t') (?now, w', t')" by (rule passes) simp
  from timer_alive_step [OF e timer_alive_step [OF p a]] have a': "timer_alive f timeout (?now, w', ?t)" .
  have "False \<in> set (m_Completions ?t)" by simp
  with first_completed obtain n cs where "m_Completions ?t = replicate n True @ False # cs" by blast
  from timer_runs_completed [OF a' this] obtain t'' where "timer_alone\<^sup>*\<^sup>* (?now, w', ?t) (?now, f w', t'')" by blast
  with p e show ?thesis by (meson converse_rtranclp_into_rtranclp)
qed

lemma timer_alive_started: "timer_alive f timeout (now, w, Timer_Start now (\<lambda>w. (f w, True)) timeout t)"
  by (simp add: timer_alive_def Timer_Start_def Timer_Start_timeout_def)

text \<open>
  C20: A timer started with a function that restarts it never dies: whatever the order of
  expiries and handlers and whatever the rest of the program does to the state, from every state
  it can get into the timer alone calls the function once more after finitely many steps.
\<close>

theorem timer_fires_again:
  assumes "(timer_step E)\<^sup>*\<^sup>* (now, w, Timer_Start now (\<lambda>w. (f w, True)) timeout t) (now', w', t')"
  shows "\<exists>now'' t''. timer_alone\<^sup>*\<^sup>* (now', w', t') (now'', f w', t'')"
  by (rule timer_next_call [OF timer_alive_steps [OF assms timer_alive_started]])

theorem timer_fires_again_witness:
  "\<exists>now'' t''. timer_alone\<^sup>*\<^sup>* (0, 0 :: nat, Timer_Start 0 (\<lambda>w. (Suc w, True)) 2 Timer_ctor) (now'', Suc 0, t'')"
  by (rule timer_fires_again [OF rtranclp.rtrancl_refl])

text \<open>
  The timer polled at given times: a call happens at the first time not before the expiry, and
  the next expiry is counted from that time, so that delays add up.
\<close>

definition Timer_poll :: "int \<Rightarrow> 'w \<times> 'w Timer \<Rightarrow> ('w \<times> 'w Timer) option" where
  "Timer_poll now wt =
     (if m_Waiting (snd wt) \<and> m_Expiry (snd wt) \<le> now
      then m_TimerHandler False now (fst wt, (snd wt)\<lparr>m_Waiting := False\<rparr>) else Some wt)"

fun Timer_polls :: "int list \<Rightarrow> 'w \<times> 'w Timer \<Rightarrow> ('w \<times> 'w Timer) option" where
  "Timer_polls [] wt = Some wt"
| "Timer_polls (now # nows) wt = (case Timer_poll now wt of None \<Rightarrow> None | Some wt' \<Rightarrow> Timer_polls nows wt')"

lemma Timer_polls_armed:
  "sorted nows \<Longrightarrow> m_TimerFunction t = Some (\<lambda>w. (f w, True)) \<Longrightarrow> m_Timeout t = Some timeout \<Longrightarrow>
   m_Waiting t \<Longrightarrow> m_Expiry t = start + timeout \<Longrightarrow> \<forall>now \<in> set nows. start \<le> now \<Longrightarrow> 0 < timeout \<Longrightarrow>
   \<exists>calls t'. Timer_polls nows (w, t) = Some ((f ^^ length calls) w, t') \<and> set calls \<subseteq> set nows \<and>
     sorted_wrt (\<lambda>a b. a + timeout \<le> b) (start # calls) \<and>
     (\<forall>now \<in> set nows. \<exists>c \<in> set (start # calls). c \<le> now \<and> now < c + timeout)"
proof (induction nows arbitrary: w t start)
  case (Cons now nows)
  show ?case
  proof (cases "m_Expiry t \<le> now")
    case False
    have "\<exists>calls t'. Timer_polls nows (w, t) = Some ((f ^^ length calls) w, t') \<and> set calls \<subseteq> set nows \<and>
       sorted_wrt (\<lambda>a b. a + timeout \<le> b) (start # calls) \<and>
       (\<forall>now \<in> set nows. \<exists>c \<in> set (start # calls). c \<le> now \<and> now < c + timeout)"
      by (rule Cons.IH) (use Cons.prems in simp_all)
    then obtain calls t' where IH: "Timer_polls nows (w, t) = Some ((f ^^ length calls) w, t')" "set calls \<subseteq> set nows"
        "sorted_wrt (\<lambda>a b. a + timeout \<le> b) (start # calls)"
        "\<forall>now \<in> set nows. \<exists>c \<in> set (start # calls). c \<le> now \<and> now < c + timeout" by blast
    from False have "Timer_polls (now # nows) (w, t) = Timer_polls nows (w, t)" by (simp add: Timer_poll_def)
    moreover from False Cons.prems(5,6) have "start \<le> now \<and> now < start + timeout" by simp
    ultimately show ?thesis using IH by (intro exI [of _ calls] exI [of _ t']) auto
  next
    case True
    let ?t = "Timer_Start_timeout now timeout (t\<lparr>m_Waiting := False\<rparr>)"
    have "\<exists>calls t'. Timer_polls nows (f w, ?t) = Some ((f ^^ length calls) (f w), t') \<and> set calls \<subseteq> set nows \<and>
       sorted_wrt (\<lambda>a b. a + timeout \<le> b) (now # calls) \<and>
       (\<forall>now' \<in> set nows. \<exists>c \<in> set (now # calls). c \<le> now' \<and> now' < c + timeout)"
      by (rule Cons.IH) (use Cons.prems in \<open>simp_all add: Timer_Start_timeout_def\<close>)
    then obtain calls t' where IH: "Timer_polls nows (f w, ?t) = Some ((f ^^ length calls) (f w), t')" "set calls \<subseteq> set nows"
        "sorted_wrt (\<lambda>a b. a + timeout \<le> b) (now # calls)"
        "\<forall>now' \<in> set nows. \<exists>c \<in> set (now # calls). c \<le> now' \<and> now' < c + timeout" by blast
    from True Cons.prems have "Timer_polls (now # nows) (w, t) = Timer_polls nows (f w, ?t)"
      by (simp add: Timer_poll_def m_TimerHandler_def Timer_Restart_def)
    with IH(1) have "Timer_polls (now # nows) (w, t) = Some ((f ^^ length (now # calls)) w, t')"
      by (simp add: funpow_swap1)
    moreover from True Cons.prems(5) have le: "start + timeout \<le> now" by simp
    with IH(3) Cons.prems(7) have "sorted_wrt (\<lambda>a b. a + timeout \<le> b) (start # now # calls)" by fastforce
    moreover from IH(4) Cons.prems(7)
    have "\<forall>now' \<in> set (now # nows). \<exists>c \<in> set (start # now # calls). c \<le> now' \<and> now' < c + timeout" by auto
    ultimately show ?thesis using IH(2) by (intro exI [of _ "now # calls"] exI [of _ t']) auto
  qed
qed simp

text \<open>
  A timer started with a function that restarts it calls the function as often as it can: the
  calls are at least the timeout apart, and at no time the service gets to the timer has a whole
  timeout passed since the last call.
\<close>

theorem timer_period:
  assumes "sorted nows" and "\<forall>now \<in> set nows. start \<le> now" and "0 < timeout"
  shows "\<exists>calls t'. Timer_polls nows (w, Timer_Start start (\<lambda>w. (f w, True)) timeout t) = Some ((f ^^ length calls) w, t') \<and>
    set calls \<subseteq> set nows \<and> sorted_wrt (\<lambda>a b. a + timeout \<le> b) (start # calls) \<and>
    (\<forall>now \<in> set nows. \<exists>c \<in> set (start # calls). c \<le> now \<and> now < c + timeout)"
  by (rule Timer_polls_armed [OF assms(1) _ _ _ _ assms(2,3)])
     (simp_all add: Timer_Start_def Timer_Start_timeout_def)

theorem timer_period_witness:
  "\<exists>calls t'. Timer_polls [3, 4, 6, 11] (0 :: nat, Timer_Start 1 (\<lambda>w. (Suc w, True)) 2 Timer_ctor) =
      Some ((Suc ^^ length calls) 0, t') \<and> set calls \<subseteq> {3, 4, 6, 11} \<and>
    sorted_wrt (\<lambda>a b :: int. a + 2 \<le> b) (1 # calls) \<and>
    (\<forall>now \<in> {3, 4, 6, 11}. \<exists>c \<in> set (1 # calls). c \<le> now \<and> now < c + 2)"
  using timer_period [of "[3, 4, 6, 11]" 1 2 "0 :: nat" Suc Timer_ctor]
  by (simp del: Timer_polls.simps)

section \<open>The service\<close>

record Service =
  m_NumberOfServiceThreads :: "8 word"
  m_Stopped :: bool
  m_ServiceLog :: "string list"

definition Service_ctor :: "8 word \<Rightarrow> Service" where
  "Service_ctor numberOfCpuThreads =
     \<lparr>m_NumberOfServiceThreads = numberOfCpuThreads, m_Stopped = False, m_ServiceLog = []\<rparr>"

text \<open>The threads \<open>Run\<close> starts; thread 0 is the one that calls \<open>Run\<close>.\<close>

definition Service_threads :: "Service \<Rightarrow> nat list" where
  "Service_threads sv = [1..<unat (m_NumberOfServiceThreads sv)]"

definition Service_Stop :: "Service \<Rightarrow> Service" where
  "Service_Stop sv =
     (let stopped = foldl (\<lambda>_ cpu. True) (m_Stopped sv) (Service_threads sv)
      in sv\<lparr>m_Stopped := (if \<not> stopped then True else stopped),
            m_ServiceLog := m_ServiceLog sv @ [''Stopping services...'']\<rparr>)"

text \<open>
  What a started thread does when its \<open>run\<close> is over: an exception is caught, with \<open>None\<close> for one
  that is not a \<open>std::exception\<close>; the thread that calls \<open>Run\<close> does not catch it.
\<close>

definition Service_worker :: "cpp_exn option + unit \<Rightarrow> Service \<Rightarrow> Service" where
  "Service_worker outcome sv =
     (case outcome of
        Inr _ \<Rightarrow> sv
      | Inl (Some (CppExn what)) \<Rightarrow>
          Service_Stop (sv\<lparr>m_ServiceLog := m_ServiceLog sv @ [''Fatal exception '' @ what]\<rparr>)
      | Inl None \<Rightarrow> Service_Stop (sv\<lparr>m_ServiceLog := m_ServiceLog sv @ [''Unhandled exception'']\<rparr>))"

definition Service_Run :: "unit throws \<Rightarrow> Service \<Rightarrow> Service \<times> int throws" where
  "Service_Run outcome sv =
     (case outcome of
        Inl x \<Rightarrow> (sv, Inl x)
      | Inr _ \<Rightarrow> (sv\<lparr>m_ServiceLog := m_ServiceLog sv @ [''Stopped service, exiting'']\<rparr>, Inr 0))"

text \<open>
  The handlers the threads take from the service, in order. A stopped service runs no handler; an
  exception of a handler leaves the \<open>run\<close> of its thread.
\<close>

fun Service_exec ::
  "('h \<Rightarrow> 'w \<Rightarrow> 'w \<times> unit throws) \<Rightarrow> (nat \<times> 'h) list \<Rightarrow> Service \<times> 'w \<Rightarrow> Service \<times> 'w \<times> unit throws" where
  "Service_exec run [] (sv, w) = (sv, w, Inr ())"
| "Service_exec run ((thread, h) # hs) (sv, w) =
     (if m_Stopped sv then (sv, w, Inr ())
      else case run h w of
             (w', Inr _) \<Rightarrow> Service_exec run hs (sv, w')
           | (w', Inl x) \<Rightarrow>
               if thread = 0 then (fst (Service_Run (Inl x) sv), w', Inl x)
               else Service_exec run hs (Service_worker (Inl (Some x)) sv, w'))"

lemma Service_Stop_stopped [simp]: "m_Stopped (Service_Stop sv)"
  by (simp add: Service_Stop_def Let_def)

lemma Service_worker_stopped [simp]: "m_Stopped (Service_worker (Inl x) sv)"
  by (cases x) (auto simp: Service_worker_def split: cpp_exn.splits)

lemma Service_exec_stopped: "m_Stopped sv \<Longrightarrow> Service_exec run hs (sv, w) = (sv, w, Inr ())"
  by (cases "(run, hs, (sv, w))" rule: Service_exec.cases) auto

text \<open>The state after handlers of which none throws.\<close>

fun runs_through :: "('h \<Rightarrow> 'w \<Rightarrow> 'w \<times> unit throws) \<Rightarrow> 'h list \<Rightarrow> 'w \<Rightarrow> 'w \<Rightarrow> bool" where
  "runs_through run [] w w' \<longleftrightarrow> w' = w"
| "runs_through run (h # hs) w w' \<longleftrightarrow> snd (run h w) = Inr () \<and> runs_through run hs (fst (run h w)) w'"

text \<open>
  The first exception of a handler, on whatever thread, is the end of the service: the
  handlers before it have run, none after it does; on the thread that called \<open>Run\<close> the
  exception leaves \<open>Run\<close>, on any other it is logged and the service stopped.
\<close>

theorem service_ends_at_exception:
  assumes "\<not> m_Stopped sv" and "runs_through run (map snd hs) w w1" and "run h w1 = (w2, Inl x)"
  shows "Service_exec run (hs @ (thread, h) # hs') (sv, w) =
    (if thread = 0 then (sv, w2, Inl x) else (Service_worker (Inl (Some x)) sv, w2, Inr ())) \<and>
    m_Stopped (Service_worker (Inl (Some x)) sv)"
  using assms(2)
proof (induction hs arbitrary: w)
  case Nil
  with assms show ?case by (simp add: Service_exec_stopped Service_Run_def)
next
  case (Cons a hs)
  obtain t h' where a: "a = (t, h')" by (cases a)
  from Cons.prems a obtain w' where r: "run h' w = (w', Inr ())" and "runs_through run (map snd hs) w' w1"
    by (cases "run h' w") auto
  from Cons.IH [OF this(2)] show ?case by (simp add: a r assms(1))
qed

theorem service_ends_at_exception_witness:
  "Service_exec (\<lambda>(n :: nat) w. (n # w, if n = 0 then Inl (CppExn ''boom'') else Inr ()))
     ([(0, 3), (1, 5)] @ (1, 0) # [(0, 7)]) (Service_ctor 2, []) =
     (Service_worker (Inl (Some (CppExn ''boom''))) (Service_ctor 2), [0, 5, 3], Inr ())"
  using service_ends_at_exception [of "Service_ctor 2" "\<lambda>(n :: nat) w. (n # w, if n = 0 then Inl (CppExn ''boom'') else Inr ())"
      "[(0, 3), (1, 5)]" "[]" "[5, 3]" 0 "[0, 5, 3]" "CppExn ''boom''" 1 "[(0, 7)]"]
  by (simp add: Service_ctor_def)

end
