(* ===== verification/ModuleProps.thy ===== *)
theory ModuleProps
  imports MatchingEngineModule
begin

text \<open>
  The module over histories of received messages: what stays true of its books, which engines a
  message can touch, who is answered, and what becomes of each kind of request.
\<close>

section \<open>One message\<close>

lemma received_inv: "module_inv now m \<Longrightarrow> module_inv now (module_step J m (now, buf, ep))"
  by (auto simp: module_step_def Module_OnWebSocketDataReceived_def split: sum.split prod.split
      dest: handlers.process_inv)

lemma received_ok: "engines_ok m \<Longrightarrow> engines_ok (module_step J m ev)"
proof -
  assume ok: "engines_ok m"
  obtain now buf ep where ev: "ev = (now, buf, ep)" by (cases ev)
  show ?thesis
  proof (cases "Processor_Process J module_handler now buf ep m")
    case (Inl x)
    with ok show ?thesis by (simp add: module_step_def Module_OnWebSocketDataReceived_def ev)
  next
    case (Inr r)
    have "engines_ok (fst r)"
      using Inr
      by (cases rule: Process_cases)
        (use ok in \<open>auto simp: Module_HandleOrderInsert_def Module_HandleOrderAmend_def
          Module_HandleOrderCancel_def handler_book case_prod_unfold Let_def
          intro!: engines_ok_upd OrderInsert_ok OrderAmend_ok OrderCancel_ok
          dest: engines_okD split: option.split\<close>)
    with Inr show ?thesis by (simp add: module_step_def Module_OnWebSocketDataReceived_def ev case_prod_unfold)
  qed
qed

interpretation module_run: step_invariant "module_step J" engines_ok for J
  by unfold_locales (rule received_ok)

text \<open>
  C8: Whatever buffers arrive, in any order and from any senders, malformed ones included, every
  order of every book stays at the level of its price and on its own side, and the levels stay
  sorted with the best price first.
\<close>

theorem module_books_ok:
  assumes "engines_ok m"
  shows "engines_ok (foldl (module_step J) m evs)"
  by (rule module_run.run_inv [OF assms])

theorem module_books_ok_witness:
  "engines_ok (foldl (module_step (jval_api [])) [''X'' \<mapsto> MatchingEngine_ctor] [(0, ''{}'', 7 :: nat)])"
  by (rule module_books_ok) (simp add: engines_ok_def engine_ok_ctor)

text \<open>
  Every message sent while a buffer is handled goes to the endpoint the buffer came from; in
  particular both trades of a fill go to the requester, and the owner of the other order is told
  nothing.
\<close>

theorem module_answers_sender:
  assumes "Module_OnWebSocketDataReceived J now buf ep m = Inr (m', ms)" and "(msg, x) \<in> set ms"
  shows "x = ep"
  using handlers.process_to_sender [OF assms(1) [unfolded Module_OnWebSocketDataReceived_def] assms(2)] .

text \<open>A sample document per kind of request.\<close>

definition sample_doc :: "string \<Rightarrow> string \<Rightarrow> u64 \<Rightarrow> jval" where
  "sample_doc action instrument price =
     JObj [(''Action'', JStr action),
           (''Data'', JObj [(''Account'', JStr ''A''), (''Price'', JInt price), (''NewPrice'', JInt 105),
              (''Volume'', JInt 10), (''NewVolume'', JInt 20), (''Type'', JStr ''Limit''),
              (''IsBuy'', JBool True), (''ClientId'', JStr ''C''), (''Instrument'', JStr instrument),
              (''Id'', JStr ''1'')])]"

definition sample_api :: "jval json_api" where
  "sample_api = jval_api
     [(''insert'', sample_doc ''Insert'' ''X'' 100), (''amend'', sample_doc ''Amend'' ''X'' 100),
      (''cancel'', sample_doc ''Cancel'' ''X'' 100), (''other'', sample_doc ''Insert'' ''Y'' 100),
      (''free'', sample_doc ''Insert'' ''X'' 0), (''noprice'', JObj [(''Action'', JStr ''Insert''), (''Data'', JObj [])])]"

lemmas sample_api_simps = sample_api_def sample_doc_def Module_OnWebSocketDataReceived_def
  Processor_Process_def Processor_HandleOrderInsert_def Processor_HandleOrderAmend_def
  Processor_HandleOrderCancel_def OrderDataBase_SetData_def OrderAmendData_SetData_def
  OrderCancelData_SetData_def at_string_def at_int64_def at_bool_def c_str_def
  OrderDataBase_Validate_def OrderAmendData_Validate_def OrderCancelData_Validate_def
  OrderInsertData_default_def OrderAmendData_default_def OrderCancelData_default_def
  OrderDataBase_ctor_def OrderAmendData_ctor_def OrderCancelData_ctor_def Let_def

theorem module_answers_sender_witness:
  "Module_OnWebSocketDataReceived sample_api 5 ''cancel'' (7 :: nat) [''X'' \<mapsto> MatchingEngine_ctor] =
     Inr ([''X'' \<mapsto> MatchingEngine_ctor], [(MsgErrorReply (ErrorReply_ctor ''C'' ''Failed to cancel order''), 7)]) \<and>
   (7 :: nat) = 7"
proof
  show r: "Module_OnWebSocketDataReceived sample_api 5 ''cancel'' (7 :: nat) [''X'' \<mapsto> MatchingEngine_ctor] =
     Inr ([''X'' \<mapsto> MatchingEngine_ctor], [(MsgErrorReply (ErrorReply_ctor ''C'' ''Failed to cancel order''), 7)])"
    by (simp add: sample_api_simps Module_HandleOrderCancel_def MatchingEngine_OrderCancel_def
        MatchingEngine_Cancel_def OrderBook_Cancel_def MatchingEngine_ctor_def)
  show "(7 :: nat) = 7"
    by (rule module_answers_sender [OF r, of "MsgErrorReply (ErrorReply_ctor ''C'' ''Failed to cancel order'')"]) simp
qed

text \<open>
  A message touches at most one engine; it adds and removes none.
\<close>

theorem module_isolation:
  assumes "Module_OnWebSocketDataReceived J now buf ep m = Inr (m', ms)"
  shows "dom m' = dom m \<and> (\<exists>i. \<forall>j. j = i \<or> m' j = m j)"
  using assms unfolding Module_OnWebSocketDataReceived_def
proof (cases rule: Process_cases)
  case (insert d)
  then show ?thesis
    by (cases "m (od_instrument d)")
      (auto simp: Module_HandleOrderInsert_def case_prod_unfold Let_def intro: exI [of _ "od_instrument d"])
next
  case (cancel c)
  then show ?thesis
    by (cases "m (oc_instrument c)")
      (auto simp: Module_HandleOrderCancel_def case_prod_unfold Let_def intro: exI [of _ "oc_instrument c"])
next
  case (amend a)
  then show ?thesis
    by (cases "m (od_instrument a)")
      (auto simp: Module_HandleOrderAmend_def case_prod_unfold Let_def intro: exI [of _ "od_instrument a"])
qed (simp_all add: handler_book)

theorem module_isolation_witness:
  "\<exists>i. \<forall>j. j = i \<or> [''X'' \<mapsto> MatchingEngine_ctor] j = [''X'' \<mapsto> MatchingEngine_ctor] j"
proof -
  have r: "Module_OnWebSocketDataReceived sample_api 5 ''other'' (7 :: nat) [''X'' \<mapsto> MatchingEngine_ctor] =
     Inr ([''X'' \<mapsto> MatchingEngine_ctor], [])"
    by (simp add: sample_api_simps Module_HandleOrderInsert_def)
  show ?thesis using module_isolation [OF r] by blast
qed

section \<open>Amends from the network\<close>

lemma amend_fails:
  assumes ids: "ids_before now m" and i: "od_id a = to_string now"
  shows "fst (Module_HandleOrderAmend a ep m) = m \<and>
    snd (Module_HandleOrderAmend a ep m) \<in>
      {[], [(MsgErrorReply (ErrorReply_ctor (od_clientId a) ''Failed to amend order''), ep)]}"
proof (cases "m (od_instrument a)")
  case None
  then show ?thesis by (simp add: Module_HandleOrderAmend_def)
next
  case (Some e)
  have "to_string now \<notin> to_string ` {..<now}" by (auto dest: to_string_inj)
  with ids_beforeD [OF ids Some] i have "od_id a \<notin> engine_ids e" by auto
  then have "\<not> snd (MatchingEngine_Amend a e)"
    using ids_queue_at [of "side_lt (od_isBuySide a)" "side (od_isBuySide a) e" "od_price a"]
      ids_side [of "od_isBuySide a" e]
    by (auto simp: engine_Amend_eq sides.my.Amend_true_iff) (metis image_eqI subsetD)
  with Some show ?thesis
    by (simp add: Module_HandleOrderAmend_def OrderAmend_false fun_upd_idem)
qed

lemma run_ids:
  "module_inv t m \<Longrightarrow> sorted (map fst evs) \<Longrightarrow> \<forall>ev \<in> set evs. t \<le> fst ev \<and> fst ev < now \<Longrightarrow> t < now \<Longrightarrow>
   ids_before now (foldl (module_step J) m evs)"
proof (induction evs arbitrary: t m)
  case Nil
  then show ?case by (auto simp: module_inv_def intro: ids_before_mono)
next
  case (Cons ev evs)
  obtain now' buf ep where ev: "ev = (now', buf, ep)" by (cases ev)
  have "module_inv now' m"
    using Cons.prems(1,3) ev by (auto simp: module_inv_def intro: ids_before_mono)
  then have "module_inv now' (module_step J m ev)" unfolding ev by (rule received_inv)
  from Cons.IH [OF this] Cons.prems(2,3) ev show ?case by auto
qed

text \<open>
  C11: An amend read from the network gets the time of its own reception as its identifier. So
  from an engine map whose books hold no identifiers but of times before \<open>t\<close>, after any history of
  messages received in the order of time and not before \<open>t\<close>, an amend that is received strictly
  later than all of them finds no order: it changes nothing, and is answered by the error or not
  at all. (Received in the same tick of the clock as an insert, it would find the new order.)
\<close>

theorem network_amend_never_applies:
  assumes "engines_ok m" and "ids_before t m" and "sorted (map fst evs)"
    and "\<forall>ev \<in> set evs. t \<le> fst ev \<and> fst ev < now" and "t < now"
    and "Processor_HandleOrderAmend J module_handler now data ep (foldl (module_step J) m evs) = Inr (m', ms)"
  shows "m' = foldl (module_step J) m evs \<and>
    (ms = [] \<or> (\<exists>c. ms = [(MsgErrorReply (ErrorReply_ctor c ''Failed to amend order''), ep)]))"
proof -
  have "module_inv t m" using assms(1,2) by (auto simp: module_inv_def intro: ids_before_mono)
  from run_ids [OF this assms(3,4,5)] have ids: "ids_before now (foldl (module_step J) m evs)" .
  from HandleOrderAmend_cases [OF assms(6)] show ?thesis
  proof (elim disjE exE conjE)
    fix a assume a: "OrderAmendData_SetData J now data OrderAmendData_default = Inr (a, True)"
      and r: "(m', ms) = h_HandleOrderAmend module_handler a ep (foldl (module_step J) m evs)"
    from amend_fails [OF ids amend_SetData_id [OF a], of ep] r show ?thesis
      by (metis fst_conv insertE module_handler_simps(2) singletonD snd_conv)
  qed simp
qed

lemma sample_empty_ok: "engines_ok [''X'' \<mapsto> MatchingEngine_ctor]" "ids_before t [''X'' \<mapsto> MatchingEngine_ctor]"
  by (simp_all add: engines_ok_def engine_ok_ctor ids_before_def engine_ids_def)
    (simp add: MatchingEngine_ctor_def)

lemma sample_amend_result:
  "\<exists>r. Processor_HandleOrderAmend sample_api module_handler 9
     (JObj [(''Account'', JStr ''A''), (''Price'', JInt 100), (''NewPrice'', JInt 105),
            (''Volume'', JInt 10), (''NewVolume'', JInt 20), (''Type'', JStr ''Limit''),
            (''IsBuy'', JBool True), (''ClientId'', JStr ''C''), (''Instrument'', JStr ''X'')]) ep m = Inr r"
  by (simp add: sample_api_simps)

theorem network_amend_never_applies_witness:
  "\<exists>m'. foldl (module_step sample_api) [''X'' \<mapsto> MatchingEngine_ctor] [(3, ''insert'', 7 :: nat)] = m' \<and>
     (\<exists>ms. Processor_HandleOrderAmend sample_api module_handler 9
       (JObj [(''Account'', JStr ''A''), (''Price'', JInt 100), (''NewPrice'', JInt 105),
              (''Volume'', JInt 10), (''NewVolume'', JInt 20), (''Type'', JStr ''Limit''),
              (''IsBuy'', JBool True), (''ClientId'', JStr ''C''), (''Instrument'', JStr ''X'')]) (7 :: nat) m' = Inr (m', ms))"
proof -
  let ?m = "foldl (module_step sample_api) [''X'' \<mapsto> MatchingEngine_ctor] [(3, ''insert'', 7 :: nat)]"
  let ?data = "JObj [(''Account'', JStr ''A''), (''Price'', JInt 100), (''NewPrice'', JInt 105),
              (''Volume'', JInt 10), (''NewVolume'', JInt 20), (''Type'', JStr ''Limit''),
              (''IsBuy'', JBool True), (''ClientId'', JStr ''C''), (''Instrument'', JStr ''X'')]"
  obtain m' ms where r: "Processor_HandleOrderAmend sample_api module_handler 9 ?data (7 :: nat) ?m = Inr (m', ms)"
    using sample_amend_result [of "7 :: nat" ?m] by (metis surj_pair)
  have "m' = ?m"
    using network_amend_never_applies [OF sample_empty_ok(1) sample_empty_ok(2) [of 0] _ _ _ r] by simp
  with r show ?thesis by blast
qed

section \<open>Inserts, cancels and what is dropped\<close>

text \<open>
  A message whose action is an insert, with all fields present and valid and a configured
  instrument, runs exactly one insert on that instrument's engine, of the order with the fields of
  the message and the reception time as its identifier.
\<close>

theorem network_insert:
  assumes "p_write J buf \<noteq> 0" and "p_release J buf = Inr root"
    and "at_string J root ''Action'' = Inr ''Insert''" and "j_at J root ''Data'' = Inr data"
    and "OrderDataBase_SetData J now data OrderInsertData_default = Inr (d, True)"
    and "m (od_instrument d) = Some e"
  shows "Module_OnWebSocketDataReceived J now buf ep m =
     (let (e', ms) = MatchingEngine_OrderInsert d ep e in Inr (m(od_instrument d \<mapsto> e'), ms)) \<and>
    od_id d = to_string now"
proof
  from assms(3) obtain act where "j_at J root ''Action'' = Inr act" "j_as_string J act = Inr ''Insert''"
    by (auto simp: at_string_Inr)
  with assms show "Module_OnWebSocketDataReceived J now buf ep m =
     (let (e', ms) = MatchingEngine_OrderInsert d ep e in Inr (m(od_instrument d \<mapsto> e'), ms))"
    by (simp add: Module_OnWebSocketDataReceived_def Processor_Process_def
      Processor_HandleOrderInsert_def Module_HandleOrderInsert_def case_prod_unfold Let_def)
  from assms(5) show "od_id d = to_string now" by (auto simp: OrderDataBase_SetData_Inr)
qed

theorem network_insert_witness:
  "\<exists>d. Module_OnWebSocketDataReceived sample_api 5 ''insert'' (7 :: nat) [''X'' \<mapsto> MatchingEngine_ctor] =
     (let (e', ms) = MatchingEngine_OrderInsert d 7 MatchingEngine_ctor in Inr ([''X'' \<mapsto> MatchingEngine_ctor](od_instrument d \<mapsto> e'), ms)) \<and>
    od_id d = to_string 5"
proof -
  have "OrderDataBase_SetData sample_api 5 (JObj [(''Account'', JStr ''A''), (''Price'', JInt 100), (''NewPrice'', JInt 105),
              (''Volume'', JInt 10), (''NewVolume'', JInt 20), (''Type'', JStr ''Limit''),
              (''IsBuy'', JBool True), (''ClientId'', JStr ''C''), (''Instrument'', JStr ''X''),
              (''Id'', JStr ''1'')]) OrderInsertData_default =
     Inr (OrderDataBase_ctor ''A'' ''X'' 100 10 ''Limit'' True 5 0 (to_string 5) ''C'', True)"
    by (simp add: sample_api_simps)
  note network_insert [OF _ _ _ _ this, where buf = "''insert''" and root = "sample_doc ''Insert'' ''X'' 100"
      and m = "[''X'' \<mapsto> MatchingEngine_ctor]" and e = MatchingEngine_ctor and ep = "7 :: nat"]
  then show ?thesis
    by (rule exI, simp_all add: sample_api_def sample_doc_def at_string_def OrderDataBase_ctor_def)
qed

text \<open>
  What is not answered at all: a request that fails its validation and a request for an
  instrument that is not configured leave everything as it is and send nothing.
\<close>

theorem network_dropped:
  "(\<not> OrderDataBase_Validate d \<or> m (od_instrument d) = None \<longrightarrow>
      OrderDataBase_SetData J now data OrderInsertData_default = Inr (d, OrderDataBase_Validate d) \<longrightarrow>
      Processor_HandleOrderInsert J module_handler now data ep m = Inr (m, [])) \<and>
   (\<not> OrderCancelData_Validate c \<or> m (oc_instrument c) = None \<longrightarrow>
      OrderCancelData_SetData J data OrderCancelData_default = Inr (c, OrderCancelData_Validate c) \<longrightarrow>
      Processor_HandleOrderCancel J module_handler data ep m = Inr (m, []))"
  by (auto simp: Processor_HandleOrderInsert_def Module_HandleOrderInsert_def
      Processor_HandleOrderCancel_def Module_HandleOrderCancel_def)

theorem network_dropped_witness:
  "Processor_HandleOrderInsert sample_api module_handler 5
     (JObj [(''Account'', JStr ''A''), (''Price'', JInt 0), (''Volume'', JInt 10), (''Type'', JStr ''Limit''),
            (''IsBuy'', JBool True), (''ClientId'', JStr ''C''), (''Instrument'', JStr ''X'')]) (7 :: nat)
     [''X'' \<mapsto> MatchingEngine_ctor] = Inr ([''X'' \<mapsto> MatchingEngine_ctor], [])"
proof -
  let ?d = "OrderDataBase_ctor ''A'' ''X'' 0 10 ''Limit'' True 5 0 (to_string 5) ''C''"
  have v: "\<not> OrderDataBase_Validate ?d" by (simp add: OrderDataBase_Validate_def OrderDataBase_ctor_def)
  have r: "OrderDataBase_SetData sample_api 5 (JObj [(''Account'', JStr ''A''), (''Price'', JInt 0),
            (''Volume'', JInt 10), (''Type'', JStr ''Limit''), (''IsBuy'', JBool True),
            (''ClientId'', JStr ''C''), (''Instrument'', JStr ''X'')]) OrderInsertData_default =
      Inr (?d, OrderDataBase_Validate ?d)"
    by (simp add: sample_api_simps)
  show ?thesis
    by (rule network_dropped [THEN conjunct1, rule_format, OF disjI1 [OF v] r])
qed

text \<open>
  A negative price is accepted: the number is stored in an unsigned field, where it is a price
  of at least \<open>2 ^ 63\<close>, and passes the test that prices are positive.
\<close>

theorem negative_price_accepted:
  assumes "OrderDataBase_SetData J now data d = Inr (d', ok)"
    and "at_int64 J data ''Price'' = Inr p" and "sint p < 0"
  shows "2 ^ 63 \<le> unat (od_price d') \<and> od_price d' > 0 \<and>
    ok = (od_volume d' > 0 \<and> now > 0 \<and> od_clientId d' \<noteq> [] \<and> od_account d' \<noteq> [] \<and> od_instrument d' \<noteq> [])"
proof -
  from assms(1,2) have p: "od_price d' = p" and i: "od_id d' = to_string now" "od_orderTime d' = now"
    and ok: "ok = OrderDataBase_Validate d'" by (auto simp: OrderDataBase_SetData_Inr)
  from sint_neg_unat [OF assms(3)] have "2 ^ 63 \<le> unat p" .
  moreover from this have "p > 0" by (metis not_numeral_le_zero power_eq_0_iff unat_0 word_neq_0_conv zero_neq_numeral le_zero_eq)
  ultimately show ?thesis by (auto simp: p ok i OrderDataBase_Validate_def)
qed

theorem negative_price_accepted_witness:
  "2 ^ 63 \<le> unat (- 1 :: u64)"
proof -
  have r: "OrderDataBase_SetData sample_api 5 (JObj [(''Account'', JStr ''A''), (''Price'', JInt (- 1)),
            (''Volume'', JInt 10), (''Type'', JStr ''Limit''), (''IsBuy'', JBool True),
            (''ClientId'', JStr ''C''), (''Instrument'', JStr ''X'')]) OrderInsertData_default =
      Inr (OrderDataBase_ctor ''A'' ''X'' (- 1) 10 ''Limit'' True 5 0 (to_string 5) ''C'', True)"
    by (simp add: sample_api_simps word_gt_0)
  show ?thesis
    using negative_price_accepted [OF r, of "- 1"]
    by (simp add: sample_api_def at_int64_def OrderDataBase_ctor_def)
qed

section \<open>Malformed requests\<close>

text \<open>What each action needs in its data: the fields with the kinds of their values.\<close>

datatype field_kind = Text | Number | Flag

definition request_fields :: "string \<Rightarrow> (string \<times> field_kind) list" where
  "request_fields a =
     (if a = ''Insert'' then
        [(''Account'', Text), (''Price'', Number), (''Volume'', Number), (''Type'', Text), (''IsBuy'', Flag),
         (''ClientId'', Text), (''Instrument'', Text)]
      else if a = ''Amend'' then
        [(''Account'', Text), (''Price'', Number), (''NewPrice'', Number), (''Volume'', Number), (''NewVolume'', Number),
         (''Type'', Text), (''IsBuy'', Flag), (''ClientId'', Text), (''Instrument'', Text)]
      else if a = ''Cancel'' then
        [(''Instrument'', Text), (''Price'', Number), (''IsBuy'', Flag), (''Id'', Text), (''ClientId'', Text)]
      else if a = ''GetBook'' then [(''Instrument'', Text)]
      else [])"

fun value_kind :: "'j json_api \<Rightarrow> 'j \<Rightarrow> field_kind \<Rightarrow> bool" where
  "value_kind J v Text \<longleftrightarrow> (case j_as_string J v of Inl _ \<Rightarrow> False | Inr _ \<Rightarrow> True)"
| "value_kind J v Number \<longleftrightarrow> (case j_as_int64 J v of Inl _ \<Rightarrow> False | Inr _ \<Rightarrow> True)"
| "value_kind J v Flag \<longleftrightarrow> (case j_as_bool J v of Inl _ \<Rightarrow> False | Inr _ \<Rightarrow> True)"

fun has_field :: "'j json_api \<Rightarrow> 'j \<Rightarrow> string \<times> field_kind \<Rightarrow> bool" where
  "has_field J data (k, kind) \<longleftrightarrow> (case j_at J data k of Inl _ \<Rightarrow> False | Inr v \<Rightarrow> value_kind J v kind)"

definition is_throw :: "'a throws \<Rightarrow> bool" where
  "is_throw r \<longleftrightarrow> (\<exists>x. r = Inl x)"

lemma throws_simps [simp]: "is_throw (Inl x)" "\<not> is_throw (Inr r)"
  by (simp_all add: is_throw_def)

lemma throws_bind: "is_throw (bind_e r f) \<longleftrightarrow> is_throw r \<or> (case r of Inl _ \<Rightarrow> True | Inr v \<Rightarrow> is_throw (f v))"
  by (cases r) simp_all

lemma throws_field:
  "is_throw (at_string J data k) \<longleftrightarrow> \<not> has_field J data (k, Text)"
  "is_throw (at_int64 J data k) \<longleftrightarrow> \<not> has_field J data (k, Number)"
  "is_throw (at_bool J data k) \<longleftrightarrow> \<not> has_field J data (k, Flag)"
  by (simp_all add: at_string_def at_int64_def at_bool_def throws_bind split: sum.split)

lemma throws_then: "is_throw (bind_e r f) \<longleftrightarrow> is_throw r \<or> \<not> is_throw r \<and> is_throw (f (projr r))"
  by (cases r) simp_all

lemma request_throws:
  "is_throw (Processor_HandleOrderInsert J H now data ep s) \<longleftrightarrow> \<not> list_all (has_field J data) (request_fields ''Insert'')"
  "is_throw (Processor_HandleOrderAmend J H now data ep s) \<longleftrightarrow> \<not> list_all (has_field J data) (request_fields ''Amend'')"
  "is_throw (Processor_HandleOrderCancel J H data ep s) \<longleftrightarrow> \<not> list_all (has_field J data) (request_fields ''Cancel'')"
  "is_throw (Processor_GetOrderBook J H data ep s) \<longleftrightarrow> \<not> list_all (has_field J data) (request_fields ''GetBook'')"
  by (auto simp: Processor_HandleOrderInsert_def Processor_HandleOrderAmend_def Processor_HandleOrderCancel_def
      Processor_GetOrderBook_def OrderDataBase_SetData_def OrderAmendData_SetData_def OrderCancelData_SetData_def
      throws_then throws_field request_fields_def Let_def case_prod_unfold simp del: has_field.simps)

text \<open>
  C13: Exactly these buffers leave the handler with an exception, the books unchanged: those of
  which the parser takes a character (an empty one is ignored) and that are not a complete
  document with an action that is a text, data, and in the data every field the action needs, as a
  text, an integer or a boolean. An unknown action needs no field.
\<close>

theorem malformed_throws:
  "is_throw (Module_OnWebSocketDataReceived J now buf ep m) \<longleftrightarrow>
   p_write J buf \<noteq> 0 \<and>
   \<not> (\<exists>root action data a. p_release J buf = Inr root \<and> j_at J root ''Action'' = Inr action \<and>
        j_at J root ''Data'' = Inr data \<and> j_as_string J action = Inr a \<and>
        list_all (has_field J data) (request_fields a))"
proof (cases "p_write J buf = 0")
  case True
  then show ?thesis by (simp add: Module_OnWebSocketDataReceived_def Processor_Process_def)
next
  case False
  have other: "list_all (has_field J data) (request_fields a)"
    if "a \<noteq> ''Insert''" "a \<noteq> ''Cancel''" "a \<noteq> ''Amend''" "a \<noteq> ''GetBook''" for a data
    using that by (simp add: request_fields_def)
  show ?thesis
  proof (cases "\<exists>root action data a. p_release J buf = Inr root \<and> j_at J root ''Action'' = Inr action \<and>
        j_at J root ''Data'' = Inr data \<and> j_as_string J action = Inr a")
    case True
    then obtain root action data a where r: "p_release J buf = Inr root" "j_at J root ''Action'' = Inr action"
      "j_at J root ''Data'' = Inr data" "j_as_string J action = Inr a" by blast
    with False have "is_throw (Module_OnWebSocketDataReceived J now buf ep m) \<longleftrightarrow> \<not> list_all (has_field J data) (request_fields a)"
      using other [of a data]
      by (simp add: Module_OnWebSocketDataReceived_def Processor_Process_def request_throws)
    with False r show ?thesis by auto
  next
    case no: False
    with False have "is_throw (Module_OnWebSocketDataReceived J now buf ep m)"
      by (cases "p_release J buf"; cases "j_at J (projr (p_release J buf)) ''Action''";
          cases "j_at J (projr (p_release J buf)) ''Data''";
          cases "j_as_string J (projr (j_at J (projr (p_release J buf)) ''Action''))")
        (auto simp: Module_OnWebSocketDataReceived_def Processor_Process_def throws_then)
    with no False show ?thesis by blast
  qed
qed

text \<open>A cancel with a text where it needs a boolean.\<close>

theorem malformed_throws_witness:
  "is_throw (Module_OnWebSocketDataReceived
      (jval_api [(''b'', JObj [(''Action'', JStr ''Cancel''), (''Data'', JObj [(''Instrument'', JStr ''X''),
         (''Price'', JInt 100), (''IsBuy'', JStr ''yes''), (''Id'', JStr ''1''), (''ClientId'', JStr ''C'')])])])
      5 ''b'' (7 :: nat) [''X'' \<mapsto> MatchingEngine_ctor])"
  by (subst malformed_throws) (simp add: request_fields_def)

end
