(* ===== verification/ServerRun.thy ===== *)
theory ServerRun
  imports Channels WebSocketRun Timers ModuleProps
begin

text \<open>
  The server of the application put together: a frame read by a session of the web socket server
  goes through the channel to its modules, what they send is written to the session of its
  endpoint, and an exception on the way leaves the handler on the thread of the service that runs
  it. A session records what has been written on its stream, the channel what its calls of
  \<open>SendWebSocketData\<close> answered (it only logs an error then).
\<close>

section \<open>The channel on its server\<close>

record ChannelRun =
  cr_channel :: Channel
  cr_received :: nat
  cr_sent :: "bool list"

definition WebSocketChannel_SendWebSocketData ::
  "ws_write \<Rightarrow> string \<Rightarrow> 'a::linorder endpoint \<Rightarrow> 'a WebSocketServer \<times> bool list \<Rightarrow> 'a WebSocketServer \<times> bool list" where
  "WebSocketChannel_SendWebSocketData io sendBuffer ep st =
     (case WebSocketServer_SendWebSocketData io sendBuffer ep (fst st) of (sv, ok) \<Rightarrow> (sv, snd st @ [ok]))"

text \<open>\<open>io\<close> gives the outcome of each write, \<open>clock\<close> the time of each reception.\<close>

fun send_messages ::
  "(nat \<Rightarrow> ws_write) \<Rightarrow> (Message \<times> 'a::linorder endpoint) list \<Rightarrow>
   'a WebSocketServer \<times> bool list \<Rightarrow> 'a WebSocketServer \<times> bool list" where
  "send_messages io [] st = st"
| "send_messages io ((m, ep) # ms) st =
     (case CreateAndSendMessage m ep of
        (buf, ep') \<Rightarrow> send_messages io ms (WebSocketChannel_SendWebSocketData (io (length (snd st))) buf ep' st))"

definition channel_on_data ::
  "'j json_api \<Rightarrow> (nat \<Rightarrow> int) \<Rightarrow> (nat \<Rightarrow> ws_write) \<Rightarrow> ('a::linorder, ChannelRun) ws_callback" where
  "channel_on_data J clock io buf ep st =
     (case WebSocketChannel_OnWebSocketDataReceived J (clock (cr_received (snd st))) buf ep (cr_channel (snd st)) of
        (ch, ms, r) \<Rightarrow>
          (case send_messages io ms (fst st, cr_sent (snd st)) of
             (sv, oks) \<Rightarrow>
               ((sv, \<lparr>cr_channel = ch, cr_received = Suc (cr_received (snd st)), cr_sent = oks\<rparr>), r)))"

text \<open>The text of a message, what a write puts of it on the stream, and what the write answers.\<close>

definition message_text :: "Message \<Rightarrow> string" where
  "message_text m = fst (CreateAndSendMessage m ())"

definition write_text :: "ws_write \<Rightarrow> string \<Rightarrow> string" where
  "write_text io buf = take (fst (snd io)) buf"

definition write_ok :: "ws_write \<Rightarrow> bool" where
  "write_ok io \<longleftrightarrow> fst (snd io) \<noteq> 0 \<and> \<not> fst io"

lemma CreateAndSendMessage_eq: "CreateAndSendMessage m ep = (message_text m, ep)"
  by (cases m) (simp_all add: message_text_def)

lemma send_message_eq:
  "WebSocketChannel_SendWebSocketData io buf ep st =
     (fst (WebSocketServer_SendWebSocketData io buf ep (fst st)), snd st @ [snd (WebSocketServer_SendWebSocketData io buf ep (fst st))])"
  by (simp add: WebSocketChannel_SendWebSocketData_def case_prod_unfold)

lemma send_messages_closes: "\<exists>C W. fst (send_messages io ms st) = close_sessions C W (fst st)"
proof (induction ms arbitrary: st)
  case Nil
  show ?case by (metis close_sessions_none send_messages.simps(1))
next
  case (Cons p ms)
  obtain m ep where p: "p = (m, ep)" by (cases p)
  let ?st = "WebSocketChannel_SendWebSocketData (io (length (snd st))) (message_text m) ep st"
  have "fst ?st = fst (WebSocketServer_SendWebSocketData (io (length (snd st))) (message_text m) ep (fst st))"
    by (simp add: send_message_eq)
  with send_closes obtain C W where "fst ?st = close_sessions C W (fst st)" by metis
  moreover from Cons.IH obtain D V where "fst (send_messages io ms ?st) = close_sessions D V (fst ?st)" by blast
  ultimately show ?case by (auto simp: p CreateAndSendMessage_eq close_sessions_again)
qed

lemma channel_closes: "\<exists>C W. fst (fst (channel_on_data J clock io buf ep st)) = close_sessions C W (fst st)"
  using send_messages_closes [of io _ "(fst st, _)"] by (simp add: channel_on_data_def case_prod_unfold)

interpretation channel: data_callback "channel_on_data J clock io" for J clock io
  by unfold_locales (rule channel_closes)

section \<open>What stays true of a running server\<close>

text \<open>
  C16: As long as nothing is thrown, every client whose stream is open is being read: whatever
  connects, sends, fails or closes, in any order, an open session waits for its next frame and
  for nothing else.
\<close>

theorem server_reads_open_sessions:
  assumes "ws_reach (channel_on_data J clock io) cr (sv, cr')" and "ws_IsOpen (wss_Heap sv i)"
  shows "ws_Waits (wss_Heap sv i) = [Wait_read]"
  using channel.reach_open_reads [OF assms] .

text \<open>A state with one connected client.\<close>

lemma one_client:
  "\<exists>sv :: 'a::linorder WebSocketServer. ws_reach (channel_on_data J clock io) cr (sv, cr) \<and> alive sv 0 \<and> ws_IsOpen (wss_Heap sv 0)"
proof -
  have "\<exists>sv :: 'a WebSocketServer. ws_run (channel_on_data J clock io) [Ws_accept False (Inr undefined), Ws_run 0, Ws_handshake 0 False]
      (ws_started, cr) = Some (sv, cr) \<and> alive sv 0 \<and> ws_IsOpen (wss_Heap sv 0)"
    by (simp add: ws_started_def SetWebSocketDataReceived_def WebSocketServer_Start_def WebSocketServer_ctor_def
        WebSocketSession_ctor_def WebSocketServer_Accept_def WebSocketSession_Accept_def smap_assign_def alive_def
        runFunc_def acceptHandshakeFn_def WebSocketSession_ReadData_def wait_over_def upd_session_def)
  then obtain sv :: "'a WebSocketServer" where r: "ws_run (channel_on_data J clock io) [Ws_accept False (Inr undefined), Ws_run 0, Ws_handshake 0 False]
      (ws_started, cr) = Some (sv, cr)" and "alive sv 0" "ws_IsOpen (wss_Heap sv 0)" by blast
  with ws_run_reach [OF ws_reach.start r] show ?thesis by blast
qed

theorem server_reads_open_sessions_witness:
  "\<exists>sv :: nat WebSocketServer. ws_IsOpen (wss_Heap sv 0) \<and> ws_Waits (wss_Heap sv 0) = [Wait_read]"
proof -
  obtain sv :: "nat WebSocketServer" where sv: "ws_reach (channel_on_data (jval_api []) (\<lambda>_. 0) (\<lambda>_. (False, 1, True)))
      \<lparr>cr_channel = WebSocketChannel_ctor, cr_received = 0, cr_sent = []\<rparr>
      (sv, \<lparr>cr_channel = WebSocketChannel_ctor, cr_received = 0, cr_sent = []\<rparr>)" and op: "ws_IsOpen (wss_Heap sv 0)"
    using one_client by blast
  from server_reads_open_sessions [OF sv op] op show ?thesis by blast
qed

section \<open>One frame\<close>

lemma IModule_to_sender:
  "IModule_OnWebSocketDataReceived J now buf ep m = Inr (m', out) \<Longrightarrow> (msg, x) \<in> set out \<Longrightarrow> x = ep"
  by (cases m) (auto simp: Module_OnWebSocketDataReceived_def split: sum.splits dest: handlers.process_to_sender)

lemma deliver_to_sender:
  "deliver J now buf ep ms = (ms', out, r) \<Longrightarrow> (msg, x) \<in> set out \<Longrightarrow> x = ep"
proof (induction ms arbitrary: ms' out r)
  case (Cons m ms)
  show ?case
  proof (cases "IModule_OnWebSocketDataReceived J now buf ep m")
    case (Inl e)
    with Cons.prems show ?thesis by auto
  next
    case (Inr mo)
    obtain m1 o1 where mo: "mo = (m1, o1)" by (cases mo)
    obtain ms1 out1 r1 where d: "deliver J now buf ep ms = (ms1, out1, r1)" by (metis prod_cases3)
    from Cons.prems Inr mo d have "(msg, x) \<in> set o1 \<or> (msg, x) \<in> set out1" by auto
    with Cons.IH [OF d] IModule_to_sender [OF Inr [unfolded mo]] show ?thesis by blast
  qed
qed simp

lemma channel_to_sender:
  "WebSocketChannel_OnWebSocketDataReceived J now buf ep ch = (ch', out, r) \<Longrightarrow> (msg, x) \<in> set out \<Longrightarrow> x = ep"
  by (auto simp: WebSocketChannel_OnWebSocketDataReceived_def split: prod.splits dest: deliver_to_sender)

text \<open>A message is written on the stream of the session stored under its endpoint, and on no other.\<close>

lemma send_keeps_sessions [simp]:
  "wss_Sessions (fst (WebSocketServer_SendWebSocketData io buf ep sv)) = wss_Sessions sv"
  by (auto simp: WebSocketServer_SendWebSocketData_def case_prod_unfold split: option.split)

lemma send_to_session:
  assumes "smap_find endpoint_less ep (wss_Sessions sv) = Some i"
  shows "snd (WebSocketServer_SendWebSocketData io buf ep sv) = write_ok io"
    and "ws_Written (wss_Heap (fst (WebSocketServer_SendWebSocketData io buf ep sv)) i) = ws_Written (wss_Heap sv i) @ [write_text io buf]"
    and "ws_Waits (wss_Heap (fst (WebSocketServer_SendWebSocketData io buf ep sv)) i) = ws_Waits (wss_Heap sv i)"
    and "j \<noteq> i \<Longrightarrow> wss_Heap (fst (WebSocketServer_SendWebSocketData io buf ep sv)) j = wss_Heap sv j"
  using assms
  by (simp_all add: WebSocketServer_SendWebSocketData_def WebSocketSession_SendWebSocketData_def case_prod_unfold
      write_ok_def write_text_def)

lemma send_messages_to:
  assumes "\<forall>(m, x) \<in> set ms. x = ep" and "smap_find endpoint_less ep (wss_Sessions sv) = Some i"
    and "send_messages io ms (sv, oks) = (sv', oks')"
  shows "wss_Sessions sv' = wss_Sessions sv \<and> (\<forall>j. j \<noteq> i \<longrightarrow> wss_Heap sv' j = wss_Heap sv j) \<and>
    ws_Waits (wss_Heap sv' i) = ws_Waits (wss_Heap sv i) \<and>
    ws_Written (wss_Heap sv' i) = ws_Written (wss_Heap sv i) @
      map2 (\<lambda>k (m, _). write_text (io k) (message_text m)) [length oks ..< length oks + length ms] ms \<and>
    oks' = oks @ map (\<lambda>k. write_ok (io k)) [length oks ..< length oks + length ms]"
  using assms
proof (induction ms arbitrary: sv oks)
  case (Cons p ms)
  obtain m where p: "p = (m, ep)" using Cons.prems by (cases p) auto
  let ?n = "length oks"
  let ?w = "WebSocketServer_SendWebSocketData (io ?n) (message_text m) ep sv"
  note w = send_to_session [OF Cons.prems(2), where io = "io ?n" and buf = "message_text m"]
  from Cons.prems(3) have r: "send_messages io ms (fst ?w, oks @ [write_ok (io ?n)]) = (sv', oks')"
    by (simp add: p CreateAndSendMessage_eq send_message_eq w(1))
  have "[?n ..< ?n + length (p # ms)] = ?n # [Suc ?n ..< Suc ?n + length ms]"
    using upt_conv_Cons [of ?n "?n + length (p # ms)"] by simp
  with Cons.IH [OF _ _ r] Cons.prems(1,2) w show ?case by (simp add: p)
qed simp

text \<open>
  C14: A frame of a client whose session is stored under its endpoint is answered on the stream of
  that session and nowhere else: each message its modules send is addressed to this endpoint and
  written there, in the order of the messages, with its text as far as the write gets, and the
  calls answer whether the writes succeeded; every other session and the map stay as they are.
  This holds also when a module throws in the end; if none does the session waits for its next
  frame.
\<close>

theorem server_answers_frame:
  assumes "ws_handle (channel_on_data J clock io) (Ws_read i (Read_data buf) (Inr ep)) (sv, cr) = Some ((sv', cr'), r)"
    and "wss_ReceivedFn sv" and "smap_find endpoint_less ep (wss_Sessions sv) = Some i"
  shows "\<exists>ms.
    WebSocketChannel_OnWebSocketDataReceived J (clock (cr_received cr)) buf ep (cr_channel cr) = (cr_channel cr', ms, r) \<and>
    (\<forall>(m, x) \<in> set ms. x = ep) \<and>
    ws_Written (wss_Heap sv' i) = ws_Written (wss_Heap sv i) @
      map2 (\<lambda>k (m, _). write_text (io k) (message_text m)) [length (cr_sent cr) ..< length (cr_sent cr) + length ms] ms \<and>
    cr_sent cr' = cr_sent cr @ map (\<lambda>k. write_ok (io k)) [length (cr_sent cr) ..< length (cr_sent cr) + length ms] \<and>
    ws_Waits (wss_Heap sv' i) = remove1 Wait_read (ws_Waits (wss_Heap sv i)) @ (if r = Inr () then [Wait_read] else []) \<and>
    wss_Sessions sv' = wss_Sessions sv \<and> (\<forall>j. j \<noteq> i \<longrightarrow> wss_Heap sv' j = wss_Heap sv j)"
proof -
  obtain ch ms r' where d: "WebSocketChannel_OnWebSocketDataReceived J (clock (cr_received cr)) buf ep (cr_channel cr) = (ch, ms, r')"
    by (metis prod_cases3)
  obtain sv1 oks where s: "send_messages io ms (wait_over Wait_read i sv, cr_sent cr) = (sv1, oks)" by fastforce
  from d have to: "\<forall>(m, x) \<in> set ms. x = ep" by (auto dest: channel_to_sender)
  from assms(3) have "smap_find endpoint_less ep (wss_Sessions (wait_over Wait_read i sv)) = Some i" by (simp add: wait_over_def)
  note m = send_messages_to [OF to this s]
  have on: "channel_on_data J clock io buf ep (wait_over Wait_read i sv, cr) =
      ((sv1, \<lparr>cr_channel = ch, cr_received = Suc (cr_received cr), cr_sent = oks\<rparr>), r')"
    by (simp add: channel_on_data_def d s)
  from assms(1) have "readDataFunc (channel_on_data J clock io) (Read_data buf) (Inr ep) i (wait_over Wait_read i sv, cr) =
      ((sv', cr'), r)" by (auto split: if_splits)
  with assms(2) on have cr: "cr' = \<lparr>cr_channel = ch, cr_received = Suc (cr_received cr), cr_sent = oks\<rparr>"
    and r: "r = r'" and sv: "sv' = (if r = Inr () then upd_session i WebSocketSession_ReadData sv1 else sv1)"
    by (auto simp: readDataFunc_def WebSocketServer_OnDataRead_def wait_over_def split: sum.splits)
  show ?thesis
    by (intro exI [of _ ms] conjI) (use m to in \<open>simp_all add: d cr r sv WebSocketSession_ReadData_def wait_over_def\<close>)
qed

definition sample_server :: "Module list \<Rightarrow> nat WebSocketServer \<times> ChannelRun" where
  "sample_server ms =
     (ws_started\<lparr>wss_Heap := (\<lambda>_. WebSocketSession_ctor)(0 := \<lparr>ws_IsOpen = True, ws_Waits = [Wait_read], ws_Written = []\<rparr>),
        wss_Fresh := 1, wss_Sessions := [((1, 80), 0)]\<rparr>,
      \<lparr>cr_channel = WebSocketChannel_ctor\<lparr>ch_modules := ms\<rparr>, cr_received = 5, cr_sent = []\<rparr>)"

lemmas sample_server_simps = sample_server_def ws_started_def SetWebSocketDataReceived_def WebSocketServer_Start_def
  WebSocketServer_ctor_def WebSocketChannel_ctor_def alive_def

lemma sample_cancel:
  "Module_OnWebSocketDataReceived sample_api t ''cancel'' ep [''X'' \<mapsto> MatchingEngine_ctor] =
     Inr ([''X'' \<mapsto> MatchingEngine_ctor], [(MsgErrorReply (ErrorReply_ctor ''C'' ''Failed to cancel order''), ep)])"
  by (simp add: sample_api_simps Module_HandleOrderCancel_def MatchingEngine_OrderCancel_def
      MatchingEngine_Cancel_def OrderBook_Cancel_def MatchingEngine_ctor_def)

text \<open>A cancel that finds no order, answered by one error message, which the write gets out whole.\<close>

theorem server_answers_frame_witness:
  "\<exists>sv' cr'.
    ws_handle (channel_on_data sample_api int (\<lambda>_. (False, 100, True))) (Ws_read 0 (Read_data ''cancel'') (Inr (1, 80)))
      (sample_server [EngineModule [''X'' \<mapsto> MatchingEngine_ctor]]) = Some ((sv', cr'), Inr ()) \<and>
    ws_Written (wss_Heap sv' 0) = [message_text (MsgErrorReply (ErrorReply_ctor ''C'' ''Failed to cancel order''))] \<and>
    cr_sent cr' = [True] \<and> ws_Waits (wss_Heap sv' 0) = [Wait_read]"
proof -
  let ?st = "sample_server [EngineModule [''X'' \<mapsto> MatchingEngine_ctor]]"
  let ?m = "MsgErrorReply (ErrorReply_ctor ''C'' ''Failed to cancel order'')"
  obtain sv cr where st: "?st = (sv, cr)" by fastforce
  then have f: "wss_ReceivedFn sv" "alive sv 0" "cr_sent cr = []" "cr_received cr = 5"
    "cr_channel cr = WebSocketChannel_ctor\<lparr>ch_modules := [EngineModule [''X'' \<mapsto> MatchingEngine_ctor]]\<rparr>"
    "wss_Heap sv 0 = \<lparr>ws_IsOpen = True, ws_Waits = [Wait_read], ws_Written = []\<rparr>"
    "smap_find endpoint_less (1, 80) (wss_Sessions sv) = Some 0"
    by (auto simp: sample_server_simps)
  let ?on = "channel_on_data sample_api int (\<lambda>_. (False, 100, True))"
  obtain sv' cr' r where h: "ws_handle ?on (Ws_read 0 (Read_data ''cancel'') (Inr (1, 80))) (sv, cr) = Some ((sv', cr'), r)"
    using f(2) by (metis ws_handle.simps(5) surj_pair)
  have c: "WebSocketChannel_OnWebSocketDataReceived sample_api (int (cr_received cr)) ''cancel'' (1 :: nat, 80 :: u16) (cr_channel cr) =
      (cr_channel cr, [(?m, (1, 80))], Inr ())"
    by (simp add: f WebSocketChannel_OnWebSocketDataReceived_def sample_cancel WebSocketChannel_ctor_def)
  have "write_text (False, 100, True) (message_text ?m) = message_text ?m"
    by code_simp
  moreover from server_answers_frame [OF h f(1,7)] c have "r = Inr ()"
    "ws_Written (wss_Heap sv' 0) = [write_text (False, 100, True) (message_text ?m)]" "cr_sent cr' = [write_ok (False, 100, True)]"
    "ws_Waits (wss_Heap sv' 0) = remove1 Wait_read [Wait_read] @ [Wait_read]"
    by (auto simp: f)
  ultimately show ?thesis unfolding st using h by (intro exI [of _ sv'] exI [of _ cr']) (simp add: write_ok_def)
qed

section \<open>The shape of the modules\<close>

text \<open>What a running server never changes of a module: its kind and settings, or its instruments.\<close>

fun same_shape :: "Module \<Rightarrow> Module \<Rightarrow> bool" where
  "same_shape (EngineModule e) (EngineModule e') \<longleftrightarrow> dom e' = dom e"
| "same_shape m m' \<longleftrightarrow> m' = m"

lemma same_shape_refl [simp]: "same_shape m m"
  by (cases m) auto

lemma same_shape_trans: "same_shape a b \<Longrightarrow> same_shape b c \<Longrightarrow> same_shape a c"
  by (cases a; cases b; cases c) auto

lemma handlers_dom:
  "dom (fst (Module_HandleOrderInsert d ep m)) = dom m"
  "dom (fst (Module_HandleOrderAmend a ep m)) = dom m"
  "dom (fst (Module_HandleOrderCancel c ep m)) = dom m"
  by (auto simp: Module_HandleOrderInsert_def Module_HandleOrderAmend_def Module_HandleOrderCancel_def case_prod_unfold
      Let_def split: option.splits)

lemma Module_received_dom:
  assumes "Module_OnWebSocketDataReceived J now buf ep e = Inr (e', out)"
  shows "dom e' = dom e"
proof -
  have "dom (fst r) = dom e" if "Processor_Process J module_handler now buf ep e = Inr r" for r
    using that by (cases rule: Process_cases) (simp_all add: handlers_dom handler_book)
  from this [of "(e', out)"] assms show ?thesis by (simp add: Module_OnWebSocketDataReceived_def)
qed

lemma IModule_shape: "IModule_OnWebSocketDataReceived J now buf ep m = Inr (m', out) \<Longrightarrow> same_shape m m'"
  by (cases m) (auto split: sum.splits dest: Module_received_dom)

lemma deliver_shape: "list_all2 same_shape ms (fst (deliver J now buf ep ms))"
proof (induction ms)
  case (Cons m ms)
  show ?case
  proof (cases "IModule_OnWebSocketDataReceived J now buf ep m")
    case (Inl e)
    then show ?thesis by (simp add: list_all2_refl)
  next
    case (Inr mo)
    obtain m1 o1 where mo: "mo = (m1, o1)" by (cases mo)
    from Cons.IH Inr IModule_shape [OF Inr [unfolded mo]] show ?thesis by (simp add: mo case_prod_unfold)
  qed
qed simp

section \<open>The books of a server\<close>

definition modules_ok :: "Module list \<Rightarrow> bool" where
  "modules_ok ms \<longleftrightarrow> (\<forall>m. EngineModule m \<in> set ms \<longrightarrow> engines_ok m)"

lemma IModule_ok:
  assumes "IModule_OnWebSocketDataReceived J now buf ep m = Inr (m', out)" and "\<forall>e. m = EngineModule e \<longrightarrow> engines_ok e"
  shows "\<forall>e. m' = EngineModule e \<longrightarrow> engines_ok e"
proof (cases m)
  case (EngineModule e)
  with assms(1) obtain e' where r: "Module_OnWebSocketDataReceived J now buf ep e = Inr (e', out)" and m': "m' = EngineModule e'"
    by (auto split: sum.splits)
  from assms(2) EngineModule have "engines_ok (module_step J e (now, buf, ep))" by (simp add: received_ok)
  with r m' show ?thesis by (simp add: module_step_def)
qed (use assms in auto)

lemma deliver_ok: "deliver J now buf ep ms = (ms', out, r) \<Longrightarrow> modules_ok ms \<Longrightarrow> modules_ok ms'"
proof (induction ms arbitrary: ms' out r)
  case (Cons m ms)
  show ?case
  proof (cases "IModule_OnWebSocketDataReceived J now buf ep m")
    case (Inl e)
    with Cons.prems show ?thesis by auto
  next
    case (Inr mo)
    obtain m1 o1 where mo: "mo = (m1, o1)" by (cases mo)
    obtain ms1 out1 r1 where d: "deliver J now buf ep ms = (ms1, out1, r1)" by (metis prod_cases3)
    from Cons.prems Inr mo d have ms': "ms' = m1 # ms1" by auto
    from Cons.prems(2) have ok: "modules_ok ms" "\<forall>e. m = EngineModule e \<longrightarrow> engines_ok e" by (auto simp: modules_ok_def)
    from IModule_ok [OF Inr [unfolded mo] ok(2)] Cons.IH [OF d ok(1)] show ?thesis by (simp add: ms' modules_ok_def)
  qed
qed simp

lemma deliver_ok_fst: "modules_ok ms \<Longrightarrow> modules_ok (fst (deliver J now buf ep ms))"
  by (cases "deliver J now buf ep ms") (auto dest: deliver_ok)

text \<open>A relation that delivery keeps is kept by every handler.\<close>

lemma ws_handle_rel:
  fixes e :: "'a::linorder ws_event"
  assumes "ws_handle (channel_on_data J clock io) e st = Some (st', r)" and "reflp R"
    and "\<And>buf now (ep :: 'a endpoint) ms. R ms (fst (deliver J now buf ep ms))"
  shows "R (ch_modules (cr_channel (snd st))) (ch_modules (cr_channel (snd st')))"
proof (cases e)
  case (Ws_read i rd remote)
  obtain sv cr where st: "st = (sv, cr)" by (cases st)
  show ?thesis
  proof (cases "\<exists>buf ep. rd = Read_data buf \<and> remote = Inr ep \<and> wss_ReceivedFn sv")
    case False
    with assms(1) Ws_read st have "snd st' = cr"
      by (cases rd; cases remote)
         (auto simp: readDataFunc_def WebSocketServer_OnDataRead_def wait_over_def split: if_splits)
    with st assms(2) show ?thesis by (simp add: reflpD)
  next
    case True
    then obtain buf ep where rd: "rd = Read_data buf" "remote = Inr ep" "wss_ReceivedFn sv" by blast
    obtain st1 r1 where d: "channel_on_data J clock io buf ep (wait_over Wait_read i sv, cr) = (st1, r1)" by fastforce
    then have "ch_modules (cr_channel (snd st1)) = fst (deliver J (clock (cr_received cr)) buf ep (ch_modules (cr_channel cr)))"
      by (auto simp: channel_on_data_def WebSocketChannel_OnWebSocketDataReceived_def case_prod_unfold)
    moreover from assms(1) Ws_read st rd d have "snd st' = snd st1"
      by (auto simp: readDataFunc_def WebSocketServer_OnDataRead_def wait_over_def split: if_splits sum.splits)
    ultimately show ?thesis using st assms(3) by simp
  qed
qed (use assms(1,2) in \<open>cases st; auto split: prod.splits if_splits dest: reflpD\<close>)+

text \<open>
  In every state a running server reaches, whatever its clients do, every order of every book
  of every module of its channel is at the level of its price and on its side, with the levels
  sorted.
\<close>

theorem server_books_ok:
  assumes "ws_reach (channel_on_data J clock io) cr (sv, cr')" and "modules_ok (ch_modules (cr_channel cr))"
  shows "modules_ok (ch_modules (cr_channel cr'))"
proof -
  have "modules_ok (ch_modules (cr_channel (snd st)))" if "ws_reach (channel_on_data J clock io) cr st" for st
    using that
  proof (induction rule: ws_reach.induct)
    case (step st e st')
    from ws_handle_rel [OF step.hyps(3), of "\<lambda>ms ms'. modules_ok ms \<longrightarrow> modules_ok ms'"] step.IH
    show ?case by (simp add: reflp_def deliver_ok_fst)
  qed (use assms(2) in simp)
  from this [OF assms(1)] show ?thesis by simp
qed

theorem server_books_ok_witness:
  "\<exists>(sv :: nat WebSocketServer) cr'. alive sv 0 \<and> modules_ok (ch_modules (cr_channel cr')) \<and>
     cr' = \<lparr>cr_channel = WebSocketChannel_ctor\<lparr>ch_modules := [EngineModule [''X'' \<mapsto> MatchingEngine_ctor]]\<rparr>,
       cr_received = 0, cr_sent = []\<rparr>"
proof -
  let ?cr = "\<lparr>cr_channel = WebSocketChannel_ctor\<lparr>ch_modules := [EngineModule [''X'' \<mapsto> MatchingEngine_ctor]]\<rparr>,
       cr_received = 0, cr_sent = []\<rparr> :: ChannelRun"
  obtain sv :: "nat WebSocketServer" where sv: "ws_reach (channel_on_data (jval_api []) int (\<lambda>_. (False, 1, True))) ?cr (sv, ?cr)" and al: "alive sv 0"
    using one_client by blast
  have "modules_ok (ch_modules (cr_channel ?cr))" by (simp add: modules_ok_def engines_ok_def engine_ok_ctor)
  from server_books_ok [OF sv this] al show ?thesis by blast
qed

text \<open>
  C19: While the server runs its modules keep their number, their kinds and settings and, for
  engines, exactly the configured instruments.
\<close>

theorem server_modules_fixed:
  assumes "ws_reach (channel_on_data J clock io) cr (sv, cr')"
  shows "list_all2 same_shape (ch_modules (cr_channel cr)) (ch_modules (cr_channel cr'))"
proof -
  have "list_all2 same_shape (ch_modules (cr_channel cr)) (ch_modules (cr_channel (snd st)))"
    if "ws_reach (channel_on_data J clock io) cr st" for st
    using that
  proof (induction rule: ws_reach.induct)
    case (step st e st')
    from ws_handle_rel [OF step.hyps(3), of "list_all2 same_shape"]
    have "list_all2 same_shape (ch_modules (cr_channel (snd st))) (ch_modules (cr_channel (snd st')))"
      by (simp add: reflp_def list_all2_refl deliver_shape)
    with step.IH show ?case using same_shape_trans by (blast intro: list_all2_trans)
  qed (simp add: list_all2_refl)
  from this [OF assms] show ?thesis by simp
qed

theorem server_modules_fixed_witness:
  "\<exists>(sv :: nat WebSocketServer) cr'. alive sv 0 \<and>
     list_all2 same_shape [EngineModule [''X'' \<mapsto> MatchingEngine_ctor], LogModule] (ch_modules (cr_channel (cr' :: ChannelRun)))"
proof -
  let ?cr = "\<lparr>cr_channel = WebSocketChannel_ctor\<lparr>ch_modules := [EngineModule [''X'' \<mapsto> MatchingEngine_ctor], LogModule]\<rparr>,
       cr_received = 0, cr_sent = []\<rparr> :: ChannelRun"
  obtain sv :: "nat WebSocketServer" where sv: "ws_reach (channel_on_data (jval_api []) int (\<lambda>_. (False, 1, True))) ?cr (sv, ?cr)" and al: "alive sv 0"
    using one_client by blast
  from server_modules_fixed [OF sv] al show ?thesis by (intro exI [of _ sv] exI [of _ ?cr]) simp
qed

section \<open>One bad frame\<close>

text \<open>
  The handler of an event on the service; a state in which the behaviour is undefined is \<open>None\<close>
  and stays so.
\<close>

fun ws_serve ::
  "('a::linorder, 'w) ws_callback \<Rightarrow> 'a ws_event \<Rightarrow> ('a WebSocketServer \<times> 'w) option \<Rightarrow>
   ('a WebSocketServer \<times> 'w) option \<times> unit throws" where
  "ws_serve on_data e None = (None, Inr ())"
| "ws_serve on_data e (Some st) =
     (case ws_handle on_data e st of None \<Rightarrow> (None, Inr ()) | Some (st', r) \<Rightarrow> (Some st', r))"

lemma deliver_throws:
  assumes "EngineModule e \<in> set ms" and "p_write J buf \<noteq> 0" and "p_release J buf = Inl x"
  shows "snd (snd (deliver J now buf ep ms)) = Inl x"
  using assms(1)
proof (induction ms)
  case (Cons m ms)
  show ?case
  proof (cases m)
    case (EngineModule e')
    with assms(2,3) show ?thesis by (simp add: Module_OnWebSocketDataReceived_def Processor_Process_def)
  qed (use Cons in \<open>auto split: prod.split\<close>)
qed simp

lemma bad_frame_throws:
  assumes "EngineModule e \<in> set (ch_modules (cr_channel cr))" and "p_write J buf \<noteq> 0" and "p_release J buf = Inl x"
    and "alive sv i" and "wss_ReceivedFn sv" and "ws_inv sv" and "Wait_read \<in> set (ws_Waits (wss_Heap sv i))"
  shows "\<exists>sv' cr'. ws_serve (channel_on_data J clock io) (Ws_read i (Read_data buf) (Inr ep)) (Some (sv, cr)) =
      (Some (sv', cr'), Inl x) \<and> alive sv' i \<and> ws_Waits (wss_Heap sv' i) = []"
proof -
  let ?sv = "wait_over Wait_read i sv"
  let ?r = "channel_on_data J clock io buf ep (?sv, cr)"
  obtain sv1 cr1 r where r: "?r = ((sv1, cr1), r)" by (metis prod.collapse)
  moreover from deliver_throws [OF assms(1-3)] have "snd ?r = Inl x"
    by (simp add: channel_on_data_def WebSocketChannel_OnWebSocketDataReceived_def case_prod_unfold)
  ultimately have r: "?r = ((sv1, cr1), Inl x)" by simp
  from channel_closes [of J clock io buf ep "(?sv, cr)"] r obtain C W where c: "sv1 = close_sessions C W ?sv" by auto
  from wait_over_none(2) [OF assms(6,7)] c have "ws_Waits (wss_Heap sv1 i) = []" by simp
  moreover from c assms(4) have "alive sv1 i" by (simp add: wait_over_def)
  moreover from assms(5) have "wss_ReceivedFn ?sv" by (simp add: wait_over_def)
  with assms(4) r have "ws_serve (channel_on_data J clock io) (Ws_read i (Read_data buf) (Inr ep)) (Some (sv, cr)) =
      (Some (sv1, cr1), Inl x)"
    by (simp add: readDataFunc_def WebSocketServer_OnDataRead_def)
  ultimately show ?thesis by blast
qed

lemma reach_received: "ws_reach (channel_on_data J clock io) cr0 st \<Longrightarrow> wss_ReceivedFn (fst st)"
proof (induction rule: ws_reach.induct)
  case start
  show ?case by (simp add: ws_started_def SetWebSocketDataReceived_def WebSocketServer_Start_def)
next
  case (step st e st')
  obtain sv cr where st: "st = (sv, cr)" by (cases st)
  have "wss_ReceivedFn (fst (fst (channel_on_data J clock io buf ep s))) = wss_ReceivedFn (fst s)" for buf ep s
    using channel_closes [of J clock io buf ep s] by auto
  then have on: "channel_on_data J clock io buf ep s = (s1, r) \<Longrightarrow> wss_ReceivedFn (fst s1) = wss_ReceivedFn (fst s)" for buf ep s s1 r
    by (metis fst_conv)
  from step.hyps(3) step.IH show ?case
    by (cases e) (auto simp: st readDataFunc_def WebSocketServer_OnDataRead_def WebSocketServer_Accept_def
      WebSocketServer_OnSessionClosed_def wait_over_def check_simp dest!: on
      split: if_splits sum.splits prod.splits ws_read.splits)
qed

text \<open>
  C15: One frame of which the JSON parser takes a character (it is not empty) and that is not one
  complete document, sent by any client of a channel with a matching engine module, ends the
  server for all of them: the exception leaves the handler, nothing that arrives later is handled,
  the session of the sender is not read any more, and the service is stopped or, when the handler
  ran on the main thread, the exception leaves \<open>Run\<close>.
\<close>

theorem bad_frame_ends_server:
  assumes "ws_reach (channel_on_data J clock io) cr0 (sv, cr)"
    and "EngineModule e \<in> set (ch_modules (cr_channel cr))" and "p_write J buf \<noteq> 0" and "p_release J buf = Inl x"
    and "alive sv i" and "ws_enabled (Ws_read i (Read_data buf) (Inr ep)) sv" and "\<not> m_Stopped service"
  shows "\<exists>sv' cr'. Service_exec (ws_serve (channel_on_data J clock io))
      ((thread, Ws_read i (Read_data buf) (Inr ep)) # later) (service, Some (sv, cr)) =
      (if thread = 0 then (service, Some (sv', cr'), Inl x)
       else (Service_worker (Inl (Some x)) service, Some (sv', cr'), Inr ())) \<and>
    m_Stopped (Service_worker (Inl (Some x)) service) \<and> alive sv' i \<and> ws_Waits (wss_Heap sv' i) = []"
proof -
  from reach_received [OF assms(1)] channel.reach_inv [OF assms(1)]
  have "wss_ReceivedFn sv" "ws_inv sv" by simp_all
  from bad_frame_throws [OF assms(2-5) this, of clock io ep] assms(6)
  obtain sv' cr' where s: "ws_serve (channel_on_data J clock io) (Ws_read i (Read_data buf) (Inr ep)) (Some (sv, cr)) =
      (Some (sv', cr'), Inl x)" and w: "alive sv' i" "ws_Waits (wss_Heap sv' i) = []" by auto
  have "Service_exec (ws_serve (channel_on_data J clock io))
      ((thread, Ws_read i (Read_data buf) (Inr ep)) # later) (service, Some (sv, cr)) =
      (if thread = 0 then (service, Some (sv', cr'), Inl x)
       else (Service_worker (Inl (Some x)) service, Some (sv', cr'), Inr ()))"
    by (simp add: s assms(7) Service_Run_def Service_exec_stopped del: ws_serve.simps)
  with w show ?thesis by simp
qed

theorem bad_frame_ends_server_witness:
  "\<exists>(sv :: nat WebSocketServer) cr sv' cr'. Service_exec (ws_serve (channel_on_data (jval_api []) int (\<lambda>_. (False, 1, True))))
      [(1, Ws_read 0 (Read_data ''x'') (Inr (7, 80))), (0, Ws_accept False (Inr (8, 80)))] (Service_ctor 2, Some (sv, cr)) =
      (Service_worker (Inl (Some (CppExn ''incomplete JSON''))) (Service_ctor 2), Some (sv', cr'), Inr ()) \<and>
    alive sv' 0 \<and> ws_Waits (wss_Heap sv' 0) = []"
proof -
  let ?cr = "\<lparr>cr_channel = WebSocketChannel_ctor\<lparr>ch_modules := [EngineModule Map.empty]\<rparr>, cr_received = 0, cr_sent = []\<rparr>
    :: ChannelRun"
  let ?on = "channel_on_data (jval_api []) int (\<lambda>_. (False, 1, True))"
  obtain sv :: "nat WebSocketServer" where sv: "ws_reach ?on ?cr (sv, ?cr)" and al: "alive sv 0" and op: "ws_IsOpen (wss_Heap sv 0)"
    using one_client by blast
  from channel.reach_open_reads [OF sv op] al
  have en: "ws_enabled (Ws_read 0 (Read_data ''x'') (Inr (7, 80))) sv" by simp
  have m: "EngineModule Map.empty \<in> set (ch_modules (cr_channel ?cr))" by simp
  have p: "p_write (jval_api []) ''x'' \<noteq> 0" "p_release (jval_api []) ''x'' = Inl (CppExn ''incomplete JSON'')"
    by simp_all
  have s: "\<not> m_Stopped (Service_ctor 2)" by (simp add: Service_ctor_def)
  from bad_frame_ends_server [OF sv m p al en s, of 1 "[(0, Ws_accept False (Inr (8, 80)))]"]
  obtain sv' cr' where "Service_exec (ws_serve ?on)
      [(1, Ws_read 0 (Read_data ''x'') (Inr (7, 80))), (0, Ws_accept False (Inr (8, 80)))] (Service_ctor 2, Some (sv, ?cr)) =
      (Service_worker (Inl (Some (CppExn ''incomplete JSON''))) (Service_ctor 2), Some (sv', cr'), Inr ())"
    "alive sv' 0" "ws_Waits (wss_Heap sv' 0) = []" by (simp del: Service_exec.simps) blast
  then show ?thesis by blast
qed

section \<open>Sessions destroyed too early\<close>

text \<open>
  C17: In whatever state the running server has two open sessions: when both clients leave at
  about the same time and the read of the first reports it, the check posted for the first takes
  both out of the map, which destroys them, while the read handler of the second is still to run;
  that handler, called with the error of its destroyed stream, uses the destroyed session. Without
  the check it is handled as the close that it is.
\<close>

theorem ws_use_after_free:
  assumes "ws_reach (channel_on_data J clock io) cr (sv, cr')" and "i \<noteq> j"
    and "alive sv i" and "ws_IsOpen (wss_Heap sv i)" and "alive sv j" and "ws_IsOpen (wss_Heap sv j)"
  shows "\<exists>sv1 sv2.
    ws_run (channel_on_data J clock io) [Ws_closing i, Ws_closing j, Ws_read i Read_closed ri] (sv, cr') = Some (sv1, cr') \<and>
    alive sv1 i \<and> alive sv1 j \<and> ws_enabled (Ws_read j Read_closed rj) sv1 \<and>
    ws_handle (channel_on_data J clock io) (Ws_read j Read_closed rj) (sv1, cr') \<noteq> None \<and>
    ws_run (channel_on_data J clock io) [Ws_check] (sv1, cr') = Some (sv2, cr') \<and>
    wss_Sessions sv2 = List.filter (\<lambda>p. snd p \<noteq> i \<and> snd p \<noteq> j \<and> ws_IsOpen (wss_Heap sv (snd p))) (wss_Sessions sv) \<and>
    \<not> alive sv2 i \<and> \<not> alive sv2 j \<and> ws_enabled (Ws_read j Read_error rj) sv2 \<and>
    ws_handle (channel_on_data J clock io) (Ws_read j Read_error rj) (sv2, cr') = None"
proof -
  let ?close = "\<lambda>i. upd_session i (\<lambda>s. s\<lparr>ws_IsOpen := False\<rparr>)"
  define sv1 where "sv1 = WebSocketServer_OnSessionClosed (wait_over Wait_read i (?close j (?close i sv)))"
  define sv2 where "sv2 = fst (CheckClosedSessions (sv1\<lparr>wss_Checks := wss_Checks sv1 - 1\<rparr>))"
  note w = channel.reach_open_reads [OF assms(1,4)] channel.reach_open_reads [OF assms(1,6)]
  have a1: "alive sv1 k = alive sv k" "wss_Sessions sv1 = wss_Sessions sv" "0 < wss_Checks sv1" for k
    by (simp_all add: sv1_def WebSocketServer_OnSessionClosed_def wait_over_def alive_def)
  have o1: "ws_IsOpen (wss_Heap sv1 k) \<longleftrightarrow> k \<noteq> i \<and> k \<noteq> j \<and> ws_IsOpen (wss_Heap sv k)" for k
    by (simp add: sv1_def WebSocketServer_OnSessionClosed_def wait_over_def)
  have w1: "ws_Waits (wss_Heap sv1 j) = [Wait_read]"
    using w(2) assms(2) by (simp add: sv1_def WebSocketServer_OnSessionClosed_def wait_over_def)
  have r1: "ws_run (channel_on_data J clock io) [Ws_closing i, Ws_closing j, Ws_read i Read_closed ri] (sv, cr') = Some (sv1, cr')"
    using assms(2-6) w by (simp add: sv1_def readDataFunc_def)
  have h: "wss_Heap sv2 = wss_Heap sv1" by (simp add: sv2_def check_is_filter)
  have s2: "wss_Sessions sv2 = List.filter (\<lambda>p. snd p \<noteq> i \<and> snd p \<noteq> j \<and> ws_IsOpen (wss_Heap sv (snd p))) (wss_Sessions sv)"
    by (simp add: sv2_def check_simp a1 o1)
  then have a2: "\<not> alive sv2 i" "\<not> alive sv2 j" by (auto simp: alive_def)
  have r2: "ws_run (channel_on_data J clock io) [Ws_check] (sv1, cr') = Some (sv2, cr')" using a1(3) by (simp add: sv2_def)
  show ?thesis
    by (intro exI [of _ sv1] exI [of _ sv2]) (use assms(3,5) r1 r2 s2 a1 a2 w1 o1 h in simp)
qed

theorem ws_use_after_free_witness:
  "\<exists>(sv :: nat WebSocketServer) cr. alive sv 0 \<and> alive sv 1 \<and>
     (\<exists>sv2. ws_run (channel_on_data (jval_api []) int (\<lambda>_. (False, 1, True)))
        [Ws_closing 0, Ws_closing 1, Ws_read 0 Read_closed (Inr (1, 80)), Ws_check] (sv, cr) = Some (sv2, cr) \<and>
      \<not> alive sv2 1 \<and>
      ws_handle (channel_on_data (jval_api []) int (\<lambda>_. (False, 1, True))) (Ws_read 1 Read_error (Inr (2, 80))) (sv2, cr) = None)"
proof -
  let ?cr = "\<lparr>cr_channel = WebSocketChannel_ctor, cr_received = 0, cr_sent = []\<rparr>"
  let ?on = "channel_on_data (jval_api []) int (\<lambda>_. (False, 1, True))"
  let ?es = "[Ws_accept False (Inr (1 :: nat, 80)), Ws_accept False (Inr (2, 80)), Ws_run 0, Ws_run 1, Ws_handshake 0 False,
    Ws_handshake 1 False]"
  have "\<exists>sv. ws_run ?on ?es (ws_started, ?cr) = Some (sv, ?cr) \<and> alive sv 0 \<and> alive sv 1 \<and>
      ws_IsOpen (wss_Heap sv 0) \<and> ws_IsOpen (wss_Heap sv 1)"
    by (simp add: ws_started_def SetWebSocketDataReceived_def WebSocketServer_Start_def WebSocketServer_ctor_def
        WebSocketSession_ctor_def WebSocketServer_Accept_def WebSocketSession_Accept_def smap_assign_def alive_def
        runFunc_def acceptHandshakeFn_def WebSocketSession_ReadData_def wait_over_def upd_session_def endpoint_less_def)
  then obtain sv where r: "ws_run ?on ?es (ws_started, ?cr) = Some (sv, ?cr)" and a: "alive sv 0" "alive sv 1"
    and o: "ws_IsOpen (wss_Heap sv 0)" "ws_IsOpen (wss_Heap sv 1)" by blast
  from ws_use_after_free [OF ws_run_reach [OF ws_reach.start r] _ a(1) o(1) a(2) o(2), of "Inr (1, 80)" "Inr (2, 80)"]
  obtain sv1 sv2 where
    1: "ws_run ?on [Ws_closing 0, Ws_closing 1, Ws_read 0 Read_closed (Inr (1, 80))] (sv, ?cr) = Some (sv1, ?cr)"
    and 2: "ws_run ?on [Ws_check] (sv1, ?cr) = Some (sv2, ?cr)" "\<not> alive sv2 1"
      "ws_handle ?on (Ws_read 1 Read_error (Inr (2, 80))) (sv2, ?cr) = None" by auto
  have "ws_run on (xs @ ys) st = (case ws_run on xs st of None \<Rightarrow> None | Some st1 \<Rightarrow> ws_run on ys st1)"
    for on :: "(nat, ChannelRun) ws_callback" and xs ys st
    by (induction xs arbitrary: st) (auto split: option.split sum.split)
  from this [of ?on "[Ws_closing 0, Ws_closing 1, Ws_read 0 Read_closed (Inr (1, 80))]" "[Ws_check]" "(sv, ?cr)"] 1 2(1)
  have "ws_run ?on [Ws_closing 0, Ws_closing 1, Ws_read 0 Read_closed (Inr (1, 80)), Ws_check] (sv, ?cr) = Some (sv2, ?cr)"
    by (simp del: ws_run.simps)
  with a 2 show ?thesis by blast
qed

end
