(* ===== verification/ReferenceEngine.thy ===== *)
theory ReferenceEngine
  imports EngineProps
begin

text \<open>
  A matching engine without books: each side is one list of orders, the best price first and the
  oldest order of a price first. The requests are what a reader of the rules of the market would
  write down; the engine of the program does the same over any sequence of requests, as long as
  no cancel takes the only order of its price.
\<close>

section \<open>Lists of orders\<close>

type_synonym order_lists = "bool \<Rightarrow> OrderInsertData list"

definition ranked :: "bool \<Rightarrow> OrderInsertData list \<Rightarrow> bool" where
  "ranked x = sorted_wrt (\<lambda>a b. \<not> side_lt x (od_price b) (od_price a))"

text \<open>A new order goes behind all orders whose price is not worse.\<close>

definition place :: "bool \<Rightarrow> OrderInsertData \<Rightarrow> OrderInsertData list \<Rightarrow> OrderInsertData list" where
  "place x d os =
     takeWhile (\<lambda>b. \<not> side_lt x (od_price d) (od_price b)) os @ d # dropWhile (\<lambda>b. \<not> side_lt x (od_price d) (od_price b)) os"

definition order_here :: "u64 \<Rightarrow> string \<Rightarrow> OrderInsertData \<Rightarrow> bool" where
  "order_here p i d \<longleftrightarrow> od_price d = p \<and> has_id i d"

definition priced :: "u64 \<Rightarrow> OrderInsertData list \<Rightarrow> OrderInsertData list" where
  "priced p = List.filter (\<lambda>d. od_price d = p)"

text \<open>
  An amend to a volume of zero removes the order, one of the volume alone keeps its place, and one
  of the price places it anew, unless there are orders of the new price already: then it is lost.
\<close>

definition amend_list :: "bool \<Rightarrow> OrderAmendData \<Rightarrow> OrderInsertData \<Rightarrow> OrderInsertData list \<Rightarrow> OrderInsertData list" where
  "amend_list x a d os =
     (let here = order_here (od_price a) (od_id a)
      in if od_newVolume a = 0 then erase_first here os
         else if od_newPrice a = od_price a then update_first here (\<lambda>d. d\<lparr>od_volume := od_newVolume a\<rparr>) os
         else if priced (od_newPrice a) os = [] then place x (amended a d) (erase_first here os)
         else erase_first here os)"

section \<open>The reference engine\<close>

datatype 'ep request =
    Order_insert OrderInsertData 'ep
  | Order_amend OrderAmendData 'ep
  | Order_cancel OrderCancelData 'ep

definition lists_match :: "bool \<Rightarrow> 'ep \<Rightarrow> order_lists \<Rightarrow> order_lists \<times> (Message \<times> 'ep) list" where
  "lists_match buy ep r =
     (case match_lists (r (\<not> buy)) (r buy) of
        (os, ms, fs) \<Rightarrow> (r(\<not> buy := os, buy := ms), map (\<lambda>t. (MsgTrade t, ep)) (trades_of fs)))"

definition answer :: "Message \<times> 'ep \<Rightarrow> order_lists \<times> (Message \<times> 'ep) list \<Rightarrow> order_lists \<times> (Message \<times> 'ep) list" where
  "answer m rms = (case rms of (r, ms) \<Rightarrow> (r, m # ms))"

fun lists_request :: "'ep request \<Rightarrow> order_lists \<Rightarrow> order_lists \<times> (Message \<times> 'ep) list" where
  "lists_request (Order_insert d ep) r =
     (let x = od_isBuySide d in answer (insert_reply d, ep) (lists_match x ep (r(x := place x d (r x)))))"
| "lists_request (Order_amend a ep) r =
     (let x = od_isBuySide a
      in case find (order_here (od_price a) (od_id a)) (r x) of
           None \<Rightarrow> (r, [(MsgErrorReply (ErrorReply_ctor (od_clientId a) ''Failed to amend order''), ep)])
         | Some d \<Rightarrow>
             answer (MsgOrderReply (OrderReply_ctor (od_id a) (od_clientId a)), ep) (lists_match x ep (r(x := amend_list x a d (r x)))))"
| "lists_request (Order_cancel c ep) r =
     (let x = oc_isBuySide c; here = order_here (oc_price c) (oc_id c)
      in case find here (r x) of
           None \<Rightarrow> (r, [(MsgErrorReply (ErrorReply_ctor (oc_clientId c) ''Failed to cancel order''), ep)])
         | Some d \<Rightarrow> (r(x := erase_first here (r x)), [(MsgOrderReply (OrderReply_ctor (oc_id c) (oc_clientId c)), ep)]))"

text \<open>A cancel that takes the only order of its price.\<close>

fun cancels_last :: "'ep request \<Rightarrow> order_lists \<Rightarrow> bool" where
  "cancels_last (Order_cancel c ep) r \<longleftrightarrow>
     map od_id (priced (oc_price c) (r (oc_isBuySide c))) = [oc_id c]"
| "cancels_last q r \<longleftrightarrow> False"

fun lists_run :: "'ep request list \<Rightarrow> order_lists \<Rightarrow> order_lists \<times> (Message \<times> 'ep) list" where
  "lists_run [] r = (r, [])"
| "lists_run (q # qs) r = (case lists_request q r of (r1, ms1) \<Rightarrow> (case lists_run qs r1 of (r2, ms2) \<Rightarrow> (r2, ms1 @ ms2)))"

fun lists_allowed :: "'ep request list \<Rightarrow> order_lists \<Rightarrow> bool" where
  "lists_allowed [] r \<longleftrightarrow> True"
| "lists_allowed (q # qs) r \<longleftrightarrow> \<not> cancels_last q r \<and> lists_allowed qs (fst (lists_request q r))"

text \<open>The engine of the program over the same requests.\<close>

fun engine_request :: "'ep request \<Rightarrow> MatchingEngine \<Rightarrow> MatchingEngine \<times> (Message \<times> 'ep) list" where
  "engine_request (Order_insert d ep) e = MatchingEngine_OrderInsert d ep e"
| "engine_request (Order_amend a ep) e = MatchingEngine_OrderAmend a ep e"
| "engine_request (Order_cancel c ep) e = MatchingEngine_OrderCancel c ep e"

fun engine_run :: "'ep request list \<Rightarrow> MatchingEngine \<Rightarrow> MatchingEngine \<times> (Message \<times> 'ep) list" where
  "engine_run [] e = (e, [])"
| "engine_run (q # qs) e = (case engine_request q e of (e1, ms1) \<Rightarrow> (case engine_run qs e1 of (e2, ms2) \<Rightarrow> (e2, ms1 @ ms2)))"

definition order_list :: "MatchingEngine \<Rightarrow> order_lists" where
  "order_list e = (\<lambda>x. orders (side x e))"

section \<open>A list is its queues\<close>

lemma side_lt_neq: "p \<noteq> q \<Longrightarrow> side_lt x p q \<or> side_lt x q p"
  by (cases x) (auto simp: std_greater_def std_less_def)

lemma side_lt_irrefl [simp]: "\<not> side_lt x p p"
  by (cases x) (auto simp: std_greater_def std_less_def)

lemma side_lt_trans: "side_lt x p q \<Longrightarrow> side_lt x q r \<Longrightarrow> side_lt x p r"
  by (cases x) (auto simp: std_greater_def std_less_def)

lemma side_lt_asym: "side_lt x p q \<Longrightarrow> \<not> side_lt x q p"
  by (cases x) (auto simp: std_greater_def std_less_def)

lemma ranked_Cons [simp]: "ranked x (a # os) \<longleftrightarrow> (\<forall>b \<in> set os. \<not> side_lt x (od_price b) (od_price a)) \<and> ranked x os"
  by (simp add: ranked_def)

lemma ranked_append:
  "ranked x (as @ bs) \<longleftrightarrow> ranked x as \<and> ranked x bs \<and> (\<forall>a \<in> set as. \<forall>b \<in> set bs. \<not> side_lt x (od_price b) (od_price a))"
  by (simp add: ranked_def sorted_wrt_append)

lemma priced_simps [simp]:
  "priced p [] = []"
  "priced p (a # os) = (if od_price a = p then a # priced p os else priced p os)"
  "priced p (as @ bs) = priced p as @ priced p bs"
  by (simp_all add: priced_def)

lemma priced_empty: "priced p os = [] \<longleftrightarrow> (\<forall>a \<in> set os. od_price a \<noteq> p)"
  by (simp add: priced_def filter_empty_conv)

lemma same_lists:
  "ranked x as \<Longrightarrow> ranked x bs \<Longrightarrow> (\<And>p. priced p as = priced p bs) \<Longrightarrow> as = bs"
proof (induction as arbitrary: bs)
  case Nil
  then have "\<forall>b \<in> set bs. od_price b \<noteq> p" for p by (metis priced_empty priced_simps(1))
  then show ?case by (cases bs) auto
next
  case (Cons a as)
  have "priced (od_price a) bs \<noteq> []" using Cons.prems(3) [of "od_price a"] by auto
  then obtain b bs' where bs: "bs = b # bs'" by (cases bs) auto
  have eq: "od_price a = od_price b"
  proof (rule ccontr)
    assume ne: "od_price a \<noteq> od_price b"
    have "a \<in> set (priced (od_price a) bs)" using Cons.prems(3) [of "od_price a", symmetric] by simp
    with ne have "a \<in> set bs'" by (auto simp: bs priced_def)
    with Cons.prems(2) have 1: "\<not> side_lt x (od_price a) (od_price b)" by (simp add: bs)
    have "b \<in> set (priced (od_price b) (a # as))" using Cons.prems(3) [of "od_price b"] by (simp add: bs)
    with ne have "b \<in> set as" by (auto simp: priced_def split: if_splits)
    with Cons.prems(1) have "\<not> side_lt x (od_price b) (od_price a)" by simp
    with 1 side_lt_neq [OF ne, of x] show False by blast
  qed
  with Cons.prems(3) [of "od_price a"] have "a = b" by (simp add: bs)
  moreover have "priced p as = priced p bs'" for p
    using Cons.prems(3) [of p] eq \<open>a = b\<close> by (auto simp: bs split: if_splits)
  with Cons have "as = bs'" by (simp add: bs)
  ultimately show ?case by (simp add: bs)
qed

lemma book_ok_ConsD:
  assumes "book_ok (side_lt x) x ((p, lvl) # b)"
  shows "a \<in> set lvl \<Longrightarrow> od_price a = p" and "d \<in> set (orders b) \<Longrightarrow> side_lt x p (od_price d)" and "book_ok (side_lt x) x b"
proof -
  show "a \<in> set lvl \<Longrightarrow> od_price a = p" "book_ok (side_lt x) x b" using assms by (auto simp: level_ok_def)
  assume "d \<in> set (orders b)"
  then obtain q w where q: "(q, w) \<in> set b" "d \<in> set w" by (auto simp: in_orders)
  with assms have "od_price d = q" "side_lt x p q" by (fastforce simp: book_ok_def level_ok_def)+
  then show "side_lt x p (od_price d)" by simp
qed

lemma orders_ranked: "book_ok (side_lt x) x b \<Longrightarrow> ranked x (orders b)"
proof (induction b)
  case (Cons l b)
  obtain p lvl where l: "l = (p, lvl)" by fastforce
  note d = book_ok_ConsD [OF Cons.prems [unfolded l]]
  have "ranked x lvl" using d(1) by (auto simp: ranked_def sorted_wrt_iff_nth_less)
  with Cons.IH [OF d(3)] d(1,2) show ?case by (auto simp: l ranked_append dest: side_lt_asym)
qed (simp add: ranked_def)

lemma priced_orders:
  assumes "book_ok (side_lt x) x b"
  shows "priced p (orders b) = queue_at (side_lt x) b p"
  using assms
proof (induction b)
  case (Cons l b)
  obtain q lvl where l: "l = (q, lvl)" by fastforce
  note d = book_ok_ConsD [OF Cons.prems [unfolded l]]
  have "priced p lvl = (if p = q then lvl else [])"
    using d(1) by (auto simp: priced_def filter_empty_conv filter_id_conv)
  moreover have "priced q (orders b) = []" using d(2) side_lt_irrefl by (fastforce simp: priced_empty)
  moreover have "key_equiv (side_lt x) p q \<longleftrightarrow> p = q" using side_lt_neq [of p q x] by (auto simp: key_equiv_def)
  ultimately show ?case using Cons.IH [OF d(3)] by (auto simp: l queue_at_def)
qed (simp add: queue_at_def)

section \<open>The requests on a list\<close>

lemma dropWhile_worse:
  "ranked x os \<Longrightarrow> b \<in> set (dropWhile (\<lambda>b. \<not> side_lt x p (od_price b)) os) \<Longrightarrow> side_lt x p (od_price b)"
proof (induction os)
  case (Cons a os)
  show ?case
  proof (cases "side_lt x p (od_price a)")
    case False
    with Cons show ?thesis by simp
  next
    case True
    with Cons.prems(2) have "b = a \<or> b \<in> set os" by simp
    with True Cons.prems(1) side_lt_neq [of "od_price a" "od_price b" x] side_lt_trans [OF True, of "od_price b"]
    show ?thesis by (metis ranked_Cons)
  qed
qed simp

lemma place_split:
  assumes "ranked x os"
  obtains as bs where "os = as @ bs" and "place x d os = as @ d # bs"
    and "\<forall>a \<in> set as. \<not> side_lt x (od_price d) (od_price a)" and "\<forall>b \<in> set bs. side_lt x (od_price d) (od_price b)"
proof
  let ?P = "\<lambda>b. \<not> side_lt x (od_price d) (od_price b)"
  show "os = takeWhile ?P os @ dropWhile ?P os" "place x d os = takeWhile ?P os @ d # dropWhile ?P os"
    by (simp_all add: place_def)
  show "\<forall>a \<in> set (takeWhile ?P os). \<not> side_lt x (od_price d) (od_price a)" by (blast dest: set_takeWhileD)
  show "\<forall>b \<in> set (dropWhile ?P os). side_lt x (od_price d) (od_price b)" using dropWhile_worse [OF assms] by blast
qed

lemma place_ranked:
  assumes "ranked x os"
  shows "ranked x (place x d os)"
proof -
  obtain as bs where p: "os = as @ bs" "place x d os = as @ d # bs"
    and n: "\<forall>a \<in> set as. \<not> side_lt x (od_price d) (od_price a)" "\<forall>b \<in> set bs. side_lt x (od_price d) (od_price b)"
    by (rule place_split [OF assms])
  have "\<forall>b \<in> set bs. \<not> side_lt x (od_price b) (od_price d)" using n(2) side_lt_asym by blast
  with assms [unfolded p(1)] n(1) show ?thesis unfolding p(2) ranked_append ranked_Cons by simp
qed

lemma place_priced:
  assumes "ranked x os"
  shows "priced p (place x d os) = (if p = od_price d then priced p os @ [d] else priced p os)"
proof -
  obtain as bs where p: "os = as @ bs" "place x d os = as @ d # bs"
    and n: "\<forall>b \<in> set bs. side_lt x (od_price d) (od_price b)"
    by (rule place_split [OF assms])
  have "priced (od_price d) bs = []" unfolding priced_empty using n side_lt_irrefl by metis
  then show ?thesis unfolding p(2) unfolding p(1) by auto
qed

lemma find_here: "find (order_here p i) os = find (has_id i) (priced p os)"
  by (induction os) (simp_all add: order_here_def)

lemma erase_here:
  "priced q (erase_first (order_here p i) os) = (if q = p then erase_first (has_id i) (priced p os) else priced q os)"
  by (induction os) (auto simp: order_here_def)

lemma erase_ranked: "ranked x os \<Longrightarrow> ranked x (erase_first P os)"
  by (induction os) (auto simp del: side_lt_simps dest: erase_first_subset)

lemma update_here:
  "priced q (update_first (order_here p i) (\<lambda>d. d\<lparr>od_volume := v\<rparr>) os) =
     (if q = p then update_first (has_id i) (\<lambda>d. d\<lparr>od_volume := v\<rparr>) (priced p os) else priced q os)"
  by (induction os) (auto simp: order_here_def)

lemma update_ranked: "ranked x os \<Longrightarrow> ranked x (update_first P (\<lambda>d. d\<lparr>od_volume := v\<rparr>) os)"
  by (induction os) (auto simp del: side_lt_simps dest!: set_update_first)

lemma insert_list:
  assumes "book_ok (side_lt x) x b" and "od_isBuySide d = x"
  shows "orders (fst (OrderBook_Insert (side_lt x) d b)) = place x d (orders b)"
proof (rule same_lists)
  have ok: "book_ok (side_lt x) x (fst (OrderBook_Insert (side_lt x) d b))" using sides.my.Insert_ok [where d = d and b = b and buy = x] assms by simp
  show "ranked x (orders (fst (OrderBook_Insert (side_lt x) d b)))" by (rule orders_ranked [OF ok])
  show "ranked x (place x d (orders b))" by (rule place_ranked [OF orders_ranked [OF assms(1)]])
  show "priced p (orders (fst (OrderBook_Insert (side_lt x) d b))) = priced p (place x d (orders b))" for p
    by (simp add: priced_orders [OF ok] place_priced [OF orders_ranked [OF assms(1)]] priced_orders [OF assms(1)]
        sides.my.Insert_queue_at)
qed

lemma cancel_list:
  assumes "book_ok (side_lt x) x b"
  shows "orders (fst (OrderBook_Cancel (side_lt x) c b)) = erase_first (order_here (oc_price c) (oc_id c)) (orders b)"
proof (rule same_lists)
  have ok: "book_ok (side_lt x) x (fst (OrderBook_Cancel (side_lt x) c b))" by (rule sides.my.Cancel_ok [OF assms])
  show "ranked x (orders (fst (OrderBook_Cancel (side_lt x) c b)))" by (rule orders_ranked [OF ok])
  show "ranked x (erase_first (order_here (oc_price c) (oc_id c)) (orders b))" by (rule erase_ranked [OF orders_ranked [OF assms]])
  show "priced p (orders (fst (OrderBook_Cancel (side_lt x) c b))) =
      priced p (erase_first (order_here (oc_price c) (oc_id c)) (orders b))" for p
    by (simp add: priced_orders [OF ok] erase_here priced_orders [OF assms] sides.my.Cancel_queue_at)
qed

lemma level_empty:
  assumes "no_empty b"
  shows "smap_find (side_lt x) p b = None \<longleftrightarrow> queue_at (side_lt x) b p = []"
  using assms smap_find_mem [of "side_lt x" p b] by (auto simp: queue_at_def no_empty_def split: option.split)

lemma amend_list_eq:
  assumes ok: "book_ok (side_lt x) x b" and full: "no_empty b"
    and d: "find (order_here (od_price a) (od_id a)) (orders b) = Some d"
  shows "orders (fst (OrderBook_Amend (side_lt x) a b)) = amend_list x a d (orders b)"
proof (rule same_lists)
  note r = orders_ranked [OF ok]
  have ok': "book_ok (side_lt x) x (fst (OrderBook_Amend (side_lt x) a b))" by (rule sides.my.Amend_ok [OF ok])
  have f: "find (has_id (od_id a)) (queue_at (side_lt x) b (od_price a)) = Some d" using d by (simp add: find_here priced_orders [OF ok])
  show "ranked x (orders (fst (OrderBook_Amend (side_lt x) a b)))" by (rule orders_ranked [OF ok'])
  show "ranked x (amend_list x a d (orders b))"
    by (simp add: amend_list_def Let_def place_ranked erase_ranked update_ranked r)
  have q: "priced p (orders b) = queue_at (side_lt x) b p" for p by (rule priced_orders [OF ok])
  show "priced p (orders (fst (OrderBook_Amend (side_lt x) a b))) = priced p (amend_list x a d (orders b))" for p
  proof -
    consider "od_newVolume a = 0" | "od_newVolume a \<noteq> 0" "od_newPrice a = od_price a" | "od_newVolume a \<noteq> 0" "od_newPrice a \<noteq> od_price a"
      by blast
    then show ?thesis
    proof cases
      case 1
      then show ?thesis
        by (simp add: priced_orders [OF ok'] sides.my.Amend_zero_queue_at [OF ok f] amend_list_def erase_here q)
    next
      case 2
      then show ?thesis
        by (simp add: priced_orders [OF ok'] sides.my.Amend_volume_queue_at [OF f] amend_list_def update_here q)
    next
      case 3
      then show ?thesis
        using level_empty [OF full, of x "od_newPrice a"]
        by (auto simp: priced_orders [OF ok'] sides.my.Amend_move_queue_at [OF ok f] amend_list_def erase_here
            place_priced [OF erase_ranked [OF r]] q amended_def Let_def)
    qed
  qed
qed

section \<open>The engine refines the lists\<close>

lemma order_list_simps:
  "order_list e x = orders (side x e)"
  "order_list (set_side x b e) = (order_list e)(x := orders b)"
  by (auto simp: order_list_def fun_eq_iff)

lemma match_lists_eq:
  assumes "engine_ok e" and "engine_full e" and "MatchingEngine_CheckMatch buy ep e = (e', ms)"
  shows "lists_match buy ep (order_list e) = (order_list e', ms) \<and> engine_ok e' \<and> engine_full e' \<and> uncrossed e'"
proof -
  from CheckMatch_refines [OF assms] obtain fs where f: "engine_full e'"
    "match_lists (order_list e (\<not> buy)) (order_list e buy) = (orders (side (\<not> buy) e'), orders (side buy e'), fs)"
    "ms = map (\<lambda>t. (MsgTrade t, ep)) (trades_of fs)" by (auto simp: order_list_simps)
  have "(order_list e)(\<not> buy := orders (side (\<not> buy) e'), buy := orders (side buy e')) = order_list e'"
    by (cases buy) (auto simp: order_list_def fun_eq_iff all_bool_eq)
  with f CheckMatch_ok [OF assms(1), of buy ep] CheckMatch_uncrossed [OF assms(1,2), of buy ep] assms(3)
  show ?thesis by (simp add: lists_match_def)
qed

lemma find_order_here:
  assumes "engine_ok e"
  shows "find (order_here p i) (order_list e x) = find (has_id i) (side_queue x e p)"
  by (simp add: find_here order_list_simps side_queue_def priced_orders [OF engine_okD [OF assms]])

lemma engine_Amend_result:
  assumes "engine_ok e" and "engine_full e" and "find (order_here (od_price a) (od_id a)) (order_list e (od_isBuySide a)) = Some d"
  shows "snd (MatchingEngine_Amend a e)"
    and "order_list (fst (MatchingEngine_Amend a e)) =
      (order_list e)(od_isBuySide a := amend_list (od_isBuySide a) a d (order_list e (od_isBuySide a)))"
proof -
  from find_Some_mem [OF assms(3) [unfolded find_order_here [OF assms(1)]]]
  show "snd (MatchingEngine_Amend a e)" by (auto simp: engine_Amend_eq sides.my.Amend_true_iff side_queue_def has_id_def)
  show "order_list (fst (MatchingEngine_Amend a e)) =
      (order_list e)(od_isBuySide a := amend_list (od_isBuySide a) a d (order_list e (od_isBuySide a)))"
    using amend_list_eq [OF engine_okD [OF assms(1)] engine_fullD [OF assms(2)]] assms(3)
    by (simp add: engine_Amend_eq order_list_simps)
qed

lemma step_refines:
  assumes ok: "engine_ok e" and full: "engine_full e" and un: "uncrossed e" and c: "\<not> cancels_last q (order_list e)"
    and h: "engine_request q e = (e', ms)"
  shows "lists_request q (order_list e) = (order_list e', ms) \<and> engine_ok e' \<and> engine_full e' \<and> uncrossed e'"
proof (cases q)
  case (Order_insert d ep)
  obtain ms' where m: "MatchingEngine_CheckMatch (od_isBuySide d) ep (inserted d e) = (e', ms')" "ms = (insert_reply d, ep) # ms'"
    using h Order_insert by (auto simp: OrderInsert_eq split: prod.splits)
  have "order_list (inserted d e) = (order_list e)(od_isBuySide d := place (od_isBuySide d) d (order_list e (od_isBuySide d)))"
    by (simp add: inserted_def InsertOrder_eq order_list_simps insert_list [OF engine_okD [OF ok]])
  with match_lists_eq [OF inserted_ok [OF ok] inserted_full [OF full] m(1)] m(2) Order_insert show ?thesis
    by (simp add: answer_def Let_def)
next
  case (Order_amend a ep)
  show ?thesis
  proof (cases "find (order_here (od_price a) (od_id a)) (order_list e (od_isBuySide a))")
    case None
    then have "\<not> snd (MatchingEngine_Amend a e)"
      by (auto simp: find_order_here [OF ok] engine_Amend_eq sides.my.Amend_true_iff side_queue_def find_None_iff has_id_def)
    with None h Order_amend ok full un show ?thesis by (simp add: OrderAmend_false Let_def)
  next
    case (Some d)
    note r = engine_Amend_result [OF ok full Some]
    obtain ms' where m: "MatchingEngine_CheckMatch (od_isBuySide a) ep (fst (MatchingEngine_Amend a e)) = (e', ms')"
      "ms = (MsgOrderReply (OrderReply_ctor (od_id a) (od_clientId a)), ep) # ms'"
      using h Order_amend OrderAmend_true [OF r(1), of ep] by (auto split: prod.splits)
    from match_lists_eq [OF Amend_engine_ok [OF ok] Amend_engine_full [OF full] m(1)] m(2) r(2) Some Order_amend show ?thesis
      by (simp add: answer_def Let_def)
  qed
next
  case (Order_cancel c ep)
  let ?x = "oc_isBuySide c" let ?here = "order_here (oc_price c) (oc_id c)"
  have iff: "(\<exists>d \<in> set (side_queue ?x e (oc_price c)). od_id d = oc_id c) \<longleftrightarrow> find ?here (order_list e ?x) \<noteq> None"
    by (auto simp: find_order_here [OF ok] find_None_iff has_id_def)
  show ?thesis
  proof (cases "find ?here (order_list e ?x)")
    case None
    with iff h Order_cancel ok full un show ?thesis by (simp add: OrderCancel_eq Let_def)
  next
    case (Some d)
    with iff h Order_cancel have e': "e' = fst (MatchingEngine_Cancel c e)"
      and ms: "ms = [(MsgOrderReply (OrderReply_ctor (oc_id c) (oc_clientId c)), ep)]" by (simp_all add: OrderCancel_eq)
    have l: "order_list e' = (order_list e)(?x := erase_first ?here (order_list e ?x))"
      by (simp add: e' engine_Cancel_eq order_list_simps cancel_list [OF engine_okD [OF ok]])
    let ?q = "queue_at (side_lt ?x) (side ?x e) (oc_price c)"
    have f: "find (has_id (oc_id c)) ?q = Some d" using Some by (simp add: find_order_here [OF ok] side_queue_def)
    have "erase_first (has_id (oc_id c)) ?q \<noteq> []"
    proof
      assume e0: "erase_first (has_id (oc_id c)) ?q = []"
      from erase_first_split [OF f] e0 have "?q = [d]" "od_id d = oc_id c" by (auto simp: has_id_def)
      with c Order_cancel show False by (simp add: order_list_simps priced_orders [OF engine_okD [OF ok]])
    qed
    then have "engine_full e'"
      using f full by (auto simp: e' engine_Cancel_eq sides.my.Cancel_eq intro!: engine_full_set sides.my.no_empty_set engine_fullD)
    moreover have "uncrossed e'"
      using un arg_cong [OF l, of "\<lambda>r. r True"] arg_cong [OF l, of "\<lambda>r. r False"] erase_first_subset
      by (cases ?x) (fastforce simp: uncrossed_def order_list_def side_def)+
    ultimately show ?thesis using l ms Some Order_cancel Cancel_engine_ok [OF ok] by (simp add: e' Let_def)
  qed
qed

text \<open>
  C1: Over any sequence of requests none of which cancels the only order of its price, the engine
  is the reference engine: it sends the same messages in the same order to the same endpoints,
  its books hold the same orders in the same order, and no bid reaches an ask.
\<close>

theorem engine_run_refines:
  assumes "lists_allowed qs (\<lambda>_. [])" and "engine_run qs MatchingEngine_ctor = (e, ms)"
  shows "lists_run qs (\<lambda>_. []) = (order_list e, ms) \<and> uncrossed e"
proof -
  have "lists_run qs (order_list e0) = (order_list e, ms) \<and> uncrossed e"
    if "engine_ok e0" "engine_full e0" "uncrossed e0" "lists_allowed qs (order_list e0)" "engine_run qs e0 = (e, ms)" for e0
    using that
  proof (induction qs arbitrary: e0 ms)
    case (Cons q qs)
    obtain e1 ms1 where s: "engine_request q e0 = (e1, ms1)" by fastforce
    obtain ms2 where r: "engine_run qs e1 = (e, ms2)" "ms = ms1 @ ms2" using Cons.prems(5) s by (auto split: prod.splits)
    from step_refines [OF Cons.prems(1-3) _ s] Cons.prems(4) have
      i: "lists_request q (order_list e0) = (order_list e1, ms1)" "engine_ok e1" "engine_full e1" "uncrossed e1" by auto
    with Cons.IH [OF i(2-4) _ r(1)] Cons.prems(4) r(2) show ?case by simp
  qed simp
  moreover have z: "order_list MatchingEngine_ctor = (\<lambda>_. [])"
    by (simp add: order_list_def MatchingEngine_ctor_def side_def fun_eq_iff)
  ultimately show ?thesis using engine_ok_ctor assms unfolding z [symmetric] by blast
qed

text \<open>
  Two bids of one price, an ask that takes the first and part of the second, a third bid, and the
  cancel of what is left of the second.
\<close>

theorem engine_run_refines_witness:
  "\<exists>(qs :: nat request list) e ms. length qs = 5 \<and> lists_allowed qs (\<lambda>_. []) \<and> engine_run qs MatchingEngine_ctor = (e, ms) \<and>
    lists_run qs (\<lambda>_. []) = (order_list e, ms) \<and> uncrossed e \<and> length ms = 9"
proof -
  let ?qs = "[Order_insert (sample_order True 99 5 ''b1'') (1 :: nat), Order_insert (sample_order True 99 7 ''b2'') 2,
      Order_insert (sample_order False 98 8 ''a1'') 3, Order_insert (sample_order True 99 2 ''b3'') 1,
      Order_cancel (OrderCancelData_ctor ''X'' 99 True ''b2'' ''C'') 2]"
  have al: "lists_allowed ?qs (\<lambda>_. [])" and n: "length (snd (lists_run ?qs (\<lambda>_. []))) = 9"
    by code_simp+
  obtain e ms where r: "engine_run ?qs MatchingEngine_ctor = (e, ms)" by fastforce
  note ref = engine_run_refines [OF al r]
  have "length ms = 9" using n unfolding conjunct1 [OF ref] snd_conv .
  moreover have "length ?qs = 5" by simp
  ultimately show ?thesis using al r ref by blast
qed

end
