(* ===== verification/ReferenceMarket.thy ===== *)
theory ReferenceMarket
  imports ReferenceEngine ModuleProps
begin

text \<open>
  The reference engine behind the network: a market is one reference engine per configured
  instrument, and a received buffer is the request that the processor hands to its handler. The
  module of the program does the same, over any history of buffers, from its configuration on.
\<close>

section \<open>The request of a buffer\<close>

text \<open>What a buffer asks for is what the processor calls, seen by a handler that only takes note.\<close>

definition recorder :: "('ep request option, 'ep) IOrderHandler" where
  "recorder =
     \<lparr>h_HandleOrderInsert = \<lambda>d ep s. (Some (Order_insert d ep), []),
      h_HandleOrderAmend = \<lambda>a ep s. (Some (Order_amend a ep), []),
      h_HandleOrderCancel = \<lambda>c ep s. (Some (Order_cancel c ep), []),
      h_GetOrderBook = \<lambda>i ep s. (s, [])\<rparr>"

definition request_read :: "'j json_api \<Rightarrow> 'ep received \<Rightarrow> 'ep request option" where
  "request_read J ev =
     (case ev of (now, buf, ep) \<Rightarrow>
       case Processor_Process J recorder now buf ep None of Inl x \<Rightarrow> None | Inr (q, ms) \<Rightarrow> q)"

fun request_instrument :: "'ep request \<Rightarrow> string" where
  "request_instrument (Order_insert d ep) = od_instrument d"
| "request_instrument (Order_amend a ep) = od_instrument a"
| "request_instrument (Order_cancel c ep) = oc_instrument c"

section \<open>The reference market\<close>

type_synonym market = "string \<rightharpoonup> order_lists"

definition market_buffer :: "'j json_api \<Rightarrow> 'ep received \<Rightarrow> market \<Rightarrow> market \<times> (Message \<times> 'ep) list" where
  "market_buffer J ev r =
     (case request_read J ev of
        None \<Rightarrow> (r, [])
      | Some q \<Rightarrow>
          (case r (request_instrument q) of
             None \<Rightarrow> (r, [])
           | Some l \<Rightarrow> (case lists_request q l of (l', ms) \<Rightarrow> (r(request_instrument q \<mapsto> l'), ms))))"

text \<open>No buffer cancels the only order of its price.\<close>

definition buffer_allowed :: "'j json_api \<Rightarrow> 'ep received \<Rightarrow> market \<Rightarrow> bool" where
  "buffer_allowed J ev r =
     (case request_read J ev of
        None \<Rightarrow> True
      | Some q \<Rightarrow> (case r (request_instrument q) of None \<Rightarrow> True | Some l \<Rightarrow> \<not> cancels_last q l))"

fun market_run :: "'j json_api \<Rightarrow> 'ep received list \<Rightarrow> market \<Rightarrow> market \<times> (Message \<times> 'ep) list" where
  "market_run J [] r = (r, [])"
| "market_run J (ev # evs) r =
     (case market_buffer J ev r of (r1, ms1) \<Rightarrow> (case market_run J evs r1 of (r2, ms2) \<Rightarrow> (r2, ms1 @ ms2)))"

fun market_allowed :: "'j json_api \<Rightarrow> 'ep received list \<Rightarrow> market \<Rightarrow> bool" where
  "market_allowed J [] r \<longleftrightarrow> True"
| "market_allowed J (ev # evs) r \<longleftrightarrow> buffer_allowed J ev r \<and> market_allowed J evs (fst (market_buffer J ev r))"

text \<open>The module over the same buffers; an exception changes and sends nothing.\<close>

definition module_received :: "'j json_api \<Rightarrow> 'ep received \<Rightarrow> engines \<Rightarrow> engines \<times> (Message \<times> 'ep) list" where
  "module_received J ev m =
     (case ev of (now, buf, ep) \<Rightarrow>
       case Module_OnWebSocketDataReceived J now buf ep m of Inl x \<Rightarrow> (m, []) | Inr r \<Rightarrow> r)"

fun module_history :: "'j json_api \<Rightarrow> 'ep received list \<Rightarrow> engines \<Rightarrow> engines \<times> (Message \<times> 'ep) list" where
  "module_history J [] m = (m, [])"
| "module_history J (ev # evs) m =
     (case module_received J ev m of (m1, ms1) \<Rightarrow> (case module_history J evs m1 of (m2, ms2) \<Rightarrow> (m2, ms1 @ ms2)))"

definition market_view :: "engines \<Rightarrow> market" where
  "market_view m = (\<lambda>i. map_option order_list (m i))"

section \<open>The module refines the market\<close>

fun module_request :: "'ep request \<Rightarrow> engines \<Rightarrow> engines \<times> (Message \<times> 'ep) list" where
  "module_request (Order_insert d ep) m = Module_HandleOrderInsert d ep m"
| "module_request (Order_amend a ep) m = Module_HandleOrderAmend a ep m"
| "module_request (Order_cancel c ep) m = Module_HandleOrderCancel c ep m"

lemma recorder_simps [simp]:
  "h_HandleOrderInsert recorder d ep s = (Some (Order_insert d ep), [])"
  "h_HandleOrderAmend recorder a ep s = (Some (Order_amend a ep), [])"
  "h_HandleOrderCancel recorder c ep s = (Some (Order_cancel c ep), [])"
  "h_GetOrderBook recorder i ep s = (s, [])"
  by (simp_all add: recorder_def)

text \<open>Whatever the handler, the processor makes the call that the recording one takes note of.\<close>

lemma recorded:
  "Processor_Process J module_handler now buf ep m =
     bind_e (Processor_Process J recorder now buf ep None) (\<lambda>(q, ms).
       Inr (case q of None \<Rightarrow> (m, []) | Some q \<Rightarrow> module_request q m))"
  by (simp add: Processor_Process_def Processor_HandleOrderInsert_def Processor_HandleOrderAmend_def
      Processor_HandleOrderCancel_def Processor_GetOrderBook_def handler_book bind_e_def split: sum.split prod.split)

lemma received_request:
  "module_received J ev m = (case request_read J ev of None \<Rightarrow> (m, []) | Some q \<Rightarrow> module_request q m)"
  by (cases ev) (auto simp: module_received_def request_read_def Module_OnWebSocketDataReceived_def recorded
      bind_e_def split: sum.split option.split prod.split)

lemma request_engine:
  "module_request q m =
     (case m (request_instrument q) of
        None \<Rightarrow> (m, [])
      | Some e \<Rightarrow> (case engine_request q e of (e', ms) \<Rightarrow> (m(request_instrument q \<mapsto> e'), ms)))"
  by (cases q) (simp_all add: Module_HandleOrderInsert_def Module_HandleOrderAmend_def Module_HandleOrderCancel_def Let_def split: option.split)

definition engine_good :: "MatchingEngine \<Rightarrow> bool" where
  "engine_good e \<longleftrightarrow> engine_ok e \<and> engine_full e \<and> uncrossed e"

lemma received_refines:
  assumes good: "\<forall>e \<in> ran m. engine_good e" and c: "buffer_allowed J ev (market_view m)"
    and r: "module_received J ev m = (m', ms)"
  shows "market_buffer J ev (market_view m) = (market_view m', ms) \<and> (\<forall>e \<in> ran m'. engine_good e)"
proof (cases "request_read J ev")
  case None
  with good r show ?thesis by (simp add: received_request market_buffer_def)
next
  case (Some q)
  let ?i = "request_instrument q"
  show ?thesis
  proof (cases "m ?i")
    case None
    with Some good r show ?thesis by (simp add: received_request request_engine market_buffer_def market_view_def)
  next
    case e: (Some e)
    obtain e' ms' where s: "engine_request q e = (e', ms')" by fastforce
    with Some e r have m': "m' = m(?i \<mapsto> e')" and ms: "ms = ms'" by (simp_all add: received_request request_engine)
    from good e have "engine_ok e" "engine_full e" "uncrossed e" by (auto simp: ran_def engine_good_def)
    from step_refines [OF this _ s] c Some e
    have l: "lists_request q (order_list e) = (order_list e', ms')" and g: "engine_good e'"
      by (simp_all add: buffer_allowed_def market_view_def engine_good_def)
    have "\<forall>e \<in> ran m'. engine_good e" using good g by (auto simp: m' ran_def split: if_splits)
    with l Some e show ?thesis by (simp add: market_buffer_def market_view_def m' ms fun_eq_iff)
  qed
qed

lemma history_refines:
  "\<forall>e \<in> ran m. engine_good e \<Longrightarrow> market_allowed J evs (market_view m) \<Longrightarrow> module_history J evs m = (m', ms) \<Longrightarrow>
   market_run J evs (market_view m) = (market_view m', ms) \<and> (\<forall>e \<in> ran m'. engine_good e)"
proof (induction evs arbitrary: m ms)
  case (Cons ev evs)
  obtain m1 ms1 where s: "module_received J ev m = (m1, ms1)" by fastforce
  obtain ms2 where h: "module_history J evs m1 = (m', ms2)" "ms = ms1 @ ms2"
    using Cons.prems(3) s by (auto split: prod.splits)
  from received_refines [OF Cons.prems(1) _ s] Cons.prems(2)
  have i: "market_buffer J ev (market_view m) = (market_view m1, ms1)" "\<forall>e \<in> ran m1. engine_good e" by auto
  with Cons.IH [OF i(2) _ h(1)] Cons.prems(2) h(2) show ?case by simp
qed simp

lemma load_ctor:
  "load_instruments J vs m = (m', r) \<Longrightarrow> \<forall>e \<in> ran m. e = MatchingEngine_ctor \<Longrightarrow> \<forall>e \<in> ran m'. e = MatchingEngine_ctor"
proof (induction vs arbitrary: m)
  case (Cons v vs)
  show ?case
  proof (cases "j_as_string J v")
    case (Inl x)
    with Cons.prems show ?thesis by simp
  next
    case (Inr i)
    with Cons.prems(1) have "load_instruments J vs (m(c_str i \<mapsto> MatchingEngine_ctor)) = (m', r)" by simp
    moreover have "\<forall>e \<in> ran (m(c_str i \<mapsto> MatchingEngine_ctor)). e = MatchingEngine_ctor"
      using Cons.prems(2) by (auto simp: ran_def)
    ultimately show ?thesis by (rule Cons.IH)
  qed
qed simp

lemma config_ctor:
  assumes "MatchingEngineModule_LoadConfig J v Map.empty = (m, r)"
  shows "\<forall>e \<in> ran m. e = MatchingEngine_ctor"
proof (cases "bind_e (j_at J v ''Instruments'') (j_as_array J)")
  case (Inl x)
  with assms show ?thesis by (auto simp: MatchingEngineModule_LoadConfig_def)
next
  case (Inr vs)
  with assms have "load_instruments J vs Map.empty = (m, r)" by (simp add: MatchingEngineModule_LoadConfig_def)
  from load_ctor [OF this] show ?thesis by simp
qed

lemma ctor_good: "engine_good MatchingEngine_ctor"
  unfolding engine_good_def using engine_ok_ctor
  by (simp add: MatchingEngine_ctor_def uncrossed_def engine_full_def no_empty_def)

text \<open>
  C2: Configured with any list of instruments, the module is the reference market over any history of
  buffers, malformed ones and unknown instruments included, none of which cancels the only order
  of its price: it sends the same messages in the same order to the same endpoints, its books hold
  the same orders in the same order, and no bid reaches an ask.
\<close>

theorem module_refines_market:
  assumes "MatchingEngineModule_LoadConfig J v Map.empty = (m, r)" and "market_allowed J evs (market_view m)"
    and "module_history J evs m = (m', ms)"
  shows "market_run J evs (market_view m) = (market_view m', ms) \<and> (\<forall>e \<in> ran m'. uncrossed e)"
proof -
  have "\<forall>e \<in> ran m. engine_good e" using config_ctor [OF assms(1)] ctor_good by fast
  from history_refines [OF this assms(2,3)] show ?thesis by (auto simp: engine_good_def)
qed

text \<open>
  A module with one instrument gets an insert, a buffer that is not a document, an insert for
  another instrument and an amend, from two senders.
\<close>

theorem module_refines_market_witness:
  "\<exists>m (evs :: nat received list) m' ms. MatchingEngineModule_LoadConfig sample_api (JObj [(''Instruments'', JArr [JStr ''X''])]) Map.empty = (m, Inr True) \<and>
    length evs = 4 \<and> market_allowed sample_api evs (market_view m) \<and> module_history sample_api evs m = (m', ms) \<and>
    market_run sample_api evs (market_view m) = (market_view m', ms) \<and> length ms = 2 \<and> (\<exists>e. m' ''X'' = Some e \<and> uncrossed e)"
proof -
  let ?m = "[''X'' \<mapsto> MatchingEngine_ctor]"
  let ?evs = "[(5 :: int, ''insert'', 7 :: nat), (6, ''{'', 8), (7, ''other'', 8), (8, ''amend'', 7)]"
  have c: "MatchingEngineModule_LoadConfig sample_api (JObj [(''Instruments'', JArr [JStr ''X''])]) Map.empty = (?m, Inr True)"
    by (simp add: MatchingEngineModule_LoadConfig_def sample_api_def c_str_def)
  have al: "market_allowed sample_api ?evs (market_view ?m)" by code_simp
  have n: "length (snd (market_run sample_api ?evs (market_view ?m))) = 2" by code_simp
  obtain m' ms where h: "module_history sample_api ?evs ?m = (m', ms)" by fastforce
  note ref = module_refines_market [OF c al h]
  have l: "length ms = 2" using n unfolding conjunct1 [OF ref] snd_conv .
  have "fst (market_run sample_api ?evs (market_view ?m)) ''X'' \<noteq> None" by code_simp
  then have "\<exists>e. m' ''X'' = Some e" unfolding conjunct1 [OF ref] by (simp add: market_view_def)
  with ref have "\<exists>e. m' ''X'' = Some e \<and> uncrossed e" by (auto simp: ran_def)
  moreover have "length ?evs = 4" by simp
  ultimately show ?thesis using c al h ref l by blast
qed

end
