(* ===== verification/PriceTime.thy ===== *)
theory PriceTime
  imports ReferenceEngine
begin

text \<open>
  Price-time priority as a sweep over the orders of the other side, and the one state in which the
  engine does not follow it: a side whose best level was emptied by a cancel.
\<close>

section \<open>The sweep of a new order\<close>

text \<open>
  The new order meets the orders of the other side one after the other, as long as its price
  accepts theirs: it takes an order whole while it has more volume, and the last one in part or
  whole. Returned: what is left of the other side, what is left of the new order, and the fills.
\<close>

fun sweep :: "OrderInsertData \<Rightarrow> OrderInsertData list \<Rightarrow> OrderInsertData list \<times> OrderInsertData option \<times> fill list" where
  "sweep d [] = ([], Some d, [])"
| "sweep d (x # os) =
     (if \<not> matchPricePredicate d x then (x # os, Some d, [])
      else if od_volume d < od_volume x then (x\<lparr>od_volume := od_volume x - od_volume d\<rparr> # os, None, [(x, d, od_volume d)])
      else if od_volume d = od_volume x then (os, None, [(x, d, od_volume d)])
      else (case sweep (d\<lparr>od_volume := od_volume d - od_volume x\<rparr>) os of
              (os', rest, fs) \<Rightarrow> (os', rest, (x, d, od_volume x) # fs)))"

lemma sweep_rest: "sweep d os = (os', Some d', fs) \<Longrightarrow> \<exists>v. d' = d\<lparr>od_volume := v\<rparr>"
proof (induction d os arbitrary: os' d' fs rule: sweep.induct)
  case (1 d)
  then have "d' = d\<lparr>od_volume := od_volume d\<rparr>" by simp
  then show ?case by blast
next
  case (2 d x os)
  show ?case
  proof (cases "matchPricePredicate d x \<and> od_volume x < od_volume d")
    case True
    with "2.prems" obtain fs1 where s: "sweep (d\<lparr>od_volume := od_volume d - od_volume x\<rparr>) os = (os', Some d', fs1)"
      by (auto split: prod.splits if_splits)
    from "2.IH" [OF _ _ _ s] True show ?thesis by auto
  next
    case False
    then have "d' = d\<lparr>od_volume := od_volume d\<rparr>" using "2.prems" by (auto split: if_splits)
    then show ?thesis by blast
  qed
qed

lemma match_price_volume [simp]:
  "matchPricePredicate (d\<lparr>od_volume := v\<rparr>) x = matchPricePredicate d x"
  "matchPricePredicate d (x\<lparr>od_volume := v\<rparr>) = matchPricePredicate d x"
  by (simp_all add: matchPricePredicate_def)

lemma match_none: "\<forall>x \<in> set os. \<forall>m \<in> set ms. \<not> matchPricePredicate m x \<Longrightarrow> match_lists os ms = (os, ms, [])"
  by (cases os; cases ms) auto

lemma match_sweep:
  "\<forall>x \<in> set os. \<forall>m \<in> set ms. \<not> matchPricePredicate m x \<Longrightarrow>
   match_lists os (d # ms) = (case sweep d os of (os', rest, fs) \<Rightarrow> (os', (case rest of None \<Rightarrow> ms | Some d' \<Rightarrow> d' # ms), fs))"
proof (induction d os rule: sweep.induct)
  case (2 d x os)
  show ?case
  proof (cases "matchPricePredicate d x")
    case m: True
    consider "od_volume d < od_volume x" | "od_volume d = od_volume x" | "od_volume x < od_volume d" by (metis linorder_cases)
    then show ?thesis
    proof cases
      case 1
      have "match_lists (x\<lparr>od_volume := od_volume x - od_volume d\<rparr> # os) ms =
          (x\<lparr>od_volume := od_volume x - od_volume d\<rparr> # os, ms, [])"
        by (rule match_none) (use "2.prems" in auto)
      moreover have "min (od_volume d) (od_volume x) = od_volume d" "od_volume x \<noteq> od_volume d" using 1 by auto
      ultimately show ?thesis using 1 m by (simp add: reduce_front_def Let_def)
    next
      case 2
      have "match_lists os ms = (os, ms, [])" by (rule match_none) (use "2.prems" in auto)
      with 2 m show ?thesis by (simp add: reduce_front_def Let_def)
    next
      case 3
      then have v: "od_volume d \<noteq> od_volume x" "\<not> od_volume d < od_volume x"
        "min (od_volume d) (od_volume x) = od_volume x" by auto
      from "2.IH" [OF _ v(2,1)] "2.prems" m
      have "match_lists os (d\<lparr>od_volume := od_volume d - od_volume x\<rparr> # ms) =
          (case sweep (d\<lparr>od_volume := od_volume d - od_volume x\<rparr>) os of
             (os', rest, fs) \<Rightarrow> (os', (case rest of None \<Rightarrow> ms | Some d' \<Rightarrow> d' # ms), fs))" by simp
      with v m show ?thesis by (simp add: reduce_front_def Let_def split: prod.split)
    qed
  qed simp
qed simp

lemma place_first: "\<forall>b \<in> set os. side_lt x (od_price d) (od_price b) \<Longrightarrow> place x d os = d # os"
  by (cases os) (auto simp: place_def)

text \<open>In a book that is not crossed, an order that reaches the other side is the best of its own.\<close>

lemma reaching_first:
  assumes "uncrossed e" and "engine_ok e" and "x \<in> set (orders (side (\<not> od_isBuySide d) e))" and "matchPricePredicate d x"
  shows "\<forall>b \<in> set (orders (side (od_isBuySide d) e)). side_lt (od_isBuySide d) (od_price d) (od_price b)"
  using assms
  by (cases "od_isBuySide d")
    (auto simp: uncrossed_def matchPricePredicate_def side_def std_greater_def std_less_def intro: less_le_trans le_less_trans)

lemma own_side_waits:
  assumes "uncrossed e" and "engine_ok e" and "m \<in> set (orders (side x e))" and "a \<in> set (orders (side (\<not> x) e))"
  shows "\<not> matchPricePredicate m a"
proof -
  have "od_isBuySide m = x" by (rule sides.my.orders_side [OF engine_okD [OF assms(2)] assms(3)])
  with assms show ?thesis
    by (cases x) (auto simp: uncrossed_def matchPricePredicate_def side_def not_le)
qed

lemma sweep_place:
  assumes e: "engine_ok e" "uncrossed e"
    and s: "sweep d (orders (side (\<not> od_isBuySide d) e)) = (os', rest, fs)"
  shows "match_lists (orders (side (\<not> od_isBuySide d) e)) (place (od_isBuySide d) d (orders (side (od_isBuySide d) e))) =
    (os', (case rest of None \<Rightarrow> orders (side (od_isBuySide d) e)
           | Some d' \<Rightarrow> place (od_isBuySide d) d' (orders (side (od_isBuySide d) e))), fs)"
proof (cases "orders (side (\<not> od_isBuySide d) e)")
  case Nil
  with s show ?thesis by auto
next
  case (Cons x xs)
  note w = own_side_waits [OF e(2,1)]
  show ?thesis
  proof (cases "matchPricePredicate d x")
    case False
    have "place (od_isBuySide d) d (orders (side (od_isBuySide d) e)) = m # ms \<Longrightarrow> \<not> matchPricePredicate m x" for m ms
      using w [of m "od_isBuySide d" x] Cons False
      by (cases "orders (side (od_isBuySide d) e)") (auto simp: place_def split: if_splits)
    then have "match_lists (x # xs) (place (od_isBuySide d) d (orders (side (od_isBuySide d) e))) =
        (x # xs, place (od_isBuySide d) d (orders (side (od_isBuySide d) e)), [])"
      by (cases "place (od_isBuySide d) d (orders (side (od_isBuySide d) e))") auto
    moreover have "os' = x # xs" "rest = Some d" "fs = []" using s False unfolding Cons by auto
    ultimately show ?thesis unfolding Cons by simp
  next
    case True
    from reaching_first [OF e(2,1) _ True] Cons
    have f: "\<forall>b \<in> set (orders (side (od_isBuySide d) e)). side_lt (od_isBuySide d) (od_price d) (od_price b)" by simp
    have "match_lists (orders (side (\<not> od_isBuySide d) e)) (d # orders (side (od_isBuySide d) e)) =
        (os', (case rest of None \<Rightarrow> orders (side (od_isBuySide d) e) | Some d' \<Rightarrow> d' # orders (side (od_isBuySide d) e)), fs)"
      using match_sweep [of "orders (side (\<not> od_isBuySide d) e)" "orders (side (od_isBuySide d) e)" d] w s by auto
    moreover have "place (od_isBuySide d) d' (orders (side (od_isBuySide d) e)) = d' # orders (side (od_isBuySide d) e)"
      if "rest = Some d'" for d'
      using sweep_rest [OF s [unfolded that]] f by (auto intro!: place_first)
    ultimately show ?thesis by (auto simp: place_first [OF f] split: option.split)
  qed
qed

text \<open>
  C5: Price-time priority, in an engine without an empty level whose book is not crossed: a new
  order sweeps the orders of the other side in the order of price and time, each taken whole
  before the next is touched, as far as its volume and its price reach; the other side keeps
  exactly the rest. What is left of the new order goes behind the orders of its own side that are
  not worse, of which none is touched; and the requester gets the reply and the two trades of
  every fill, in the order of the fills.
\<close>

theorem insert_priority:
  assumes "engine_ok e" and "engine_full e" and "uncrossed e"
    and "MatchingEngine_OrderInsert d ep e = (e', ms)"
    and "sweep d (orders (side (\<not> od_isBuySide d) e)) = (left, rest, fs)"
  shows "orders (side (\<not> od_isBuySide d) e') = left \<and>
    orders (side (od_isBuySide d) e') =
      (case rest of None \<Rightarrow> orders (side (od_isBuySide d) e)
       | Some d' \<Rightarrow> place (od_isBuySide d) d' (orders (side (od_isBuySide d) e))) \<and>
    ms = (insert_reply d, ep) # map (\<lambda>t. (MsgTrade t, ep)) (trades_of fs)"
proof -
  from insert_matching [OF assms(1,2,4)] obtain fs' where
    "match_lists (orders (side (\<not> od_isBuySide d) e)) (orders (side (od_isBuySide d) (inserted d e))) =
       (orders (side (\<not> od_isBuySide d) e'), orders (side (od_isBuySide d) e'), fs')"
    "ms = (insert_reply d, ep) # map (\<lambda>t. (MsgTrade t, ep)) (trades_of fs')" by metis
  with sweep_place [OF assms(1,3,5)] show ?thesis
    by (simp add: inserted_side insert_list [OF engine_okD [OF assms(1)] refl])
qed

text \<open>A bid that takes the oldest ask whole, part of the next, and leaves the ask beyond its price.\<close>

theorem insert_priority_witness:
  "case MatchingEngine_OrderInsert (sample_order True 102 7 ''b3'') (0 :: nat) sample_engine of
     (e', ms) \<Rightarrow> orders (side False e') = [sample_order False 101 3 ''a2'', sample_order False 103 2 ''a3''] \<and>
       orders (side True e') = [sample_order True 99 5 ''b1'', sample_order True 98 7 ''b2''] \<and> length ms = 5"
proof -
  obtain e' ms where r: "MatchingEngine_OrderInsert (sample_order True 102 7 ''b3'') (0 :: nat) sample_engine = (e', ms)"
    by fastforce
  have s: "sweep (sample_order True 102 7 ''b3'') (orders (side (\<not> od_isBuySide (sample_order True 102 7 ''b3'')) sample_engine)) =
      ([sample_order False 101 3 ''a2'', sample_order False 103 2 ''a3''], None,
       [(sample_order False 101 4 ''a1'', sample_order True 102 7 ''b3'', 4),
        (sample_order False 101 6 ''a2'', sample_order True 102 3 ''b3'', 3)])"
    by (simp add: side_def sample_engine_def matchPricePredicate_def)
  have o: "orders (side True sample_engine) = [sample_order True 99 5 ''b1'', sample_order True 98 7 ''b2'']"
    by (simp add: side_def sample_engine_def)
  from insert_priority [OF sample_ok r s] show ?thesis by (simp add: r o)
qed

section \<open>An emptied best level\<close>

text \<open>A request that brings an order of the side \<open>x\<close> to the price \<open>p\<close> or a better one.\<close>

fun reaches :: "bool \<Rightarrow> u64 \<Rightarrow> 'ep request \<Rightarrow> bool" where
  "reaches x p (Order_insert d ep) \<longleftrightarrow> od_isBuySide d = x \<and> \<not> side_lt x p (od_price d)"
| "reaches x p (Order_amend a ep) \<longleftrightarrow> od_isBuySide a = x \<and> \<not> side_lt x p (od_newPrice a)"
| "reaches x p (Order_cancel c ep) \<longleftrightarrow> False"

lemma behind_Insert:
  "side_lt x p (od_price d) \<Longrightarrow> \<exists>r'. fst (OrderBook_Insert (side_lt x) d ((p, []) # r)) = (p, []) # r'"
  using side_lt_asym [of x p "od_price d"] by (auto simp: sides.my.Insert_book split: option.split)

lemma behind_Cancel: "\<exists>r'. fst (OrderBook_Cancel (side_lt x) c ((p, []) # r)) = (p, []) # r'"
  by (auto simp: OrderBook_Cancel_def OrderLevel_CancelOrder_def Let_def split: option.split)

lemma behind_Amend:
  "side_lt x p (od_newPrice a) \<Longrightarrow> \<exists>r'. fst (OrderBook_Amend (side_lt x) a ((p, []) # r)) = (p, []) # r'"
  using side_lt_asym [of x p "od_newPrice a"]
  by (auto simp: OrderBook_Amend_def OrderLevel_CancelOrder_def OrderLevel_ChangeOrderVolume_def OrderLevel_Find_def
      OrderLevel_MoveOrder_def sides.my.Remove_eq Let_def split: option.split)

lemma blocked_step:
  assumes "side x e = (p, []) # r" and "\<not> reaches x p q" and "engine_request q e = (e', ms)"
  shows "(\<exists>r'. side x e' = (p, []) # r') \<and> (\<forall>(m, ep) \<in> set ms. \<forall>t. m \<noteq> MsgTrade t)"
proof (cases q)
  case (Order_insert d ep)
  have "\<exists>r'. side x (inserted d e) = (p, []) # r'"
    using assms(1,2) behind_Insert [of x p d r] Order_insert by (auto simp: inserted_side)
  then obtain r' where r': "side x (inserted d e) = (p, []) # r'" ..
  from assms(3) Order_insert show ?thesis
    by (auto simp: OrderInsert_eq CheckMatch_blocked [OF r'] r' insert_reply_def)
next
  case (Order_amend a ep)
  have "\<exists>r'. side x (fst (MatchingEngine_Amend a e)) = (p, []) # r'"
    using assms(1,2) behind_Amend [of x p a r] Order_amend by (auto simp: Amend_side)
  then obtain r' where r': "side x (fst (MatchingEngine_Amend a e)) = (p, []) # r'" ..
  from assms(1,3) Order_amend show ?thesis
    by (cases "snd (MatchingEngine_Amend a e)") (auto simp: OrderAmend_true OrderAmend_false CheckMatch_blocked [OF r'] r')
next
  case (Order_cancel c ep)
  have "\<exists>r'. side x (fst (MatchingEngine_Cancel c e)) = (p, []) # r'"
    using assms(1) behind_Cancel [of x c p r] by (auto simp: Cancel_side)
  with assms(1,3) Order_cancel show ?thesis by (auto simp: OrderCancel_eq split: if_splits)
qed

text \<open>
  C10: Cancelling the only order of the best level of a side leaves the level at the head of the
  side, empty. As long as no insert or amend brings an order of that side to the price of that
  level or a better one, it stays there and not one trade is made, whatever other requests of both
  sides follow, and whatever prices they name: the orders of the other side do not trade with the
  levels behind it.
\<close>

theorem cancel_blocks_matching:
  assumes "engine_ok e" and "side (oc_isBuySide c) e = (p, [d]) # rest"
    and "od_id d = oc_id c" and "oc_price c = p"
    and "\<forall>q \<in> set qs. \<not> reaches (oc_isBuySide c) p q"
    and "engine_run (Order_cancel c ep # qs) e = (e', ms)"
  shows "side (oc_isBuySide c) (fst (MatchingEngine_OrderCancel c ep e)) = (p, []) # rest \<and>
    (\<exists>rest'. side (oc_isBuySide c) e' = (p, []) # rest') \<and> (\<forall>(m, ep) \<in> set ms. \<forall>t. m \<noteq> MsgTrade t)"
proof -
  have q: "side_queue (oc_isBuySide c) e (oc_price c) = [d]"
    using assms(2,4) by (simp add: side_queue_def queue_at_def)
  then have "\<exists>d \<in> set (side_queue (oc_isBuySide c) e (oc_price c)). od_id d = oc_id c" using assms(3) by simp
  then have c: "MatchingEngine_OrderCancel c ep e =
      (fst (MatchingEngine_Cancel c e), [(MsgOrderReply (OrderReply_ctor (oc_id c) (oc_clientId c)), ep)])"
    by (simp add: OrderCancel_eq)
  have h: "side (oc_isBuySide c) (fst (MatchingEngine_Cancel c e)) = (p, []) # rest"
    using assms(2,3,4) q [unfolded side_queue_def] by (simp add: Cancel_side sides.my.Cancel_eq has_id_def)
  have run: "engine_run qs e1 = (e2, ms2) \<Longrightarrow> \<forall>q \<in> set qs. \<not> reaches x p q \<Longrightarrow> side x e1 = (p, []) # r \<Longrightarrow>
      (\<exists>r'. side x e2 = (p, []) # r') \<and> (\<forall>(m, ep) \<in> set ms2. \<forall>t. m \<noteq> MsgTrade t)" for qs x e1 e2 ms2 r
  proof (induction qs arbitrary: e1 ms2 r)
    case (Cons q qs)
    obtain e3 ms3 where s: "engine_request q e1 = (e3, ms3)" by fastforce
    obtain ms4 where n: "engine_run qs e3 = (e2, ms4)" "ms2 = ms3 @ ms4" using Cons.prems(1) s by (auto split: prod.splits)
    from blocked_step [OF Cons.prems(3) _ s] Cons.prems(2) obtain r' where
      "side x e3 = (p, []) # r'" "\<forall>(m, ep) \<in> set ms3. \<forall>t. m \<noteq> MsgTrade t" by auto
    with Cons.IH [OF n(1)] Cons.prems(2) n(2) show ?case by auto
  qed simp
  obtain ms2 where "engine_run qs (fst (MatchingEngine_Cancel c e)) = (e', ms2)"
    "ms = (MsgOrderReply (OrderReply_ctor (oc_id c) (oc_clientId c)), ep) # ms2"
    using assms(6) c by (auto split: prod.splits)
  with run [OF _ assms(5) h] h c show ?thesis by auto
qed

text \<open>
  The best bid is cancelled; asks at any price, an ask amended down to 1, and a bid behind the
  emptied level do not trade, although the bids behind it reach them.
\<close>

theorem cancel_blocks_matching_witness:
  "side True (fst (MatchingEngine_OrderCancel (OrderCancelData_ctor ''X'' 99 True ''b1'' ''C'') (0 :: nat) sample_engine)) =
      [(99, []), (98, [sample_order True 98 7 ''b2''])] \<and>
   list_all (\<lambda>(m, ep). case m of MsgTrade t \<Rightarrow> False | _ \<Rightarrow> True)
     (snd (engine_run [Order_cancel (OrderCancelData_ctor ''X'' 99 True ''b1'' ''C'') (0 :: nat),
        Order_insert (sample_order False 90 7 ''a9'') 1, Order_amend (sample_amend False 103 1 2 ''a3'') 2,
        Order_insert (sample_order True 97 8 ''b9'') 3] sample_engine))"
proof -
  let ?c = "OrderCancelData_ctor ''X'' 99 True ''b1'' ''C''"
  let ?qs = "[Order_insert (sample_order False 90 7 ''a9'') (1 :: nat), Order_amend (sample_amend False 103 1 2 ''a3'') 2,
      Order_insert (sample_order True 97 8 ''b9'') 3]"
  have s: "side (oc_isBuySide ?c) sample_engine = (99, [sample_order True 99 5 ''b1'']) # [(98, [sample_order True 98 7 ''b2''])]"
    by (simp add: side_def sample_engine_def OrderCancelData_ctor_def)
  have a: "od_id (sample_order True 99 5 ''b1'') = oc_id ?c" "oc_price ?c = 99"
    by (simp_all add: OrderCancelData_ctor_def)
  have n: "\<forall>q \<in> set ?qs. \<not> reaches (oc_isBuySide ?c) 99 q"
    by (simp add: OrderCancelData_ctor_def std_greater_def)
  have b: "oc_isBuySide ?c" by (simp add: OrderCancelData_ctor_def)
  have "list_all (\<lambda>(m, ep). case m of MsgTrade t \<Rightarrow> False | _ \<Rightarrow> True) ms \<longleftrightarrow> (\<forall>(m, ep) \<in> set ms. \<forall>t. m \<noteq> MsgTrade t)"
    for ms :: "(Message \<times> nat) list"
    by (auto simp: list_all_iff split: Message.splits)
  with cancel_blocks_matching [OF sample_ok(1) s a n prod.collapse [symmetric], of 0] b show ?thesis by simp
qed

end
