(* ===== verification/EngineThreads.thy ===== *)
theory EngineThreads
  imports ReferenceEngine
begin

text \<open>
  The requests of an engine on the threads of the service. A request locks the mutex of the engine,
  changes a book and answers, makes the passes of the matching loop one by one, and unlocks; the
  walk over the book takes no lock. Threads call requests in any order and take turns after every
  statement. \<open>et_Requests\<close> records the requests in the order they got the mutex, \<open>et_Sent\<close> what was
  sent by all of them.
\<close>

section \<open>A request in steps\<close>

text \<open>The part of a request before the matching, with what it sends and whether there is matching.\<close>

fun request_head :: "'ep request \<Rightarrow> MatchingEngine \<Rightarrow> MatchingEngine \<times> (Message \<times> 'ep) list \<times> (bool \<times> 'ep) option" where
  "request_head (Order_insert d ep) e =
     (case MatchingEngine_InsertOrder d e of
        (e1, Some insertedOrder) \<Rightarrow>
          (e1, [(MsgOrderReply (OrderReply_ctor (od_id insertedOrder) (od_clientId insertedOrder)), ep)], Some (od_isBuySide d, ep))
      | (e1, None) \<Rightarrow> (e1, [(MsgErrorReply (ErrorReply_ctor (od_clientId d) ''Failed to insert order''), ep)], None))"
| "request_head (Order_amend a ep) e =
     (let (e1, amended) = MatchingEngine_Amend a e
      in if amended then (e1, [(MsgOrderReply (OrderReply_ctor (od_id a) (od_clientId a)), ep)], Some (od_isBuySide a, ep))
         else (e1, [(MsgErrorReply (ErrorReply_ctor (od_clientId a) ''Failed to amend order''), ep)], None))"
| "request_head (Order_cancel c ep) e =
     (let (e1, cancelled) = MatchingEngine_Cancel c e
      in if cancelled then (e1, [(MsgOrderReply (OrderReply_ctor (oc_id c) (oc_clientId c)), ep)], None)
         else (e1, [(MsgErrorReply (ErrorReply_ctor (oc_clientId c) ''Failed to cancel order''), ep)], None))"

text \<open>One pass of the loop of \<open>ExecuteOrder\<close> on the books of the engine.\<close>

definition match_pass :: "bool \<Rightarrow> MatchingEngine \<Rightarrow> (MatchingEngine \<times> Trade list) option" where
  "match_pass buy e =
     (if buy then
        (case ExecuteOrder_body std_less std_greater (me_Asks e) (me_Bids e) of
           None \<Rightarrow> None
         | Some (asks, bids, ts) \<Rightarrow> Some (e\<lparr>me_Asks := asks, me_Bids := bids\<rparr>, ts))
      else
        (case ExecuteOrder_body std_greater std_less (me_Bids e) (me_Asks e) of
           None \<Rightarrow> None
         | Some (bids, asks, ts) \<Rightarrow> Some (e\<lparr>me_Bids := bids, me_Asks := asks\<rparr>, ts)))"

lemma match_pass_None: "match_pass buy e = None \<Longrightarrow> MatchingEngine_CheckMatch buy ep e = (e, [])"
  by (cases buy)
    (auto simp: match_pass_def MatchingEngine_CheckMatch_def
      ExecuteOrder.simps [of std_less std_greater "me_Asks e"] ExecuteOrder.simps [of std_greater std_less "me_Bids e"]
      split: option.splits)

lemma match_pass_Some:
  "match_pass buy e = Some (e1, ts) \<Longrightarrow>
   MatchingEngine_CheckMatch buy ep e =
     (case MatchingEngine_CheckMatch buy ep e1 of (e2, ms) \<Rightarrow> (e2, map (\<lambda>t. (MsgTrade t, ep)) ts @ ms))"
  by (cases buy)
    (auto simp: match_pass_def MatchingEngine_CheckMatch_def Let_def
      ExecuteOrder.simps [of std_less std_greater "me_Asks e"] ExecuteOrder.simps [of std_greater std_less "me_Bids e"]
      split: option.splits prod.splits)

lemma request_steps:
  "engine_request q e =
     (case request_head q e of
        (e1, ms, None) \<Rightarrow> (e1, ms)
      | (e1, ms, Some (buy, ep)) \<Rightarrow> (case MatchingEngine_CheckMatch buy ep e1 of (e2, ms') \<Rightarrow> (e2, ms @ ms')))"
  by (cases q) (auto simp: MatchingEngine_OrderInsert_def MatchingEngine_OrderAmend_def MatchingEngine_OrderCancel_def Let_def
      split: option.split prod.split)

section \<open>The threads\<close>

datatype 'ep thread_at =
    At_idle
  | At_lock "'ep request"
  | At_request "'ep request"
  | At_match bool 'ep
  | At_unlock
  | At_walk

record 'ep engine_threads =
  et_Engine :: MatchingEngine
  et_Mutex :: "nat option"
  et_Threads :: "nat \<Rightarrow> 'ep thread_at"
  et_Requests :: "'ep request list"
  et_Sent :: "(Message \<times> 'ep) list"

definition threads_start :: "'ep engine_threads" where
  "threads_start = \<lparr>et_Engine = MatchingEngine_ctor, et_Mutex = None, et_Threads = \<lambda>_. At_idle, et_Requests = [], et_Sent = []\<rparr>"

abbreviation moves_to :: "nat \<Rightarrow> 'ep thread_at \<Rightarrow> 'ep engine_threads \<Rightarrow> 'ep engine_threads" where
  "moves_to t a s \<equiv> s\<lparr>et_Threads := (et_Threads s)(t := a)\<rparr>"

inductive engine_step :: "'ep engine_threads \<Rightarrow> 'ep engine_threads \<Rightarrow> bool" where
  call: "et_Threads s t = At_idle \<Longrightarrow> engine_step s (moves_to t (At_lock q) s)"
| lock: "et_Threads s t = At_lock q \<Longrightarrow> et_Mutex s = None \<Longrightarrow>
    engine_step s (moves_to t (At_request q) (s\<lparr>et_Mutex := Some t, et_Requests := et_Requests s @ [q]\<rparr>))"
| request: "et_Threads s t = At_request q \<Longrightarrow> request_head q (et_Engine s) = (e, ms, matching) \<Longrightarrow>
    engine_step s (moves_to t (case matching of None \<Rightarrow> At_unlock | Some (buy, ep) \<Rightarrow> At_match buy ep)
      (s\<lparr>et_Engine := e, et_Sent := et_Sent s @ ms\<rparr>))"
| pass: "et_Threads s t = At_match buy ep \<Longrightarrow> match_pass buy (et_Engine s) = Some (e, ts) \<Longrightarrow>
    engine_step s (s\<lparr>et_Engine := e, et_Sent := et_Sent s @ map (\<lambda>t. (MsgTrade t, ep)) ts\<rparr>)"
| matched: "et_Threads s t = At_match buy ep \<Longrightarrow> match_pass buy (et_Engine s) = None \<Longrightarrow> engine_step s (moves_to t At_unlock s)"
| unlock: "et_Threads s t = At_unlock \<Longrightarrow> engine_step s (moves_to t At_idle (s\<lparr>et_Mutex := None\<rparr>))"
| walk: "et_Threads s t = At_idle \<Longrightarrow> engine_step s (moves_to t At_walk s)"
| walked: "et_Threads s t = At_walk \<Longrightarrow> engine_step s (moves_to t At_idle s)"

section \<open>One request after the other\<close>

fun holds_mutex :: "'ep thread_at \<Rightarrow> bool" where
  "holds_mutex (At_request q) = True"
| "holds_mutex (At_match buy ep) = True"
| "holds_mutex At_unlock = True"
| "holds_mutex a = False"

text \<open>What is left of the request that has the mutex.\<close>

fun rest_of :: "'ep thread_at \<Rightarrow> MatchingEngine \<Rightarrow> MatchingEngine \<times> (Message \<times> 'ep) list" where
  "rest_of (At_request q) e = engine_request q e"
| "rest_of (At_match buy ep) e = MatchingEngine_CheckMatch buy ep e"
| "rest_of a e = (e, [])"

definition current :: "'ep engine_threads \<Rightarrow> 'ep thread_at" where
  "current s = (case et_Mutex s of None \<Rightarrow> At_idle | Some t \<Rightarrow> et_Threads s t)"

definition serial :: "'ep engine_threads \<Rightarrow> bool" where
  "serial s \<longleftrightarrow>
     (\<forall>t. holds_mutex (et_Threads s t) \<longleftrightarrow> et_Mutex s = Some t) \<and>
     engine_run (et_Requests s) MatchingEngine_ctor =
       (case rest_of (current s) (et_Engine s) of (e, ms) \<Rightarrow> (e, et_Sent s @ ms))"

lemma engine_run_snoc:
  "engine_run (qs @ [q]) e = (case engine_run qs e of (e1, ms1) \<Rightarrow> (case engine_request q e1 of (e2, ms2) \<Rightarrow> (e2, ms1 @ ms2)))"
  by (induction qs arbitrary: e) (auto split: prod.split)

lemma serialD: "serial s \<Longrightarrow> holds_mutex (et_Threads s t) \<Longrightarrow> et_Mutex s = Some t"
  by (simp add: serial_def)

lemma serial_step:
  assumes s: "serial s" and step: "engine_step s s'"
  shows "serial s'"
proof -
  have m: "holds_mutex (et_Threads s u) \<longleftrightarrow> et_Mutex s = Some u" for u using s by (simp add: serial_def)
  have r: "engine_run (et_Requests s) MatchingEngine_ctor = (case rest_of (current s) (et_Engine s) of (e, ms) \<Rightarrow> (e, et_Sent s @ ms))"
    using s by (simp add: serial_def)
  show ?thesis
    using step
  proof (cases rule: engine_step.cases)
    case (call t q)
    with m [of t] have "et_Mutex s \<noteq> Some t" by simp
    with call m r show ?thesis by (auto simp: serial_def current_def split: option.splits)
  next
    case (lock t q)
    with m r show ?thesis by (auto simp: serial_def current_def engine_run_snoc split: prod.splits)
  next
    case (request t q e ms matching)
    from serialD [OF s, of t] request(2) have "et_Mutex s = Some t" by simp
    with request m r show ?thesis
      by (auto simp: serial_def current_def request_steps split: option.splits prod.splits)
  next
    case (pass t buy ep e ts)
    from serialD [OF s, of t] pass(2) have "et_Mutex s = Some t" by simp
    with pass m r match_pass_Some [OF pass(3), of ep] show ?thesis by (auto simp: serial_def current_def split: prod.splits)
  next
    case (matched t buy ep)
    from serialD [OF s, of t] matched(2) have "et_Mutex s = Some t" by simp
    with matched m r match_pass_None [OF matched(3), of ep] show ?thesis by (auto simp: serial_def current_def)
  next
    case (unlock t)
    from serialD [OF s, of t] unlock(2) have "et_Mutex s = Some t" by simp
    with unlock m r show ?thesis by (auto simp: serial_def current_def)
  next
    case (walk t)
    with m [of t] have "et_Mutex s \<noteq> Some t" by simp
    with walk m r show ?thesis by (auto simp: serial_def current_def split: option.splits)
  next
    case (walked t)
    with m [of t] have "et_Mutex s \<noteq> Some t" by simp
    with walked m r show ?thesis by (auto simp: serial_def current_def split: option.splits)
  qed
qed

lemma serial_reach: "engine_step\<^sup>*\<^sup>* threads_start s \<Longrightarrow> serial s"
proof (induction rule: rtranclp_induct)
  case base
  show ?case by (simp add: serial_def threads_start_def current_def)
next
  case (step s s')
  then show ?case by (blast intro: serial_step)
qed

text \<open>
  C3: However many threads call requests on an engine and however they take turns, at every moment at
  which no thread has the mutex the books and the messages are those of the requests one after the
  other, in the order in which they got the mutex.
\<close>

theorem engine_threads_serial:
  assumes "engine_step\<^sup>*\<^sup>* threads_start s" and "et_Mutex s = None"
  shows "engine_run (et_Requests s) MatchingEngine_ctor = (et_Engine s, et_Sent s)"
  using serial_reach [OF assms(1)] assms(2) by (simp add: serial_def current_def)


section \<open>Requests end\<close>

text \<open>The thread with the mutex can always finish its request: every pass takes an order off a book.\<close>

definition orders_left :: "MatchingEngine \<Rightarrow> nat" where
  "orders_left e = length (orders (me_Bids e)) + length (orders (me_Asks e))"

lemma match_pass_decreases: "match_pass buy e = Some (e1, ts) \<Longrightarrow> orders_left e1 < orders_left e"
  by (auto simp: match_pass_def orders_left_def dest!: body_decreases split: if_splits option.splits)

lemma matching_finishes:
  "et_Threads s t = At_match buy ep \<Longrightarrow>
   \<exists>e ms. engine_step\<^sup>*\<^sup>* s (moves_to t At_idle (s\<lparr>et_Engine := e, et_Mutex := None, et_Sent := et_Sent s @ ms\<rparr>))"
proof (induction "orders_left (et_Engine s)" arbitrary: s rule: less_induct)
  case less
  show ?case
  proof (cases "match_pass buy (et_Engine s)")
    case None
    have "engine_step s (moves_to t At_unlock s)" by (rule matched [OF less.prems None])
    moreover have "engine_step (moves_to t At_unlock s) (moves_to t At_idle (moves_to t At_unlock s\<lparr>et_Mutex := None\<rparr>))"
      by (rule unlock) simp
    ultimately have "engine_step\<^sup>*\<^sup>* s (moves_to t At_idle (s\<lparr>et_Engine := et_Engine s, et_Mutex := None, et_Sent := et_Sent s @ []\<rparr>))"
      by (auto intro: rtranclp.rtrancl_into_rtrancl)
    then show ?thesis by blast
  next
    case (Some r)
    obtain e1 ts where r: "match_pass buy (et_Engine s) = Some (e1, ts)" using Some by (cases r) simp
    let ?s = "s\<lparr>et_Engine := e1, et_Sent := et_Sent s @ map (\<lambda>t. (MsgTrade t, ep)) ts\<rparr>"
    have "orders_left (et_Engine ?s) < orders_left (et_Engine s)" using match_pass_decreases [OF r] by simp
    from less.hyps [OF this] less.prems obtain e ms where
      "engine_step\<^sup>*\<^sup>* ?s (moves_to t At_idle (?s\<lparr>et_Engine := e, et_Mutex := None, et_Sent := et_Sent ?s @ ms\<rparr>))" by auto
    with pass [OF less.prems r] have
      "engine_step\<^sup>*\<^sup>* s (moves_to t At_idle (?s\<lparr>et_Engine := e, et_Mutex := None, et_Sent := et_Sent ?s @ ms\<rparr>))"
      by (rule converse_rtranclp_into_rtranclp)
    then show ?thesis by (intro exI [of _ e] exI [of _ "map (\<lambda>t. (MsgTrade t, ep)) ts @ ms"]) simp
  qed
qed

lemma request_finishes:
  assumes "et_Threads s t = At_request q"
  shows "\<exists>e ms. engine_step\<^sup>*\<^sup>* s (moves_to t At_idle (s\<lparr>et_Engine := e, et_Mutex := None, et_Sent := et_Sent s @ ms\<rparr>))"
proof -
  obtain e ms matching where h: "request_head q (et_Engine s) = (e, ms, matching)" by (metis prod_cases3)
  note first = request [OF assms h]
  show ?thesis
  proof (cases matching)
    case None
    let ?s = "moves_to t At_unlock (s\<lparr>et_Engine := e, et_Sent := et_Sent s @ ms\<rparr>)"
    have "engine_step ?s (moves_to t At_idle (?s\<lparr>et_Mutex := None\<rparr>))" by (rule unlock) simp
    with first None have "engine_step\<^sup>*\<^sup>* s (moves_to t At_idle (?s\<lparr>et_Mutex := None\<rparr>))"
      by (auto intro: rtranclp.rtrancl_into_rtrancl)
    moreover have "moves_to t At_idle (?s\<lparr>et_Mutex := None\<rparr>) =
        moves_to t At_idle (s\<lparr>et_Engine := e, et_Mutex := None, et_Sent := et_Sent s @ ms\<rparr>)" by (cases s) simp
    ultimately show ?thesis by (metis (no_types))
  next
    case (Some m)
    obtain buy ep where m: "m = (buy, ep)" by (cases m)
    let ?s = "moves_to t (At_match buy ep) (s\<lparr>et_Engine := e, et_Sent := et_Sent s @ ms\<rparr>)"
    obtain e' ms' where "engine_step\<^sup>*\<^sup>* ?s (moves_to t At_idle (?s\<lparr>et_Engine := e', et_Mutex := None, et_Sent := et_Sent ?s @ ms'\<rparr>))"
      using matching_finishes [of ?s t buy ep] by auto
    with first Some m have "engine_step\<^sup>*\<^sup>* s (moves_to t At_idle (?s\<lparr>et_Engine := e', et_Mutex := None, et_Sent := et_Sent ?s @ ms'\<rparr>))"
      by (auto intro: converse_rtranclp_into_rtranclp)
    then show ?thesis by (intro exI [of _ e'] exI [of _ "ms @ ms'"]) simp
  qed
qed

lemma call_finishes:
  assumes "et_Threads s t = At_lock q" and "et_Mutex s = None"
  shows "\<exists>e ms. engine_step\<^sup>*\<^sup>* s
    (moves_to t At_idle (s\<lparr>et_Engine := e, et_Requests := et_Requests s @ [q], et_Sent := et_Sent s @ ms\<rparr>))"
proof -
  let ?s = "moves_to t (At_request q) (s\<lparr>et_Mutex := Some t, et_Requests := et_Requests s @ [q]\<rparr>)"
  obtain e ms where "engine_step\<^sup>*\<^sup>* ?s (moves_to t At_idle (?s\<lparr>et_Engine := e, et_Mutex := None, et_Sent := et_Sent ?s @ ms\<rparr>))"
    using request_finishes [of ?s t q] by auto
  with lock [OF assms] have "engine_step\<^sup>*\<^sup>* s (moves_to t At_idle (?s\<lparr>et_Engine := e, et_Mutex := None, et_Sent := et_Sent ?s @ ms\<rparr>))"
    by (rule converse_rtranclp_into_rtranclp)
  moreover have "moves_to t At_idle (?s\<lparr>et_Engine := e, et_Mutex := None, et_Sent := et_Sent ?s @ ms\<rparr>) =
      moves_to t At_idle (s\<lparr>et_Engine := e, et_Requests := et_Requests s @ [q], et_Sent := et_Sent s @ ms\<rparr>)"
    using assms(2) by (cases s) simp
  ultimately show ?thesis by (metis (no_types))
qed

text \<open>Two threads that call at the same time.\<close>

theorem engine_threads_serial_witness:
  "\<exists>s. engine_step\<^sup>*\<^sup>* threads_start s \<and> et_Mutex s = None \<and>
    et_Requests s = [Order_insert (sample_order False 98 8 ''a1'') (2 :: nat), Order_insert (sample_order True 99 5 ''b1'') 1] \<and>
    engine_run (et_Requests s) MatchingEngine_ctor = (et_Engine s, et_Sent s)"
proof -
  let ?q = "Order_insert (sample_order True 99 5 ''b1'') (1 :: nat)" let ?r = "Order_insert (sample_order False 98 8 ''a1'') (2 :: nat)"
  let ?s = "moves_to 1 (At_lock ?r) (moves_to 0 (At_lock ?q) threads_start)"
  have "engine_step threads_start (moves_to 0 (At_lock ?q) threads_start)" by (rule call) (simp add: threads_start_def)
  moreover have "engine_step (moves_to 0 (At_lock ?q) threads_start) ?s" by (rule call) (simp add: threads_start_def)
  ultimately have a: "engine_step\<^sup>*\<^sup>* threads_start ?s" by (rule rtranclp.rtrancl_into_rtrancl [OF r_into_rtranclp])
  obtain e ms where b: "engine_step\<^sup>*\<^sup>* ?s (moves_to 1 At_idle (?s\<lparr>et_Engine := e, et_Requests := et_Requests ?s @ [?r], et_Sent := et_Sent ?s @ ms\<rparr>))"
    using call_finishes [of ?s 1 ?r] by (auto simp: threads_start_def)
  let ?s1 = "moves_to 1 At_idle (?s\<lparr>et_Engine := e, et_Requests := et_Requests ?s @ [?r], et_Sent := et_Sent ?s @ ms\<rparr>)"
  obtain e' ms' where c: "engine_step\<^sup>*\<^sup>* ?s1 (moves_to 0 At_idle (?s1\<lparr>et_Engine := e', et_Requests := et_Requests ?s1 @ [?q], et_Sent := et_Sent ?s1 @ ms'\<rparr>))"
    using call_finishes [of ?s1 0 ?q] by (auto simp: threads_start_def)
  let ?s2 = "moves_to 0 At_idle (?s1\<lparr>et_Engine := e', et_Requests := et_Requests ?s1 @ [?q], et_Sent := et_Sent ?s1 @ ms'\<rparr>)"
  have r: "engine_step\<^sup>*\<^sup>* threads_start ?s2" by (rule rtranclp_trans [OF a rtranclp_trans [OF b c]])
  have m: "et_Mutex ?s2 = None" and q: "et_Requests ?s2 = [?r, ?q]" by (simp_all add: threads_start_def)
  from engine_threads_serial [OF r m] r m q show ?thesis by blast
qed

text \<open>
  The walk over the book takes no lock: while one thread walks over the books, another one can get
  the mutex and change them.
\<close>

theorem book_walk_races:
  assumes "et_Threads s t = At_idle" and "et_Threads s u = At_idle" and "t \<noteq> u" and "et_Mutex s = None"
  shows "\<exists>s'. engine_step\<^sup>*\<^sup>* s s' \<and> et_Threads s' t = At_walk \<and> et_Threads s' u = At_request q"
proof -
  let ?w = "moves_to t At_walk s" let ?c = "moves_to u (At_lock q) ?w"
  have "engine_step s ?w" by (rule walk [OF assms(1)])
  moreover have "engine_step ?w ?c" by (rule call) (use assms in simp)
  moreover have "engine_step ?c (moves_to u (At_request q) (?c\<lparr>et_Mutex := Some u, et_Requests := et_Requests ?c @ [q]\<rparr>))"
    by (rule lock) (use assms in simp_all)
  ultimately have "engine_step\<^sup>*\<^sup>* s (moves_to u (At_request q) (?c\<lparr>et_Mutex := Some u, et_Requests := et_Requests ?c @ [q]\<rparr>))"
    by (meson converse_rtranclp_into_rtranclp rtranclp.rtrancl_refl)
  then show ?thesis using assms(3) by (intro exI conjI) auto
qed

theorem book_walk_races_witness:
  "\<exists>s'. engine_step\<^sup>*\<^sup>* (threads_start :: nat engine_threads) s' \<and> et_Threads s' 0 = At_walk \<and>
    et_Threads s' 1 = At_request (Order_insert (sample_order True 99 5 ''b1'') 1)"
  by (rule book_walk_races) (simp_all add: threads_start_def)

end
