(* ===== verification/Containers.thy ===== *)
theory Containers
  imports Prelude
begin

text \<open>
  \<open>CircularBuffer\<close>, which keeps the last elements added, and \<open>unordered_fast_map\<close>, two parallel
  vectors of keys and values searched from the front.
\<close>

section \<open>CircularBuffer\<close>

record 'a CircularBuffer =
  cb_start :: u64
  cb_end :: u64
  cb_queue :: "'a list"

definition CircularBuffer_ctor :: "'a list \<Rightarrow> 'a CircularBuffer" where
  "CircularBuffer_ctor slots = \<lparr>cb_start = 0, cb_end = 0, cb_queue = slots\<rparr>"

definition CircularBuffer_Add :: "'a \<Rightarrow> 'a CircularBuffer \<Rightarrow> 'a CircularBuffer \<times> u64" where
  "CircularBuffer_Add x cb =
     (let maxQueueSize = of_nat (length (cb_queue cb));
          currentIndex = cb_end cb mod maxQueueSize;
          cb1 = cb\<lparr>cb_end := cb_end cb + 1, cb_queue := (cb_queue cb)[unat currentIndex := x]\<rparr>
      in (if cb_end cb1 > maxQueueSize then cb1\<lparr>cb_start := (cb_start cb1 + 1) mod maxQueueSize\<rparr> else cb1,
          currentIndex))"

definition CircularBuffer_Size :: "'a CircularBuffer \<Rightarrow> u64" where
  "CircularBuffer_Size cb =
     (if cb_end cb > of_nat (length (cb_queue cb)) then of_nat (length (cb_queue cb)) else cb_end cb - cb_start cb)"

text \<open>The elements \<open>loopFunction\<close> is called on: it stops after the first it answers false for.\<close>

fun call_until :: "('a \<Rightarrow> bool) \<Rightarrow> 'a list \<Rightarrow> 'a list" where
  "call_until f [] = []"
| "call_until f (x # xs) = (if \<not> f x then [x] else x # call_until f xs)"

definition CircularBuffer_Loop :: "('a \<Rightarrow> bool) \<Rightarrow> 'a CircularBuffer \<Rightarrow> 'a list" where
  "CircularBuffer_Loop loopFunction cb =
     call_until loopFunction
       (map (\<lambda>i. cb_queue cb ! (i mod length (cb_queue cb)))
         [unat (cb_start cb)..<unat (cb_start cb + CircularBuffer_Size cb)])"

text \<open>
  The state after the elements \<open>xs\<close>: the slot of each is its number modulo the capacity, and the
  start is the slot of the oldest one kept.
\<close>

definition cb_holds :: "'a list \<Rightarrow> 'a CircularBuffer \<Rightarrow> bool" where
  "cb_holds xs cb \<longleftrightarrow>
     (let n = length xs; k = length (cb_queue cb)
      in 0 < k \<and> k < 2 ^ 32 \<and> unat (cb_end cb) = n \<and>
         unat (cb_start cb) = (if n \<le> k then 0 else n mod k) \<and>
         (\<forall>i < n. n \<le> i + k \<longrightarrow> cb_queue cb ! (i mod k) = xs ! i))"

lemma unat_of_nat_small: "k < 2 ^ 32 \<Longrightarrow> unat (of_nat k :: u64) = k"
  by (simp add: unat_of_nat)

lemma mod_window_neq:
  fixes i n k :: nat
  assumes "i < n" "n < i + k"
  shows "i mod k \<noteq> n mod k"
proof
  assume "i mod k = n mod k"
  then have "k dvd n - i" using assms by (metis mod_eq_dvd_iff_nat less_imp_le)
  with assms show False by (auto dest: dvd_imp_le)
qed

lemma Add_holds:
  assumes h: "cb_holds xs cb" and small: "length xs < 2 ^ 63"
  shows "cb_holds (xs @ [x]) (fst (CircularBuffer_Add x cb)) \<and>
    snd (CircularBuffer_Add x cb) = of_nat (length xs mod length (cb_queue cb))"
proof -
  let ?n = "length xs" let ?k = "length (cb_queue cb)"
  have k: "0 < ?k" "?k < 2 ^ 32" and e: "unat (cb_end cb) = ?n"
    and s: "unat (cb_start cb) = (if ?n \<le> ?k then 0 else ?n mod ?k)"
    and q: "\<And>i. i < ?n \<Longrightarrow> ?n \<le> i + ?k \<Longrightarrow> cb_queue cb ! (i mod ?k) = xs ! i"
    using h by (auto simp: cb_holds_def Let_def)
  have uk: "unat (of_nat ?k :: u64) = ?k" using k by (simp add: unat_of_nat_small)
  have cur: "unat (cb_end cb mod of_nat ?k) = ?n mod ?k" by (simp add: unat_mod e uk)
  have e1: "unat (cb_end cb + 1) = Suc ?n" using small by (simp add: unat_word_ariths e)
  have full: "cb_end cb + 1 > of_nat ?k \<longleftrightarrow> Suc ?n > ?k" by (simp add: word_less_nat_alt e1 uk)
  have s1: "unat ((cb_start cb + 1) mod of_nat ?k) = Suc ?n mod ?k" if "Suc ?n > ?k"
  proof -
    have "unat (cb_start cb) \<le> ?k" using s k by (auto intro: less_imp_le)
    then have "unat (cb_start cb + 1) = unat (cb_start cb) + 1" using k by (simp add: unat_word_ariths)
    then have "unat ((cb_start cb + 1) mod of_nat ?k) = (unat (cb_start cb) + 1) mod ?k"
      by (simp add: unat_mod uk)
    also have "\<dots> = Suc ?n mod ?k"
    proof (cases "?n \<le> ?k")
      case True
      with that have "?n = ?k" by simp
      with s show ?thesis by (simp add: mod_Suc)
    next
      case False
      with s show ?thesis by (simp add: mod_Suc_eq)
    qed
    finally show ?thesis .
  qed
  have q1: "(cb_queue cb)[?n mod ?k := x] ! (i mod ?k) = (xs @ [x]) ! i" if "i < Suc ?n" "Suc ?n \<le> i + ?k" for i
  proof (cases "i = ?n")
    case True
    with k show ?thesis by simp
  next
    case False
    with that have i: "i < ?n" "?n < i + ?k" by auto
    from mod_window_neq [OF i] q [of i] i show ?thesis by (simp add: nth_append)
  qed
  have cw: "cb_end cb mod of_nat ?k = of_nat (?n mod ?k)" by (simp flip: cur)
  show ?thesis
    using k e1 full s1 q1 s
    by (auto simp: CircularBuffer_Add_def cb_holds_def Let_def cur simp flip: cw)
qed

lemma Size_holds:
  assumes "cb_holds xs cb" and "length xs < 2 ^ 63"
  shows "unat (CircularBuffer_Size cb) = min (length xs) (length (cb_queue cb))"
proof -
  have uk: "unat (of_nat (length (cb_queue cb)) :: u64) = length (cb_queue cb)"
    and e: "unat (cb_end cb) = length xs"
    and s: "length xs \<le> length (cb_queue cb) \<Longrightarrow> cb_start cb = 0"
    using assms(1) by (auto simp: cb_holds_def Let_def unat_of_nat_small unat_eq_0)
  show ?thesis
    using uk e s by (cases "length (cb_queue cb) < length xs")
      (auto simp: CircularBuffer_Size_def word_less_nat_alt min_def)
qed

text \<open>The window the loop walks over is the end of what was added.\<close>

lemma Loop_holds:
  assumes h: "cb_holds xs cb" and small: "length xs < 2 ^ 63"
  shows "CircularBuffer_Loop f cb = call_until f (drop (length xs - length (cb_queue cb)) xs)"
proof -
  let ?n = "length xs" let ?k = "length (cb_queue cb)" let ?s = "unat (cb_start cb)"
  have k: "0 < ?k" "?k < 2 ^ 32"
    and s: "?s = (if ?n \<le> ?k then 0 else ?n mod ?k)"
    and q: "\<And>i. i < ?n \<Longrightarrow> ?n \<le> i + ?k \<Longrightarrow> cb_queue cb ! (i mod ?k) = xs ! i"
    using h by (auto simp: cb_holds_def Let_def)
  have sz: "unat (CircularBuffer_Size cb) = min ?n ?k" by (rule Size_holds [OF assms])
  have "?s \<le> ?k" using s k by (auto intro: less_imp_le)
  then have lim: "unat (cb_start cb + CircularBuffer_Size cb) = ?s + min ?n ?k"
    using k sz by (simp add: unat_word_ariths)
  have "map (\<lambda>i. cb_queue cb ! (i mod ?k)) [?s..<?s + min ?n ?k] = drop (?n - ?k) xs"
  proof (rule nth_equalityI)
    show "length (map (\<lambda>i. cb_queue cb ! (i mod ?k)) [?s..<?s + min ?n ?k]) = length (drop (?n - ?k) xs)"
      by (simp add: min_def)
  next
    fix j
    assume "j < length (map (\<lambda>i. cb_queue cb ! (i mod ?k)) [?s..<?s + min ?n ?k])"
    then have j: "j < min ?n ?k" by simp
    show "map (\<lambda>i. cb_queue cb ! (i mod ?k)) [?s..<?s + min ?n ?k] ! j = drop (?n - ?k) xs ! j"
    proof (cases "?n \<le> ?k")
      case True
      with j s q [of j] show ?thesis by simp
    next
      case False
      have "(?s + j) mod ?k = (?n + j) mod ?k" using s False by (simp add: mod_add_left_eq)
      also have "?n + j = (?n - ?k + j) + ?k" using False by simp
      finally have "(?s + j) mod ?k = (?n - ?k + j) mod ?k" by simp
      moreover have "cb_queue cb ! ((?n - ?k + j) mod ?k) = xs ! (?n - ?k + j)"
        using j False by (intro q) auto
      ultimately show ?thesis using j False by simp
    qed
  qed
  with lim show ?thesis by (simp add: CircularBuffer_Loop_def)
qed

lemma run_holds:
  "cb_holds ys cb \<Longrightarrow> length ys + length xs < 2 ^ 63 \<Longrightarrow>
   cb_holds (ys @ xs) (foldl (\<lambda>cb x. fst (CircularBuffer_Add x cb)) cb xs)"
proof (induction xs arbitrary: ys cb)
  case (Cons x xs)
  from Add_holds [OF Cons.prems(1), of x] Cons.prems(2)
  have "cb_holds (ys @ [x]) (fst (CircularBuffer_Add x cb))" by simp
  from Cons.IH [OF this] Cons.prems(2) show ?case by simp
qed simp

lemma length_run [simp]:
  "length (cb_queue (foldl (\<lambda>cb x. fst (CircularBuffer_Add x cb)) cb xs)) = length (cb_queue cb)"
  by (induction xs arbitrary: cb) (simp_all add: CircularBuffer_Add_def Let_def)

text \<open>
  A circular buffer of capacity k holds the last k elements added: the loop over it meets them
  oldest first, up to the first its function declines, whatever number was added before.
\<close>

theorem circular_keeps_last:
  assumes "0 < length slots" and "length slots < 2 ^ 32" and "length xs < 2 ^ 63"
  shows "CircularBuffer_Loop f (foldl (\<lambda>cb x. fst (CircularBuffer_Add x cb)) (CircularBuffer_ctor slots) xs) =
      call_until f (drop (length xs - length slots) xs) \<and>
    unat (CircularBuffer_Size (foldl (\<lambda>cb x. fst (CircularBuffer_Add x cb)) (CircularBuffer_ctor slots) xs)) =
      min (length xs) (length slots)"
proof -
  let ?cb = "foldl (\<lambda>cb x. fst (CircularBuffer_Add x cb)) (CircularBuffer_ctor slots) xs"
  have "cb_holds [] (CircularBuffer_ctor slots)"
    using assms(1,2) by (simp add: cb_holds_def CircularBuffer_ctor_def)
  from run_holds [OF this, of xs] assms(3) have h: "cb_holds xs ?cb" by simp
  have l: "length (cb_queue ?cb) = length slots" by (simp add: CircularBuffer_ctor_def)
  show ?thesis using Loop_holds [OF h assms(3)] Size_holds [OF h assms(3)] by (simp only: l)
qed

theorem circular_keeps_last_witness:
  "CircularBuffer_Loop (\<lambda>x. x < 5) (foldl (\<lambda>cb x. fst (CircularBuffer_Add x cb)) (CircularBuffer_ctor [0, 0, 0 :: nat]) [1, 2, 3, 4, 5, 6]) =
     [4, 5]"
  using circular_keeps_last [of "[0, 0, 0 :: nat]" "[1, 2, 3, 4, 5, 6]" "\<lambda>x. x < 5"] by simp

section \<open>unordered_fast_map\<close>

text \<open>An iterator is the position it has in both vectors.\<close>

record ('k, 'v) unordered_fast_map =
  fm_Keys :: "'k list"
  fm_Values :: "'v list"

definition fast_map_ctor :: "('k, 'v) unordered_fast_map" where
  "fast_map_ctor = \<lparr>fm_Keys = [], fm_Values = []\<rparr>"

definition iterator_pre_increment :: "nat \<Rightarrow> nat \<times> nat" where
  "iterator_pre_increment it = (it + 1, it + 1)"

text \<open>The post increment returns the iterator after it has moved.\<close>

definition iterator_post_increment :: "nat \<Rightarrow> nat \<times> nat" where
  "iterator_post_increment it = (it + 1, it + 1)"

definition fast_map_at :: "nat \<Rightarrow> ('k, 'v) unordered_fast_map \<Rightarrow> 'k \<times> 'v" where
  "fast_map_at it m = (fm_Keys m ! it, fm_Values m ! it)"

definition fast_map_insert :: "'k \<times> 'v \<Rightarrow> ('k, 'v) unordered_fast_map \<Rightarrow> ('k, 'v) unordered_fast_map \<times> nat \<times> bool" where
  "fast_map_insert p m =
     (m\<lparr>fm_Keys := fm_Keys m @ [fst p], fm_Values := fm_Values m @ [snd p]\<rparr>, length (fm_Keys m), True)"

fun find_from :: "'k \<Rightarrow> 'k list \<Rightarrow> nat \<Rightarrow> nat" where
  "find_from k [] it = it"
| "find_from k (x # xs) it = (if x = k then it else find_from k xs (it + 1))"

definition fast_map_find :: "'k \<Rightarrow> ('k, 'v) unordered_fast_map \<Rightarrow> nat" where
  "fast_map_find k m = find_from k (fm_Keys m) 0"

text \<open>The constant overload of \<open>find\<close> calls itself.\<close>

partial_function (option) fast_map_find_const :: "'k \<Rightarrow> ('k, 'v) unordered_fast_map \<Rightarrow> nat option" where
  "fast_map_find_const k m = fast_map_find_const k m"

definition fast_map_begin :: "('k, 'v) unordered_fast_map \<Rightarrow> nat" where
  "fast_map_begin m = 0"

definition fast_map_end :: "('k, 'v) unordered_fast_map \<Rightarrow> nat" where
  "fast_map_end m = length (fm_Keys m)"

definition fast_map_size :: "('k, 'v) unordered_fast_map \<Rightarrow> nat" where
  "fast_map_size m = length (fm_Keys m)"

definition fast_map_empty :: "('k, 'v) unordered_fast_map \<Rightarrow> bool" where
  "fast_map_empty m \<longleftrightarrow> fm_Keys m = []"

definition erase_at :: "nat \<Rightarrow> 'a list \<Rightarrow> 'a list" where
  "erase_at i xs = take i xs @ drop (Suc i) xs"

definition fast_map_erase :: "'k \<Rightarrow> ('k, 'v) unordered_fast_map \<Rightarrow> ('k, 'v) unordered_fast_map \<times> nat" where
  "fast_map_erase k m =
     (let it = find_from k (fm_Keys m) 0
      in if it = length (fm_Keys m) then (m, fast_map_end m)
         else (m\<lparr>fm_Keys := erase_at it (fm_Keys m), fm_Values := erase_at it (fm_Values m)\<rparr>, it))"

definition fast_map_erase_iterator :: "nat \<Rightarrow> ('k, 'v) unordered_fast_map \<Rightarrow> ('k, 'v) unordered_fast_map \<times> nat" where
  "fast_map_erase_iterator it m = fast_map_erase (fst (fast_map_at it m)) m"

definition fast_map_clear :: "('k, 'v) unordered_fast_map \<Rightarrow> ('k, 'v) unordered_fast_map" where
  "fast_map_clear m = m\<lparr>fm_Keys := [], fm_Values := []\<rparr>"

text \<open>The pairs in the order of the vectors; \<open>lookup\<close> is what \<open>find\<close> leads to.\<close>

definition fm_ok :: "('k, 'v) unordered_fast_map \<Rightarrow> bool" where
  "fm_ok m \<longleftrightarrow> length (fm_Keys m) = length (fm_Values m)"

definition pairs :: "('k, 'v) unordered_fast_map \<Rightarrow> ('k \<times> 'v) list" where
  "pairs m = zip (fm_Keys m) (fm_Values m)"

definition fast_map_lookup :: "'k \<Rightarrow> ('k, 'v) unordered_fast_map \<Rightarrow> 'v option" where
  "fast_map_lookup k m =
     (let it = fast_map_find k m in if it = fast_map_end m then None else Some (snd (fast_map_at it m)))"

lemma find_from_shift: "find_from k xs (Suc it) = Suc (find_from k xs it)"
  by (induction xs arbitrary: it) simp_all

lemma find_from_le: "find_from k xs 0 \<le> length xs"
  by (induction xs) (simp_all add: find_from_shift)

lemma lookup_zip:
  "length ks = length vs \<Longrightarrow>
   map_of (zip ks vs) k = (if find_from k ks 0 = length ks then None else Some (vs ! find_from k ks 0))"
  by (induction ks vs rule: list_induct2) (simp_all add: find_from_shift)

lemma lookup_pairs: "fm_ok m \<Longrightarrow> fast_map_lookup k m = map_of (pairs m) k"
  by (simp add: fast_map_lookup_def fast_map_find_def fast_map_end_def fast_map_at_def fm_ok_def
      pairs_def lookup_zip Let_def)

lemma insert_pairs:
  "fm_ok m \<Longrightarrow> fm_ok (fst (fast_map_insert p m)) \<and> pairs (fst (fast_map_insert p m)) = pairs m @ [p]"
  by (simp add: fast_map_insert_def fm_ok_def pairs_def)

lemma length_erase_at: "i < length xs \<Longrightarrow> length (erase_at i xs) = length xs - 1"
  by (simp add: erase_at_def)

lemma erase_zip:
  "length ks = length vs \<Longrightarrow> find_from k ks 0 < length ks \<Longrightarrow>
   zip (erase_at (find_from k ks 0) ks) (erase_at (find_from k ks 0) vs) = erase_first (\<lambda>(x, v). x = k) (zip ks vs)"
  by (induction ks vs rule: list_induct2) (auto simp: find_from_shift erase_at_def)

lemma erase_absent:
  "length ks = length vs \<Longrightarrow> find_from k ks 0 = length ks \<Longrightarrow> erase_first (\<lambda>(x, v). x = k) (zip ks vs) = zip ks vs"
  by (induction ks vs rule: list_induct2) (auto simp: find_from_shift split: if_splits)

lemma erase_pairs:
  assumes "fm_ok m"
  shows "fm_ok (fst (fast_map_erase k m)) \<and>
    pairs (fst (fast_map_erase k m)) = erase_first (\<lambda>(x, v). x = k) (pairs m)"
proof (cases "find_from k (fm_Keys m) 0 = length (fm_Keys m)")
  case True
  with assms show ?thesis by (simp add: fast_map_erase_def fm_ok_def pairs_def erase_absent)
next
  case False
  with find_from_le [of k "fm_Keys m"] have l: "find_from k (fm_Keys m) 0 < length (fm_Keys m)" by simp
  with assms False show ?thesis
    by (simp add: fast_map_erase_def fm_ok_def pairs_def erase_zip length_erase_at Let_def)
qed

text \<open>
  The fast map is the list of its pairs in the order they were inserted: an insert appends a
  pair, also when the key is there already; a lookup gives the first pair with the key; an erase
  removes the first pair with the key, so a key inserted twice is still there after an erase.
\<close>

theorem fast_map_refines:
  assumes "fm_ok m"
  shows "pairs (fst (fast_map_insert (k, v) m)) = pairs m @ [(k, v)] \<and>
    fast_map_lookup k m = map_of (pairs m) k \<and>
    pairs (fst (fast_map_erase k m)) = erase_first (\<lambda>(x, v). x = k) (pairs m) \<and>
    (fast_map_lookup k m = None \<or>
       fast_map_lookup k (fst (fast_map_insert (k, v) m)) = fast_map_lookup k m \<and>
       fast_map_lookup k (fst (fast_map_erase k (fst (fast_map_insert (k, v) m)))) \<noteq> None)"
proof -
  let ?i = "fst (fast_map_insert (k, v) m)"
  note ins = insert_pairs [OF assms, of "(k, v)"]
  note er = erase_pairs [OF conjunct1 [OF ins], of k]
  have "map_of (erase_first (\<lambda>(x, v). x = k) (ps @ [(k, v)])) k \<noteq> None" if "map_of ps k \<noteq> None" for ps
    using that by (induction ps) (auto simp: map_add_def split: option.split)
  from this [of "pairs m"] have "fast_map_lookup k m = None \<or> fast_map_lookup k (fst (fast_map_erase k ?i)) \<noteq> None"
    unfolding lookup_pairs [OF assms] lookup_pairs [OF conjunct1 [OF er]] conjunct2 [OF er] conjunct2 [OF ins]
    by blast
  moreover have "fast_map_lookup k m = None \<or> fast_map_lookup k ?i = fast_map_lookup k m"
    using ins assms by (auto simp: lookup_pairs map_add_def split: option.split)
  ultimately show ?thesis using ins erase_pairs [OF assms, of k] lookup_pairs [OF assms, of k] by blast
qed

theorem fast_map_refines_witness:
  "fast_map_lookup ''a'' (fst (fast_map_erase ''a'' (fst (fast_map_insert (''a'', 2 :: nat) \<lparr>fm_Keys = [''a''], fm_Values = [1]\<rparr>)))) \<noteq> None"
proof -
  have "fm_ok \<lparr>fm_Keys = [''a''], fm_Values = [1 :: nat]\<rparr>" by (simp add: fm_ok_def)
  from fast_map_refines [OF this, of "''a''" 2] show ?thesis
    by (simp add: fast_map_lookup_def fast_map_find_def fast_map_end_def)
qed

text \<open>The constant \<open>find\<close> returns for no map and no key.\<close>

lemma find_const_never_returns: "fast_map_find_const k m = None"
proof (rule ccontr)
  assume "fast_map_find_const k m \<noteq> None"
  then obtain it where "fast_map_find_const k m = Some it" by blast
  then show False
    by (rule fast_map_find_const.raw_induct [where P = "\<lambda>k m it. False", rotated])
qed

end
