(* ===== verification/Exchange.thy ===== *)
theory Exchange
  imports Prelude
begin

unbundle bit_operations_syntax

text \<open>
  The stream parsers of the exchanges: the messages are JSON, read with the SAX interface of a
  library. The library is the sequence of events it makes of a text; the parsers are handlers of
  these events, and a handler that returns false stops the parse.
  A function that may write outside of the storage of a vector returns \<open>None\<close> where it does.
\<close>

section \<open>Floating point numbers and market data\<close>

text \<open>The type \<open>double\<close> with the operations the code uses, as a parameter.\<close>

record 'd double_api =
  d_zero :: 'd
  d_add :: "'d \<Rightarrow> 'd \<Rightarrow> 'd"
  d_mul :: "'d \<Rightarrow> 'd \<Rightarrow> 'd"
  d_div :: "'d \<Rightarrow> 'd \<Rightarrow> 'd"
  d_less :: "'d \<Rightarrow> 'd \<Rightarrow> bool"
  d_strtod :: "string \<Rightarrow> 'd"

datatype MarketDataStreamType =
    NoneStream
  | TradeTickStream
  | BookTickerStream
  | Depth100msStream
  | Depth5LevelsStream
  | Depth10LevelsStream
  | Depth20LevelsStream
  | Depth100LevelsStream

record Instrument =
  instrument_exchange :: string
  exchangeSymbol :: string
  instrument_symbol :: string

record 'd TopOfTheBook =
  bidPrice :: 'd
  bidVolume :: 'd
  askPrice :: 'd
  askVolume :: 'd

text \<open>A time point is its count of nanoseconds.\<close>

record 'd TradeTick =
  tradeId :: string
  tradePrice :: 'd
  tradeVolume :: 'd
  tradeTime :: u64

record MarketSubscription =
  ms_instrument :: Instrument
  streamSubscriptions :: "MarketDataStreamType list"

text \<open>
  A vector that was only reserved: its size, and its storage, where a field that was never written
  is \<open>None\<close>. The subscript operator does not look at the size.
\<close>

record 'd OrderbookLevel =
  level_price :: "'d option"
  level_volume :: "'d option"

record 'd level_vector =
  v_size :: nat
  v_storage :: "'d OrderbookLevel list"

definition level_reserve :: "nat \<Rightarrow> 'd level_vector" where
  "level_reserve n = \<lparr>v_size = 0, v_storage = replicate n \<lparr>level_price = None, level_volume = None\<rparr>\<rparr>"

definition level_write :: "('d OrderbookLevel \<Rightarrow> 'd OrderbookLevel) \<Rightarrow> u64 \<Rightarrow> 'd level_vector \<Rightarrow> 'd level_vector option" where
  "level_write f i v =
     (if unat i < length (v_storage v)
      then Some (v\<lparr>v_storage := (v_storage v)[unat i := f (v_storage v ! unat i)]\<rparr>)
      else None)"

record 'd Orderbook =
  m_Bids :: "'d level_vector"
  numberOfBidLevels :: u64
  m_Asks :: "'d level_vector"
  numberOfAskLevels :: u64

definition Orderbook_Init :: "nat \<Rightarrow> 'd Orderbook" where
  "Orderbook_Init MaxOrderbookDepth =
     \<lparr>m_Bids = level_reserve MaxOrderbookDepth, numberOfBidLevels = 0,
      m_Asks = level_reserve MaxOrderbookDepth, numberOfAskLevels = 0\<rparr>"

section \<open>The events of the SAX parser\<close>

datatype sax_event =
    Sax_null
  | Sax_boolean bool
  | Sax_number_integer "64 word"
  | Sax_number_unsigned u64
  | Sax_number_float string
  | Sax_string string
  | Sax_start_object
  | Sax_end_object
  | Sax_start_array
  | Sax_end_array
  | Sax_key string
  | Sax_binary string
  | Sax_parse_error nat string

text \<open>\<open>sax_parse\<close> calls the handler on the events in order and returns false with the first that does.\<close>

fun sax_parse :: "(sax_event \<Rightarrow> 'p \<Rightarrow> ('p \<times> bool) option) \<Rightarrow> sax_event list \<Rightarrow> 'p \<Rightarrow> ('p \<times> bool) option" where
  "sax_parse h [] p = Some (p, True)"
| "sax_parse h (e # es) p =
     (case h e p of
        None \<Rightarrow> None
      | Some (p', b) \<Rightarrow> if b then sax_parse h es p' else Some (p', False))"

text \<open>\<open>find\<close> on a string, as the test that it finds something.\<close>

fun str_contains :: "string \<Rightarrow> string \<Rightarrow> bool" where
  "str_contains pat [] = (pat = [])"
| "str_contains pat (c # cs) = (take (length pat) (c # cs) = pat \<or> str_contains pat cs)"

text \<open>
  \<open>atol\<close>: white space, a sign and digits; what follows is ignored. A number that does not fit
  is undefined in C and is taken modulo \<open>2^64\<close> where it is stored.
\<close>

definition is_space :: "char \<Rightarrow> bool" where
  "is_space c \<longleftrightarrow> c = CHR '' '' \<or> (9 \<le> (of_char c :: nat) \<and> (of_char c :: nat) \<le> 13)"

definition is_digit :: "char \<Rightarrow> bool" where
  "is_digit c \<longleftrightarrow> 48 \<le> (of_char c :: nat) \<and> (of_char c :: nat) \<le> 57"

definition atol :: "string \<Rightarrow> int" where
  "atol s =
     (case dropWhile is_space s of
        [] \<Rightarrow> 0
      | c # cs \<Rightarrow>
          if c = CHR ''-'' then - int (parse_nat (takeWhile is_digit cs))
          else if c = CHR ''+'' then int (parse_nat (takeWhile is_digit cs))
          else int (parse_nat (takeWhile is_digit (c # cs))))"

section \<open>Trade ticks\<close>

record 'd TradeTickStreamParser =
  m_TradeTick :: "'d TradeTick"
  m_TradeTickFields :: u16

abbreviation TradeTickIdField :: u16 where "TradeTickIdField \<equiv> 1"
abbreviation TradeTickPriceField :: u16 where "TradeTickPriceField \<equiv> 2"
abbreviation TradeTickVolumeField :: u16 where "TradeTickVolumeField \<equiv> 4"
abbreviation TradeTickTimeField :: u16 where "TradeTickTimeField \<equiv> 8"
abbreviation TradeTickAllFields :: u16 where "TradeTickAllFields \<equiv> 15"

definition TradeTickStreamParser_ctor :: "'d double_api \<Rightarrow> 'd TradeTickStreamParser" where
  "TradeTickStreamParser_ctor D =
     \<lparr>m_TradeTick = \<lparr>tradeId = [], tradePrice = d_zero D, tradeVolume = d_zero D, tradeTime = 0\<rparr>,
      m_TradeTickFields = 0\<rparr>"

definition TestTradeTickFields :: "'d TradeTickStreamParser \<Rightarrow> bool" where
  "TestTradeTickFields p \<longleftrightarrow>
     m_TradeTickFields p = 0 \<or> (m_TradeTickFields p AND TradeTickAllFields) \<noteq> TradeTickAllFields"

definition HandleTradeTick_number ::
  "string \<Rightarrow> u64 \<Rightarrow> 'd TradeTickStreamParser \<Rightarrow> 'd TradeTickStreamParser \<times> bool" where
  "HandleTradeTick_number key value p =
     (let p1 = (if key = ''T'' then
                  p\<lparr>m_TradeTick := (m_TradeTick p)\<lparr>tradeTime := value * 1000000\<rparr>,
                    m_TradeTickFields := m_TradeTickFields p OR TradeTickTimeField\<rparr>
                else if key = ''t'' then
                  p\<lparr>m_TradeTick := (m_TradeTick p)\<lparr>tradeId := to_string (uint value)\<rparr>,
                    m_TradeTickFields := m_TradeTickFields p OR TradeTickIdField\<rparr>
                else p)
      in (p1, TestTradeTickFields p1))"

definition HandleTradeTick_string ::
  "'d double_api \<Rightarrow> string \<Rightarrow> string \<Rightarrow> 'd TradeTickStreamParser \<Rightarrow> 'd TradeTickStreamParser \<times> bool" where
  "HandleTradeTick_string D key value p =
     (let p1 = (if key = ''p'' then
                  p\<lparr>m_TradeTick := (m_TradeTick p)\<lparr>tradePrice := d_strtod D (c_str value)\<rparr>,
                    m_TradeTickFields := m_TradeTickFields p OR TradeTickPriceField\<rparr>
                else if key = ''q'' then
                  p\<lparr>m_TradeTick := (m_TradeTick p)\<lparr>tradeVolume := d_strtod D (c_str value)\<rparr>,
                    m_TradeTickFields := m_TradeTickFields p OR TradeTickVolumeField\<rparr>
                else p)
      in (p1, TestTradeTickFields p1))"

text \<open>The one of bitstamp reads other keys; its id is a number and its time a string of microseconds.\<close>

definition Bitstamp_HandleTradeTick_number ::
  "string \<Rightarrow> u64 \<Rightarrow> 'd TradeTickStreamParser \<Rightarrow> 'd TradeTickStreamParser \<times> bool" where
  "Bitstamp_HandleTradeTick_number key value p =
     (let p1 = (if key = ''id'' then
                  p\<lparr>m_TradeTick := (m_TradeTick p)\<lparr>tradeId := to_string (uint value)\<rparr>,
                    m_TradeTickFields := m_TradeTickFields p OR TradeTickIdField\<rparr>
                else p)
      in (p1, TestTradeTickFields p1))"

definition Bitstamp_HandleTradeTick_string ::
  "'d double_api \<Rightarrow> string \<Rightarrow> string \<Rightarrow> 'd TradeTickStreamParser \<Rightarrow> 'd TradeTickStreamParser \<times> bool" where
  "Bitstamp_HandleTradeTick_string D key value p =
     (let p1 = (if key = ''price_str'' then
                  p\<lparr>m_TradeTick := (m_TradeTick p)\<lparr>tradePrice := d_strtod D (c_str value)\<rparr>,
                    m_TradeTickFields := m_TradeTickFields p OR TradeTickPriceField\<rparr>
                else if key = ''amount_str'' then
                  p\<lparr>m_TradeTick := (m_TradeTick p)\<lparr>tradeVolume := d_strtod D (c_str value)\<rparr>,
                    m_TradeTickFields := m_TradeTickFields p OR TradeTickVolumeField\<rparr>
                else if key = ''microtimestamp'' then
                  p\<lparr>m_TradeTick := (m_TradeTick p)\<lparr>tradeTime := of_int (atol (c_str value)) * 1000\<rparr>,
                    m_TradeTickFields := m_TradeTickFields p OR TradeTickTimeField\<rparr>
                else p)
      in (p1, TestTradeTickFields p1))"

section \<open>Best bid and offer\<close>

record 'd BookTickerStreamParser =
  m_BestBidOffer :: "'d TopOfTheBook"
  m_BookTickerFields :: u16

abbreviation BookTickerAllFields :: u16 where "BookTickerAllFields \<equiv> 15"

definition BookTickerStreamParser_ctor :: "'d double_api \<Rightarrow> 'd BookTickerStreamParser" where
  "BookTickerStreamParser_ctor D =
     \<lparr>m_BestBidOffer = \<lparr>bidPrice = d_zero D, bidVolume = d_zero D, askPrice = d_zero D, askVolume = d_zero D\<rparr>,
      m_BookTickerFields = 0\<rparr>"

definition TestBookTickerFields :: "'d BookTickerStreamParser \<Rightarrow> bool" where
  "TestBookTickerFields p \<longleftrightarrow>
     m_BookTickerFields p = 0 \<or> (m_BookTickerFields p AND BookTickerAllFields) \<noteq> BookTickerAllFields"

definition HandleBookTicker ::
  "'d double_api \<Rightarrow> string \<Rightarrow> string \<Rightarrow> 'd BookTickerStreamParser \<Rightarrow> 'd BookTickerStreamParser \<times> bool" where
  "HandleBookTicker D key value p =
     (let x = d_strtod D (c_str value);
          p1 = (if key = ''b'' then p\<lparr>m_BestBidOffer := (m_BestBidOffer p)\<lparr>bidPrice := x\<rparr>\<rparr>
                else if key = ''B'' then p\<lparr>m_BestBidOffer := (m_BestBidOffer p)\<lparr>bidVolume := x\<rparr>\<rparr>
                else if key = ''a'' then p\<lparr>m_BestBidOffer := (m_BestBidOffer p)\<lparr>askPrice := x\<rparr>\<rparr>
                else if key = ''A'' then p\<lparr>m_BestBidOffer := (m_BestBidOffer p)\<lparr>askVolume := x\<rparr>\<rparr>
                else p)
      in (p1, TestBookTickerFields p1))"

section \<open>Levels of the order book\<close>

record 'd OrderbookLevelsParser =
  m_Orderbook :: "'d Orderbook"
  m_ArrayIndentation :: u64
  m_PriceVolumeFieldsIndex :: u64

definition OrderbookLevelsParser_ctor :: "nat \<Rightarrow> 'd OrderbookLevelsParser" where
  "OrderbookLevelsParser_ctor depth =
     \<lparr>m_Orderbook = Orderbook_Init depth, m_ArrayIndentation = 0, m_PriceVolumeFieldsIndex = 0\<rparr>"

definition HandleBidLevel :: "bool \<Rightarrow> 'd \<Rightarrow> 'd Orderbook \<Rightarrow> 'd Orderbook option" where
  "HandleBidLevel isPrice x ob =
     (if isPrice then
        map_option (\<lambda>v. ob\<lparr>m_Bids := v\<rparr>)
          (level_write (\<lambda>l. l\<lparr>level_price := Some x\<rparr>) (numberOfBidLevels ob) (m_Bids ob))
      else
        map_option (\<lambda>v. ob\<lparr>m_Bids := v, numberOfBidLevels := numberOfBidLevels ob + 1\<rparr>)
          (level_write (\<lambda>l. l\<lparr>level_volume := Some x\<rparr>) (numberOfBidLevels ob) (m_Bids ob)))"

definition HandleAskLevel :: "bool \<Rightarrow> 'd \<Rightarrow> 'd Orderbook \<Rightarrow> 'd Orderbook option" where
  "HandleAskLevel isPrice x ob =
     (if isPrice then
        map_option (\<lambda>v. ob\<lparr>m_Asks := v\<rparr>)
          (level_write (\<lambda>l. l\<lparr>level_price := Some x\<rparr>) (numberOfAskLevels ob) (m_Asks ob))
      else
        map_option (\<lambda>v. ob\<lparr>m_Asks := v, numberOfAskLevels := numberOfAskLevels ob + 1\<rparr>)
          (level_write (\<lambda>l. l\<lparr>level_volume := Some x\<rparr>) (numberOfAskLevels ob) (m_Asks ob)))"

definition HandleOrderBookLevel ::
  "'d double_api \<Rightarrow> string \<Rightarrow> string \<Rightarrow> 'd OrderbookLevelsParser \<Rightarrow> ('d OrderbookLevelsParser \<times> bool) option" where
  "HandleOrderBookLevel D key value p =
     (if m_ArrayIndentation p = 2 then
        let p1 = p\<lparr>m_PriceVolumeFieldsIndex := m_PriceVolumeFieldsIndex p + 1\<rparr>;
            isPrice = (m_PriceVolumeFieldsIndex p1 mod 2 = 1);
            x = d_strtod D (c_str value)
        in if key = ''bids'' then
             map_option (\<lambda>ob. (p1\<lparr>m_Orderbook := ob\<rparr>, True)) (HandleBidLevel isPrice x (m_Orderbook p1))
           else if key = ''asks'' then
             map_option (\<lambda>ob. (p1\<lparr>m_Orderbook := ob\<rparr>, True)) (HandleAskLevel isPrice x (m_Orderbook p1))
           else Some (p1, True)
      else Some (p, True))"

definition ArrayStart :: "string \<Rightarrow> 'd OrderbookLevelsParser \<Rightarrow> 'd OrderbookLevelsParser" where
  "ArrayStart key p =
     (if key = ''bids'' \<or> key = ''asks'' then p\<lparr>m_ArrayIndentation := m_ArrayIndentation p + 1\<rparr> else p)"

definition ArrayEnd :: "string \<Rightarrow> 'd OrderbookLevelsParser \<Rightarrow> 'd OrderbookLevelsParser" where
  "ArrayEnd key p =
     (if key = ''bids'' \<or> key = ''asks'' then p\<lparr>m_ArrayIndentation := m_ArrayIndentation p - 1\<rparr> else p)"

section \<open>The stream parser of binance\<close>

record 'd BinanceStreamParser =
  m_Key :: string
  m_TradeTickStreamParser :: "'d TradeTickStreamParser"
  m_BookTickerStreamParser :: "'d BookTickerStreamParser"
  m_OrderbookLevelsParser :: "'d OrderbookLevelsParser"
  m_StreamType :: MarketDataStreamType

definition BinanceStreamParser_ctor :: "'d double_api \<Rightarrow> 'd BinanceStreamParser" where
  "BinanceStreamParser_ctor D =
     \<lparr>m_Key = [], m_TradeTickStreamParser = TradeTickStreamParser_ctor D,
      m_BookTickerStreamParser = BookTickerStreamParser_ctor D,
      m_OrderbookLevelsParser = OrderbookLevelsParser_ctor 20, m_StreamType = NoneStream\<rparr>"

definition stream_type :: "string \<Rightarrow> MarketDataStreamType" where
  "stream_type value =
     (if str_contains ''@trade'' value then TradeTickStream
      else if str_contains ''@bookTicker'' value then BookTickerStream
      else if str_contains ''@depth@100ms'' value then Depth100msStream
      else if str_contains ''@depth5@100ms'' value then Depth5LevelsStream
      else if str_contains ''@depth10@100ms'' value then Depth10LevelsStream
      else if str_contains ''@depth20@100ms'' value then Depth20LevelsStream
      else NoneStream)"

definition depth_stream :: "MarketDataStreamType \<Rightarrow> bool" where
  "depth_stream t \<longleftrightarrow> t = Depth5LevelsStream \<or> t = Depth10LevelsStream \<or> t = Depth20LevelsStream"

definition Binance_number_unsigned :: "u64 \<Rightarrow> 'd BinanceStreamParser \<Rightarrow> ('d BinanceStreamParser \<times> bool) option" where
  "Binance_number_unsigned value p =
     (if m_StreamType p = TradeTickStream then
        let (t, b) = HandleTradeTick_number (m_Key p) value (m_TradeTickStreamParser p)
        in Some (p\<lparr>m_TradeTickStreamParser := t\<rparr>, b)
      else Some (p, True))"

definition Binance_string ::
  "'d double_api \<Rightarrow> string \<Rightarrow> 'd BinanceStreamParser \<Rightarrow> ('d BinanceStreamParser \<times> bool) option" where
  "Binance_string D value p =
     (if m_StreamType p = NoneStream \<and> m_Key p = ''stream'' then
        Some (p\<lparr>m_StreamType := stream_type value\<rparr>, True)
      else if m_StreamType p = TradeTickStream then
        let (t, b) = HandleTradeTick_string D (m_Key p) value (m_TradeTickStreamParser p)
        in Some (p\<lparr>m_TradeTickStreamParser := t\<rparr>, b)
      else if m_StreamType p = BookTickerStream then
        let (t, b) = HandleBookTicker D (m_Key p) value (m_BookTickerStreamParser p)
        in Some (p\<lparr>m_BookTickerStreamParser := t\<rparr>, b)
      else if depth_stream (m_StreamType p) then
        map_option (\<lambda>(t, b). (p\<lparr>m_OrderbookLevelsParser := t\<rparr>, b))
          (HandleOrderBookLevel D (m_Key p) value (m_OrderbookLevelsParser p))
      else Some (p, True))"

fun Binance_event :: "'d double_api \<Rightarrow> sax_event \<Rightarrow> 'd BinanceStreamParser \<Rightarrow> ('d BinanceStreamParser \<times> bool) option" where
  "Binance_event D Sax_null p = Some (p, True)"
| "Binance_event D (Sax_boolean value) p = Some (p, True)"
| "Binance_event D (Sax_number_integer val) p = Some (p, True)"
| "Binance_event D (Sax_number_unsigned value) p = Binance_number_unsigned value p"
| "Binance_event D (Sax_number_float s) p = Some (p, True)"
| "Binance_event D (Sax_string value) p = Binance_string D value p"
| "Binance_event D Sax_start_object p = Some (p, True)"
| "Binance_event D Sax_end_object p = Some (p, True)"
| "Binance_event D Sax_start_array p =
     Some (if depth_stream (m_StreamType p)
           then p\<lparr>m_OrderbookLevelsParser := ArrayStart (m_Key p) (m_OrderbookLevelsParser p)\<rparr> else p, True)"
| "Binance_event D Sax_end_array p =
     Some (if depth_stream (m_StreamType p)
           then p\<lparr>m_OrderbookLevelsParser := ArrayEnd (m_Key p) (m_OrderbookLevelsParser p)\<rparr> else p, True)"
| "Binance_event D (Sax_key value) p = Some (p\<lparr>m_Key := value\<rparr>, True)"
| "Binance_event D (Sax_binary val) p = Some (p, True)"
| "Binance_event D (Sax_parse_error position last_token) p = Some (p, False)"

section \<open>The stream parser of bitstamp\<close>

record 'd BitstampStreamParser =
  bs_Key :: string
  bs_TradeTickStreamParser :: "'d TradeTickStreamParser"
  bs_OrderbookLevelsParser :: "'d OrderbookLevelsParser"
  bs_StreamType :: MarketDataStreamType

definition BitstampStreamParser_ctor :: "'d double_api \<Rightarrow> string \<Rightarrow> 'd BitstampStreamParser" where
  "BitstampStreamParser_ctor D msg =
     \<lparr>bs_Key = [], bs_TradeTickStreamParser = TradeTickStreamParser_ctor D,
      bs_OrderbookLevelsParser = OrderbookLevelsParser_ctor 100,
      bs_StreamType = (if str_contains (CHR 0x22 # ''event'' @ [CHR 0x22] @ '':'' @ [CHR 0x22] @ ''trade'' @ [CHR 0x22]) msg
                       then TradeTickStream else NoneStream)\<rparr>"

definition Bitstamp_string ::
  "'d double_api \<Rightarrow> string \<Rightarrow> 'd BitstampStreamParser \<Rightarrow> ('d BitstampStreamParser \<times> bool) option" where
  "Bitstamp_string D value p =
     (if bs_StreamType p = TradeTickStream then
        let (t, b) = Bitstamp_HandleTradeTick_string D (bs_Key p) value (bs_TradeTickStreamParser p)
        in Some (p\<lparr>bs_TradeTickStreamParser := t\<rparr>, b)
      else Some (p, True))"

fun Bitstamp_event :: "'d double_api \<Rightarrow> sax_event \<Rightarrow> 'd BitstampStreamParser \<Rightarrow> ('d BitstampStreamParser \<times> bool) option" where
  "Bitstamp_event D Sax_null p = Some (p, True)"
| "Bitstamp_event D (Sax_boolean value) p = Some (p, True)"
| "Bitstamp_event D (Sax_number_integer val) p = Some (p, True)"
| "Bitstamp_event D (Sax_number_unsigned value) p = Some (p, True)"
| "Bitstamp_event D (Sax_number_float s) p = Some (p, True)"
| "Bitstamp_event D (Sax_string value) p = Bitstamp_string D value p"
| "Bitstamp_event D Sax_start_object p = Some (p, True)"
| "Bitstamp_event D Sax_end_object p = Some (p, True)"
| "Bitstamp_event D Sax_start_array p = Some (p, True)"
| "Bitstamp_event D Sax_end_array p = Some (p, True)"
| "Bitstamp_event D (Sax_key value) p = Some (p\<lparr>bs_Key := value\<rparr>, True)"
| "Bitstamp_event D (Sax_binary val) p = Some (p, True)"
| "Bitstamp_event D (Sax_parse_error position last_token) p = Some (p, False)"

end
