(* ===== verification/MarketData.thy ===== *)
theory MarketData
  imports Exchange Containers
begin

text \<open>
  The session handlers, which parse a received buffer and call the data handler, the feeds, which
  subscribe to the streams, and the data handler of the example program with its volume weighted
  average price. A call of the data handler is a value of \<open>feed_call\<close>.
\<close>

section \<open>Session handlers\<close>

datatype 'd feed_call =
    OnTradeTick Instrument "'d TradeTick" u64
  | OnTopOfTheBook Instrument "'d TopOfTheBook" u64
  | OnOrderbook Instrument "'d Orderbook" u64
  | OnSessionConnected Instrument
  | OnSessionDisconnect Instrument
  | LogInfo string

definition Binance_OnDataRead ::
  "'d double_api \<Rightarrow> (string \<Rightarrow> sax_event list) \<Rightarrow> MarketSubscription \<Rightarrow> string \<Rightarrow> u64 \<Rightarrow> 'd feed_call list option" where
  "Binance_OnDataRead D sax sub msg sessionTimePoint =
     (case sax_parse (Binance_event D) (sax msg) (BinanceStreamParser_ctor D) of
        None \<Rightarrow> None
      | Some (p, result) \<Rightarrow> Some
          (if m_StreamType p = TradeTickStream then
             [OnTradeTick (ms_instrument sub) (m_TradeTick (m_TradeTickStreamParser p)) sessionTimePoint]
           else if m_StreamType p = BookTickerStream then
             [OnTopOfTheBook (ms_instrument sub) (m_BestBidOffer (m_BookTickerStreamParser p)) sessionTimePoint]
           else if m_StreamType p = Depth100msStream then [LogInfo msg]
           else if depth_stream (m_StreamType p) then
             [OnOrderbook (ms_instrument sub) (m_Orderbook (m_OrderbookLevelsParser p)) sessionTimePoint]
           else []))"

definition Binance_OnSessionConnected :: "MarketSubscription \<Rightarrow> 'd feed_call list" where
  "Binance_OnSessionConnected sub = [OnSessionConnected (ms_instrument sub)]"

definition Binance_OnSessionClosed :: "MarketSubscription \<Rightarrow> 'd feed_call list" where
  "Binance_OnSessionClosed sub = [OnSessionDisconnect (ms_instrument sub)]"

definition Bitstamp_OnDataRead ::
  "'d double_api \<Rightarrow> (string \<Rightarrow> sax_event list) \<Rightarrow> MarketSubscription \<Rightarrow> string \<Rightarrow> u64 \<Rightarrow> 'd feed_call list option" where
  "Bitstamp_OnDataRead D sax sub msg sessionTimePoint =
     (case sax_parse (Bitstamp_event D) (sax msg) (BitstampStreamParser_ctor D msg) of
        None \<Rightarrow> None
      | Some (p, result) \<Rightarrow> Some
          (if bs_StreamType p = TradeTickStream then
             [OnTradeTick (ms_instrument sub) (m_TradeTick (bs_TradeTickStreamParser p)) sessionTimePoint]
           else if bs_StreamType p = Depth100LevelsStream then
             [OnOrderbook (ms_instrument sub) (m_Orderbook (bs_OrderbookLevelsParser p)) sessionTimePoint]
           else []))"

definition Bitstamp_OnSessionConnected :: "MarketSubscription \<Rightarrow> 'd feed_call list" where
  "Bitstamp_OnSessionConnected sub = [OnSessionConnected (ms_instrument sub)]"

definition Bitstamp_OnSessionClosed :: "MarketSubscription \<Rightarrow> 'd feed_call list" where
  "Bitstamp_OnSessionClosed sub = [OnSessionDisconnect (ms_instrument sub)]"

section \<open>Feeds\<close>

text \<open>The names of the streams, and the target of the request.\<close>

fun binance_feeds :: "string \<Rightarrow> MarketDataStreamType list \<Rightarrow> string list" where
  "binance_feeds symb [] = []"
| "binance_feeds symb (t # ts) =
     (case t of
        BookTickerStream \<Rightarrow> (symb @ ''@bookTicker'') # binance_feeds symb ts
      | TradeTickStream \<Rightarrow> (symb @ ''@trade'') # binance_feeds symb ts
      | Depth100msStream \<Rightarrow> (symb @ ''@depth@100ms'') # binance_feeds symb ts
      | Depth5LevelsStream \<Rightarrow> (symb @ ''@depth5@100ms'') # binance_feeds symb ts
      | Depth10LevelsStream \<Rightarrow> (symb @ ''@depth10@100ms'') # binance_feeds symb ts
      | Depth20LevelsStream \<Rightarrow> (symb @ ''@depth20@100ms'') # binance_feeds symb ts
      | _ \<Rightarrow> binance_feeds symb ts)"

fun binance_join :: "string list \<Rightarrow> string" where
  "binance_join [] = []"
| "binance_join [f] = f"
| "binance_join (f # g # fs) = f @ ''/'' @ binance_join (g # fs)"

text \<open>\<open>start target host port\<close> is what the web socket client answers for this target.\<close>

definition Binance_Connect :: "(string \<Rightarrow> string \<Rightarrow> u16 \<Rightarrow> bool) \<Rightarrow> MarketSubscription \<Rightarrow> string \<times> bool" where
  "Binance_Connect start sub =
     (let stream = ''/stream?streams='' @
            binance_join (binance_feeds (exchangeSymbol (ms_instrument sub)) (streamSubscriptions sub))
      in (stream, start stream ''stream.binance.com'' 9443))"

text \<open>The text sent for each subscription; the answer of the client is not used.\<close>

definition Bitstamp_SubscribeLiveTradeFeed :: "(string \<Rightarrow> bool) \<Rightarrow> Instrument \<Rightarrow> string \<times> bool" where
  "Bitstamp_SubscribeLiveTradeFeed send instrument =
     (let q = [CHR 0x22];
          ss = ''{'' @ q @ ''event'' @ q @ '':'' @ q @ ''bts:subscribe'' @ q @ '','' @ q @ ''data'' @ q @ '':{'' @
               q @ ''channel'' @ q @ '':'' @ q @ ''live_trades_'' @ exchangeSymbol instrument @ q @ ''}}''
      in (ss, send ss))"

fun bitstamp_subscriptions :: "(string \<Rightarrow> bool) \<Rightarrow> Instrument \<Rightarrow> MarketDataStreamType list \<Rightarrow> string list" where
  "bitstamp_subscriptions send instrument [] = []"
| "bitstamp_subscriptions send instrument (t # ts) =
     (if t = TradeTickStream then [fst (Bitstamp_SubscribeLiveTradeFeed send instrument)] else []) @
     bitstamp_subscriptions send instrument ts"

definition Bitstamp_Connect ::
  "(string \<Rightarrow> u16 \<Rightarrow> bool) \<Rightarrow> (string \<Rightarrow> bool) \<Rightarrow> MarketSubscription \<Rightarrow> string list \<times> bool" where
  "Bitstamp_Connect start send sub =
     (if start ''ws.bitstamp.net'' 443
      then (bitstamp_subscriptions send (ms_instrument sub) (streamSubscriptions sub), True)
      else ([], False))"

section \<open>The data handler of the example program\<close>

type_synonym 'd TradeTickVolPrice = "'d \<times> 'd"

record 'd MarketDataFeedHandler =
  m_IsConnected :: bool
  m_TradeTicks :: "'d TradeTickVolPrice CircularBuffer"

fun vwap_totals :: "'d double_api \<Rightarrow> 'd TradeTickVolPrice list \<Rightarrow> 'd \<times> 'd \<Rightarrow> 'd \<times> 'd" where
  "vwap_totals D [] tot = tot"
| "vwap_totals D ((price, volume) # ticks) (totalVolPrice, totalVolume) =
     vwap_totals D ticks (d_add D totalVolPrice (d_mul D price volume), d_add D totalVolume volume)"

definition VwapCalculator_OnTradeTick ::
  "'d double_api \<Rightarrow> 'd TradeTick \<Rightarrow> 'd TradeTickVolPrice CircularBuffer \<Rightarrow> 'd TradeTickVolPrice CircularBuffer \<times> 'd option" where
  "VwapCalculator_OnTradeTick D tick cb =
     (if d_less D (d_zero D) (tradePrice tick) then
        let cb1 = fst (CircularBuffer_Add (tradePrice tick, tradeVolume tick) cb);
            (totalVolPrice, totalVolume) =
              vwap_totals D (CircularBuffer_Loop (\<lambda>_. True) cb1) (d_zero D, d_zero D)
        in (cb1, Some (d_div D totalVolPrice totalVolume))
      else (cb, None))"

text \<open>The handler after a call, and the average it logs.\<close>

fun FeedHandler_call :: "'d double_api \<Rightarrow> 'd feed_call \<Rightarrow> 'd MarketDataFeedHandler \<Rightarrow> 'd MarketDataFeedHandler \<times> 'd option" where
  "FeedHandler_call D (OnSessionConnected i) h = (h\<lparr>m_IsConnected := True\<rparr>, None)"
| "FeedHandler_call D (OnSessionDisconnect i) h = (h\<lparr>m_IsConnected := False\<rparr>, None)"
| "FeedHandler_call D (OnTradeTick i tick tp) h =
     (let (cb, vwap) = VwapCalculator_OnTradeTick D tick (m_TradeTicks h) in (h\<lparr>m_TradeTicks := cb\<rparr>, vwap))"
| "FeedHandler_call D (OnTopOfTheBook i bbo tp) h = (h, None)"
| "FeedHandler_call D (OnOrderbook i ob tp) h = (h, None)"
| "FeedHandler_call D (LogInfo s) h = (h, None)"

section \<open>What a parse keeps\<close>

locale sax_invariant =
  fixes handle :: "sax_event \<Rightarrow> 'p \<Rightarrow> ('p \<times> bool) option"
    and inv :: "'p \<Rightarrow> bool"
  assumes handle_inv: "inv p \<Longrightarrow> handle e p = Some (p', b) \<Longrightarrow> inv p'"
begin

lemma parse_inv: "inv p \<Longrightarrow> sax_parse handle es p = Some (p', b) \<Longrightarrow> inv p'"
  by (induction es arbitrary: p) (auto split: option.splits if_splits dest: handle_inv)

end

text \<open>The stream type, once known, stays; the trade parser of bitstamp never sees an id.\<close>

definition binance_typed :: "MarketDataStreamType \<Rightarrow> 'd BinanceStreamParser \<Rightarrow> bool" where
  "binance_typed t p \<longleftrightarrow> t \<noteq> NoneStream \<and> m_StreamType p = t"

definition bitstamp_no_id :: "MarketDataStreamType \<Rightarrow> 'd BitstampStreamParser \<Rightarrow> bool" where
  "bitstamp_no_id t p \<longleftrightarrow>
     bs_StreamType p = t \<and> tradeId (m_TradeTick (bs_TradeTickStreamParser p)) = [] \<and>
     m_TradeTickFields (bs_TradeTickStreamParser p) AND TradeTickIdField = 0"

lemma Binance_event_typed:
  "binance_typed t p \<Longrightarrow> Binance_event D e p = Some (p', b) \<Longrightarrow> binance_typed t p'"
  by (cases e) (auto simp: binance_typed_def Binance_number_unsigned_def Binance_string_def
      split: prod.splits if_splits)

lemma or_bit0:
  fixes w :: u16
  assumes "w AND 1 = 0" and "k AND 1 = 0"
  shows "(w OR k) AND 1 = 0"
  using assms by (simp add: bit.conj_disj_distrib2)

lemma Bitstamp_event_no_id:
  "bitstamp_no_id t p \<Longrightarrow> Bitstamp_event D e p = Some (p', b) \<Longrightarrow> bitstamp_no_id t p'"
  by (cases e) (auto simp: bitstamp_no_id_def Bitstamp_string_def Bitstamp_HandleTradeTick_string_def
      Let_def or_bit0 split: prod.splits if_splits)

interpretation binance: sax_invariant "Binance_event D" "binance_typed t" for D t
  by unfold_locales (rule Binance_event_typed)

interpretation bitstamp: sax_invariant "Bitstamp_event D" "bitstamp_no_id t" for D t
  by unfold_locales (rule Bitstamp_event_no_id)

end
