(* ===== verification/FeedProps.thy ===== *)
theory FeedProps
  imports MarketData
begin

text \<open>
  What the market data handlers deliver: trades and books as in the messages, in any order of the
  fields; the streams they subscribe to; the average price.
\<close>

section \<open>Flat objects\<close>

datatype field_value =
    F_unsigned u64
  | F_string string
  | F_integer "64 word"
  | F_float string
  | F_boolean bool
  | F_null

fun value_event :: "field_value \<Rightarrow> sax_event" where
  "value_event (F_unsigned n) = Sax_number_unsigned n"
| "value_event (F_string s) = Sax_string s"
| "value_event (F_integer i) = Sax_number_integer i"
| "value_event (F_float s) = Sax_number_float s"
| "value_event (F_boolean b) = Sax_boolean b"
| "value_event F_null = Sax_null"

definition field_events :: "string \<times> field_value \<Rightarrow> sax_event list" where
  "field_events f = [Sax_key (fst f), value_event (snd f)]"

fun apply_field :: "'d double_api \<Rightarrow> 'd TradeTickStreamParser \<Rightarrow> string \<times> field_value \<Rightarrow> 'd TradeTickStreamParser" where
  "apply_field D p (k, F_unsigned n) = fst (HandleTradeTick_number k n p)"
| "apply_field D p (k, F_string s) = fst (HandleTradeTick_string D k s p)"
| "apply_field D p (k, v) = p"

definition trade_keys :: "string set" where
  "trade_keys = {''T'', ''t'', ''p'', ''q''}"

text \<open>Which of the four fields a trade needs are among the fields \<open>P\<close>, as the bits of the parser.\<close>

definition field_word :: "bool \<Rightarrow> bool \<Rightarrow> bool \<Rightarrow> bool \<Rightarrow> u16" where
  "field_word a b c d =
     (if a then TradeTickIdField else 0) OR (if b then TradeTickPriceField else 0) OR
     (if c then TradeTickVolumeField else 0) OR (if d then TradeTickTimeField else 0)"

definition has_number :: "string \<Rightarrow> (string \<times> field_value) list \<Rightarrow> bool" where
  "has_number k P \<longleftrightarrow> list_ex (\<lambda>f. case f of (k', F_unsigned n) \<Rightarrow> k' = k | _ \<Rightarrow> False) P"

definition has_string :: "string \<Rightarrow> (string \<times> field_value) list \<Rightarrow> bool" where
  "has_string k P \<longleftrightarrow> list_ex (\<lambda>f. case f of (k', F_string s) \<Rightarrow> k' = k | _ \<Rightarrow> False) P"

definition field_bits :: "(string \<times> field_value) list \<Rightarrow> u16" where
  "field_bits P = field_word (has_number ''t'' P) (has_string ''p'' P) (has_string ''q'' P) (has_number ''T'' P)"

definition has_all :: "(string \<times> field_value) list \<Rightarrow> bool" where
  "has_all P \<longleftrightarrow> has_number ''t'' P \<and> has_string ''p'' P \<and> has_string ''q'' P \<and> has_number ''T'' P"

lemma field_word_or:
  "field_word a b c d OR TradeTickIdField = field_word True b c d"
  "field_word a b c d OR TradeTickPriceField = field_word a True c d"
  "field_word a b c d OR TradeTickVolumeField = field_word a b True d"
  "field_word a b c d OR TradeTickTimeField = field_word a b c True"
  by (cases a; cases b; cases c; cases d; simp add: field_word_def)+

lemma field_word_test:
  "field_word a b c d = 0 \<or> field_word a b c d AND TradeTickAllFields \<noteq> TradeTickAllFields \<longleftrightarrow> \<not> (a \<and> b \<and> c \<and> d)"
  by (cases a; cases b; cases c; cases d; simp add: field_word_def)

lemma has_snoc [simp]:
  "has_number k (P @ [(k', F_unsigned n)]) = (k' = k \<or> has_number k P)"
  "has_number k (P @ [(k', F_string s)]) = has_number k P"
  "has_string k (P @ [(k', F_unsigned n)]) = has_string k P"
  "has_string k (P @ [(k', F_string s)]) = (k' = k \<or> has_string k P)"
  by (auto simp: has_number_def has_string_def)

lemma has_snoc_other [simp]:
  "has_number k (P @ [(k', F_integer i)]) = has_number k P"
  "has_number k (P @ [(k', F_float x)]) = has_number k P"
  "has_number k (P @ [(k', F_boolean b)]) = has_number k P"
  "has_number k (P @ [(k', F_null)]) = has_number k P"
  "has_string k (P @ [(k', F_integer i)]) = has_string k P"
  "has_string k (P @ [(k', F_float x)]) = has_string k P"
  "has_string k (P @ [(k', F_boolean b)]) = has_string k P"
  "has_string k (P @ [(k', F_null)]) = has_string k P"
  by (simp_all add: has_number_def has_string_def)

lemma apply_field_other: "fst f \<notin> trade_keys \<Longrightarrow> apply_field D p f = p"
  by (cases "(D, p, f)" rule: apply_field.cases)
    (simp_all add: trade_keys_def HandleTradeTick_number_def HandleTradeTick_string_def Let_def)

lemma apply_field_bits:
  "m_TradeTickFields p = field_bits P \<Longrightarrow> m_TradeTickFields (apply_field D p f) = field_bits (P @ [f])"
  by (cases "(D, p, f)" rule: apply_field.cases)
    (simp_all add: HandleTradeTick_number_def HandleTradeTick_string_def field_bits_def
      field_word_or Let_def)

definition read_fields :: "'d double_api \<Rightarrow> (string \<times> field_value) list \<Rightarrow> 'd TradeTickStreamParser" where
  "read_fields D P = foldl (apply_field D) (TradeTickStreamParser_ctor D) P"

lemma read_fields_bits: "m_TradeTickFields (read_fields D P) = field_bits P"
proof (induction P rule: rev_induct)
  case Nil
  show ?case by (simp add: read_fields_def TradeTickStreamParser_ctor_def field_bits_def field_word_def
      has_number_def has_string_def)
next
  case (snoc f P)
  then show ?case by (simp add: read_fields_def apply_field_bits)
qed

lemma read_fields_test: "TestTradeTickFields (read_fields D P) \<longleftrightarrow> \<not> has_all P"
  unfolding TestTradeTickFields_def read_fields_bits field_bits_def field_word_test has_all_def ..

text \<open>With all four fields read, fields of other names change nothing.\<close>

lemma has_key:
  "has_number k P \<Longrightarrow> k \<in> fst ` set P"
  "has_string k P \<Longrightarrow> k \<in> fst ` set P"
  by (induction P) (auto simp: has_number_def has_string_def split: field_value.splits prod.splits)

lemma has_all_keys: "has_all P \<Longrightarrow> trade_keys \<subseteq> fst ` set P"
  unfolding has_all_def trade_keys_def using has_key by simp

lemma read_fields_done:
  assumes "has_all P" and "distinct (map fst (P @ Q))"
  shows "read_fields D (P @ Q) = read_fields D P"
proof -
  have "fst f \<notin> trade_keys" if "f \<in> set Q" for f
    using has_all_keys [OF assms(1)] assms(2) that by auto
  then have "foldl (apply_field D) p Q = p" for p
    by (induction Q arbitrary: p) (simp_all add: apply_field_other)
  then show ?thesis by (simp add: read_fields_def)
qed

text \<open>What is read of a field with a distinct name.\<close>

lemma foldl_field:
  assumes keep: "\<And>f p. fst f \<noteq> k \<Longrightarrow> get (app p f) = get p" and hit: "\<And>p. get (app p (k, v)) = x"
  shows "(k, v) \<in> set P \<Longrightarrow> distinct (map fst P) \<Longrightarrow> get (foldl app p P) = x"
proof (induction P rule: rev_induct)
  case (snoc f P)
  show ?case
  proof (cases "f = (k, v)")
    case True
    with hit show ?thesis by simp
  next
    case False
    with snoc.prems have m: "(k, v) \<in> set P" by simp
    then have "k \<in> fst ` set P" by force
    with snoc.prems(2) have "fst f \<noteq> k" by auto
    with m snoc keep show ?thesis by simp
  qed
qed simp

lemma apply_field_keep:
  "fst f \<noteq> ''T'' \<Longrightarrow> tradeTime (m_TradeTick (apply_field D p f)) = tradeTime (m_TradeTick p)"
  "fst f \<noteq> ''t'' \<Longrightarrow> tradeId (m_TradeTick (apply_field D p f)) = tradeId (m_TradeTick p)"
  "fst f \<noteq> ''p'' \<Longrightarrow> tradePrice (m_TradeTick (apply_field D p f)) = tradePrice (m_TradeTick p)"
  "fst f \<noteq> ''q'' \<Longrightarrow> tradeVolume (m_TradeTick (apply_field D p f)) = tradeVolume (m_TradeTick p)"
  by (cases "(D, p, f)" rule: apply_field.cases;
      simp add: HandleTradeTick_number_def HandleTradeTick_string_def Let_def)+

lemma read_fields_value:
  assumes "distinct (map fst P)"
  shows "(''T'', F_unsigned n) \<in> set P \<Longrightarrow> tradeTime (m_TradeTick (read_fields D P)) = n * 1000000"
    and "(''t'', F_unsigned n) \<in> set P \<Longrightarrow> tradeId (m_TradeTick (read_fields D P)) = to_string (uint n)"
    and "(''p'', F_string s) \<in> set P \<Longrightarrow> tradePrice (m_TradeTick (read_fields D P)) = d_strtod D (c_str s)"
    and "(''q'', F_string s) \<in> set P \<Longrightarrow> tradeVolume (m_TradeTick (read_fields D P)) = d_strtod D (c_str s)"
  unfolding read_fields_def
  by (erule foldl_field [where get = "\<lambda>p. tradeTime (m_TradeTick p)", rotated 2, OF _ assms]
      foldl_field [where get = "\<lambda>p. tradeId (m_TradeTick p)", rotated 2, OF _ assms]
      foldl_field [where get = "\<lambda>p. tradePrice (m_TradeTick p)", rotated 2, OF _ assms]
      foldl_field [where get = "\<lambda>p. tradeVolume (m_TradeTick p)", rotated 2, OF _ assms];
      simp add: apply_field_keep HandleTradeTick_number_def HandleTradeTick_string_def Let_def)+

section \<open>Trades\<close>

lemma field_step:
  assumes "m_StreamType p = TradeTickStream" and "TestTradeTickFields (m_TradeTickStreamParser p)"
  shows "sax_parse (Binance_event D) (field_events f @ es) p =
    (let t = apply_field D (m_TradeTickStreamParser p) f;
         p1 = p\<lparr>m_Key := fst f, m_TradeTickStreamParser := t\<rparr>
     in if TestTradeTickFields t then sax_parse (Binance_event D) es p1 else Some (p1, False))"
  using assms
  by (cases "(D, m_TradeTickStreamParser p, f)" rule: apply_field.cases)
    (auto simp: field_events_def Binance_number_unsigned_def Binance_string_def HandleTradeTick_number_def
      HandleTradeTick_string_def Let_def)

lemma fields_run:
  "m_StreamType p = TradeTickStream \<Longrightarrow> m_TradeTickStreamParser p = read_fields D P \<Longrightarrow> \<not> has_all P \<Longrightarrow>
   has_all (P @ Q) \<Longrightarrow> distinct (map fst (P @ Q)) \<Longrightarrow>
   \<exists>p1. sax_parse (Binance_event D) (concat (map field_events Q) @ es) p = Some (p1, False) \<and>
     m_StreamType p1 = TradeTickStream \<and> m_TradeTickStreamParser p1 = read_fields D (P @ Q)"
proof (induction Q arbitrary: P p)
  case (Cons f Q)
  let ?p = "p\<lparr>m_Key := fst f, m_TradeTickStreamParser := read_fields D (P @ [f])\<rparr>"
  have "apply_field D (m_TradeTickStreamParser p) f = read_fields D (P @ [f])"
    by (simp add: Cons.prems read_fields_def)
  with Cons.prems have step: "sax_parse (Binance_event D) (concat (map field_events (f # Q)) @ es) p =
      (if \<not> has_all (P @ [f]) then sax_parse (Binance_event D) (concat (map field_events Q) @ es) ?p
       else Some (?p, False))"
    by (simp add: field_step read_fields_test Let_def)
  show ?case
  proof (cases "has_all (P @ [f])")
    case True
    from read_fields_done [OF this, of Q D] Cons.prems True step show ?thesis by simp
  next
    case False
    have "\<exists>p1. sax_parse (Binance_event D) (concat (map field_events Q) @ es) ?p = Some (p1, False) \<and>
        m_StreamType p1 = TradeTickStream \<and> m_TradeTickStreamParser p1 = read_fields D ((P @ [f]) @ Q)"
      by (rule Cons.IH) (use Cons.prems False in simp_all)
    with False step show ?thesis by simp
  qed
qed simp

text \<open>The events of a message of a combined stream up to its data.\<close>

definition stream_head :: "string \<Rightarrow> sax_event list" where
  "stream_head s = [Sax_start_object, Sax_key ''stream'', Sax_string s, Sax_key ''data'', Sax_start_object]"

lemma stream_head_run:
  assumes "stream_type s \<noteq> NoneStream"
  shows "sax_parse (Binance_event D) (stream_head s @ es) (BinanceStreamParser_ctor D) =
    sax_parse (Binance_event D) es
      ((BinanceStreamParser_ctor D)\<lparr>m_Key := ''data'', m_StreamType := stream_type s\<rparr>)"
  by (simp add: stream_head_def BinanceStreamParser_ctor_def Binance_string_def)

lemma has_all_intro:
  "(''t'', F_unsigned i) \<in> set P \<Longrightarrow> (''p'', F_string s) \<in> set P \<Longrightarrow> (''q'', F_string r) \<in> set P \<Longrightarrow>
   (''T'', F_unsigned n) \<in> set P \<Longrightarrow> has_all P"
  by (force simp: has_all_def has_number_def has_string_def list_ex_iff)

text \<open>
  C26: A trade message of binance whose data object has the four fields of a trade, each once, in any
  order and between any others, leads to exactly one call with the trade as in the message. What
  follows the object does not matter, not even when it is malformed.
\<close>

theorem binance_trade:
  assumes "sax msg = stream_head s @ concat (map field_events fs) @ rest"
    and "stream_type s = TradeTickStream" and "distinct (map fst fs)"
    and "(''t'', F_unsigned i) \<in> set fs" and "(''p'', F_string price) \<in> set fs"
    and "(''q'', F_string vol) \<in> set fs" and "(''T'', F_unsigned ms) \<in> set fs"
  shows "Binance_OnDataRead D sax sub msg tp =
    Some [OnTradeTick (ms_instrument sub)
      \<lparr>tradeId = to_string (uint i), tradePrice = d_strtod D (c_str price),
       tradeVolume = d_strtod D (c_str vol), tradeTime = ms * 1000000\<rparr> tp]"
proof -
  let ?p = "(BinanceStreamParser_ctor D)\<lparr>m_Key := ''data'', m_StreamType := stream_type s\<rparr>"
  have "\<exists>p1. sax_parse (Binance_event D) (concat (map field_events fs) @ rest) ?p = Some (p1, False) \<and>
      m_StreamType p1 = TradeTickStream \<and> m_TradeTickStreamParser p1 = read_fields D ([] @ fs)"
    by (rule fields_run)
      (use assms has_all_intro [OF assms(4-7)] in \<open>simp_all add: BinanceStreamParser_ctor_def read_fields_def
        has_all_def has_number_def\<close>)
  then obtain p1 where p1: "sax_parse (Binance_event D) (sax msg) (BinanceStreamParser_ctor D) = Some (p1, False)"
    "m_StreamType p1 = TradeTickStream" "m_TradeTickStreamParser p1 = read_fields D fs"
    using assms(1,2) by (auto simp: stream_head_run)
  have "m_TradeTick (read_fields D fs) =
      \<lparr>tradeId = to_string (uint i), tradePrice = d_strtod D (c_str price),
       tradeVolume = d_strtod D (c_str vol), tradeTime = ms * 1000000\<rparr>"
    using read_fields_value [OF assms(3), where D = D] assms(4-7) by simp
  with p1 show ?thesis by (simp add: Binance_OnDataRead_def)
qed

text \<open>The message of the documentation of the exchange, cut off after the fourth field.\<close>

definition nat_api :: "nat double_api" where
  "nat_api = \<lparr>d_zero = 0, d_add = (+), d_mul = (*), d_div = (div), d_less = (<), d_strtod = parse_nat\<rparr>"

definition btc_usdt :: Instrument where
  "btc_usdt = \<lparr>instrument_exchange = ''binance'', exchangeSymbol = ''btcusdt'', instrument_symbol = ''btc_usdt''\<rparr>"

definition btc_sub :: MarketSubscription where
  "btc_sub = \<lparr>ms_instrument = btc_usdt, streamSubscriptions = [TradeTickStream, Depth10LevelsStream]\<rparr>"

definition trade_fields :: "(string \<times> field_value) list" where
  "trade_fields = [(''e'', F_string ''trade''), (''E'', F_unsigned 7), (''t'', F_unsigned 12345),
     (''p'', F_string ''10''), (''q'', F_string ''100''), (''T'', F_unsigned 5)]"

theorem binance_trade_witness:
  "Binance_OnDataRead nat_api
     (\<lambda>_. stream_head ''btcusdt@trade'' @ concat (map field_events trade_fields) @ [Sax_parse_error 9 ''x'']) btc_sub ''msg'' 1 =
   Some [OnTradeTick btc_usdt \<lparr>tradeId = ''12345'', tradePrice = 10, tradeVolume = 100, tradeTime = 5000000\<rparr> 1]"
proof -
  have ty: "stream_type ''btcusdt@trade'' = TradeTickStream" by (simp add: stream_type_def)
  have d: "distinct (map fst trade_fields)" by (simp add: trade_fields_def)
  have m: "(''t'', F_unsigned 12345) \<in> set trade_fields" "(''p'', F_string ''10'') \<in> set trade_fields"
    "(''q'', F_string ''100'') \<in> set trade_fields" "(''T'', F_unsigned 5) \<in> set trade_fields"
    by (simp_all add: trade_fields_def)
  have v: "to_string (uint (12345 :: u64)) = ''12345''" "d_strtod nat_api (c_str ''10'') = 10"
    "d_strtod nat_api (c_str ''100'') = 100" "(5 :: u64) * 1000000 = 5000000" "ms_instrument btc_sub = btc_usdt"
    by (simp_all add: to_string_def dec_nat.simps digit_char_def char_of_def bit_iff_odd nat_api_def c_str_def parse_nat_def btc_sub_def)
  show ?thesis
    using binance_trade [where D = nat_api and sub = btc_sub and tp = 1 and msg = "''msg''", OF refl ty d m]
    unfolding v .
qed

section \<open>The strings of a message\<close>

text \<open>The pairs of a key and a string that come after each other, up to a parse error.\<close>

fun keyed_strings :: "string \<Rightarrow> sax_event list \<Rightarrow> (string \<times> string) list" where
  "keyed_strings k [] = []"
| "keyed_strings k (e # es) =
     (case e of
        Sax_key k' \<Rightarrow> keyed_strings k' es
      | Sax_string s \<Rightarrow> (k, s) # keyed_strings k es
      | Sax_parse_error p s \<Rightarrow> []
      | _ \<Rightarrow> keyed_strings k es)"

text \<open>The value of the last string with a key.\<close>

definition last_value :: "(string \<Rightarrow> 'a) \<Rightarrow> 'a \<Rightarrow> (string \<times> string) list \<Rightarrow> string \<Rightarrow> 'a" where
  "last_value f d ps k = (case map_of (rev ps) k of None \<Rightarrow> d | Some s \<Rightarrow> f (c_str s))"

lemma last_value_Nil [simp]: "last_value f d [] k = d"
  by (simp add: last_value_def)

lemma last_value_snoc [simp]:
  "last_value f d (ps @ [(k', s)]) k = (if k = k' then f (c_str s) else last_value f d ps k)"
  by (simp add: last_value_def)

definition ticker_of :: "'d double_api \<Rightarrow> (string \<times> string) list \<Rightarrow> 'd TopOfTheBook" where
  "ticker_of D ps =
     \<lparr>bidPrice = last_value (d_strtod D) (d_zero D) ps ''b'', bidVolume = last_value (d_strtod D) (d_zero D) ps ''B'',
      askPrice = last_value (d_strtod D) (d_zero D) ps ''a'', askVolume = last_value (d_strtod D) (d_zero D) ps ''A''\<rparr>"

lemma ticker_run:
  "m_StreamType p = BookTickerStream \<Longrightarrow> m_BookTickerStreamParser p = \<lparr>m_BestBidOffer = ticker_of D ps, m_BookTickerFields = 0\<rparr> \<Longrightarrow>
   \<exists>p1 b. sax_parse (Binance_event D) es p = Some (p1, b) \<and> m_StreamType p1 = BookTickerStream \<and>
     m_BestBidOffer (m_BookTickerStreamParser p1) = ticker_of D (ps @ keyed_strings (m_Key p) es)"
proof (induction es arbitrary: p ps)
  case (Cons e es)
  show ?case
  proof (cases e)
    case (Sax_string s)
    let ?p = "p\<lparr>m_BookTickerStreamParser := \<lparr>m_BestBidOffer = ticker_of D (ps @ [(m_Key p, s)]), m_BookTickerFields = 0\<rparr>\<rparr>"
    have "Binance_event D e p = Some (?p, True)"
      using Cons.prems Sax_string
      by (auto simp: Binance_string_def HandleBookTicker_def TestBookTickerFields_def ticker_of_def Let_def)
    with Cons.IH [of ?p "ps @ [(m_Key p, s)]"] Cons.prems Sax_string show ?thesis by simp
  next
    case (Sax_key k)
    with Cons.IH [of "p\<lparr>m_Key := k\<rparr>" ps] Cons.prems show ?thesis by simp
  next
    case (Sax_parse_error n s)
    with Cons.prems show ?thesis by (intro exI [of _ p] exI [of _ False]) simp
  qed (use Cons.IH [of p ps] Cons.prems in \<open>simp_all add: Binance_number_unsigned_def depth_stream_def\<close>)
qed auto

text \<open>
  A book ticker message of binance leads to exactly one call, with the last value of each of the
  four fields and zero for a field that is not there: also a message that is cut off or malformed
  after the name of its stream is delivered.
\<close>

theorem binance_ticker:
  assumes "sax msg = [Sax_start_object, Sax_key ''stream'', Sax_string s] @ rest"
    and "stream_type s = BookTickerStream"
  shows "Binance_OnDataRead D sax sub msg tp =
    Some [OnTopOfTheBook (ms_instrument sub) (ticker_of D (keyed_strings ''stream'' rest)) tp]"
proof -
  let ?p = "(BinanceStreamParser_ctor D)\<lparr>m_Key := ''stream'', m_StreamType := BookTickerStream\<rparr>"
  have "m_BookTickerStreamParser ?p = \<lparr>m_BestBidOffer = ticker_of D [], m_BookTickerFields = 0\<rparr>"
    by (simp add: BinanceStreamParser_ctor_def BookTickerStreamParser_ctor_def ticker_of_def)
  from ticker_run [OF _ this, of rest] obtain p1 b where
    "sax_parse (Binance_event D) rest ?p = Some (p1, b)" "m_StreamType p1 = BookTickerStream"
    "m_BestBidOffer (m_BookTickerStreamParser p1) = ticker_of D (keyed_strings ''stream'' rest)"
    by auto
  with assms show ?thesis
    by (simp add: Binance_OnDataRead_def Binance_string_def BinanceStreamParser_ctor_def)
qed

theorem binance_ticker_witness:
  "Binance_OnDataRead nat_api
     (\<lambda>_. [Sax_start_object, Sax_key ''stream'', Sax_string ''btcusdt@bookTicker''] @
       [Sax_key ''data'', Sax_start_object, Sax_key ''b'', Sax_string ''7'', Sax_parse_error 9 ''x'']) btc_sub ''msg'' 1 =
   Some [OnTopOfTheBook btc_usdt \<lparr>bidPrice = 7, bidVolume = 0, askPrice = 0, askVolume = 0\<rparr> 1]"
proof -
  let ?rest = "[Sax_key ''data'', Sax_start_object, Sax_key ''b'', Sax_string ''7'', Sax_parse_error 9 ''x'']"
  have ty: "stream_type ''btcusdt@bookTicker'' = BookTickerStream" by (simp add: stream_type_def)
  have v: "ticker_of nat_api (keyed_strings ''stream'' ?rest) =
      \<lparr>bidPrice = 7, bidVolume = 0, askPrice = 0, askVolume = 0\<rparr>" "ms_instrument btc_sub = btc_usdt"
    by (simp_all add: ticker_of_def last_value_def nat_api_def c_str_def parse_nat_def btc_sub_def)
  show ?thesis
    using binance_ticker [where D = nat_api and rest = ?rest and sub = btc_sub and tp = 1 and msg = "''msg''", OF refl ty]
    unfolding v .
qed

text \<open>The trade of bitstamp: no number is read, and so no id.\<close>

definition bitstamp_tick :: "'d double_api \<Rightarrow> (string \<times> string) list \<Rightarrow> 'd TradeTick" where
  "bitstamp_tick D ps =
     \<lparr>tradeId = [], tradePrice = last_value (d_strtod D) (d_zero D) ps ''price_str'',
      tradeVolume = last_value (d_strtod D) (d_zero D) ps ''amount_str'',
      tradeTime = last_value (\<lambda>s. of_int (atol s) * 1000) 0 ps ''microtimestamp''\<rparr>"

lemma no_id_continues: "bitstamp_no_id t p \<Longrightarrow> TestTradeTickFields (bs_TradeTickStreamParser p)"
proof -
  assume a: "bitstamp_no_id t p"
  let ?w = "m_TradeTickFields (bs_TradeTickStreamParser p)"
  have "(?w AND 15) AND 1 = ?w AND 1" by (simp add: and.assoc)
  moreover have "(15 :: u16) AND 1 = 1" by simp
  ultimately show ?thesis using a by (auto simp: bitstamp_no_id_def TestTradeTickFields_def)
qed

lemma bitstamp_string_run:
  assumes "bitstamp_no_id TradeTickStream p" and "m_TradeTick (bs_TradeTickStreamParser p) = bitstamp_tick D ps"
  shows "\<exists>p1. Bitstamp_event D (Sax_string s) p = Some (p1, True) \<and> bitstamp_no_id TradeTickStream p1 \<and>
    bs_Key p1 = bs_Key p \<and> m_TradeTick (bs_TradeTickStreamParser p1) = bitstamp_tick D (ps @ [(bs_Key p, s)])"
proof -
  let ?t = "fst (Bitstamp_HandleTradeTick_string D (bs_Key p) s (bs_TradeTickStreamParser p))"
  let ?p1 = "p\<lparr>bs_TradeTickStreamParser := ?t\<rparr>"
  have ev: "Bitstamp_event D (Sax_string s) p = Some (?p1, TestTradeTickFields ?t)"
    using assms(1) by (simp add: Bitstamp_string_def bitstamp_no_id_def Bitstamp_HandleTradeTick_string_def Let_def)
  have keep: "bitstamp_no_id TradeTickStream ?p1" by (rule Bitstamp_event_no_id [OF assms(1) ev])
  have "m_TradeTick ?t = bitstamp_tick D (ps @ [(bs_Key p, s)])"
    using assms(2) by (simp add: Bitstamp_HandleTradeTick_string_def bitstamp_tick_def Let_def)
  with ev keep no_id_continues [OF keep] show ?thesis by simp
qed

lemma bitstamp_run:
  "bitstamp_no_id TradeTickStream p \<Longrightarrow> m_TradeTick (bs_TradeTickStreamParser p) = bitstamp_tick D ps \<Longrightarrow>
   \<exists>p1 b. sax_parse (Bitstamp_event D) es p = Some (p1, b) \<and> bs_StreamType p1 = TradeTickStream \<and>
     m_TradeTick (bs_TradeTickStreamParser p1) = bitstamp_tick D (ps @ keyed_strings (bs_Key p) es)"
proof (induction es arbitrary: p ps)
  case (Cons e es)
  show ?case
  proof (cases e)
    case (Sax_string s)
    from bitstamp_string_run [OF Cons.prems, of s] obtain p1 where
      "Bitstamp_event D (Sax_string s) p = Some (p1, True)" "bitstamp_no_id TradeTickStream p1"
      "bs_Key p1 = bs_Key p" "m_TradeTick (bs_TradeTickStreamParser p1) = bitstamp_tick D (ps @ [(bs_Key p, s)])"
      by blast
    with Cons.IH [of p1 "ps @ [(bs_Key p, s)]"] Sax_string show ?thesis by simp
  next
    case (Sax_key k)
    with Cons.IH [of "p\<lparr>bs_Key := k\<rparr>" ps] Cons.prems show ?thesis by (simp add: bitstamp_no_id_def)
  next
    case (Sax_parse_error n s)
    with Cons.prems show ?thesis by (intro exI [of _ p] exI [of _ False]) (simp add: bitstamp_no_id_def)
  qed (use Cons.IH [of p ps] Cons.prems in simp_all)
qed (auto simp: bitstamp_no_id_def)

text \<open>The text that marks a trade event.\<close>

definition trade_event :: string where
  "trade_event = CHR 0x22 # ''event'' @ [CHR 0x22] @ '':'' @ [CHR 0x22] @ ''trade'' @ [CHR 0x22]"

lemma bitstamp_other_run:
  "bs_StreamType p = NoneStream \<Longrightarrow>
   \<exists>p1 b. sax_parse (Bitstamp_event D) es p = Some (p1, b) \<and> bs_StreamType p1 = NoneStream"
proof (induction es arbitrary: p)
  case (Cons e es)
  show ?case
  proof (cases e)
    case (Sax_key k)
    with Cons.IH [of "p\<lparr>bs_Key := k\<rparr>"] Cons.prems show ?thesis by simp
  next
    case (Sax_parse_error n s)
    with Cons.prems show ?thesis by (intro exI [of _ p] exI [of _ False]) simp
  qed (use Cons.IH [of p] Cons.prems in \<open>simp_all add: Bitstamp_string_def\<close>)
qed auto

text \<open>
  A message of bitstamp leads to one call when its text has the mark of a trade event and to none
  otherwise. The trade has the last string of each of its fields, wherever in the message it is, and
  always an empty id: the numeric id of the message is never read, so that the parse is never cut
  short either.
\<close>

theorem bitstamp_trade:
  "Bitstamp_OnDataRead D sax sub msg tp =
    Some (if str_contains trade_event msg
          then [OnTradeTick (ms_instrument sub) (bitstamp_tick D (keyed_strings [] (sax msg))) tp] else [])"
proof (cases "str_contains trade_event msg")
  case True
  let ?p = "BitstampStreamParser_ctor D msg"
  have "bitstamp_no_id TradeTickStream ?p" "m_TradeTick (bs_TradeTickStreamParser ?p) = bitstamp_tick D []"
    "bs_Key ?p = []"
    using True by (simp_all add: BitstampStreamParser_ctor_def bitstamp_no_id_def trade_event_def
        TradeTickStreamParser_ctor_def bitstamp_tick_def)
  with bitstamp_run [of ?p D "[]" "sax msg"] True show ?thesis by (auto simp: Bitstamp_OnDataRead_def)
next
  case False
  then have "bs_StreamType (BitstampStreamParser_ctor D msg) = NoneStream"
    by (simp add: BitstampStreamParser_ctor_def trade_event_def)
  from bitstamp_other_run [OF this, of D "sax msg"] False show ?thesis by (auto simp: Bitstamp_OnDataRead_def)
qed

section \<open>Subscriptions\<close>

fun split_on :: "char \<Rightarrow> string \<Rightarrow> string list" where
  "split_on c [] = [[]]"
| "split_on c (x # xs) =
     (case split_on c xs of
        [] \<Rightarrow> [[]]
      | s # ss \<Rightarrow> if x = c then [] # s # ss else (x # s) # ss)"

lemma split_on_single: "c \<notin> set s \<Longrightarrow> split_on c s = [s]"
  by (induction s) auto

lemma split_on_append: "c \<notin> set s \<Longrightarrow> split_on c (s @ c # r) = s # split_on c r"
  by (induction s) (auto split: list.splits dest: arg_cong [where f = length])

lemma split_join:
  "fs \<noteq> [] \<Longrightarrow> \<forall>f \<in> set fs. CHR ''/'' \<notin> set f \<Longrightarrow> split_on (CHR ''/'') (binance_join fs) = fs"
  by (induction fs rule: binance_join.induct) (simp_all add: split_on_single split_on_append)

definition binance_stream :: "MarketDataStreamType \<Rightarrow> bool" where
  "binance_stream t \<longleftrightarrow> t \<noteq> NoneStream \<and> t \<noteq> Depth100LevelsStream"

lemma contains_symbol:
  "CHR ''@'' \<notin> set symb \<Longrightarrow> str_contains (CHR ''@'' # pat) (symb @ suffix) = str_contains (CHR ''@'' # pat) suffix"
  by (induction symb) auto

lemma feeds_types:
  "CHR ''@'' \<notin> set symb \<Longrightarrow> map stream_type (binance_feeds symb ts) = List.filter binance_stream ts"
  by (induction ts) (simp_all add: binance_stream_def stream_type_def contains_symbol
      split: MarketDataStreamType.split)

lemma feeds_no_slash: "CHR ''/'' \<notin> set symb \<Longrightarrow> f \<in> set (binance_feeds symb ts) \<Longrightarrow> CHR ''/'' \<notin> set f"
  by (induction ts) (auto split: MarketDataStreamType.splits)

text \<open>
  Every stream the feed of binance subscribes to is one that the parser of its messages knows by
  its name, as the kind that was subscribed to: the target of the request, cut at the slashes, names
  the subscribed kinds in order.
\<close>

theorem binance_subscribes:
  assumes "CHR ''@'' \<notin> set (exchangeSymbol (ms_instrument sub))" and "CHR ''/'' \<notin> set (exchangeSymbol (ms_instrument sub))"
  shows "List.filter binance_stream
      (map stream_type (split_on (CHR ''/'') (drop 16 (fst (Binance_Connect start sub))))) =
    List.filter binance_stream (streamSubscriptions sub)"
proof -
  let ?fs = "binance_feeds (exchangeSymbol (ms_instrument sub)) (streamSubscriptions sub)"
  have t: "drop 16 (fst (Binance_Connect start sub)) = binance_join ?fs"
    by (simp add: Binance_Connect_def Let_def)
  have types: "map stream_type ?fs = List.filter binance_stream (streamSubscriptions sub)"
    by (rule feeds_types [OF assms(1)])
  show ?thesis
  proof (cases "?fs = []")
    case True
    with types show ?thesis by (simp add: t binance_stream_def stream_type_def)
  next
    case False
    from split_join [OF this] feeds_no_slash [OF assms(2)] types show ?thesis by (simp add: t)
  qed
qed

theorem binance_subscribes_witness:
  "List.filter binance_stream
     (map stream_type (split_on (CHR ''/'') (drop 16 (fst (Binance_Connect (\<lambda>_ _ _. True) btc_sub))))) =
   [TradeTickStream, Depth10LevelsStream]"
proof -
  have "CHR ''@'' \<notin> set (exchangeSymbol (ms_instrument btc_sub))" "CHR ''/'' \<notin> set (exchangeSymbol (ms_instrument btc_sub))"
    by (simp_all add: btc_sub_def btc_usdt_def)
  from binance_subscribes [OF this] show ?thesis by (simp add: btc_sub_def binance_stream_def)
qed

section \<open>Levels\<close>

definition level_events :: "string \<times> string \<Rightarrow> sax_event list" where
  "level_events l = [Sax_start_array, Sax_string (fst l), Sax_string (snd l), Sax_end_array]"

definition level_of :: "'d double_api \<Rightarrow> string \<times> string \<Rightarrow> 'd OrderbookLevel" where
  "level_of D l = \<lparr>level_price = Some (d_strtod D (c_str (fst l))), level_volume = Some (d_strtod D (c_str (snd l)))\<rparr>"

text \<open>The parser between two levels of a side, with the levels read so far.\<close>

definition in_levels :: "string \<Rightarrow> 'd BinanceStreamParser \<Rightarrow> bool" where
  "in_levels k p \<longleftrightarrow> depth_stream (m_StreamType p) \<and> m_Key p = k \<and>
     m_ArrayIndentation (m_OrderbookLevelsParser p) = 1 \<and> even (m_PriceVolumeFieldsIndex (m_OrderbookLevelsParser p))"

definition read_levels :: "'d double_api \<Rightarrow> nat \<Rightarrow> (string \<times> string) list \<Rightarrow> 'd level_vector" where
  "read_levels D depth ls =
     \<lparr>v_size = 0, v_storage = map (level_of D) ls @ replicate (depth - length ls) \<lparr>level_price = None, level_volume = None\<rparr>\<rparr>"

lemma depth_stream_neq: "depth_stream t \<Longrightarrow> t \<noteq> NoneStream \<and> t \<noteq> TradeTickStream \<and> t \<noteq> BookTickerStream"
  by (auto simp: depth_stream_def)

lemma level_write_twice:
  assumes "n < 2 ^ 63"
  shows "level_write f (of_nat n) v =
    (if n < length (v_storage v) then Some (v\<lparr>v_storage := (v_storage v)[n := f (v_storage v ! n)]\<rparr>) else None)"
  using assms by (simp add: level_write_def unat_of_nat)

definition set_side ::
  "('d level_vector \<Rightarrow> u64 \<Rightarrow> 'd Orderbook \<Rightarrow> 'd Orderbook) \<Rightarrow> 'd level_vector \<Rightarrow> nat \<Rightarrow>
   'd BinanceStreamParser \<Rightarrow> 'd BinanceStreamParser" where
  "set_side upd v n p = p\<lparr>m_OrderbookLevelsParser := (m_OrderbookLevelsParser p)
     \<lparr>m_PriceVolumeFieldsIndex := m_PriceVolumeFieldsIndex (m_OrderbookLevelsParser p) + 2,
      m_Orderbook := upd v (of_nat n) (m_Orderbook (m_OrderbookLevelsParser p)),
      m_ArrayIndentation := 1\<rparr>\<rparr>"

definition upd_bids :: "'d level_vector \<Rightarrow> u64 \<Rightarrow> 'd Orderbook \<Rightarrow> 'd Orderbook" where
  "upd_bids v c ob = ob\<lparr>m_Bids := v, numberOfBidLevels := c\<rparr>"

definition upd_asks :: "'d level_vector \<Rightarrow> u64 \<Rightarrow> 'd Orderbook \<Rightarrow> 'd Orderbook" where
  "upd_asks v c ob = ob\<lparr>m_Asks := v, numberOfAskLevels := c\<rparr>"

lemma level_both: "l\<lparr>level_price := Some x, level_volume := Some y\<rparr> = \<lparr>level_price = Some x, level_volume = Some y\<rparr>"
  by (cases l) simp

lemma bid_step:
  assumes "in_levels ''bids'' p" and "numberOfBidLevels (m_Orderbook (m_OrderbookLevelsParser p)) = of_nat n"
    and "n < 2 ^ 63" and "v = m_Bids (m_Orderbook (m_OrderbookLevelsParser p))"
  shows "sax_parse (Binance_event D) (level_events l @ es) p =
    (if n < length (v_storage v)
     then sax_parse (Binance_event D) es (set_side upd_bids (v\<lparr>v_storage := (v_storage v)[n := level_of D l]\<rparr>) (Suc n) p)
     else None)"
  using assms depth_stream_neq [of "m_StreamType p"]
  by (simp add: level_events_def in_levels_def ArrayStart_def ArrayEnd_def Binance_string_def
      HandleOrderBookLevel_def HandleBidLevel_def level_write_twice level_of_def set_side_def upd_bids_def
      level_both Let_def add.commute flip: odd_iff_mod_2_eq_one)

lemma ask_step:
  assumes "in_levels ''asks'' p" and "numberOfAskLevels (m_Orderbook (m_OrderbookLevelsParser p)) = of_nat n"
    and "n < 2 ^ 63" and "v = m_Asks (m_Orderbook (m_OrderbookLevelsParser p))"
  shows "sax_parse (Binance_event D) (level_events l @ es) p =
    (if n < length (v_storage v)
     then sax_parse (Binance_event D) es (set_side upd_asks (v\<lparr>v_storage := (v_storage v)[n := level_of D l]\<rparr>) (Suc n) p)
     else None)"
  using assms depth_stream_neq [of "m_StreamType p"]
  by (simp add: level_events_def in_levels_def ArrayStart_def ArrayEnd_def Binance_string_def
      HandleOrderBookLevel_def HandleAskLevel_def level_write_twice level_of_def set_side_def upd_asks_def
      level_both Let_def add.commute flip: odd_iff_mod_2_eq_one)

text \<open>The parser outside of the arrays, with the book read so far, and the events of one side.\<close>

definition between_sides :: "MarketDataStreamType \<Rightarrow> 'd Orderbook \<Rightarrow> 'd BinanceStreamParser \<Rightarrow> bool" where
  "between_sides t ob p \<longleftrightarrow> m_StreamType p = t \<and> m_Orderbook (m_OrderbookLevelsParser p) = ob \<and>
     m_ArrayIndentation (m_OrderbookLevelsParser p) = 0 \<and> even (m_PriceVolumeFieldsIndex (m_OrderbookLevelsParser p))"

definition side_events :: "string \<Rightarrow> (string \<times> string) list \<Rightarrow> sax_event list" where
  "side_events k ls = [Sax_key k, Sax_start_array] @ concat (map level_events ls) @ [Sax_end_array]"

text \<open>
  One side of the book: its vector and its count are a part of the book that can be read and
  replaced, and reading a level writes the next slot.
\<close>

locale level_side =
  fixes D :: "'d double_api"
    and k :: string
    and vec :: "'d Orderbook \<Rightarrow> 'd level_vector"
    and cnt :: "'d Orderbook \<Rightarrow> u64"
    and upd :: "'d level_vector \<Rightarrow> u64 \<Rightarrow> 'd Orderbook \<Rightarrow> 'd Orderbook"
  assumes step: "in_levels k p \<Longrightarrow> cnt (m_Orderbook (m_OrderbookLevelsParser p)) = of_nat n \<Longrightarrow> n < 2 ^ 63 \<Longrightarrow>
      v = vec (m_Orderbook (m_OrderbookLevelsParser p)) \<Longrightarrow>
      sax_parse (Binance_event D) (level_events l @ es) p =
      (if n < length (v_storage v)
       then sax_parse (Binance_event D) es (set_side upd (v\<lparr>v_storage := (v_storage v)[n := level_of D l]\<rparr>) (Suc n) p)
       else None)"
    and vec_upd: "vec (upd v c ob) = v"
    and cnt_upd: "cnt (upd v c ob) = c"
    and upd_upd: "upd v c (upd v' c' ob) = upd v c ob"
    and upd_same: "upd (vec ob) (cnt ob) ob = ob"
    and key: "k = ''bids'' \<or> k = ''asks''"
begin

lemma levels_run:
  "in_levels k p \<Longrightarrow> m_Orderbook (m_OrderbookLevelsParser p) = ob \<Longrightarrow> cnt ob = of_nat n \<Longrightarrow> n \<le> length (v_storage (vec ob)) \<Longrightarrow>
   length (v_storage (vec ob)) < 2 ^ 63 \<Longrightarrow>
   (if n + length ls \<le> length (v_storage (vec ob)) then
      \<exists>p'. sax_parse (Binance_event D) (concat (map level_events ls) @ es) p = sax_parse (Binance_event D) es p' \<and>
        in_levels k p' \<and> m_StreamType p' = m_StreamType p \<and>
        m_Orderbook (m_OrderbookLevelsParser p') = upd ((vec ob)\<lparr>v_storage := take n (v_storage (vec ob)) @
          map (level_of D) ls @ drop (n + length ls) (v_storage (vec ob))\<rparr>) (of_nat (n + length ls)) ob
    else sax_parse (Binance_event D) (concat (map level_events ls) @ es) p = None)"
proof (induction ls arbitrary: p n ob)
  case Nil
  have "upd (vec ob) (of_nat n) ob = ob" using upd_same [of ob] Nil by simp
  with Nil show ?case by (auto intro!: exI [of _ p])
next
  case (Cons l ls)
  let ?st = "v_storage (vec ob)"
  let ?v = "(vec ob)\<lparr>v_storage := ?st[n := level_of D l]\<rparr>"
  let ?p = "set_side upd ?v (Suc n) p"
  have step1: "sax_parse (Binance_event D) (concat (map level_events (l # ls)) @ es) p =
      (if n < length ?st then sax_parse (Binance_event D) (concat (map level_events ls) @ es) ?p else None)"
    using step [OF Cons.prems(1), of n "vec ob" l "concat (map level_events ls) @ es"] Cons.prems(2-) by simp
  show ?case
  proof (cases "n < length ?st")
    case True
    have split: "take (Suc n) (?st[n := level_of D l]) = take n ?st @ [level_of D l]"
      using True by (simp add: take_Suc_conv_app_nth)
    let ?ob = "upd ?v (of_nat (Suc n)) ob"
    have "in_levels k ?p" "m_Orderbook (m_OrderbookLevelsParser ?p) = ?ob" "cnt ?ob = of_nat (Suc n)"
      "Suc n \<le> length (v_storage (vec ?ob))" "length (v_storage (vec ?ob)) < 2 ^ 63"
      using Cons.prems True by (simp_all add: vec_upd cnt_upd set_side_def in_levels_def)
    from Cons.IH [OF this] show ?thesis
      using True step1 unfolding vec_upd upd_upd
      by (cases "Suc (n + length ls) \<le> length ?st") (simp_all add: split set_side_def)
  next
    case False
    with step1 Cons.prems show ?thesis by simp
  qed
qed

lemma side_run:
  assumes "depth_stream t" and "between_sides t ob p" and "vec ob = level_reserve d" and "cnt ob = 0" and "d < 2 ^ 63"
  shows "if length ls \<le> d
    then \<exists>p'. sax_parse (Binance_event D) (side_events k ls @ es) p = sax_parse (Binance_event D) es p' \<and>
      between_sides t (upd (read_levels D d ls) (of_nat (length ls)) ob) p'
    else sax_parse (Binance_event D) (side_events k ls @ es) p = None"
proof -
  let ?p = "p\<lparr>m_Key := k, m_OrderbookLevelsParser := ArrayStart k (m_OrderbookLevelsParser p)\<rparr>"
  have start: "sax_parse (Binance_event D) (side_events k ls @ es) p =
      sax_parse (Binance_event D) (concat (map level_events ls) @ Sax_end_array # es) ?p"
    using assms by (simp add: side_events_def between_sides_def)
  have pre: "in_levels k ?p" "m_Orderbook (m_OrderbookLevelsParser ?p) = ob" "cnt ob = of_nat 0"
    "0 \<le> length (v_storage (vec ob))" "length (v_storage (vec ob)) < 2 ^ 63"
    using assms key by (auto simp: in_levels_def between_sides_def ArrayStart_def level_reserve_def)
  note run = levels_run [OF pre, of ls "Sax_end_array # es"]
  show ?thesis
  proof (cases "length ls \<le> d")
    case True
    with run obtain p' where
      p': "sax_parse (Binance_event D) (concat (map level_events ls) @ Sax_end_array # es) ?p =
        sax_parse (Binance_event D) (Sax_end_array # es) p'" "in_levels k p'" "m_StreamType p' = t"
      "m_Orderbook (m_OrderbookLevelsParser p') = upd (read_levels D d ls) (of_nat (length ls)) ob"
      using assms by (auto simp: level_reserve_def read_levels_def between_sides_def)
    with start True assms(1) key show ?thesis
      by (intro iffD2 [OF if_P] exI [of _ "p'\<lparr>m_OrderbookLevelsParser := ArrayEnd k (m_OrderbookLevelsParser p')\<rparr>"])
        (auto simp: between_sides_def in_levels_def ArrayEnd_def)
  next
    case False
    with run start assms(3) show ?thesis by (simp add: level_reserve_def)
  qed
qed

end

interpretation bids: level_side D "''bids''" m_Bids numberOfBidLevels upd_bids for D
  by unfold_locales (simp_all add: bid_step, simp_all add: upd_bids_def)

interpretation asks: level_side D "''asks''" m_Asks numberOfAskLevels upd_asks for D
  by unfold_locales (simp_all add: ask_step, simp_all add: upd_asks_def)

lemma flat_fields_run:
  assumes "depth_stream (m_StreamType p)" and "m_ArrayIndentation (m_OrderbookLevelsParser p) = 0"
  shows "\<exists>k. sax_parse (Binance_event D) (concat (map field_events fs) @ es) p =
    sax_parse (Binance_event D) es (p\<lparr>m_Key := k\<rparr>)"
  using assms
proof (induction fs arbitrary: p)
  case Nil
  show ?case by (auto intro!: exI [of _ "m_Key p"])
next
  case (Cons f fs)
  have "sax_parse (Binance_event D) (field_events f @ es') p = sax_parse (Binance_event D) es' (p\<lparr>m_Key := fst f\<rparr>)" for es'
    using Cons.prems depth_stream_neq [OF Cons.prems(1)]
    by (cases "snd f") (simp_all add: field_events_def Binance_number_unsigned_def Binance_string_def
        HandleOrderBookLevel_def)
  with Cons.IH [of "p\<lparr>m_Key := fst f\<rparr>"] Cons.prems show ?case by simp
qed

text \<open>A whole message: what the parser holds at its end, and that it is not stopped.\<close>

lemma depth_run:
  assumes "depth_stream (stream_type s)"
  shows "case sax_parse (Binance_event D) (stream_head s @ concat (map field_events fs) @ side_events ''bids'' bs @
      side_events ''asks'' as @ [Sax_end_object, Sax_end_object]) (BinanceStreamParser_ctor D) of
    None \<Rightarrow> \<not> (length bs \<le> 20 \<and> length as \<le> 20)
  | Some (p, result) \<Rightarrow> length bs \<le> 20 \<and> length as \<le> 20 \<and> result \<and> m_StreamType p = stream_type s \<and>
      m_Orderbook (m_OrderbookLevelsParser p) =
        \<lparr>m_Bids = read_levels D 20 bs, numberOfBidLevels = of_nat (length bs),
         m_Asks = read_levels D 20 as, numberOfAskLevels = of_nat (length as)\<rparr>"
proof -
  let ?t = "stream_type s"
  let ?asks = "side_events ''asks'' as @ [Sax_end_object, Sax_end_object]"
  let ?es = "stream_head s @ concat (map field_events fs) @ side_events ''bids'' bs @ ?asks"
  let ?p0 = "(BinanceStreamParser_ctor D)\<lparr>m_Key := ''data'', m_StreamType := ?t\<rparr>"
  have "?t \<noteq> NoneStream" using depth_stream_neq [OF assms] by blast
  note head = stream_head_run [OF this, where D = D and es = "concat (map field_events fs) @ side_events ''bids'' bs @ ?asks"]
  have "depth_stream (m_StreamType ?p0)" "m_ArrayIndentation (m_OrderbookLevelsParser ?p0) = 0"
    using assms by (simp_all add: BinanceStreamParser_ctor_def OrderbookLevelsParser_ctor_def)
  from flat_fields_run [OF this, of D fs "side_events ''bids'' bs @ ?asks"] obtain k where
    k: "sax_parse (Binance_event D) ?es (BinanceStreamParser_ctor D) =
      sax_parse (Binance_event D) (side_events ''bids'' bs @ ?asks)
        ((BinanceStreamParser_ctor D)\<lparr>m_StreamType := ?t, m_Key := k\<rparr>)"
    unfolding head by (auto simp: BinanceStreamParser_ctor_def)
  let ?p = "(BinanceStreamParser_ctor D)\<lparr>m_StreamType := ?t, m_Key := k\<rparr>"
  let ?ob = "Orderbook_Init 20 :: 'a Orderbook"
  let ?ob1 = "upd_bids (read_levels D 20 bs) (of_nat (length bs)) ?ob"
  have b: "between_sides ?t ?ob ?p" "m_Bids ?ob = level_reserve 20" "numberOfBidLevels ?ob = 0"
    by (simp_all add: between_sides_def BinanceStreamParser_ctor_def OrderbookLevelsParser_ctor_def Orderbook_Init_def)
  have a: "m_Asks ?ob1 = level_reserve 20" "numberOfAskLevels ?ob1 = 0"
    by (simp_all add: upd_bids_def Orderbook_Init_def)
  note bid_run = bids.side_run [OF assms b, where D = D and ls = bs and es = ?asks]
  show ?thesis
  proof (cases "length bs \<le> 20")
    case True
    with bid_run obtain p1 where p1: "sax_parse (Binance_event D) ?es (BinanceStreamParser_ctor D) =
        sax_parse (Binance_event D) ?asks p1" "between_sides ?t ?ob1 p1"
      using k by auto
    note ask_run = asks.side_run [OF assms p1(2) a, where D = D and ls = as and es = "[Sax_end_object, Sax_end_object]"]
    from ask_run p1(1) True show ?thesis
      by (cases "length as \<le> 20") (auto simp: between_sides_def upd_bids_def upd_asks_def Orderbook_Init_def)
  next
    case False
    with bid_run k show ?thesis by simp
  qed
qed

text \<open>
  C27: A snapshot of the levels of the book, after any simple fields, leads to exactly one call with the
  levels of the message and their numbers when neither side has more than twenty; a longer side
  makes the parser write past the storage of its vector. The sizes of the vectors stay zero.
\<close>

theorem binance_depth:
  assumes "sax msg = stream_head s @ concat (map field_events fs) @ side_events ''bids'' bs @
      side_events ''asks'' as @ [Sax_end_object, Sax_end_object]"
    and "depth_stream (stream_type s)"
  shows "Binance_OnDataRead D sax sub msg tp =
    (if length bs \<le> 20 \<and> length as \<le> 20 then
       Some [OnOrderbook (ms_instrument sub)
         \<lparr>m_Bids = read_levels D 20 bs, numberOfBidLevels = of_nat (length bs),
          m_Asks = read_levels D 20 as, numberOfAskLevels = of_nat (length as)\<rparr> tp]
     else None)"
  using depth_run [OF assms(2), where D = D and fs = fs and bs = bs and as = as] assms depth_stream_neq [OF assms(2)]
  by (auto simp: Binance_OnDataRead_def depth_stream_def split: option.splits)

theorem binance_depth_witness:
  "Binance_OnDataRead nat_api
     (\<lambda>_. stream_head ''btcusdt@depth10@100ms'' @ concat (map field_events [(''lastUpdateId'', F_unsigned 4)]) @
       side_events ''bids'' [(''7'', ''2''), (''6'', ''1'')] @ side_events ''asks'' [(''8'', ''3'')] @
       [Sax_end_object, Sax_end_object]) btc_sub ''msg'' 1 =
   Some [OnOrderbook btc_usdt
     \<lparr>m_Bids = read_levels nat_api 20 [(''7'', ''2''), (''6'', ''1'')], numberOfBidLevels = 2,
      m_Asks = read_levels nat_api 20 [(''8'', ''3'')], numberOfAskLevels = 1\<rparr> 1]"
proof -
  have "depth_stream (stream_type ''btcusdt@depth10@100ms'')" by (simp add: stream_type_def depth_stream_def)
  from binance_depth [where D = nat_api and sub = btc_sub and tp = 1 and msg = "''msg''"
      and fs = "[(''lastUpdateId'', F_unsigned 4)]" and bs = "[(''7'', ''2''), (''6'', ''1'')]" and as = "[(''8'', ''3'')]", OF refl this]
  show ?thesis by (simp add: btc_sub_def)
qed

section \<open>The average price\<close>

lemma call_until_all: "call_until (\<lambda>_. True) xs = xs"
  by (induction xs) simp_all

definition priced :: "'d double_api \<Rightarrow> 'd TradeTick list \<Rightarrow> ('d \<times> 'd) list" where
  "priced D ts = map (\<lambda>t. (tradePrice t, tradeVolume t)) (List.filter (\<lambda>t. d_less D (d_zero D) (tradePrice t)) ts)"

lemma ticks_hold:
  "cb_holds ys cb \<Longrightarrow> length ys + length ts < 2 ^ 63 \<Longrightarrow>
   cb_holds (ys @ priced D ts) (foldl (\<lambda>cb t. fst (VwapCalculator_OnTradeTick D t cb)) cb ts) \<and>
   length (cb_queue (foldl (\<lambda>cb t. fst (VwapCalculator_OnTradeTick D t cb)) cb ts)) = length (cb_queue cb)"
proof (induction ts arbitrary: ys cb)
  case Nil
  then show ?case by (simp add: priced_def)
next
  case (Cons t ts)
  show ?case
  proof (cases "d_less D (d_zero D) (tradePrice t)")
    case True
    let ?x = "(tradePrice t, tradeVolume t)"
    have f: "fst (VwapCalculator_OnTradeTick D t cb) = fst (CircularBuffer_Add ?x cb)"
      using True by (simp add: VwapCalculator_OnTradeTick_def Let_def split: prod.splits)
    have "cb_holds (ys @ [?x]) (fst (CircularBuffer_Add ?x cb))"
      using Add_holds [OF Cons.prems(1), of ?x] Cons.prems(2) by simp
    from Cons.IH [OF this] Cons.prems(2) True show ?thesis
      by (simp add: f priced_def length_run [where xs = "[?x]" and cb = cb, simplified])
  next
    case False
    with Cons show ?thesis by (simp add: VwapCalculator_OnTradeTick_def priced_def)
  qed
qed

text \<open>
  The average that is logged for a trade with a positive price is taken over the last 500 such trades,
  this one included, whatever number came before.
\<close>

theorem vwap_last_500:
  assumes "length slots = 500" and "length ts < 2 ^ 62" and "d_less D (d_zero D) (tradePrice t)"
  shows "snd (VwapCalculator_OnTradeTick D t
      (foldl (\<lambda>cb t. fst (VwapCalculator_OnTradeTick D t cb)) (CircularBuffer_ctor slots) ts)) =
    (let (pv, v) = vwap_totals D (drop (length (priced D (ts @ [t])) - 500) (priced D (ts @ [t]))) (d_zero D, d_zero D)
     in Some (d_div D pv v))"
proof -
  let ?cb = "foldl (\<lambda>cb t. fst (VwapCalculator_OnTradeTick D t cb)) (CircularBuffer_ctor slots) ts"
  let ?x = "(tradePrice t, tradeVolume t)"
  have "cb_holds [] (CircularBuffer_ctor slots)" using assms(1) by (simp add: cb_holds_def CircularBuffer_ctor_def)
  from ticks_hold [OF this, of ts D] assms(1,2)
  have h: "cb_holds (priced D ts) ?cb" and l: "length (cb_queue ?cb) = 500" by (simp_all add: CircularBuffer_ctor_def)
  have n: "length (priced D ts) \<le> length ts" by (simp add: priced_def)
  have h1: "cb_holds (priced D ts @ [?x]) (fst (CircularBuffer_Add ?x ?cb))"
    using Add_holds [OF h, of ?x] n assms(2) by simp
  have l1: "length (cb_queue (fst (CircularBuffer_Add ?x ?cb))) = 500"
    using l by (simp add: length_run [where xs = "[?x]" and cb = ?cb, simplified])
  have p: "priced D (ts @ [t]) = priced D ts @ [?x]" using assms(3) by (simp add: priced_def)
  have "CircularBuffer_Loop (\<lambda>_. True) (fst (CircularBuffer_Add ?x ?cb)) =
      drop (length (priced D (ts @ [t])) - 500) (priced D (ts @ [t]))"
    using Loop_holds [OF h1, of "\<lambda>_. True"] n assms(2) l1 unfolding p by (simp add: call_until_all)
  with assms(3) show ?thesis
    by (simp add: VwapCalculator_OnTradeTick_def Let_def split: prod.splits)
qed

theorem vwap_last_500_witness:
  "snd (VwapCalculator_OnTradeTick nat_api \<lparr>tradeId = [], tradePrice = 4, tradeVolume = 2, tradeTime = 0\<rparr>
     (foldl (\<lambda>cb t. fst (VwapCalculator_OnTradeTick nat_api t cb)) (CircularBuffer_ctor (replicate 500 (0, 0)))
       [\<lparr>tradeId = [], tradePrice = 1, tradeVolume = 1, tradeTime = 0\<rparr>])) = Some 3"
  using vwap_last_500 [of "replicate 500 (0, 0)" "[\<lparr>tradeId = [], tradePrice = 1, tradeVolume = 1, tradeTime = 0\<rparr>]" nat_api
      "\<lparr>tradeId = [], tradePrice = 4, tradeVolume = 2, tradeTime = 0\<rparr>"]
  by (simp add: nat_api_def priced_def)

end
