(* ===== verification/MarketProgram.thy ===== *)
theory MarketProgram
  imports FeedProps Timers
begin

text \<open>
  The market data program: the two feeds it makes, their data handlers, and the timer that
  connects every second the feeds that are not connected. The answers of the web socket clients
  are outcomes given to the rounds.
\<close>

section \<open>Feeds\<close>

text \<open>
  The data handler of bitstamp; it has no function for the top of the book, which the session
  handler of bitstamp never calls.
\<close>

fun BitstampFeedHandler_call ::
  "'d double_api \<Rightarrow> 'd feed_call \<Rightarrow> 'd MarketDataFeedHandler \<Rightarrow> 'd MarketDataFeedHandler \<times> 'd option" where
  "BitstampFeedHandler_call D (OnSessionConnected i) h = (h\<lparr>m_IsConnected := True\<rparr>, None)"
| "BitstampFeedHandler_call D (OnSessionDisconnect i) h = (h\<lparr>m_IsConnected := False\<rparr>, None)"
| "BitstampFeedHandler_call D (OnTradeTick i tick tp) h =
     (let (cb, vwap) = VwapCalculator_OnTradeTick D tick (m_TradeTicks h) in (h\<lparr>m_TradeTicks := cb\<rparr>, vwap))"
| "BitstampFeedHandler_call D (OnTopOfTheBook i bbo tp) h = (h, None)"
| "BitstampFeedHandler_call D (OnOrderbook i ob tp) h = (h, None)"
| "BitstampFeedHandler_call D (LogInfo s) h = (h, None)"

record 'd ExchangeMarketDataFeed =
  mf_MarketSubscription :: MarketSubscription
  mf_MarketFeedHandler :: "'d MarketDataFeedHandler"

definition ExchangeMarketDataFeed_ctor :: "'d MarketDataFeedHandler \<Rightarrow> MarketSubscription \<Rightarrow> 'd ExchangeMarketDataFeed" where
  "ExchangeMarketDataFeed_ctor h marketSubscription =
     \<lparr>mf_MarketSubscription = marketSubscription, mf_MarketFeedHandler = h\<rparr>"

datatype 'd marketFeedVariant =
    BinanceFeed "'d ExchangeMarketDataFeed"
  | BitstampFeed "'d ExchangeMarketDataFeed"

text \<open>The feeds of \<open>main\<close>; the subscription for a second instrument of binance is made and not used.\<close>

definition main_marketFeeds :: "'d MarketDataFeedHandler \<Rightarrow> 'd marketFeedVariant list" where
  "main_marketFeeds h =
     [BinanceFeed (ExchangeMarketDataFeed_ctor h
        \<lparr>ms_instrument = \<lparr>instrument_exchange = ''binance'', exchangeSymbol = ''btcusdt'', instrument_symbol = ''btc_usdt''\<rparr>,
         streamSubscriptions = [BookTickerStream, Depth10LevelsStream, TradeTickStream]\<rparr>),
      BitstampFeed (ExchangeMarketDataFeed_ctor h
        \<lparr>ms_instrument = \<lparr>instrument_exchange = ''bitstamp'', exchangeSymbol = ''btcusd'', instrument_symbol = ''btc_usd''\<rparr>,
         streamSubscriptions = [Depth100LevelsStream, TradeTickStream]\<rparr>)]"

section \<open>The connection timer\<close>

text \<open>
  What the client of a feed answers when it is started with a target, a host and a port, and when
  a text is sent. A client that has connected has called back before it answers.
\<close>

record client_answers =
  ca_Start :: "string \<Rightarrow> string \<Rightarrow> u16 \<Rightarrow> bool"
  ca_Send :: "string \<Rightarrow> bool"

text \<open>One feed in the loop over the feeds: the feed, and the line logged.\<close>

fun reconnect_feed :: "'d double_api \<Rightarrow> client_answers \<Rightarrow> 'd marketFeedVariant \<Rightarrow> 'd marketFeedVariant \<times> string list" where
  "reconnect_feed D ca (BinanceFeed f) =
     (if \<not> m_IsConnected (mf_MarketFeedHandler f) then
        (if snd (Binance_Connect (ca_Start ca) (mf_MarketSubscription f))
         then (BinanceFeed (f\<lparr>mf_MarketFeedHandler :=
                 foldl (\<lambda>h c. fst (FeedHandler_call D c h)) (mf_MarketFeedHandler f) (Binance_OnSessionConnected (mf_MarketSubscription f))\<rparr>),
               [''Connected to binance market feed''])
         else (BinanceFeed f, [''Failed to connect binance market feed'']))
      else (BinanceFeed f, []))"
| "reconnect_feed D ca (BitstampFeed f) =
     (if \<not> m_IsConnected (mf_MarketFeedHandler f) then
        (if snd (Bitstamp_Connect (ca_Start ca ''/'') (ca_Send ca) (mf_MarketSubscription f))
         then (BitstampFeed (f\<lparr>mf_MarketFeedHandler :=
                 foldl (\<lambda>h c. fst (BitstampFeedHandler_call D c h)) (mf_MarketFeedHandler f) (Bitstamp_OnSessionConnected (mf_MarketSubscription f))\<rparr>),
               [''Connected to bitstamp market feed''])
         else (BitstampFeed f, [''Failed to connect bitstamp market feed'']))
      else (BitstampFeed f, []))"

text \<open>The state of the timer function: the feeds, the log, and the answers in the rounds to come, by round and feed.\<close>

type_synonym 'd program = "'d marketFeedVariant list \<times> string list \<times> (nat \<Rightarrow> nat \<Rightarrow> client_answers)"

fun reconnect_feeds ::
  "'d double_api \<Rightarrow> (nat \<Rightarrow> client_answers) \<Rightarrow> 'd marketFeedVariant list \<Rightarrow> 'd marketFeedVariant list \<times> string list" where
  "reconnect_feeds D cas [] = ([], [])"
| "reconnect_feeds D cas (f # fs) =
     (case reconnect_feed D (cas 0) f of
        (f', l) \<Rightarrow> (case reconnect_feeds D (cas \<circ> Suc) fs of (fs', ls) \<Rightarrow> (f' # fs', l @ ls)))"

definition connectionTimer_function :: "'d double_api \<Rightarrow> 'd program \<Rightarrow> 'd program \<times> bool" where
  "connectionTimer_function D w =
     (case w of (fs, lg, rounds) \<Rightarrow>
        (case reconnect_feeds D (rounds 0) fs of (fs', ls) \<Rightarrow> ((fs', lg @ ls, rounds \<circ> Suc), True)))"

definition main_start :: "'d double_api \<Rightarrow> int \<Rightarrow> 'd program Timer" where
  "main_start D now = Timer_Start now (connectionTimer_function D) 1000000 Timer_ctor"

section \<open>Reconnecting\<close>

fun feed :: "'d marketFeedVariant \<Rightarrow> 'd ExchangeMarketDataFeed" where
  "feed (BinanceFeed f) = f"
| "feed (BitstampFeed f) = f"

definition connected :: "'d marketFeedVariant \<Rightarrow> bool" where
  "connected v \<longleftrightarrow> m_IsConnected (mf_MarketFeedHandler (feed v))"

text \<open>Whether the client of a feed connects when it is asked to.\<close>

fun feed_answers :: "client_answers \<Rightarrow> 'd marketFeedVariant \<Rightarrow> bool" where
  "feed_answers ca (BinanceFeed f) = snd (Binance_Connect (ca_Start ca) (mf_MarketSubscription f))"
| "feed_answers ca (BitstampFeed f) = snd (Bitstamp_Connect (ca_Start ca ''/'') (ca_Send ca) (mf_MarketSubscription f))"

lemma reconnect_feed_connected: "connected (fst (reconnect_feed D ca v)) \<longleftrightarrow> connected v \<or> feed_answers ca v"
  by (cases v) (auto simp: connected_def Binance_OnSessionConnected_def Bitstamp_OnSessionConnected_def)

lemma reconnect_feeds_length [simp]: "length (fst (reconnect_feeds D cas fs)) = length fs"
  by (induction fs arbitrary: cas) (simp_all add: case_prod_unfold)

lemma reconnect_feeds_nth: "i < length fs \<Longrightarrow> fst (reconnect_feeds D cas fs) ! i = fst (reconnect_feed D (cas i) (fs ! i))"
proof (induction fs arbitrary: cas i)
  case (Cons f fs)
  show ?case
  proof (cases i)
    case 0
    then show ?thesis by (simp add: case_prod_unfold)
  next
    case (Suc j)
    with Cons.prems have "fst (reconnect_feeds D (cas \<circ> Suc) fs) ! j = fst (reconnect_feed D ((cas \<circ> Suc) j) (fs ! j))"
      by (intro Cons.IH) simp
    with Suc show ?thesis by (simp only: reconnect_feeds.simps case_prod_unfold fst_conv nth_Cons_Suc comp_apply)
  qed
qed simp

text \<open>
  C28: A feed that has lost its connection is connected again as soon as the exchange lets it:
  whatever has happened to the feeds before, and in whatever state the timer is, it gets to a
  round after which exactly those feeds are connected that were before it or whose client
  connects in it.
\<close>

theorem feeds_reconnect:
  assumes "(timer_step E)\<^sup>*\<^sup>* (now, w, main_start D now) (now', (fs, lg, rounds), t')"
  shows "\<exists>now'' fs' ls t''. timer_alone\<^sup>*\<^sup>* (now', (fs, lg, rounds), t') (now'', (fs', lg @ ls, rounds \<circ> Suc), t'') \<and>
    length fs' = length fs \<and>
    (\<forall>i < length fs. connected (fs' ! i) \<longleftrightarrow> connected (fs ! i) \<or> feed_answers (rounds 0 i) (fs ! i))"
proof -
  have f: "connectionTimer_function D = (\<lambda>w. (fst (connectionTimer_function D w), True))"
    by (rule ext) (simp add: connectionTimer_function_def case_prod_unfold)
  have "timer_alive (\<lambda>w. fst (connectionTimer_function D w)) 1000000 (now, w, main_start D now)"
    unfolding main_start_def by (subst f) (rule timer_alive_started)
  from timer_next_call [OF timer_alive_steps [OF assms this]] obtain now'' t'' where
    "timer_alone\<^sup>*\<^sup>* (now', (fs, lg, rounds), t') (now'', fst (connectionTimer_function D (fs, lg, rounds)), t'')" by blast
  moreover have "fst (connectionTimer_function D (fs, lg, rounds)) =
      (fst (reconnect_feeds D (rounds 0) fs), lg @ snd (reconnect_feeds D (rounds 0) fs), rounds \<circ> Suc)"
    by (simp add: connectionTimer_function_def case_prod_unfold)
  ultimately have r: "timer_alone\<^sup>*\<^sup>* (now', (fs, lg, rounds), t')
      (now'', (fst (reconnect_feeds D (rounds 0) fs), lg @ snd (reconnect_feeds D (rounds 0) fs), rounds \<circ> Suc), t'')"
    by (simp only:)
  have c: "\<forall>i < length fs. connected (fst (reconnect_feeds D (rounds 0) fs) ! i) \<longleftrightarrow>
      connected (fs ! i) \<or> feed_answers (rounds 0 i) (fs ! i)"
    by (simp add: reconnect_feeds_nth reconnect_feed_connected)
  show ?thesis by (intro exI conjI, rule r, simp, rule c)
qed

theorem feeds_reconnect_witness:
  "\<exists>now'' fs' ls t''. timer_alone\<^sup>*\<^sup>*
      (0, (main_marketFeeds \<lparr>m_IsConnected = False, m_TradeTicks = CircularBuffer_ctor []\<rparr>, [],
           \<lambda>_ _. \<lparr>ca_Start = (\<lambda>_ _ port. port = 443), ca_Send = (\<lambda>_. True)\<rparr>), main_start nat_api 0)
      (now'', (fs', ls, (\<lambda>_ _. \<lparr>ca_Start = (\<lambda>_ _ port. port = 443), ca_Send = (\<lambda>_. True)\<rparr>) \<circ> Suc), t'') \<and>
    length fs' = 2 \<and> \<not> connected (fs' ! 0) \<and> connected (fs' ! 1)"
proof -
  let ?fs = "main_marketFeeds \<lparr>m_IsConnected = False, m_TradeTicks = CircularBuffer_ctor []\<rparr> :: nat marketFeedVariant list"
  let ?ca = "\<lparr>ca_Start = (\<lambda>_ _ port. port = 443), ca_Send = (\<lambda>_. True)\<rparr>"
  obtain now'' fs' ls t'' where r: "timer_alone\<^sup>*\<^sup>* (0, (?fs, [], \<lambda>_ _. ?ca), main_start nat_api 0)
      (now'', (fs', [] @ ls, (\<lambda>_ _. ?ca) \<circ> Suc), t'')" and l: "length fs' = length ?fs"
    and c: "\<forall>i < length ?fs. connected (fs' ! i) \<longleftrightarrow> connected (?fs ! i) \<or> feed_answers ?ca (?fs ! i)"
    using feeds_reconnect [OF rtranclp.rtrancl_refl, where now = 0 and D = nat_api and fs = ?fs and lg = "[]" and rounds = "\<lambda>_ _. ?ca"]
    by blast
  have "length ?fs = 2" "\<not> connected (?fs ! 0)" "\<not> connected (?fs ! 1)" "\<not> feed_answers ?ca (?fs ! 0)" "feed_answers ?ca (?fs ! 1)"
    by (simp_all add: main_marketFeeds_def connected_def ExchangeMarketDataFeed_ctor_def Binance_Connect_def Bitstamp_Connect_def
        Let_def)
  with c l have "length fs' = 2 \<and> \<not> connected (fs' ! 0) \<and> connected (fs' ! 1)" by simp
  with r show ?thesis by (simp only: append_Nil) blast
qed

end
