(* ===== verification/TcpLib.thy ===== *)
theory TcpLib
  imports Sockets Timers "HOL-Library.List_Lexorder" "HOL-Library.Char_ord"
begin

text \<open>
  The TCP classes of \<open>common\<close>: \<open>Session\<close>, \<open>TcpServer\<close> and \<open>TcpClient\<close>. A message is written
  as one frame, its length in two bytes before it; the sessions of the server are in a map keyed
  with the text of the address and the port, and a ping to all of them every two seconds finds
  the dead ones. The calls of the I/O library are outcomes given to the operations.
\<close>

section \<open>Sessions\<close>

type_synonym Endpoint = "string endpoint"

record Session =
  ts_RemoteEndpoint :: Endpoint
  ts_IsOpen :: bool
  ts_Receiving :: bool
  ts_HasDisconnected :: bool
  ts_HasReceive :: bool

definition Session_ctor :: Session where
  "Session_ctor = \<lparr>ts_RemoteEndpoint = ([], 0), ts_IsOpen = True, ts_Receiving = False, ts_HasDisconnected = False, ts_HasReceive = False\<rparr>"

definition Session_CloseSocket :: "Session \<Rightarrow> Session" where
  "Session_CloseSocket s = (if ts_IsOpen s then s\<lparr>ts_IsOpen := False\<rparr> else s)"

definition Session_AsyncReceive :: "Session \<Rightarrow> Session" where
  "Session_AsyncReceive s = (if ts_IsOpen s then s\<lparr>ts_Receiving := True\<rparr> else s)"

text \<open>\<open>remote\<close> and \<open>option\<close> are the outcomes of \<open>remote_endpoint\<close> and \<open>set_option\<close>, which throw.\<close>

definition Session_Start :: "Endpoint throws \<Rightarrow> unit throws \<Rightarrow> Session \<Rightarrow> Session \<times> unit throws" where
  "Session_Start remote option s =
     (let s1 = Session_AsyncReceive s
      in case remote of
           Inl x \<Rightarrow> (s1, Inl x)
         | Inr ep \<Rightarrow> (s1\<lparr>ts_RemoteEndpoint := ep\<rparr>, option))"

definition SetSessionDisconnected :: "Session \<Rightarrow> Session" where
  "SetSessionDisconnected s = s\<lparr>ts_HasDisconnected := True\<rparr>"

definition SetSessionReceiveData :: "bool \<Rightarrow> Session \<Rightarrow> Session" where
  "SetSessionReceiveData hasFn s = s\<lparr>ts_HasReceive := hasFn\<rparr>"

text \<open>
  The handler of a readable socket: the error of the wait, the bytes available (\<open>None\<close> for an
  error), what is read (\<open>None\<close> for an error), and the callback, which may throw. A read stores what
  the stream has into an array of \<open>maxBufferSize\<close> characters, as many as fit; \<open>garbage\<close> is what the
  array, which is not initialised, holds before. The callback gets the array and the number of
  characters read. The handler is started again when \<open>ReadData\<close> answers true.
\<close>

definition maxBufferSize :: nat where
  "maxBufferSize = 1024"

definition bytes_read :: "string \<Rightarrow> nat" where
  "bytes_read stream = min maxBufferSize (length stream)"

definition read_array :: "string \<Rightarrow> string \<Rightarrow> string" where
  "read_array garbage stream = take maxBufferSize stream @ drop (bytes_read stream) garbage"

definition Session_ReadData ::
  "(Endpoint \<Rightarrow> string \<Rightarrow> nat \<Rightarrow> unit throws) \<Rightarrow> bool \<Rightarrow> nat option \<Rightarrow> string \<Rightarrow> string option \<Rightarrow> Session \<Rightarrow> bool throws" where
  "Session_ReadData on_data failed bytesAvailable garbage r s =
     (if failed then Inr False
      else case bytesAvailable of
             None \<Rightarrow> Inr False
           | Some n \<Rightarrow>
               if n > 0 then
                 (case r of
                    None \<Rightarrow> Inr False
                  | Some stream \<Rightarrow>
                      if ts_HasReceive s
                      then bind_e (on_data (ts_RemoteEndpoint s) (read_array garbage stream) (bytes_read stream)) (\<lambda>_. Inr True)
                      else Inr True)
               else Inr True)"

definition readDataHandler ::
  "(Endpoint \<Rightarrow> string \<Rightarrow> nat \<Rightarrow> unit throws) \<Rightarrow> bool \<Rightarrow> nat option \<Rightarrow> string \<Rightarrow> string option \<Rightarrow> Session \<Rightarrow> Session \<times> unit throws" where
  "readDataHandler on_data failed bytesAvailable garbage r s =
     (let s1 = s\<lparr>ts_Receiving := False\<rparr>
      in case Session_ReadData on_data failed bytesAvailable garbage r s1 of
           Inl x \<Rightarrow> (s1, Inl x)
         | Inr again \<Rightarrow> (if again then Session_AsyncReceive s1 else s1, Inr ()))"

text \<open>
  Sending: the length as an unsigned 16 bit integer in the order of its bytes in memory (little
  endian), then the data. The errors that mean a lost connection call the callback and close the
  socket; another one is logged. \<open>wr\<close> is the outcome of writing some bytes. Results: the session, the bytes sent, and whether the callback
  was called.
\<close>

definition u16_bytes :: "u16 \<Rightarrow> string" where
  "u16_bytes w = [char_of (unat w mod 256), char_of (unat w div 256)]"

definition Session_frame :: "string \<Rightarrow> string" where
  "Session_frame sendBuffer = u16_bytes (of_nat (length sendBuffer)) @ sendBuffer"

datatype asio_error = connection_reset | connection_aborted | broken_pipe | network_reset | network_down | other_error string

definition lost_connection :: "asio_error \<Rightarrow> bool" where
  "lost_connection e \<longleftrightarrow>
     e = connection_reset \<or> e = connection_aborted \<or> e = broken_pipe \<or> e = network_reset \<or> e = network_down"

type_synonym tcp_write = "string \<Rightarrow> asio_error + nat"

definition Session_Send :: "tcp_write \<Rightarrow> string \<Rightarrow> Session \<Rightarrow> Session \<times> nat \<times> bool" where
  "Session_Send wr sendBuffer s =
     (case wr (Session_frame sendBuffer) of
        Inl e \<Rightarrow> if lost_connection e then (Session_CloseSocket s, 0, ts_HasDisconnected s) else (s, 0, False)
      | Inr bytesSend \<Rightarrow> (s, bytesSend, False))"

section \<open>The server\<close>

record TcpServer =
  tcp_Accepting :: bool
  tcp_Sessions :: "(Endpoint \<times> Session) list"
  tcp_Posted :: "Endpoint list"
  tcp_HasReceive :: bool

definition TcpServer_ctor :: TcpServer where
  "TcpServer_ctor = \<lparr>tcp_Accepting = False, tcp_Sessions = [], tcp_Posted = [], tcp_HasReceive = False\<rparr>"

definition PostRemoveSession :: "Endpoint \<Rightarrow> TcpServer \<Rightarrow> TcpServer" where
  "PostRemoveSession ep sv = sv\<lparr>tcp_Posted := tcp_Posted sv @ [ep]\<rparr>"

definition remove_posted :: "TcpServer \<Rightarrow> TcpServer" where
  "remove_posted sv =
     (case tcp_Posted sv of
        [] \<Rightarrow> sv
      | ep # eps \<Rightarrow> sv\<lparr>tcp_Posted := eps, tcp_Sessions := smap_erase endpoint_less ep (tcp_Sessions sv)\<rparr>)"

definition TcpServer_SetSessionReceiveData :: "TcpServer \<Rightarrow> TcpServer" where
  "TcpServer_SetSessionReceiveData sv = sv\<lparr>tcp_HasReceive := True\<rparr>"

definition SessionDisconnected :: "Endpoint \<Rightarrow> TcpServer \<Rightarrow> TcpServer" where
  "SessionDisconnected ep sv = PostRemoveSession ep sv"

definition TcpServer_SetSessionHandlers :: "TcpServer \<Rightarrow> Session \<Rightarrow> Session" where
  "TcpServer_SetSessionHandlers sv s = SetSessionReceiveData (tcp_HasReceive sv) (SetSessionDisconnected s)"

text \<open>
  \<open>AcceptSession\<close> stores the session before its handlers are set, which changes the stored object;
  an exception of its start leaves the handler before the next accept is started.
\<close>

definition AcceptSession ::
  "Endpoint throws \<Rightarrow> unit throws \<Rightarrow> bool \<Rightarrow> Session \<Rightarrow> TcpServer \<Rightarrow> TcpServer \<times> Session \<times> unit throws" where
  "AcceptSession remote option failed s sv =
     (if failed then (sv, s, Inr ())
      else case Session_Start remote option s of
             (s1, Inl x) \<Rightarrow> (sv, s1, Inl x)
           | (s1, Inr _) \<Rightarrow>
               (sv\<lparr>tcp_Sessions := smap_assign endpoint_less (ts_RemoteEndpoint s1) s1 (tcp_Sessions sv)\<rparr>, s1, Inr ()))"

definition AcceptConnection :: "Endpoint throws \<Rightarrow> unit throws \<Rightarrow> bool \<Rightarrow> TcpServer \<Rightarrow> TcpServer \<times> unit throws" where
  "AcceptConnection remote option failed sv =
     (case AcceptSession remote option failed Session_ctor sv of
        (sv1, s1, Inl x) \<Rightarrow> (sv1\<lparr>tcp_Accepting := False\<rparr>, Inl x)
      | (sv1, s1, Inr _) \<Rightarrow>
          (sv1\<lparr>tcp_Sessions := (if failed then tcp_Sessions sv1
              else smap_set endpoint_less (ts_RemoteEndpoint s1) (TcpServer_SetSessionHandlers sv1 s1) (tcp_Sessions sv1))\<rparr>,
           Inr ()))"

text \<open>\<open>HandleAccept\<close>, an older handler, starts the session and does not store it.\<close>

definition HandleAccept ::
  "Endpoint throws \<Rightarrow> unit throws \<Rightarrow> bool \<Rightarrow> Session \<Rightarrow> TcpServer \<Rightarrow> (TcpServer \<times> Session) \<times> unit throws" where
  "HandleAccept remote option failed s sv =
     (if \<not> failed then
        (case Session_Start remote option s of
           (s1, Inl x) \<Rightarrow> ((sv, s1), Inl x)
         | (s1, Inr _) \<Rightarrow> ((sv\<lparr>tcp_Accepting := True\<rparr>, s1), Inr ()))
      else ((sv, s), Inr ()))"

definition TcpServer_SendWebSocketData :: "tcp_write \<Rightarrow> string \<Rightarrow> Endpoint \<Rightarrow> TcpServer \<Rightarrow> TcpServer \<times> nat" where
  "TcpServer_SendWebSocketData wr data ep sv =
     (case smap_find endpoint_less ep (tcp_Sessions sv) of
        None \<Rightarrow> (sv, 0)
      | Some s \<Rightarrow>
          (case Session_Send wr data s of
             (s1, n, disconnected) \<Rightarrow>
               let sv1 = sv\<lparr>tcp_Sessions := smap_set endpoint_less ep s1 (tcp_Sessions sv)\<rparr>
               in (if disconnected then SessionDisconnected (ts_RemoteEndpoint s) sv1 else sv1, n)))"

text \<open>The ping to all sessions; the outcome of each write is a function of the session's key.\<close>

fun ping_sessions :: "(Endpoint \<Rightarrow> tcp_write) \<Rightarrow> Endpoint list \<Rightarrow> TcpServer \<Rightarrow> TcpServer" where
  "ping_sessions io [] sv = sv"
| "ping_sessions io (ep # eps) sv = ping_sessions io eps (fst (TcpServer_SendWebSocketData (io ep) ''ping'' ep sv))"

text \<open>The function of the ping timer: its state is the server and the outcomes of the rounds to come.\<close>

type_synonym ping_state = "TcpServer \<times> (nat \<Rightarrow> Endpoint \<Rightarrow> tcp_write)"

definition pingSessionsFunc :: "ping_state \<Rightarrow> ping_state \<times> bool" where
  "pingSessionsFunc st =
     (case st of (sv, ios) \<Rightarrow> ((ping_sessions (ios 0) (map fst (tcp_Sessions sv)) sv, ios \<circ> Suc), True))"

text \<open>\<open>set_option\<close> throws; the timeouts are in microseconds.\<close>

definition StartListening ::
  "int \<Rightarrow> bool \<Rightarrow> unit throws \<Rightarrow> bool \<Rightarrow> bool \<Rightarrow> TcpServer \<times> ping_state Timer \<Rightarrow> (TcpServer \<times> ping_state Timer) \<times> bool throws" where
  "StartListening now openFailed option bindFailed listenFailed st =
     (if openFailed then (st, Inr False)
      else case option of
             Inl x \<Rightarrow> (st, Inl x)
           | Inr _ \<Rightarrow>
               if bindFailed then (st, Inr False)
               else if listenFailed then (st, Inr False)
               else (((fst st)\<lparr>tcp_Accepting := True\<rparr>, Timer_Start now pingSessionsFunc 2000000 (snd st)), Inr True))"

section \<open>The client\<close>

text \<open>
  \<open>Connect\<close>: the text of the address may not be one, which throws and is caught, and the connect
  may fail. The ping goes on only as long as it is sent.
\<close>

type_synonym client_state = "Session \<times> (nat \<Rightarrow> tcp_write)"

definition client_ping :: "client_state \<Rightarrow> client_state \<times> bool" where
  "client_ping st =
     (case st of (s, ios) \<Rightarrow>
        (case Session_Send (ios 0) ''ping'' s of (s1, n, _) \<Rightarrow> ((s1, ios \<circ> Suc), n > 0)))"

definition TcpClient_ctor :: Session where
  "TcpClient_ctor = SetSessionReceiveData True Session_ctor"

definition TcpClient_Connect ::
  "int \<Rightarrow> bool \<Rightarrow> bool \<Rightarrow> Endpoint throws \<Rightarrow> unit throws \<Rightarrow> Session \<times> client_state Timer \<Rightarrow>
   (Session \<times> client_state Timer) \<times> bool throws" where
  "TcpClient_Connect now addressThrows connectFailed remote option st =
     (if addressThrows then (st, Inr False)
      else if connectFailed then (st, Inr False)
      else case Session_Start remote option (fst st) of
             (s1, Inl x) \<Rightarrow> ((s1, snd st), Inl x)
           | (s1, Inr _) \<Rightarrow> ((s1, Timer_Start now client_ping 3000000 (snd st)), Inr True))"

text \<open>
  \<open>HandleReceivedData\<close>: the string from the third character of the array with two characters less
  than were read; the subtraction of \<open>std::size_t\<close> wraps, and a string that is too long throws.
\<close>

definition HandleReceivedData :: "string \<Rightarrow> nat \<Rightarrow> string throws" where
  "HandleReceivedData readBuffer bytesRead =
     (let n = (of_nat bytesRead :: u64) - 2
      in if unat n \<ge> 2 ^ 63 then Inl (CppExn ''basic_string::_M_create'') else Inr (take (unat n) (drop 2 readBuffer)))"

end
