(* ===== verification/TcpProps.thy ===== *)
theory TcpProps
  imports TcpLib
begin

text \<open>
  What the TCP classes do over time: the frames on the wire, the ping that finds dead sessions,
  and the handlers that never end or end too soon.
\<close>

section \<open>Frames\<close>

text \<open>The decoder a peer needs: a length in two bytes, then as many bytes.\<close>

function parse_frames :: "string \<Rightarrow> string list option" where
  "parse_frames bs =
     (case bs of
        [] \<Rightarrow> Some []
      | [_] \<Rightarrow> None
      | lo # hi # rest \<Rightarrow>
          let n = of_char lo + 256 * of_char hi
          in if n \<le> length rest then map_option (Cons (take n rest)) (parse_frames (drop n rest)) else None)"
  by pat_completeness auto
termination
  by (relation "measure length") auto

declare parse_frames.simps [simp del]

lemma u16_bytes_value:
  assumes "n < 65536"
  shows "u16_bytes (of_nat n) = [char_of (n mod 256), char_of (n div 256)]"
  using assms by (simp add: u16_bytes_def unat_of_nat)

lemma frame_length_bytes:
  assumes "n < 65536"
  shows "(of_char (char_of n :: char) :: nat) + 256 * of_char (char_of (n div 256) :: char) = n"
proof -
  from assms have "n div 256 < 256" by (simp add: less_mult_imp_div_less)
  then show ?thesis by simp
qed

lemma parse_frame:
  assumes "length m < 65536"
  shows "parse_frames (Session_frame m @ rest) = map_option (Cons m) (parse_frames rest)"
  by (subst parse_frames.simps)
     (simp add: Session_frame_def u16_bytes_value [OF assms] frame_length_bytes [OF assms] Let_def del: of_char_of)

text \<open>The payload a client makes of one read of a stream, whatever its array held before.\<close>

lemma client_payload:
  assumes "2 \<le> length stream"
  shows "HandleReceivedData (read_array garbage stream) (bytes_read stream) = Inr (take (maxBufferSize - 2) (drop 2 stream))"
proof -
  have n: "2 \<le> bytes_read stream" "bytes_read stream \<le> 1024" using assms by (auto simp: bytes_read_def maxBufferSize_def)
  then have e: "(of_nat (bytes_read stream) :: u64) - 2 = of_nat (bytes_read stream - 2)" by (simp add: of_nat_diff)
  have u: "unat ((of_nat (bytes_read stream) :: u64) - 2) = bytes_read stream - 2"
    unfolding e unat_of_nat using n by simp
  have "take (bytes_read stream - 2) (drop 2 (read_array garbage stream)) = take (maxBufferSize - 2) (drop 2 stream)"
  proof -
    have l: "length (take maxBufferSize stream) = bytes_read stream" by (simp add: bytes_read_def)
    then have "take (bytes_read stream - 2) (drop 2 (read_array garbage stream)) = drop 2 (take maxBufferSize stream)"
      using n(1) by (simp add: read_array_def)
    then show ?thesis by (simp add: drop_take)
  qed
  with n u show ?thesis by (simp add: HandleReceivedData_def Let_def)
qed

text \<open>
  C22: What a session sends can be taken apart again: the bytes of any sequence of messages shorter
  than 65536 bytes decode to these messages. The client does not decode: of a read of at most 1024
  bytes it drops the first two. So of a stream of which one frame is all there is to read it makes
  the message if that has at most 1022 bytes, and otherwise its first 1022 bytes; of the rest of
  the frame it drops two bytes again with every further read.
\<close>

theorem frames_roundtrip:
  assumes "\<forall>m \<in> set ms. length m < 65536"
  shows "parse_frames (concat (map Session_frame ms)) = Some ms \<and>
    HandleReceivedData (read_array garbage (Session_frame m)) (bytes_read (Session_frame m)) = Inr (take 1022 m) \<and>
    (2 \<le> length (drop 1024 (Session_frame m)) \<longrightarrow>
      HandleReceivedData (read_array garbage (drop 1024 (Session_frame m))) (bytes_read (drop 1024 (Session_frame m))) =
        Inr (take 1022 (drop 1024 m)))"
proof -
  have "parse_frames (concat (map Session_frame ms)) = Some ms"
    using assms by (induction ms) (simp_all add: parse_frame parse_frames.simps [of "[]"])
  moreover have "2 \<le> length (Session_frame m)" "drop 2 (Session_frame m) = m"
    "drop 2 (drop 1024 (Session_frame m)) = drop 1024 m" by (simp_all add: Session_frame_def u16_bytes_def)
  ultimately show ?thesis using client_payload by (simp add: maxBufferSize_def)
qed

theorem frames_roundtrip_witness:
  "parse_frames (concat (map Session_frame [''ping'', [], ''abc''])) = Some [''ping'', [], ''abc''] \<and>
   HandleReceivedData (read_array (replicate 1024 CHR ''x'') (Session_frame ''ping'')) 6 = Inr ''ping'' \<and>
   HandleReceivedData (read_array (replicate 1024 CHR ''x'') (drop 1024 (Session_frame (replicate 1030 CHR ''a'')))) 8 =
     Inr (replicate 6 CHR ''a'')"
proof -
  have h: "\<forall>m \<in> set [''ping'', [], ''abc'']. length m < 65536" by simp
  have l: "bytes_read (Session_frame ''ping'') = 6" "bytes_read (drop 1024 (Session_frame (replicate 1030 CHR ''a''))) = 8"
    by (simp_all add: bytes_read_def maxBufferSize_def Session_frame_def u16_bytes_def)
  from frames_roundtrip [OF h, of "replicate 1024 CHR ''x''" "''ping''"]
    frames_roundtrip [OF h, of "replicate 1024 CHR ''x''" "replicate 1030 CHR ''a''"]
  show ?thesis unfolding l by (simp add: Session_frame_def u16_bytes_def)
qed

text \<open>
  The header holds the length modulo 65536: a message of 65536 bytes or more is sent under the
  length of a shorter one, and a read of a single byte makes the client throw.
\<close>

theorem frame_length_wraps:
  "(\<exists>rest. Session_frame m = u16_bytes (of_nat (length m mod 65536)) @ rest \<and> length rest = length m) \<and>
   (\<exists>x. HandleReceivedData (read_array garbage [c]) (bytes_read [c]) = Inl x)"
proof
  have "(of_nat (length m) :: u16) = of_nat (length m mod 65536)"
    by (simp add: word_unat_eq_iff unat_of_nat)
  then show "\<exists>rest. Session_frame m = u16_bytes (of_nat (length m mod 65536)) @ rest \<and> length rest = length m"
    by (simp add: Session_frame_def)
  have "bytes_read [c] = 1" by (simp add: bytes_read_def maxBufferSize_def)
  then show "\<exists>x. HandleReceivedData (read_array garbage [c]) (bytes_read [c]) = Inl x"
    by (simp add: HandleReceivedData_def Let_def unsigned_minus_1_eq_mask mask_eq_exp_minus_1)
qed

section \<open>The sessions of the server\<close>

text \<open>Each session is stored under its endpoint and has its handler for a lost connection.\<close>

definition tcp_inv :: "TcpServer \<Rightarrow> bool" where
  "tcp_inv sv \<longleftrightarrow> smap_sorted endpoint_less (tcp_Sessions sv) \<and>
     (\<forall>ep s. smap_find endpoint_less ep (tcp_Sessions sv) = Some s \<longrightarrow> ts_RemoteEndpoint s = ep \<and> ts_HasDisconnected s)"

datatype tcp_event =
    Tcp_accept "Endpoint throws" "unit throws" bool
  | Tcp_ping "Endpoint \<Rightarrow> tcp_write"
  | Tcp_send tcp_write string Endpoint
  | Tcp_remove

fun tcp_step :: "TcpServer \<Rightarrow> tcp_event \<Rightarrow> TcpServer" where
  "tcp_step sv (Tcp_accept remote option failed) = fst (AcceptConnection remote option failed sv)"
| "tcp_step sv (Tcp_ping io) = ping_sessions io (map fst (tcp_Sessions sv)) sv"
| "tcp_step sv (Tcp_send wr data ep) = fst (TcpServer_SendWebSocketData wr data ep sv)"
| "tcp_step sv Tcp_remove = remove_posted sv"

lemma Session_Send_keeps:
  "Session_Send wr data s = (s1, n, d) \<Longrightarrow>
   ts_RemoteEndpoint s1 = ts_RemoteEndpoint s \<and> ts_HasDisconnected s1 = ts_HasDisconnected s"
  by (auto simp: Session_Send_def Session_CloseSocket_def split: sum.splits if_splits)

lemma tcp_inv_set:
  assumes "tcp_inv sv" and "ts_RemoteEndpoint s = ep" and "ts_HasDisconnected s"
  shows "tcp_inv (sv\<lparr>tcp_Sessions := smap_set endpoint_less ep s (tcp_Sessions sv)\<rparr>)"
  using assms by (auto simp: tcp_inv_def endpoints.find_set)

lemma tcp_inv_posted [simp]: "tcp_inv (sv\<lparr>tcp_Posted := eps\<rparr>) = tcp_inv sv" "tcp_inv (sv\<lparr>tcp_Accepting := b\<rparr>) = tcp_inv sv"
  by (simp_all add: tcp_inv_def)

lemma tcp_inv_find:
  "tcp_inv sv \<Longrightarrow> smap_find endpoint_less ep (tcp_Sessions sv) = Some s \<Longrightarrow> ts_RemoteEndpoint s = ep \<and> ts_HasDisconnected s"
  unfolding tcp_inv_def by blast

lemma tcp_inv_send: "tcp_inv sv \<Longrightarrow> tcp_inv (fst (TcpServer_SendWebSocketData wr data ep sv))"
  by (auto simp: TcpServer_SendWebSocketData_def SessionDisconnected_def PostRemoveSession_def Let_def
      split: option.split prod.split dest: Session_Send_keeps tcp_inv_find intro!: tcp_inv_set)

lemma tcp_inv_ping: "tcp_inv sv \<Longrightarrow> tcp_inv (ping_sessions io eps sv)"
  by (induction eps arbitrary: sv) (auto intro: tcp_inv_send)

lemma tcp_inv_accept: "tcp_inv sv \<Longrightarrow> tcp_inv (fst (AcceptConnection remote option failed sv))"
  by (auto simp: AcceptConnection_def AcceptSession_def Session_Start_def TcpServer_SetSessionHandlers_def
      SetSessionReceiveData_def SetSessionDisconnected_def tcp_inv_def Let_def endpoints.sorted_assign
      endpoints.find_set endpoints.find_assign split: sum.split)

lemma tcp_step_inv: "tcp_inv sv \<Longrightarrow> tcp_inv (tcp_step sv e)"
proof (cases e)
  case Tcp_remove
  then show "tcp_inv sv \<Longrightarrow> tcp_inv (tcp_step sv e)"
    by (auto simp: remove_posted_def tcp_inv_def endpoints.find_erase smap_sorted_erase split: list.split)
qed (auto intro: tcp_inv_ping tcp_inv_send tcp_inv_accept)

interpretation tcp_run: step_invariant tcp_step tcp_inv
  by unfold_locales (rule tcp_step_inv)

text \<open>The write of a ping to a dead session fails with an error of a lost connection.\<close>

definition dead :: "tcp_write \<Rightarrow> bool" where
  "dead wr \<longleftrightarrow> (\<exists>e. wr (Session_frame ''ping'') = Inl e \<and> lost_connection e)"

lemma ping_one:
  assumes "tcp_inv sv" and "ep \<in> fst ` set (tcp_Sessions sv)"
  shows "fst (TcpServer_SendWebSocketData wr ''ping'' ep sv) =
    (if dead wr
     then sv\<lparr>tcp_Sessions := map (\<lambda>p. if fst p = ep then (ep, Session_CloseSocket (snd p)) else p) (tcp_Sessions sv),
             tcp_Posted := tcp_Posted sv @ [ep]\<rparr>
     else sv)"
proof -
  from assms(1) have so: "smap_sorted endpoint_less (tcp_Sessions sv)" by (simp add: tcp_inv_def)
  from assms(2) obtain s where m: "(ep, s) \<in> set (tcp_Sessions sv)" by auto
  with so have f: "smap_find endpoint_less ep (tcp_Sessions sv) = Some s" by (simp add: endpoints.find_mem_iff)
  from tcp_inv_find [OF assms(1) f] have s: "ts_RemoteEndpoint s = ep" "ts_HasDisconnected s" by simp_all
  have u: "p \<in> set (tcp_Sessions sv) \<Longrightarrow> fst p = ep \<Longrightarrow> p = (ep, s)" for p
    using f endpoints.find_mem_iff [OF so, of ep "snd p"] by (cases p) simp
  then have "map (\<lambda>p. if fst p = ep then (ep, s) else p) (tcp_Sessions sv) = tcp_Sessions sv"
    by (intro map_idI) auto
  moreover from u have "map (\<lambda>p. if fst p = ep then (ep, Session_CloseSocket s) else p) (tcp_Sessions sv) =
      map (\<lambda>p. if fst p = ep then (ep, Session_CloseSocket (snd p)) else p) (tcp_Sessions sv)"
    by (intro map_cong) auto
  ultimately show ?thesis using f s so
    by (cases "wr (Session_frame ''ping'')")
       (auto simp: TcpServer_SendWebSocketData_def Session_Send_def dead_def endpoints.smap_set_map SessionDisconnected_def
         PostRemoveSession_def Let_def)
qed

lemma ping_round:
  assumes "tcp_inv sv" and "set eps \<subseteq> fst ` set (tcp_Sessions sv)" and "distinct eps"
  shows "tcp_Sessions (ping_sessions io eps sv) =
      map (\<lambda>p. if fst p \<in> set eps \<and> dead (io (fst p)) then (fst p, Session_CloseSocket (snd p)) else p) (tcp_Sessions sv) \<and>
    tcp_Posted (ping_sessions io eps sv) = tcp_Posted sv @ List.filter (\<lambda>ep. dead (io ep)) eps"
  using assms
proof (induction eps arbitrary: sv)
  case (Cons ep eps)
  let ?sv = "fst (TcpServer_SendWebSocketData (io ep) ''ping'' ep sv)"
  from Cons.prems have one: "?sv = (if dead (io ep)
     then sv\<lparr>tcp_Sessions := map (\<lambda>p. if fst p = ep then (ep, Session_CloseSocket (snd p)) else p) (tcp_Sessions sv),
             tcp_Posted := tcp_Posted sv @ [ep]\<rparr>
     else sv)" by (intro ping_one) auto
  have "map fst (tcp_Sessions ?sv) = map fst (tcp_Sessions sv)" unfolding one by simp
  then have k: "fst ` set (tcp_Sessions ?sv) = fst ` set (tcp_Sessions sv)" by (metis list.set_map)
  from Cons.prems have "tcp_inv ?sv" by (intro tcp_inv_send)
  from Cons.IH [OF this] Cons.prems have IH:
    "tcp_Sessions (ping_sessions io eps ?sv) =
      map (\<lambda>p. if fst p \<in> set eps \<and> dead (io (fst p)) then (fst p, Session_CloseSocket (snd p)) else p) (tcp_Sessions ?sv)"
    "tcp_Posted (ping_sessions io eps ?sv) = tcp_Posted ?sv @ List.filter (\<lambda>ep. dead (io ep)) eps"
    by (auto simp: k)
  show ?case
  proof (cases "dead (io ep)")
    case True
    with IH one Cons.prems(3) show ?thesis by (auto simp: comp_def)
  next
    case False
    with IH one show ?thesis by (auto simp: comp_def)
  qed
qed simp

lemma remove_all_posted:
  assumes "smap_sorted endpoint_less (tcp_Sessions sv)"
  shows "(remove_posted ^^ length (tcp_Posted sv)) sv =
    sv\<lparr>tcp_Posted := [], tcp_Sessions := List.filter (\<lambda>p. fst p \<notin> set (tcp_Posted sv)) (tcp_Sessions sv)\<rparr>"
  using assms
proof (induction "tcp_Posted sv" arbitrary: sv)
  case Nil
  then show ?case by simp
next
  case (Cons ep eps)
  let ?sv = "sv\<lparr>tcp_Posted := eps, tcp_Sessions := smap_erase endpoint_less ep (tcp_Sessions sv)\<rparr>"
  from Cons.prems have "smap_sorted endpoint_less (tcp_Sessions ?sv)" by (simp add: smap_sorted_erase)
  from Cons.hyps(1) [OF _ this] have "(remove_posted ^^ length eps) ?sv =
      ?sv\<lparr>tcp_Posted := [], tcp_Sessions := List.filter (\<lambda>p. fst p \<notin> set eps) (tcp_Sessions ?sv)\<rparr>" by simp
  moreover have "(remove_posted ^^ length (tcp_Posted sv)) sv = (remove_posted ^^ length eps) ?sv"
    using Cons.hyps(2) [symmetric] by (simp add: funpow_Suc_right remove_posted_def del: funpow.simps)
  ultimately show ?case using Cons.prems Cons.hyps(2) [symmetric]
    by (auto simp: endpoints.erase_filter intro: filter_cong)
qed

lemma filter_of_map:
  "(\<And>p. p \<in> set xs \<Longrightarrow> P (g p) = Q p) \<Longrightarrow> (\<And>p. p \<in> set xs \<Longrightarrow> Q p \<Longrightarrow> g p = p) \<Longrightarrow>
   List.filter P (map g xs) = List.filter Q xs"
  by (induction xs) auto

text \<open>
  C21: Whatever has happened to the server, after one ping to all its sessions and all the functions
  posted by then, exactly these sessions are gone: those whose write failed with the error of a
  lost connection, and those under an endpoint of which a removal was still posted before the
  ping, be they the sessions it was posted for or new ones accepted under the same endpoint. All
  others are as they were.
\<close>

theorem tcp_ping_removes_dead:
  "(let sv = foldl tcp_step TcpServer_ctor evs;
        sv1 = tcp_step sv (Tcp_ping io);
        sv2 = (remove_posted ^^ length (tcp_Posted sv1)) sv1
    in tcp_Posted sv2 = [] \<and>
       tcp_Sessions sv2 = List.filter (\<lambda>p. fst p \<notin> set (tcp_Posted sv) \<and> \<not> dead (io (fst p))) (tcp_Sessions sv))"
proof -
  let ?sv = "foldl tcp_step TcpServer_ctor evs"
  let ?sv1 = "tcp_step ?sv (Tcp_ping io)"
  have "tcp_inv TcpServer_ctor" by (simp add: tcp_inv_def TcpServer_ctor_def)
  then have inv: "tcp_inv ?sv" by (rule tcp_run.run_inv)
  then have d: "distinct (map fst (tcp_Sessions ?sv))"
    unfolding tcp_inv_def by (blast intro: endpoints.sorted_distinct)
  from ping_round [OF inv _ d, of io]
  have r: "tcp_Sessions ?sv1 = map (\<lambda>p. if dead (io (fst p)) then (fst p, Session_CloseSocket (snd p)) else p) (tcp_Sessions ?sv)"
    and po: "tcp_Posted ?sv1 = tcp_Posted ?sv @ List.filter (\<lambda>ep. dead (io ep)) (map fst (tcp_Sessions ?sv))"
    by (auto intro: map_cong)
  from tcp_step_inv [OF inv, of "Tcp_ping io"] have so: "smap_sorted endpoint_less (tcp_Sessions ?sv1)"
    unfolding tcp_inv_def by blast
  have "List.filter (\<lambda>p. fst p \<notin> set (tcp_Posted ?sv1)) (tcp_Sessions ?sv1) =
      List.filter (\<lambda>p. fst p \<notin> set (tcp_Posted ?sv) \<and> \<not> dead (io (fst p))) (tcp_Sessions ?sv)"
    unfolding r po by (rule filter_of_map) (auto simp: image_iff)
  with remove_all_posted [OF so] show ?thesis by (simp add: Let_def)
qed

text \<open>
  The removal of a lost session is posted under its endpoint only: a new connection from the
  same endpoint that is accepted before the removal runs is erased by it, although it is open.
\<close>

theorem tcp_removes_new_session:
  assumes "tcp_inv sv" and "tcp_Posted sv = []" and "ep \<in> fst ` set (tcp_Sessions sv)" and "dead wr"
  shows "(let sv1 = tcp_step sv (Tcp_send wr ''ping'' ep);
              sv2 = tcp_step sv1 (Tcp_accept (Inr ep) (Inr ()) False)
    in (\<exists>s. smap_find endpoint_less ep (tcp_Sessions sv2) = Some s \<and> ts_IsOpen s \<and> ts_Receiving s) \<and>
       smap_find endpoint_less ep (tcp_Sessions (tcp_step sv2 Tcp_remove)) = None)"
proof -
  let ?sv1 = "tcp_step sv (Tcp_send wr ''ping'' ep)"
  let ?sv2 = "tcp_step ?sv1 (Tcp_accept (Inr ep) (Inr ()) False)"
  have p1: "tcp_Posted ?sv1 = [ep]" using ping_one [OF assms(1,3), of wr] assms(2,4) by simp
  have "smap_find endpoint_less ep (tcp_Sessions ?sv2) =
      Some (TcpServer_SetSessionHandlers ?sv1 (fst (Session_Start (Inr ep) (Inr ()) Session_ctor)))"
    by (simp add: AcceptConnection_def AcceptSession_def Session_Start_def Let_def endpoints.find_set endpoints.find_assign
        TcpServer_SetSessionHandlers_def del: tcp_step.simps(3))
  then have "\<exists>s. smap_find endpoint_less ep (tcp_Sessions ?sv2) = Some s \<and> ts_IsOpen s \<and> ts_Receiving s"
    by (simp add: TcpServer_SetSessionHandlers_def SetSessionReceiveData_def SetSessionDisconnected_def
        Session_Start_def Session_AsyncReceive_def Session_ctor_def Let_def)
  moreover have "tcp_Posted ?sv2 = [ep]"
    using p1 by (simp add: AcceptConnection_def AcceptSession_def Session_Start_def Let_def)
  moreover have "smap_sorted endpoint_less (tcp_Sessions ?sv2)"
    using tcp_step_inv [OF tcp_step_inv [OF assms(1)]] unfolding tcp_inv_def by blast
  ultimately show ?thesis by (simp add: Let_def remove_posted_def endpoints.find_erase del: tcp_step.simps(1,3))
qed

theorem tcp_removes_new_session_witness:
  "(let sv = tcp_step TcpServer_ctor (Tcp_accept (Inr (''h'', 1)) (Inr ()) False);
        sv1 = tcp_step sv (Tcp_send (\<lambda>_. Inl broken_pipe) ''ping'' (''h'', 1));
        sv2 = tcp_step sv1 (Tcp_accept (Inr (''h'', 1)) (Inr ()) False)
    in smap_find endpoint_less (''h'', 1) (tcp_Sessions (tcp_step sv2 Tcp_remove)) = None)"
proof -
  let ?sv = "tcp_step TcpServer_ctor (Tcp_accept (Inr (''h'', 1)) (Inr ()) False)"
  have "tcp_inv TcpServer_ctor" by (simp add: tcp_inv_def TcpServer_ctor_def)
  then have i: "tcp_inv ?sv" by (rule tcp_step_inv)
  have p: "tcp_Posted ?sv = []" and m: "(''h'', 1) \<in> fst ` set (tcp_Sessions ?sv)"
    by (simp_all add: AcceptConnection_def AcceptSession_def Session_Start_def TcpServer_ctor_def Let_def smap_assign_def)
  have d: "dead (\<lambda>_. Inl broken_pipe)" by (simp add: dead_def lost_connection_def)
  from tcp_removes_new_session [OF i p m d] show ?thesis unfolding Let_def by blast
qed

section \<open>The pings\<close>

text \<open>
  A server that listens never stops to ping: in every state its timer gets into, whatever the
  outcomes of the pings before and whatever else happens to the server, the next ping to all its sessions is sent after finitely many
  steps.
\<close>

theorem tcp_server_pings_on:
  assumes "StartListening now openFailed option bindFailed listenFailed (sv, t) = ((sv1, t1), Inr True)"
    and "(timer_step E)\<^sup>*\<^sup>* (now, (sv1, ios), t1) (now', w', t')"
  shows "\<exists>now'' t''. timer_alone\<^sup>*\<^sup>* (now', w', t') (now'', fst (pingSessionsFunc w'), t'')"
proof -
  have f: "pingSessionsFunc = (\<lambda>w. (fst (pingSessionsFunc w), True))"
    by (rule ext) (simp add: pingSessionsFunc_def case_prod_unfold)
  from assms(1) have t1: "t1 = Timer_Start now pingSessionsFunc 2000000 t"
    by (auto simp: StartListening_def split: if_splits sum.splits)
  have "timer_alive (\<lambda>w. fst (pingSessionsFunc w)) 2000000 (now, (sv1, ios), t1)"
    unfolding t1 by (subst f) (rule timer_alive_started)
  from timer_next_call [OF timer_alive_steps [OF assms(2) this]] show ?thesis by blast
qed

theorem tcp_server_pings_on_witness:
  "\<exists>now'' t''. timer_alone\<^sup>*\<^sup>* (0, (TcpServer_ctor\<lparr>tcp_Accepting := True\<rparr>, \<lambda>_ _ _. Inr 6), Timer_Start 0 pingSessionsFunc 2000000 Timer_ctor)
     (now'', fst (pingSessionsFunc (TcpServer_ctor\<lparr>tcp_Accepting := True\<rparr>, \<lambda>_ _ _. Inr 6)), t'')"
proof -
  have s: "StartListening 0 False (Inr ()) False False (TcpServer_ctor, Timer_ctor) =
      ((TcpServer_ctor\<lparr>tcp_Accepting := True\<rparr>, Timer_Start 0 pingSessionsFunc 2000000 Timer_ctor), Inr True)"
    by (simp add: StartListening_def)
  show ?thesis by (rule tcp_server_pings_on [OF s rtranclp.rtrancl_refl])
qed

text \<open>
  The client pings until a write fails: after the first ping of which no byte was sent, for
  whatever reason, its timer does nothing any more.
\<close>

theorem client_ping_stops:
  assumes "m_TimerFunction t = Some client_ping" and "\<not> m_Waiting t" and "m_Completions t = []"
    and "fst (snd (Session_Send (ios 0) ''ping'' s)) = 0"
    and "m_TimerHandler False now ((s, ios), t) = Some (w1, t1)"
    and "timer_alone\<^sup>*\<^sup>* (now, w1, t1) (now', w', t')"
  shows "w' = w1 \<and> \<not> m_Waiting t' \<and> m_Completions t' = []"
proof -
  from assms(1,4,5) have t1: "t1 = t"
    by (auto simp: m_TimerHandler_def client_ping_def case_prod_unfold Let_def split: if_splits)
  have "w' = w1 \<and> t' = t1" if "timer_alone\<^sup>*\<^sup>* (now, w1, t1) (now', w', t')" for now' w' t'
    using that
  proof (induction "(now', w', t')" arbitrary: now' w' t' rule: rtranclp_induct)
    case (step s2)
    obtain n2 w2 t2 where s2: "s2 = (n2, w2, t2)" by (cases s2)
    from step.hyps(3) [OF s2] have "w2 = w1" "t2 = t1" by simp_all
    with step.hyps(2) assms(2,3) t1 show ?case unfolding s2 by (auto elim: timer_stepE)
  qed simp
  from this [OF assms(6)] assms(2,3) t1 show ?thesis by simp
qed

theorem client_ping_stops_witness:
  "(let t = Timer_ctor\<lparr>m_TimerFunction := Some client_ping\<rparr>;
        ios = (\<lambda>_ _. Inl (other_error ''no buffer space''))
    in \<exists>w1 t1. m_TimerHandler False 5 ((TcpClient_ctor, ios), t) = Some (w1, t1) \<and> \<not> m_Waiting t1 \<and> m_Completions t1 = [])"
proof -
  let ?t = "Timer_ctor\<lparr>m_TimerFunction := Some client_ping\<rparr> :: client_state Timer"
  let ?ios = "(\<lambda>_ _. Inl (other_error ''no buffer space'')) :: nat \<Rightarrow> tcp_write"
  have s: "fst (snd (Session_Send (?ios 0) ''ping'' TcpClient_ctor)) = 0"
    by (simp add: Session_Send_def lost_connection_def)
  then obtain w1 where h: "m_TimerHandler False 5 ((TcpClient_ctor, ?ios), ?t) = Some (w1, ?t)"
    by (simp add: m_TimerHandler_def client_ping_def Let_def case_prod_unfold)
  have "m_TimerFunction ?t = Some client_ping" "\<not> m_Waiting ?t" "m_Completions ?t = []" by (simp_all add: Timer_ctor_def)
  from client_ping_stops [where ios = ?ios, OF this s h rtranclp.rtrancl_refl] h show ?thesis by (simp add: Let_def)
qed

text \<open>
  When the peer closes its side, the socket stays readable with nothing to read: the handler
  does nothing and waits again, any number of times, and tells nobody; only a failing write ends it.
\<close>

theorem session_eof_spins:
  assumes "ts_IsOpen s" and "ts_Receiving s"
  shows "((\<lambda>st :: Session \<times> unit throws. readDataHandler on_data False (Some 0) garbage r (fst st)) ^^ n) (s, Inr ()) = (s, Inr ())"
proof -
  from assms have "readDataHandler on_data False (Some 0) garbage r s = (s, Inr ())"
    by (simp add: readDataHandler_def Session_ReadData_def Session_AsyncReceive_def Let_def)
  then show ?thesis by (induction n) simp_all
qed

theorem session_eof_spins_witness:
  "((\<lambda>st :: Session \<times> unit throws. readDataHandler (\<lambda>_ _ _. Inr ()) False (Some 0) [] None (fst st)) ^^ 1000)
     (Session_AsyncReceive Session_ctor, Inr ()) = (Session_AsyncReceive Session_ctor, Inr ())"
  by (rule session_eof_spins) (simp_all add: Session_AsyncReceive_def Session_ctor_def)

end
