(* ===== verification/SocketProps.thy ===== *)
theory SocketProps
  imports Sockets
begin

text \<open>
  The byte stream of a session through its ring buffer, and what becomes of the sessions of a
  server over any sequence of events.
\<close>

section \<open>The stream of a session\<close>

text \<open>
  A read event: what the socket says it has, how many bytes the read gets (\<open>None\<close> when it fails),
  and how many of those it is shown the callback takes. The bytes that have arrived at the socket
  and were not read yet are the state of the other end; the code reads from the socket when its
  ring buffer has room for what is available.
\<close>

definition reads_socket :: "nat \<Rightarrow> 'a session \<Rightarrow> bool" where
  "reads_socket available s \<longleftrightarrow>
     0 < available \<and>
     (case RingBuffer_GetWriteBuffer available (m_ReceiveBuffer s) of Some (_, Some _) \<Rightarrow> True | _ \<Rightarrow> False)"

definition read_outcome :: "nat option \<Rightarrow> string \<Rightarrow> string option" where
  "read_outcome n arrived = map_option (\<lambda>n. take n arrived) n"

fun session_run ::
  "(nat \<times> nat option \<times> nat) list \<Rightarrow> 'a session \<Rightarrow> string \<Rightarrow> ('a session \<times> string \<times> string) option" where
  "session_run [] s arrived = Some (s, arrived, [])"
| "session_run ((available, n, k) # es) s arrived =
     (case SessionBase_ReadData (read_some k) False available (read_outcome n arrived) s of
        None \<Rightarrow> None
      | Some (s1, closed, calls, again) \<Rightarrow>
          (case session_run es s1
                  (case n of Some n \<Rightarrow> if reads_socket available s then drop n arrived else arrived | None \<Rightarrow> arrived) of
             None \<Rightarrow> None
           | Some (s2, arrived2, used) \<Rightarrow>
               Some (s2, arrived2, concat (map (\<lambda>c. case c of OnDataRead ep taken \<Rightarrow> taken | _ \<Rightarrow> []) calls) @ used)))"

lemma WriteBuffer_fn_reads:
  "RingBuffer_WriteBuffer_fn (Session_ReadBuffer (Some d)) available rb = Some (rb1, False) \<Longrightarrow> rb_ok rb \<Longrightarrow>
   length d \<le> available \<Longrightarrow> d \<noteq> [] \<Longrightarrow>
   \<not> (case RingBuffer_GetWriteBuffer available rb of Some (_, Some _) \<Rightarrow> True | _ \<Rightarrow> False)"
  by (auto simp: RingBuffer_WriteBuffer_fn_def Session_ReadBuffer_def split: option.splits if_splits)

lemma ReadData_stream:
  assumes "rb_ok (m_ReceiveBuffer s)" and "\<And>m. n = Some m \<Longrightarrow> m \<le> available"
    and "SessionBase_ReadData (read_some k) False available (read_outcome n arrived) s = Some (s1, closed, calls, again)"
  shows "rb_ok (m_ReceiveBuffer s1) \<and>
    concat (map (\<lambda>c. case c of OnDataRead ep taken \<Rightarrow> taken | _ \<Rightarrow> []) calls) @ rb_contents (m_ReceiveBuffer s1) @
      (case n of Some n \<Rightarrow> if reads_socket available s then drop n arrived else arrived | None \<Rightarrow> arrived) =
    rb_contents (m_ReceiveBuffer s) @ arrived"
proof (cases "available > 0")
  case False
  with assms show ?thesis by (auto simp: SessionBase_ReadData_def reads_socket_def split: option.split)
next
  case True
  let ?r = "read_outcome n arrived"
  obtain rb ok where w: "RingBuffer_WriteBuffer_fn (Session_ReadBuffer ?r) available (m_ReceiveBuffer s) = Some (rb, ok)"
    using assms(3) True by (auto simp: SessionBase_ReadData_def split: option.splits)
  obtain stored m where f: "Session_ReadBuffer ?r available = (stored, m)" by fastforce
  have l: "length stored \<le> available" "m \<le> length stored"
    using f assms(2) by (auto simp: Session_ReadBuffer_def read_outcome_def split: option.splits)
  note res = WriteBuffer_fn_result [OF assms(1) w f l]
  show ?thesis
  proof (cases ok)
    case False
    from False w assms(3) True have s1: "m_ReceiveBuffer s1 = rb" "calls = []" by (auto simp: SessionBase_ReadData_def)
    have "n = Some d \<Longrightarrow> reads_socket available s \<Longrightarrow> drop d arrived = arrived" for d
      using WriteBuffer_fn_reads [of "take d arrived" available "m_ReceiveBuffer s" rb] w False assms(1,2)
      by (cases "d = 0"; cases "arrived = []") (auto simp: read_outcome_def reads_socket_def min.coboundedI2)
    with res False s1 show ?thesis by (auto split: option.split)
  next
    case okT: True
    have "m > 0" and g: "reads_socket available s"
      using w f okT True by (auto simp: RingBuffer_WriteBuffer_fn_def reads_socket_def Let_def split: option.splits if_splits)
    then obtain d where d: "n = Some d" "stored = take d arrived" "m = length stored"
      using f by (auto simp: Session_ReadBuffer_def read_outcome_def split: option.splits)
    have rb: "rb_ok rb" "rb_contents rb = rb_contents (m_ReceiveBuffer s) @ take d arrived"
      using res okT d assms(2) [of d] by (auto simp: min_def)
    obtain rb1 taken where t: "read_some k rb = (rb1, taken)" by fastforce
    from w okT assms(3) True t have s1: "m_ReceiveBuffer s1 = rb1" "calls = [OnDataRead (m_RemoteEndpoint s) taken]"
      by (auto simp: SessionBase_ReadData_def)
    from read_some_result [OF rb(1) t] have ok1: "rb_ok rb1" and "taken @ rb_contents rb1 = rb_contents rb" by simp_all
    then have c: "taken @ rb_contents rb1 = rb_contents (m_ReceiveBuffer s) @ take d arrived" by (simp add: rb(2))
    have "taken @ rb_contents rb1 @ drop d arrived = (taken @ rb_contents rb1) @ drop d arrived" by simp
    also have "\<dots> = rb_contents (m_ReceiveBuffer s) @ arrived" unfolding c by simp
    finally show ?thesis using ok1 s1 d(1) g by simp
  qed
qed

definition reads_limited :: "(nat \<times> nat option \<times> nat) list \<Rightarrow> bool" where
  "reads_limited = list_all (\<lambda>(available, n, k). case n of None \<Rightarrow> True | Some m \<Rightarrow> m \<le> available)"

lemma session_run_stream:
  "rb_ok (m_ReceiveBuffer s) \<Longrightarrow> reads_limited es \<Longrightarrow> session_run es s arrived = Some (s', rest, used) \<Longrightarrow>
   rb_ok (m_ReceiveBuffer s') \<and> used @ rb_contents (m_ReceiveBuffer s') @ rest = rb_contents (m_ReceiveBuffer s) @ arrived"
proof (induction es arbitrary: s arrived used)
  case (Cons e es)
  obtain a n k where e: "e = (a, n, k)" by (cases e)
  let ?arrived = "case n of Some n \<Rightarrow> if reads_socket a s then drop n arrived else arrived | None \<Rightarrow> arrived"
  from Cons.prems(3) e obtain s1 closed calls again used1 where
    rd: "SessionBase_ReadData (read_some k) False a (read_outcome n arrived) s = Some (s1, closed, calls, again)"
    and run: "session_run es s1 ?arrived = Some (s', rest, used1)"
    and out: "used = concat (map (\<lambda>c. case c of OnDataRead ep taken \<Rightarrow> taken | _ \<Rightarrow> []) calls) @ used1"
    by (auto split: option.splits)
  from Cons.prems(2) e have lim: "\<And>m. n = Some m \<Longrightarrow> m \<le> a" and "reads_limited es"
    by (auto simp: reads_limited_def)
  from ReadData_stream [OF Cons.prems(1) lim rd] Cons.IH [OF _ this(2) run] show ?case unfolding out append_assoc by metis
qed simp

text \<open>
  C29: Whatever bytes arrive at the socket of a session, however they are cut into reads and however
  much the callback takes of what \<open>ReadBuffer\<close> shows it: the bytes it has taken, followed by those in
  the ring buffer and by those not read from the socket yet, are the bytes that arrived; none is lost,
  repeated or reordered. A read gets at most as many bytes as are available, the ring buffer has
  less than \<open>2 ^ 64\<close> bytes, and no move of overlapping memory is needed in it.
\<close>

theorem session_stream:
  assumes "length storage < 2 ^ 64"
    and "s0 = \<lparr>m_RemoteEndpoint = ep, is_open = True, m_ReceiveBuffer = RingBuffer_ctor storage\<rparr>"
    and "reads_limited es"
    and "session_run es s0 arrived = Some (s, rest, used)"
  shows "used @ rb_contents (m_ReceiveBuffer s) @ rest = arrived"
proof -
  have "rb_ok (RingBuffer_ctor storage)" "rb_contents (RingBuffer_ctor storage) = []"
    using assms(1) by (simp_all add: rb_ok_def rb_contents_def RingBuffer_ctor_def)
  with session_run_stream [OF _ assms(3,4)] assms(2) show ?thesis by simp
qed

text \<open>
  Four bytes of room: three bytes are read, of which the callback takes two; nine bytes find no room
  and stay in the socket; two more are read after the rest was moved to the front.
\<close>

theorem session_stream_witness:
  "\<exists>s. session_run [(3, Some 3, 2), (9, Some 4, 1), (2, Some 2, 1)]
      \<lparr>m_RemoteEndpoint = (1 :: nat, 80), is_open = True, m_ReceiveBuffer = RingBuffer_ctor ''....''\<rparr> ''abcdefg'' =
      Some (s, ''fg'', ''abc'') \<and> ''abc'' @ rb_contents (m_ReceiveBuffer s) @ ''fg'' = ''abcdefg''"
proof -
  let ?es = "[(3, Some 3, 2), (9, Some 4, 1), (2, Some 2, 1)] :: (nat \<times> nat option \<times> nat) list"
  let ?s = "\<lparr>m_RemoteEndpoint = (1 :: nat, 80), is_open = True, m_ReceiveBuffer = RingBuffer_ctor ''....''\<rparr>"
  have r: "session_run ?es ?s ''abcdefg'' =
      Some (?s\<lparr>m_ReceiveBuffer := \<lparr>rb_buffer = ''cde.'', rb_write = 3, rb_read = 1\<rparr>\<rparr>, ''fg'', ''abc'')"
    by (simp add: SessionBase_ReadData_def Session_ReadBuffer_def RingBuffer_WriteBuffer_fn_def ring_eval read_outcome_def
        reads_socket_def)
  have b: "reads_limited ?es" by (simp add: reads_limited_def)
  have l: "length ''....'' < 2 ^ 64" by simp
  from session_stream [OF l refl b r] r show ?thesis by blast
qed

section \<open>The sessions of a server\<close>

datatype 'a server_event =
    Ev_accept bool string bool "'a endpoint"
  | Ev_read data_handler bool nat "string option" "'a endpoint"
  | Ev_send "bool \<times> nat" "'a endpoint"
  | Ev_send_all "'a endpoint \<Rightarrow> bool \<times> nat"
  | Ev_posted

text \<open>One event of the TLS server and one of the TCP server; \<open>None\<close> as for the ring buffer.\<close>

fun ssl_step :: "'a::linorder server option \<Rightarrow> 'a server_event \<Rightarrow> 'a server option" where
  "ssl_step None e = None"
| "ssl_step (Some sv) (Ev_accept handshakeFailed storage failed ep) = Some (SslServer_Accept handshakeFailed storage failed ep sv)"
| "ssl_step (Some sv) (Ev_read on_data failed available r ep) = Server_on_readable Ssl_cleanup on_data failed available r ep sv"
| "ssl_step (Some sv) (Ev_send io ep) = Some (fst (Server_SendSocketData Ssl_cleanup io ep sv))"
| "ssl_step (Some sv) (Ev_send_all io) = Some (Server_SendToAllClients Ssl_cleanup io sv)"
| "ssl_step (Some sv) Ev_posted = Some (run_posted sv)"

fun tcp_step :: "'a::linorder server option \<Rightarrow> 'a server_event \<Rightarrow> 'a server option" where
  "tcp_step None e = None"
| "tcp_step (Some sv) (Ev_accept _ storage failed ep) = Some (TcpServer_Accept storage failed ep sv)"
| "tcp_step (Some sv) (Ev_read on_data failed available r ep) = Server_on_readable Tcp_cleanup on_data failed available r ep sv"
| "tcp_step (Some sv) (Ev_send io ep) = Some (fst (Server_SendSocketData Tcp_cleanup io ep sv))"
| "tcp_step (Some sv) (Ev_send_all io) = Some (Server_SendToAllClients Tcp_cleanup io sv)"
| "tcp_step (Some sv) Ev_posted = Some (run_posted sv)"

text \<open>
  Every session is stored with its own endpoint, and a closed one has its removal posted.
\<close>

definition ssl_inv :: "'a::linorder server \<Rightarrow> bool" where
  "ssl_inv sv \<longleftrightarrow> smap_sorted endpoint_less (m_Sessions sv) \<and>
     (\<forall>ep s. smap_find endpoint_less ep (m_Sessions sv) = Some s \<longrightarrow>
        m_RemoteEndpoint s = ep \<and> (is_open s \<or> ep \<in> set (m_Posted sv)))"

lemma inv_erase:
  "ssl_inv sv \<Longrightarrow> ssl_inv (sv\<lparr>m_Sessions := smap_erase endpoint_less ep (m_Sessions sv), m_Calls := c\<rparr>)"
  by (auto simp: ssl_inv_def endpoints.find_erase smap_sorted_erase)

lemma inv_calls: "ssl_inv (sv\<lparr>m_Calls := c\<rparr>) = ssl_inv sv"
  by (simp add: ssl_inv_def)

lemma inv_set:
  assumes "ssl_inv sv" and "smap_find endpoint_less ep (m_Sessions sv) = Some s" and "m_RemoteEndpoint s1 = m_RemoteEndpoint s"
    and "is_open s1 \<or> closed \<or> \<not> is_open s"
  shows "ssl_inv ((if closed then Ssl_cleanup (m_RemoteEndpoint s) else id)
    (sv\<lparr>m_Sessions := smap_set endpoint_less ep s1 (m_Sessions sv), m_Calls := c\<rparr>))"
  using assms by (auto simp: ssl_inv_def Ssl_cleanup_def endpoints.find_set)

lemma inv_set_send:
  assumes "ssl_inv sv" and "smap_find endpoint_less ep (m_Sessions sv) = Some s" and "m_RemoteEndpoint s1 = m_RemoteEndpoint s"
    and "is_open s1 \<or> closed \<or> \<not> is_open s"
  shows "ssl_inv (if closed then Ssl_cleanup (m_RemoteEndpoint s) (sv\<lparr>m_Sessions := smap_set endpoint_less ep s1 (m_Sessions sv)\<rparr>)
    else sv\<lparr>m_Sessions := smap_set endpoint_less ep s1 (m_Sessions sv)\<rparr>)"
  using inv_set [OF assms, of "m_Calls sv"] by (cases closed) simp_all

lemma inv_emplace:
  assumes "ssl_inv sv" and "smap_find endpoint_less ep (m_Sessions sv) = None" and "m_RemoteEndpoint s = ep" and "is_open s"
  shows "ssl_inv (sv\<lparr>m_Sessions := smap_emplace endpoint_less ep s (m_Sessions sv), m_Calls := c\<rparr>)"
  using assms by (auto simp: ssl_inv_def endpoints.find_emplace_absent endpoints.sorted_emplace)

lemma SendData_open:
  "SessionBase_SendData io s = (s1, closed, n) \<Longrightarrow>
   m_RemoteEndpoint s1 = m_RemoteEndpoint s \<and> (is_open s1 \<or> closed \<or> \<not> is_open s)"
  by (auto simp: SessionBase_SendData_def HandleClosedSocket_def split: if_splits)

lemma ReadData_open:
  "SessionBase_ReadData on_data failed available r s = Some (s1, closed, calls, again) \<Longrightarrow>
   m_RemoteEndpoint s1 = m_RemoteEndpoint s \<and> (is_open s1 \<or> closed \<or> \<not> is_open s)"
  by (auto simp: SessionBase_ReadData_def HandleClosedSocket_def split: if_splits option.splits prod.splits)

lemma accept_inv: "ssl_inv sv \<Longrightarrow> ssl_inv (Server_Accept accept storage failed ep sv)"
proof -
  assume i: "ssl_inv sv"
  let ?s = "\<lparr>m_RemoteEndpoint = ep, is_open = True, m_ReceiveBuffer = RingBuffer_ctor storage\<rparr>"
  show ?thesis
  proof (cases "smap_find endpoint_less ep (m_Sessions sv)")
    case (Some s)
    with inv_erase [OF i, where ep = ep and c = "m_Calls sv"] i show ?thesis by (simp add: Server_Accept_def)
  next
    case None
    obtain ok calls where a: "accept ?s = (ok, calls)" by fastforce
    have e: "ssl_inv (sv\<lparr>m_Sessions := smap_emplace endpoint_less ep ?s (m_Sessions sv), m_Calls := c\<rparr>)" for c
      by (rule inv_emplace [OF i None]) simp_all
    from e [of "m_Calls sv @ calls"] inv_erase [OF e, where ep = ep and c = "m_Calls sv @ calls"] None a i show ?thesis
      by (simp add: Server_Accept_def Let_def)
  qed
qed

lemma send_inv:
  assumes i: "ssl_inv sv"
  shows "ssl_inv (fst (Server_SendSocketData Ssl_cleanup io ep sv))"
proof (cases "smap_find endpoint_less ep (m_Sessions sv)")
  case None
  with i show ?thesis by (simp add: Server_SendSocketData_def)
next
  case (Some s)
  obtain s1 closed n where d: "SessionBase_SendData io s = (s1, closed, n)" by (metis prod_cases3)
  from inv_set_send [OF i Some conjunct1 [OF SendData_open [OF d]] conjunct2 [OF SendData_open [OF d]]] Some d
  show ?thesis by (simp add: Server_SendSocketData_def Let_def)
qed

lemma send_all_inv: "ssl_inv sv \<Longrightarrow> ssl_inv (send_all Ssl_cleanup io eps sv)"
  by (induction eps arbitrary: sv) (simp_all add: send_inv)

lemma read_inv:
  assumes i: "ssl_inv sv" and r: "Server_on_readable Ssl_cleanup on_data failed available r ep sv = Some sv1"
  shows "ssl_inv sv1"
proof (cases "smap_find endpoint_less ep (m_Sessions sv)")
  case None
  with i r show ?thesis by (simp add: Server_on_readable_def)
next
  case (Some s)
  with r obtain s1 closed calls again where d: "SessionBase_ReadData on_data failed available r s = Some (s1, closed, calls, again)"
    by (auto simp: Server_on_readable_def split: option.splits)
  from inv_set [OF i Some conjunct1 [OF ReadData_open [OF d]] conjunct2 [OF ReadData_open [OF d]], of "m_Calls sv @ calls"]
    Some d r
  show ?thesis by (cases closed) (auto simp: Server_on_readable_def Let_def)
qed

lemma posted_inv:
  assumes i: "ssl_inv sv"
  shows "ssl_inv (run_posted sv)"
proof (cases "m_Posted sv")
  case Nil
  with i show ?thesis by (simp add: run_posted_def)
next
  case (Cons ep eps)
  have old: "smap_find endpoint_less q (m_Sessions sv) = Some s \<Longrightarrow>
      m_RemoteEndpoint s = q \<and> (is_open s \<or> q = ep \<or> q \<in> set eps)" for q s
    using i Cons by (simp add: ssl_inv_def del: split_paired_All)
  have sorted: "smap_sorted endpoint_less (m_Sessions sv)" using i by (simp add: ssl_inv_def)
  have run: "m_Posted (run_posted sv) = eps"
    "m_Sessions (run_posted sv) = m_Sessions (fst (Server_CheckClosedSessions ep (sv\<lparr>m_Posted := eps\<rparr>)))"
    using Cons by (simp_all add: run_posted_def removeSessionFn_def Server_CheckClosedSessions_def Let_def split: option.split)
  have find: "smap_find endpoint_less q (m_Sessions (run_posted sv)) =
      (case smap_find endpoint_less q (m_Sessions sv) of None \<Rightarrow> None
       | Some s \<Rightarrow> if q = ep \<and> \<not> is_open s then None else Some s)" for q
    unfolding run(2) using endpoints.find_erase [OF sorted, of q ep]
    by (auto simp: Server_CheckClosedSessions_def Let_def split: option.split)
  have "smap_sorted endpoint_less (m_Sessions (run_posted sv))"
    unfolding run(2) using sorted by (simp add: Server_CheckClosedSessions_def Let_def smap_sorted_erase split: option.split)
  moreover have "m_RemoteEndpoint s = q \<and> (is_open s \<or> q \<in> set eps)"
    if "smap_find endpoint_less q (m_Sessions (run_posted sv)) = Some s" for q s
    using that old [of q s] by (auto simp: find split: option.splits if_splits)
  ultimately show ?thesis by (simp add: ssl_inv_def run(1) del: split_paired_All)
qed

interpretation ssl_server: step_invariant ssl_step "\<lambda>x. case x of None \<Rightarrow> True | Some sv \<Rightarrow> ssl_inv sv"
proof
  fix sv :: "'a::linorder server option" and e
  assume i: "case sv of None \<Rightarrow> True | Some sv \<Rightarrow> ssl_inv sv"
  show "case ssl_step sv e of None \<Rightarrow> True | Some sv \<Rightarrow> ssl_inv sv"
    using i by (cases "(sv, e)" rule: ssl_step.cases)
      (simp_all add: SslServer_Accept_def accept_inv send_inv Server_SendToAllClients_def send_all_inv posted_inv
        read_inv split: option.split)
qed

text \<open>
  On one thread no closed session stays in the list of the TLS server: when the posted functions
  have run, every session in the list is open, whatever connections, reads and writes there were.
\<close>

theorem ssl_closed_removed:
  assumes "foldl ssl_step (Some Server_ctor) es = Some sv" and "m_Posted sv = []"
    and "smap_find endpoint_less ep (m_Sessions sv) = Some s"
  shows "is_open s \<and> m_RemoteEndpoint s = ep"
proof -
  have "case Some (Server_ctor :: 'a server) of None \<Rightarrow> True | Some sv \<Rightarrow> ssl_inv sv"
    by (simp add: ssl_inv_def Server_ctor_def)
  from ssl_server.run_inv [OF this, of es] assms(1) have "ssl_inv sv" by simp
  with assms(2,3) show ?thesis by (auto simp: ssl_inv_def simp del: split_paired_All)
qed

lemmas server_eval = SslServer_Accept_def SslSession_Accept_def TcpServer_Accept_def TcpSession_Accept_def Server_Accept_def
  Server_on_readable_def SessionBase_ReadData_def HandleClosedSocket_def run_posted_def removeSessionFn_def
  Server_CheckClosedSessions_def Server_ctor_def Ssl_cleanup_def Tcp_cleanup_def endpoint_less_def
  Server_SendSocketData_def SessionBase_SendData_def Let_def

theorem ssl_closed_removed_witness:
  "\<exists>sv s. foldl ssl_step (Some Server_ctor)
      [Ev_accept False ''.'' False (1 :: nat, 7), Ev_accept False ''.'' False (2, 7), Ev_read (\<lambda>rb. (rb, [])) True 0 None (1, 7), Ev_posted] = Some sv \<and>
    smap_find endpoint_less (1, 7) (m_Sessions sv) = None \<and>
    smap_find endpoint_less (2, 7) (m_Sessions sv) = Some s \<and> is_open s"
proof -
  let ?es = "[Ev_accept False ''.'' False (1 :: nat, 7), Ev_accept False ''.'' False (2, 7), Ev_read (\<lambda>rb. (rb, [])) True 0 None (1, 7), Ev_posted]"
  let ?s = "\<lparr>m_RemoteEndpoint = (2 :: nat, 7), is_open = True, m_ReceiveBuffer = RingBuffer_ctor ''.''\<rparr>"
  let ?sv = "\<lparr>m_Accepting = False, m_Sessions = [((2, 7), ?s)], m_Posted = [],
      m_Calls = [OnSessionConnected (1, 7), OnSessionConnected (2, 7), OnSessionClosed (1, 7)]\<rparr>"
  have r: "foldl ssl_step (Some Server_ctor) ?es = Some ?sv" by (simp add: server_eval)
  have f: "smap_find endpoint_less (2, 7) (m_Sessions ?sv) = Some ?s" by (simp add: endpoint_less_def)
  have n: "smap_find endpoint_less (1, 7) (m_Sessions ?sv) = None" by (simp add: endpoint_less_def)
  have "m_Posted ?sv = []" by simp
  from ssl_closed_removed [OF r this f] r f n show ?thesis by blast
qed

text \<open>The two halves of \<open>HandleClosedSocket\<close> with a posted function run in between, by another thread.\<close>

definition close_session :: "'a::linorder endpoint \<Rightarrow> 'a server \<Rightarrow> 'a server" where
  "close_session ep sv =
     (case smap_find endpoint_less ep (m_Sessions sv) of
        None \<Rightarrow> sv
      | Some s \<Rightarrow> sv\<lparr>m_Sessions := smap_set endpoint_less ep (fst (HandleClosedSocket s)) (m_Sessions sv)\<rparr>)"

definition interrupted_close :: "'a::linorder endpoint \<Rightarrow> 'a server \<Rightarrow> 'a server" where
  "interrupted_close ep sv = close_session ep (run_posted (Ssl_cleanup ep sv))"

text \<open>
  The service runs on two threads, and the cleanup function is posted before the socket is closed:
  when it runs in between, it finds the session open and leaves it. The closed session then stays
  in the list with nothing posted, although the callback was told that it is gone, and the next
  connection from its endpoint is refused.
\<close>

theorem ssl_close_race:
  assumes "smap_find endpoint_less ep (m_Sessions sv) = Some s" and "is_open s" and "m_Posted sv = []"
  shows "smap_find endpoint_less ep (m_Sessions (interrupted_close ep sv)) = Some (s\<lparr>is_open := False\<rparr>) \<and>
    m_Posted (interrupted_close ep sv) = [] \<and>
    m_Calls (interrupted_close ep sv) = m_Calls sv @ [OnSessionClosed ep] \<and>
    m_Calls (SslServer_Accept h storage False ep (interrupted_close ep sv)) = m_Calls (interrupted_close ep sv)"
  using assms
  by (simp add: interrupted_close_def close_session_def run_posted_def Ssl_cleanup_def removeSessionFn_def
      Server_CheckClosedSessions_def HandleClosedSocket_def SslServer_Accept_def Server_Accept_def endpoints.find_set Let_def)

theorem ssl_close_race_witness:
  "\<exists>s. smap_find endpoint_less (1 :: nat, 7) (m_Sessions (interrupted_close (1, 7) (SslServer_Accept False ''.'' False (1, 7) Server_ctor))) = Some s \<and>
    \<not> is_open s"
proof -
  let ?s = "\<lparr>m_RemoteEndpoint = (1 :: nat, 7), is_open = True, m_ReceiveBuffer = RingBuffer_ctor ''.''\<rparr>"
  let ?sv = "SslServer_Accept False ''.'' False (1 :: nat, 7) Server_ctor"
  have f: "smap_find endpoint_less (1, 7) (m_Sessions ?sv) = Some ?s" "is_open ?s" "m_Posted ?sv = []"
    by (simp_all add: server_eval)
  from ssl_close_race [OF f] have
    "smap_find endpoint_less (1, 7) (m_Sessions (interrupted_close (1, 7) ?sv)) = Some (?s\<lparr>is_open := False\<rparr>)" by blast
  then show ?thesis by simp
qed

text \<open>The TCP server never removes a session when it is closed.\<close>

definition tcp_has :: "'a::linorder endpoint \<Rightarrow> 'a server \<Rightarrow> bool" where
  "tcp_has ep sv \<longleftrightarrow> smap_sorted endpoint_less (m_Sessions sv) \<and> smap_find endpoint_less ep (m_Sessions sv) \<noteq> None \<and> m_Posted sv = []"

lemma tcp_send_has:
  "tcp_has ep sv \<Longrightarrow> tcp_has ep (fst (Server_SendSocketData Tcp_cleanup io q sv)) \<and>
   m_Calls (fst (Server_SendSocketData Tcp_cleanup io q sv)) = m_Calls sv"
  unfolding tcp_has_def Server_SendSocketData_def Tcp_cleanup_def Let_def
  by (auto simp: endpoints.find_set split: option.split prod.split)

lemma tcp_send_all_has:
  "tcp_has ep sv \<Longrightarrow> tcp_has ep (send_all Tcp_cleanup io eps sv) \<and> m_Calls (send_all Tcp_cleanup io eps sv) = m_Calls sv"
proof (induction eps arbitrary: sv)
  case (Cons q eps)
  from tcp_send_has [OF Cons.prems, of "io q" q] Cons.IH show ?case by fastforce
qed simp

definition closed_calls :: "'a server \<Rightarrow> 'a callback list" where
  "closed_calls sv = List.filter (\<lambda>c. case c of OnSessionClosed _ \<Rightarrow> True | _ \<Rightarrow> False) (m_Calls sv)"

definition connects_from :: "'a endpoint \<Rightarrow> 'a server_event \<Rightarrow> bool" where
  "connects_from ep e \<longleftrightarrow> (case e of Ev_accept _ _ _ q \<Rightarrow> q = ep | _ \<Rightarrow> False)"

lemma tcp_accept_has:
  assumes "tcp_has ep sv" and "q \<noteq> ep"
  shows "tcp_has ep (TcpServer_Accept storage failed q sv) \<and> closed_calls (TcpServer_Accept storage failed q sv) = closed_calls sv"
  using assms unfolding tcp_has_def TcpServer_Accept_def Server_Accept_def TcpSession_Accept_def Let_def closed_calls_def
  by (auto simp: endpoints.find_erase endpoints.find_emplace_absent endpoints.sorted_emplace smap_sorted_erase
      simp del: split_paired_All split_paired_Ex split: option.split)

lemma ReadData_no_close:
  "SessionBase_ReadData on_data failed available r s = Some (s1, closed, calls, again) \<Longrightarrow>
   List.filter (\<lambda>c. case c of OnSessionClosed _ \<Rightarrow> True | _ \<Rightarrow> False) calls = []"
  by (auto simp: SessionBase_ReadData_def HandleClosedSocket_def split: if_splits option.splits prod.splits)

lemma tcp_read_has:
  assumes "tcp_has ep sv" and "Server_on_readable Tcp_cleanup on_data failed available r q sv = Some sv1"
  shows "tcp_has ep sv1 \<and> closed_calls sv1 = closed_calls sv"
proof (cases "smap_find endpoint_less q (m_Sessions sv)")
  case None
  with assms show ?thesis by (simp add: Server_on_readable_def)
next
  case (Some s)
  with assms(2) obtain s1 closed calls again where d: "SessionBase_ReadData on_data failed available r s = Some (s1, closed, calls, again)"
    by (auto simp: Server_on_readable_def split: option.splits)
  with Some assms(2) have "sv1 = sv\<lparr>m_Sessions := smap_set endpoint_less q s1 (m_Sessions sv), m_Calls := m_Calls sv @ calls\<rparr>"
    by (auto simp: Server_on_readable_def Tcp_cleanup_def Let_def split: if_splits)
  with assms(1) ReadData_no_close [OF d] show ?thesis
    by (auto simp: tcp_has_def endpoints.find_set closed_calls_def)
qed

lemma tcp_step_has:
  assumes h: "tcp_has ep sv" and c: "\<not> connects_from ep e" and s: "tcp_step (Some sv) e = Some sv1"
  shows "tcp_has ep sv1 \<and> closed_calls sv1 = closed_calls sv"
proof (cases e)
  case (Ev_accept a storage failed q)
  with tcp_accept_has [OF h, of q storage failed] c s show ?thesis by (simp add: connects_from_def)
next
  case (Ev_read on_data failed available r q)
  with s tcp_read_has [OF h] show ?thesis by simp
next
  case (Ev_send io q)
  with s tcp_send_has [OF h, of io q] show ?thesis by (auto simp: closed_calls_def)
next
  case (Ev_send_all io)
  with s tcp_send_all_has [OF h, of io "map fst (m_Sessions sv)"] show ?thesis
    by (auto simp: closed_calls_def Server_SendToAllClients_def)
next
  case Ev_posted
  with s h show ?thesis by (auto simp: run_posted_def tcp_has_def)
qed

lemma tcp_none: "foldl tcp_step None es = None"
  by (induction es) simp_all

lemma tcp_run_has:
  "tcp_has ep sv \<Longrightarrow> list_all (\<lambda>e. \<not> connects_from ep e) es \<Longrightarrow> foldl tcp_step (Some sv) es = Some sv1 \<Longrightarrow>
   tcp_has ep sv1 \<and> closed_calls sv1 = closed_calls sv"
proof (induction es arbitrary: sv)
  case (Cons e es)
  from Cons.prems(3) obtain sv2 where s: "tcp_step (Some sv) e = Some sv2" "foldl tcp_step (Some sv2) es = Some sv1"
    by (cases "tcp_step (Some sv) e") (simp_all add: tcp_none)
  from tcp_step_has [OF Cons.prems(1) _ s(1)] Cons.prems(2) Cons.IH [OF _ _ s(2)] show ?case by simp
qed simp

text \<open>
  The TCP server never tells its callback that a session was closed, and keeps every session in
  its list, closed ones too: only another connection from the same endpoint takes it out, and that
  connection is dropped with it.
\<close>

theorem tcp_keeps_closed:
  assumes "smap_sorted endpoint_less (m_Sessions sv)" and "smap_find endpoint_less ep (m_Sessions sv) \<noteq> None"
    and "m_Posted sv = []" and "list_all (\<lambda>e. \<not> connects_from ep e) es" and "foldl tcp_step (Some sv) es = Some sv1"
  shows "smap_find endpoint_less ep (m_Sessions sv1) \<noteq> None \<and> closed_calls sv1 = closed_calls sv \<and>
    smap_find endpoint_less ep (m_Sessions (TcpServer_Accept storage False ep sv1)) = None \<and>
    m_Calls (TcpServer_Accept storage False ep sv1) = m_Calls sv1"
proof -
  have "tcp_has ep sv" using assms(1-3) by (simp add: tcp_has_def)
  from tcp_run_has [OF this assms(4,5)] have h: "tcp_has ep sv1" "closed_calls sv1 = closed_calls sv" by simp_all
  then obtain s where "smap_find endpoint_less ep (m_Sessions sv1) = Some s" "smap_sorted endpoint_less (m_Sessions sv1)"
    by (auto simp: tcp_has_def)
  with h(2) show ?thesis
    by (simp add: TcpServer_Accept_def Server_Accept_def endpoints.find_erase Let_def)
qed

theorem tcp_keeps_closed_witness:
  "\<exists>sv1. foldl tcp_step (Some (TcpServer_Accept ''.'' False (1 :: nat, 7) Server_ctor)) [Ev_read (\<lambda>rb. (rb, [])) True 0 None (1, 7)] = Some sv1 \<and>
    smap_find endpoint_less (1, 7) (m_Sessions sv1) \<noteq> None \<and> closed_calls sv1 = [] \<and>
    m_Sessions (TcpServer_Accept ''.'' False (1, 7) sv1) = []"
proof -
  let ?s = "\<lparr>m_RemoteEndpoint = (1 :: nat, 7), is_open = True, m_ReceiveBuffer = RingBuffer_ctor ''.''\<rparr>"
  let ?sv = "TcpServer_Accept ''.'' False (1 :: nat, 7) Server_ctor"
  let ?es = "[Ev_read (\<lambda>rb. (rb, [])) True 0 None (1 :: nat, 7)]"
  let ?sv1 = "\<lparr>m_Accepting = False, m_Sessions = [((1, 7), ?s\<lparr>is_open := False\<rparr>)], m_Posted = [], m_Calls = [OnSessionConnected (1, 7)]\<rparr>"
  have p: "smap_sorted endpoint_less (m_Sessions ?sv)" "smap_find endpoint_less (1, 7) (m_Sessions ?sv) \<noteq> None" "m_Posted ?sv = []"
    "list_all (\<lambda>e. \<not> connects_from (1, 7) e) ?es"
    by (simp_all add: server_eval connects_from_def)
  have r: "foldl tcp_step (Some ?sv) ?es = Some ?sv1" by (simp add: server_eval)
  from tcp_keeps_closed [OF p r, of "''.''"] have
    "smap_find endpoint_less (1, 7) (m_Sessions ?sv1) \<noteq> None" "closed_calls ?sv1 = closed_calls ?sv" by blast+
  moreover have "m_Sessions (TcpServer_Accept ''.'' False (1, 7) ?sv1) = []" "closed_calls ?sv = []"
    by (simp_all add: server_eval key_equiv_def closed_calls_def)
  ultimately show ?thesis using r by (intro exI [of _ ?sv1]) simp
qed

text \<open>
  A web socket session reports its close twice: the close frame and the read it ends each post the
  function that calls back.
\<close>

lemma ws_close_twice:
  assumes "smap_find endpoint_less ep (m_Sessions sv) = Some s" and "m_RemoteEndpoint s = ep" and "m_Posted sv = []"
  shows "m_Calls (run_posted (run_posted (WsServer_on_message False None ep (WsServer_on_control False Frame_close ep sv)))) =
    m_Calls sv @ [OnSessionClosed ep, OnSessionClosed ep]"
  using assms
  by (simp add: WsServer_on_message_def WsServer_on_control_def WsSession_ReadData_def Ssl_cleanup_def run_posted_def
      removeSessionFn_def Server_CheckClosedSessions_def endpoints.find_set Let_def split: option.split)

end
