(* ===== verification/SocketLife.thy ===== *)
theory SocketLife
  imports SocketProps
begin

text \<open>
  The lifetime of the sessions of the TCP and TLS servers of \<open>socket\<close>. Here a session is an object
  of a store that lives as long as the map of the server points to it, while the handler of its
  wait holds a plain pointer. What the I/O library documents is used: a wait ends without an
  error, or with one when it is cancelled, closed or its socket destroyed; its handler then
  waits in the queue of the service until a thread runs it. A handler that runs for a destroyed
  session is undefined behaviour (\<open>None\<close>).
\<close>

section \<open>State\<close>

datatype 'a ready = Ready_read nat bool | Ready_remove "'a endpoint"

record 'a LiveServer =
  lv_Accepting :: bool
  lv_Heap :: "nat \<Rightarrow> 'a session"
  lv_Waits :: "nat \<Rightarrow> nat"
  lv_Fresh :: nat
  lv_Sessions :: "('a endpoint \<times> nat) list"
  lv_Ready :: "'a ready list"
  lv_Calls :: "'a callback list"

definition live :: "'a LiveServer \<Rightarrow> nat \<Rightarrow> bool" where
  "live sv i \<longleftrightarrow> i \<in> snd ` set (lv_Sessions sv)"

definition LiveServer_ctor :: "'a session \<Rightarrow> 'a LiveServer" where
  "LiveServer_ctor s0 =
     \<lparr>lv_Accepting = False, lv_Heap = (\<lambda>_. s0), lv_Waits = (\<lambda>_. 0), lv_Fresh = 0, lv_Sessions = [], lv_Ready = [], lv_Calls = []\<rparr>"

definition LiveServer_HasConnectedClients :: "'a LiveServer \<Rightarrow> bool" where
  "LiveServer_HasConnectedClients sv \<longleftrightarrow> lv_Sessions sv \<noteq> []"

definition LiveServer_Start :: "bool \<Rightarrow> bool \<Rightarrow> bool \<Rightarrow> bool \<Rightarrow> bool \<Rightarrow> 'a LiveServer \<Rightarrow> 'a LiveServer \<times> bool" where
  "LiveServer_Start resolveFailed openFailed optionFailed bindFailed listenFailed sv =
     (if resolveFailed then (sv, False)
      else if openFailed then (sv, False)
      else if optionFailed then (sv, False)
      else if bindFailed then (sv, False)
      else if listenFailed then (sv, False)
      else (sv\<lparr>lv_Accepting := True\<rparr>, True))"

section \<open>Sessions\<close>

text \<open>Cancelling makes the handlers ready with an error, as destroying the socket does.\<close>

definition cancel_waits :: "nat \<Rightarrow> 'a LiveServer \<Rightarrow> 'a LiveServer" where
  "cancel_waits i sv =
     sv\<lparr>lv_Waits := (lv_Waits sv)(i := 0), lv_Ready := lv_Ready sv @ replicate (lv_Waits sv i) (Ready_read i True)\<rparr>"

definition start_wait :: "nat \<Rightarrow> 'a LiveServer \<Rightarrow> 'a LiveServer" where
  "start_wait i sv = sv\<lparr>lv_Waits := (lv_Waits sv)(i := Suc (lv_Waits sv i))\<rparr>"

definition erase_session :: "'a::linorder endpoint \<Rightarrow> 'a LiveServer \<Rightarrow> 'a LiveServer" where
  "erase_session ep sv =
     (case smap_find endpoint_less ep (lv_Sessions sv) of
        None \<Rightarrow> sv
      | Some i \<Rightarrow> cancel_waits i (sv\<lparr>lv_Sessions := smap_erase endpoint_less ep (lv_Sessions sv)\<rparr>))"

text \<open>The handler a server gives its sessions for their close is the argument \<open>closed\<close>.\<close>

definition Live_HandleClosedSocket :: "('a endpoint \<Rightarrow> 'a LiveServer \<Rightarrow> 'a LiveServer) \<Rightarrow> nat \<Rightarrow> 'a LiveServer \<Rightarrow> 'a LiveServer" where
  "Live_HandleClosedSocket closed i sv =
     (let sv1 = closed (m_RemoteEndpoint (lv_Heap sv i)) sv;
          sv2 = cancel_waits i sv1
      in sv2\<lparr>lv_Heap := (lv_Heap sv2)(i := fst (HandleClosedSocket (lv_Heap sv2 i)))\<rparr>)"

definition Live_SendData ::
  "('a endpoint \<Rightarrow> 'a LiveServer \<Rightarrow> 'a LiveServer) \<Rightarrow> bool \<times> nat \<Rightarrow> nat \<Rightarrow> 'a LiveServer \<Rightarrow> 'a LiveServer \<times> nat" where
  "Live_SendData closed io i sv =
     (if is_open (lv_Heap sv i) then
        (if fst io then (Live_HandleClosedSocket closed i sv, 0) else (sv, snd io))
      else (sv, 0))"

text \<open>
  The handler of a wait, for a session that exists. Asking a closed socket for what is available
  throws.
\<close>

definition available_error :: cpp_exn where
  "available_error = CppExn ''available: Bad file descriptor''"

definition Live_readDataFunc ::
  "('a endpoint \<Rightarrow> 'a LiveServer \<Rightarrow> 'a LiveServer) \<Rightarrow> data_handler \<Rightarrow> bool \<Rightarrow> nat \<Rightarrow> string option \<Rightarrow> nat \<Rightarrow>
   'a LiveServer \<Rightarrow> ('a LiveServer \<times> unit throws) option" where
  "Live_readDataFunc closed on_data failed bytesAvailable r i sv =
     (if failed then Some (Live_HandleClosedSocket closed i sv, Inr ())
      else if \<not> is_open (lv_Heap sv i) then Some (sv, Inl available_error)
      else
        (case SessionBase_ReadData on_data False bytesAvailable r (lv_Heap sv i) of
           None \<Rightarrow> None
         | Some (s1, _, calls, again) \<Rightarrow>
             let sv1 = sv\<lparr>lv_Heap := (lv_Heap sv)(i := s1), lv_Calls := lv_Calls sv @ calls\<rparr>
             in Some (if again then start_wait i sv1 else sv1, Inr ())))"

text \<open>
  The accept of a session asks for the endpoint first, which throws when the peer is gone;
  \<open>accept\<close> is the rest of it.
\<close>

definition Live_session_Accept ::
  "('a session \<Rightarrow> bool \<times> 'a callback list) \<Rightarrow> 'a endpoint throws \<Rightarrow> 'a session \<Rightarrow> ('a session \<times> bool \<times> 'a callback list) throws" where
  "Live_session_Accept accept remote s = bind_e remote (\<lambda>ep. let s1 = s\<lparr>m_RemoteEndpoint := ep\<rparr> in Inr (s1, accept s1))"

section \<open>Servers\<close>

definition Tcp_closed :: "'a endpoint \<Rightarrow> 'a LiveServer \<Rightarrow> 'a LiveServer" where
  "Tcp_closed ep sv = sv"

definition Ssl_closed :: "'a endpoint \<Rightarrow> 'a LiveServer \<Rightarrow> 'a LiveServer" where
  "Ssl_closed ep sv = sv\<lparr>lv_Ready := lv_Ready sv @ [Ready_remove ep]\<rparr>"

text \<open>
  The handler of \<open>async_accept\<close>. \<open>remote\<close> is the endpoint the server sees, which may throw, and
  \<open>gone\<close> the exception when the session asks again. The next accept is started at its end, so not
  after an exception. A new session that is not kept has no handlers.
\<close>

definition LiveServer_Accept ::
  "('a session \<Rightarrow> bool \<times> 'a callback list) \<Rightarrow> 'a session \<Rightarrow> bool \<Rightarrow> 'a::linorder endpoint throws \<Rightarrow> cpp_exn option \<Rightarrow>
   'a LiveServer \<Rightarrow> 'a LiveServer \<times> unit throws" where
  "LiveServer_Accept accept s0 failed remote gone sv =
     (if failed then (sv, Inr ())
      else case remote of
        Inl x \<Rightarrow> (sv\<lparr>lv_Accepting := False\<rparr>, Inl x)
      | Inr ep \<Rightarrow>
          let i = lv_Fresh sv;
              sv1 = sv\<lparr>lv_Heap := (lv_Heap sv)(i := s0), lv_Fresh := Suc i\<rparr>
          in case smap_find endpoint_less ep (lv_Sessions sv1) of
               Some _ \<Rightarrow> (erase_session ep sv1, Inr ())
             | None \<Rightarrow>
                 let sv2 = sv1\<lparr>lv_Sessions := smap_emplace endpoint_less ep i (lv_Sessions sv1)\<rparr>
                 in case Live_session_Accept accept (case gone of Some x \<Rightarrow> Inl x | None \<Rightarrow> Inr ep) s0 of
                      Inl x \<Rightarrow> (sv2\<lparr>lv_Accepting := False\<rparr>, Inl x)
                    | Inr (s1, ok, calls) \<Rightarrow>
                        let sv3 = sv2\<lparr>lv_Heap := (lv_Heap sv2)(i := s1), lv_Calls := lv_Calls sv2 @ calls\<rparr>
                        in (if ok then start_wait i sv3 else erase_session ep sv3, Inr ()))"

definition LiveServer_CheckClosedSessions :: "'a::linorder endpoint \<Rightarrow> 'a LiveServer \<Rightarrow> 'a LiveServer \<times> nat" where
  "LiveServer_CheckClosedSessions ep sv =
     (let sv1 = (case smap_find endpoint_less ep (lv_Sessions sv) of
                   None \<Rightarrow> sv
                 | Some i \<Rightarrow> if \<not> is_open (lv_Heap sv i) then erase_session ep sv else sv)
      in (sv1, length (lv_Sessions sv1)))"

definition Live_removeSessionFn :: "'a::linorder endpoint \<Rightarrow> 'a LiveServer \<Rightarrow> 'a LiveServer" where
  "Live_removeSessionFn ep sv =
     (let sv1 = fst (LiveServer_CheckClosedSessions ep sv) in sv1\<lparr>lv_Calls := lv_Calls sv1 @ [OnSessionClosed ep]\<rparr>)"

definition LiveServer_SendSocketData ::
  "('a endpoint \<Rightarrow> 'a LiveServer \<Rightarrow> 'a LiveServer) \<Rightarrow> bool \<times> nat \<Rightarrow> 'a::linorder endpoint \<Rightarrow> 'a LiveServer \<Rightarrow> 'a LiveServer \<times> nat" where
  "LiveServer_SendSocketData closed io ep sv =
     (case smap_find endpoint_less ep (lv_Sessions sv) of
        Some i \<Rightarrow> Live_SendData closed io i sv
      | None \<Rightarrow> (sv, 0))"

text \<open>The loop over the map, which no write changes; \<open>io\<close> gives the outcome of each write.\<close>

fun live_send_all ::
  "('a endpoint \<Rightarrow> 'a LiveServer \<Rightarrow> 'a LiveServer) \<Rightarrow> ('a endpoint \<Rightarrow> bool \<times> nat) \<Rightarrow> ('a endpoint \<times> nat) list \<Rightarrow>
   'a LiveServer \<Rightarrow> 'a LiveServer" where
  "live_send_all closed io [] sv = sv"
| "live_send_all closed io ((k, v) # ps) sv = live_send_all closed io ps (fst (Live_SendData closed (io k) v sv))"

definition LiveServer_SendToAllClients ::
  "('a endpoint \<Rightarrow> 'a LiveServer \<Rightarrow> 'a LiveServer) \<Rightarrow> ('a endpoint \<Rightarrow> bool \<times> nat) \<Rightarrow> 'a LiveServer \<Rightarrow> 'a LiveServer" where
  "LiveServer_SendToAllClients closed io sv = live_send_all closed io (lv_Sessions sv) sv"

section \<open>Events\<close>

text \<open>
  \<open>Lv_readable\<close>: the wait of a session ends without an error. \<open>Lv_run\<close>: a thread runs one of the
  handlers that are ready; the outcome of the calls a read makes comes with it.
\<close>

datatype 'a live_event =
    Lv_accept "'a session \<Rightarrow> bool \<times> 'a callback list" "'a session" bool "'a endpoint throws" "cpp_exn option"
  | Lv_readable nat
  | Lv_run nat data_handler nat "string option"
  | Lv_send "bool \<times> nat" "'a endpoint"
  | Lv_send_all "'a endpoint \<Rightarrow> bool \<times> nat"

fun live_enabled :: "'a live_event \<Rightarrow> 'a LiveServer \<Rightarrow> bool" where
  "live_enabled (Lv_accept accept s0 failed remote gone) sv \<longleftrightarrow> lv_Accepting sv \<and> is_open s0"
| "live_enabled (Lv_readable i) sv \<longleftrightarrow> 0 < lv_Waits sv i"
| "live_enabled (Lv_run k on_data available r) sv \<longleftrightarrow> k < length (lv_Ready sv)"
| "live_enabled (Lv_send io ep) sv \<longleftrightarrow> True"
| "live_enabled (Lv_send_all io) sv \<longleftrightarrow> True"

definition take_ready :: "nat \<Rightarrow> 'a LiveServer \<Rightarrow> 'a LiveServer" where
  "take_ready k sv = sv\<lparr>lv_Ready := take k (lv_Ready sv) @ drop (Suc k) (lv_Ready sv)\<rparr>"

fun live_handle ::
  "('a endpoint \<Rightarrow> 'a LiveServer \<Rightarrow> 'a LiveServer) \<Rightarrow> 'a::linorder live_event \<Rightarrow> 'a LiveServer \<Rightarrow> ('a LiveServer \<times> unit throws) option" where
  "live_handle closed (Lv_accept accept s0 failed remote gone) sv = Some (LiveServer_Accept accept s0 failed remote gone sv)"
| "live_handle closed (Lv_readable i) sv =
     Some (sv\<lparr>lv_Waits := (lv_Waits sv)(i := lv_Waits sv i - 1), lv_Ready := lv_Ready sv @ [Ready_read i False]\<rparr>, Inr ())"
| "live_handle closed (Lv_run k on_data available r) sv =
     (case lv_Ready sv ! k of
        Ready_remove ep \<Rightarrow> Some (Live_removeSessionFn ep (take_ready k sv), Inr ())
      | Ready_read i failed \<Rightarrow>
          if live sv i then Live_readDataFunc closed on_data failed available r i (take_ready k sv) else None)"
| "live_handle closed (Lv_send io ep) sv = Some (fst (LiveServer_SendSocketData closed io ep sv), Inr ())"
| "live_handle closed (Lv_send_all io) sv = Some (LiveServer_SendToAllClients closed io sv, Inr ())"

text \<open>
  The states reached from the start of a server by events that are allowed in the state they occur
  in, as long as no handler throws.
\<close>

definition live_started :: "'a session \<Rightarrow> 'a LiveServer" where
  "live_started s0 = fst (LiveServer_Start False False False False False (LiveServer_ctor s0))"

inductive live_reach ::
  "('a endpoint \<Rightarrow> 'a LiveServer \<Rightarrow> 'a LiveServer) \<Rightarrow> ('a::linorder live_event \<Rightarrow> 'a LiveServer \<Rightarrow> bool) \<Rightarrow> 'a LiveServer \<Rightarrow> bool"
  for closed allowed where
  start: "live_reach closed allowed (live_started s0)"
| step: "live_reach closed allowed sv \<Longrightarrow> live_enabled e sv \<Longrightarrow> allowed e sv \<Longrightarrow> live_handle closed e sv = Some (sv', Inr ()) \<Longrightarrow>
    live_reach closed allowed sv'"

fun live_run :: "('a endpoint \<Rightarrow> 'a LiveServer \<Rightarrow> 'a LiveServer) \<Rightarrow> 'a::linorder live_event list \<Rightarrow> 'a LiveServer \<Rightarrow> 'a LiveServer option" where
  "live_run closed [] sv = Some sv"
| "live_run closed (e # es) sv =
     (if live_enabled e sv then
        (case live_handle closed e sv of Some (sv', Inr _) \<Rightarrow> live_run closed es sv' | _ \<Rightarrow> None)
      else None)"

end
