(* ===== verification/SocketLifeInv.thy ===== *)
theory SocketLifeInv
  imports SocketLife
begin

text \<open>
  What holds in every state a server of \<open>socket\<close> reaches: which sessions wait for a handler, when
  a handler outlives its session, and what makes a server close a session at all. The locale
  \<open>closed_handler\<close> says what the sessions need of the handler they are given for their close.
\<close>

section \<open>The invariant\<close>

definition is_read :: "nat \<Rightarrow> 'a ready \<Rightarrow> bool" where
  "is_read i r \<longleftrightarrow> (case r of Ready_read j _ \<Rightarrow> j = i | Ready_remove _ \<Rightarrow> False)"

text \<open>The handlers of a session that are still to run.\<close>

definition pending :: "'a LiveServer \<Rightarrow> nat \<Rightarrow> nat" where
  "pending sv i = lv_Waits sv i + length (List.filter (is_read i) (lv_Ready sv))"

definition live_inv :: "'a::linorder LiveServer \<Rightarrow> bool" where
  "live_inv sv \<longleftrightarrow>
     smap_sorted endpoint_less (lv_Sessions sv) \<and> distinct (map snd (lv_Sessions sv)) \<and>
     (\<forall>i. live sv i \<longrightarrow> i < lv_Fresh sv) \<and> (\<forall>i. lv_Fresh sv \<le> i \<longrightarrow> pending sv i = 0) \<and> (\<forall>i. pending sv i \<le> 1) \<and>
     (\<forall>i. 0 < lv_Waits sv i \<longrightarrow> live sv i \<and> is_open (lv_Heap sv i)) \<and>
     (\<forall>i. live sv i \<and> is_open (lv_Heap sv i) \<longrightarrow> pending sv i = 1 \<and> Ready_read i True \<notin> set (lv_Ready sv)) \<and>
     (\<forall>(ep, i) \<in> set (lv_Sessions sv). m_RemoteEndpoint (lv_Heap sv i) = ep)"

lemma is_read_simps [simp]:
  "is_read i (Ready_read j f) \<longleftrightarrow> j = i"
  "\<not> is_read i (Ready_remove ep)"
  by (simp_all add: is_read_def)

lemma is_read_iff: "is_read i r \<longleftrightarrow> (\<exists>f. r = Ready_read i f)"
  by (cases r) auto

lemma cancel_waits_simps [simp]:
  "lv_Accepting (cancel_waits i sv) = lv_Accepting sv"
  "lv_Heap (cancel_waits i sv) = lv_Heap sv"
  "lv_Waits (cancel_waits i sv) = (lv_Waits sv)(i := 0)"
  "lv_Fresh (cancel_waits i sv) = lv_Fresh sv"
  "lv_Sessions (cancel_waits i sv) = lv_Sessions sv"
  "lv_Ready (cancel_waits i sv) = lv_Ready sv @ replicate (lv_Waits sv i) (Ready_read i True)"
  "lv_Calls (cancel_waits i sv) = lv_Calls sv"
  "live (cancel_waits i sv) = live sv"
  "pending (cancel_waits i sv) = pending sv"
  by (auto simp: cancel_waits_def live_def pending_def fun_eq_iff filter_replicate)

lemma start_wait_simps [simp]:
  "lv_Accepting (start_wait i sv) = lv_Accepting sv"
  "lv_Heap (start_wait i sv) = lv_Heap sv"
  "lv_Waits (start_wait i sv) = (lv_Waits sv)(i := Suc (lv_Waits sv i))"
  "lv_Fresh (start_wait i sv) = lv_Fresh sv"
  "lv_Sessions (start_wait i sv) = lv_Sessions sv"
  "lv_Ready (start_wait i sv) = lv_Ready sv"
  "lv_Calls (start_wait i sv) = lv_Calls sv"
  "live (start_wait i sv) = live sv"
  "pending (start_wait i sv) = (pending sv)(i := Suc (pending sv i))"
  by (auto simp: start_wait_def live_def pending_def fun_eq_iff)

lemma pending_upd [simp]:
  "pending (sv\<lparr>lv_Accepting := a\<rparr>) = pending sv"
  "pending (sv\<lparr>lv_Heap := h\<rparr>) = pending sv"
  "pending (sv\<lparr>lv_Fresh := n\<rparr>) = pending sv"
  "pending (sv\<lparr>lv_Sessions := m\<rparr>) = pending sv"
  "pending (sv\<lparr>lv_Calls := c\<rparr>) = pending sv"
  "pending (sv\<lparr>lv_Ready := lv_Ready sv @ map Ready_remove eps\<rparr>) = pending sv"
  by (auto simp: pending_def fun_eq_iff filter_empty_conv)

lemma live_upd [simp]:
  "live (sv\<lparr>lv_Accepting := a\<rparr>) = live sv"
  "live (sv\<lparr>lv_Heap := h\<rparr>) = live sv"
  "live (sv\<lparr>lv_Fresh := n\<rparr>) = live sv"
  "live (sv\<lparr>lv_Waits := w\<rparr>) = live sv"
  "live (sv\<lparr>lv_Ready := rs\<rparr>) = live sv"
  "live (sv\<lparr>lv_Calls := c\<rparr>) = live sv"
  by (simp_all add: live_def fun_eq_iff)

lemma live_find: "smap_find endpoint_less ep (lv_Sessions sv) = Some i \<Longrightarrow> live sv i"
  by (auto simp: live_def dest!: endpoints.find_Some_mem_pair intro: rev_image_eqI)

lemma pending_take_read:
  assumes "k < length (lv_Ready sv)" and "lv_Ready sv ! k = Ready_read i f"
  shows "pending sv j = (if j = i then Suc (pending (take_ready k sv) j) else pending (take_ready k sv) j)"
proof -
  have "lv_Ready sv = take k (lv_Ready sv) @ Ready_read i f # drop (Suc k) (lv_Ready sv)"
    using assms id_take_nth_drop by metis
  then have "length (List.filter (is_read j) (lv_Ready sv)) =
      length (List.filter (is_read j) (take k (lv_Ready sv) @ Ready_read i f # drop (Suc k) (lv_Ready sv)))" by simp
  then show ?thesis by (simp add: pending_def take_ready_def)
qed

lemma pending_take_remove:
  assumes "k < length (lv_Ready sv)" and "lv_Ready sv ! k = Ready_remove ep"
  shows "pending (take_ready k sv) = pending sv"
proof
  fix j
  have "lv_Ready sv = take k (lv_Ready sv) @ Ready_remove ep # drop (Suc k) (lv_Ready sv)"
    using assms id_take_nth_drop by metis
  then have "length (List.filter (is_read j) (lv_Ready sv)) =
      length (List.filter (is_read j) (take k (lv_Ready sv) @ Ready_remove ep # drop (Suc k) (lv_Ready sv)))" by simp
  then show "pending (take_ready k sv) j = pending sv j" by (simp add: pending_def take_ready_def)
qed

lemma readable_pending:
  "0 < lv_Waits sv n \<Longrightarrow>
   pending (sv\<lparr>lv_Waits := (lv_Waits sv)(n := lv_Waits sv n - 1), lv_Ready := lv_Ready sv @ [Ready_read n False]\<rparr>) = pending sv"
  by (auto simp: pending_def fun_eq_iff)

lemma pending_ready: "Ready_read i f \<in> set (lv_Ready sv) \<Longrightarrow> 0 < pending sv i"
  by (force simp: pending_def filter_empty_conv)

lemma take_ready_simps [simp]:
  "lv_Accepting (take_ready k sv) = lv_Accepting sv"
  "lv_Heap (take_ready k sv) = lv_Heap sv"
  "lv_Waits (take_ready k sv) = lv_Waits sv"
  "lv_Fresh (take_ready k sv) = lv_Fresh sv"
  "lv_Sessions (take_ready k sv) = lv_Sessions sv"
  "lv_Calls (take_ready k sv) = lv_Calls sv"
  "live (take_ready k sv) = live sv"
  by (simp_all add: take_ready_def live_def fun_eq_iff)

lemma set_take_ready: "r \<in> set (lv_Ready (take_ready k sv)) \<Longrightarrow> r \<in> set (lv_Ready sv)"
  by (auto simp: take_ready_def dest: in_set_takeD in_set_dropD)


text \<open>Taking a session out of the map takes its object, and cancels what it waits for.\<close>

lemma live_erase:
  assumes "smap_sorted endpoint_less (lv_Sessions sv)" and "distinct (map snd (lv_Sessions sv))"
    and "smap_find endpoint_less ep (lv_Sessions sv) = Some i"
  shows "live (erase_session ep sv) j \<longleftrightarrow> live sv j \<and> j \<noteq> i"
proof -
  have m: "(ep, i) \<in> set (lv_Sessions sv)" using assms(3) by (rule endpoints.find_Some_mem_pair)
  have u: "k = ep" if "(k, i) \<in> set (lv_Sessions sv)" for k
    using that m assms(2) by (fastforce simp: distinct_map inj_on_def)
  have "(\<exists>k. (k, j) \<in> set (lv_Sessions sv) \<and> k \<noteq> ep) \<longleftrightarrow> (\<exists>k. (k, j) \<in> set (lv_Sessions sv)) \<and> j \<noteq> i"
    using u m endpoints.find_mem_iff [OF assms(1)] by (metis option.inject)
  then show ?thesis
    using assms(3) by (auto simp: erase_session_def live_def endpoints.erase_filter [OF assms(1)] image_iff Bex_def)
qed

lemma erase_session_simps [simp]:
  "lv_Heap (erase_session ep sv) = lv_Heap sv"
  "lv_Fresh (erase_session ep sv) = lv_Fresh sv"
  "lv_Calls (erase_session ep sv) = lv_Calls sv"
  "pending (erase_session ep sv) = pending sv"
  by (simp_all add: erase_session_def split: option.split)

lemma live_inv_erase:
  assumes i: "live_inv sv"
  shows "live_inv (erase_session ep sv)"
proof (cases "smap_find endpoint_less ep (lv_Sessions sv)")
  case None
  with i show ?thesis by (simp add: erase_session_def)
next
  case (Some n)
  have s: "smap_sorted endpoint_less (lv_Sessions sv)" and d: "distinct (map snd (lv_Sessions sv))"
    using i by (simp_all add: live_inv_def)
  note l = live_erase [OF s d Some]
  let ?sv = "erase_session ep sv"
  have e: "lv_Heap ?sv = lv_Heap sv" "lv_Fresh ?sv = lv_Fresh sv" "pending ?sv = pending sv"
    "lv_Sessions ?sv = List.filter (\<lambda>p. fst p \<noteq> ep) (lv_Sessions sv)"
    "lv_Waits ?sv = (lv_Waits sv)(n := 0)" "lv_Ready ?sv = lv_Ready sv @ replicate (lv_Waits sv n) (Ready_read n True)"
    using Some by (simp_all add: erase_session_def endpoints.erase_filter [OF s])
  have "smap_sorted endpoint_less (lv_Sessions ?sv)"
    using Some s by (simp add: erase_session_def smap_sorted_erase)
  moreover have "distinct (map snd (lv_Sessions ?sv))" using d by (simp add: e distinct_map_filter)
  ultimately show ?thesis using i unfolding live_inv_def by (auto simp: e l simp del: replicate.simps)
qed

lemma inv_close_session:
  assumes i: "live_inv sv" and p: "\<And>j. pending sv' j = pending sv j"
    and e: "lv_Sessions sv' = lv_Sessions sv" "lv_Fresh sv' = lv_Fresh sv" "lv_Waits sv' = (lv_Waits sv)(n := 0)"
      "lv_Heap sv' = (lv_Heap sv)(n := fst (HandleClosedSocket (lv_Heap sv n)))"
    and r: "\<And>j. Ready_read j True \<in> set (lv_Ready sv') \<Longrightarrow> Ready_read j True \<in> set (lv_Ready sv) \<or> j = n"
  shows "live_inv sv'"
proof -
  have l: "live sv' = live sv" by (simp add: live_def e(1) fun_eq_iff)
  have h: "is_open (lv_Heap sv' j) \<longleftrightarrow> j \<noteq> n \<and> is_open (lv_Heap sv j)"
    "m_RemoteEndpoint (lv_Heap sv' j) = m_RemoteEndpoint (lv_Heap sv j)" for j
    by (simp_all add: e(4) HandleClosedSocket_def)
  show ?thesis using i unfolding live_inv_def by (auto simp: l h p e(1-3) dest!: r)
qed

lemma accept_cases:
  assumes h: "LiveServer_Accept accept s0 failed remote gone sv = (sv', Inr ())"
  obtains (failed) "failed" "sv' = sv"
    | (taken) ep m where "\<not> failed" "remote = Inr ep" "smap_find endpoint_less ep (lv_Sessions sv) = Some m"
        "sv' = erase_session ep (sv\<lparr>lv_Heap := (lv_Heap sv)(lv_Fresh sv := s0), lv_Fresh := Suc (lv_Fresh sv)\<rparr>)"
    | (new) ep ok calls where "\<not> failed" "remote = Inr ep" "smap_find endpoint_less ep (lv_Sessions sv) = None"
        "accept (s0\<lparr>m_RemoteEndpoint := ep\<rparr>) = (ok, calls)"
        "sv' = (let sv3 = sv\<lparr>lv_Fresh := Suc (lv_Fresh sv), lv_Sessions := smap_emplace endpoint_less ep (lv_Fresh sv) (lv_Sessions sv),
            lv_Heap := (lv_Heap sv)(lv_Fresh sv := s0\<lparr>m_RemoteEndpoint := ep\<rparr>), lv_Calls := lv_Calls sv @ calls\<rparr>
          in if ok then start_wait (lv_Fresh sv) sv3 else erase_session ep sv3)"
proof (cases failed)
  case True
  with h failed show thesis by (simp add: LiveServer_Accept_def)
next
  case False
  with h obtain ep where r: "remote = Inr ep" by (cases remote) (auto simp: LiveServer_Accept_def)
  show thesis
  proof (cases "smap_find endpoint_less ep (lv_Sessions sv)")
    case (Some m)
    with h False r show thesis by (intro taken [of ep m]) (auto simp: LiveServer_Accept_def Let_def)
  next
    case None
    obtain ok calls where a: "accept (s0\<lparr>m_RemoteEndpoint := ep\<rparr>) = (ok, calls)" by fastforce
    from h False r None have "gone = None" by (cases gone) (auto simp: LiveServer_Accept_def Live_session_Accept_def Let_def)
    with h False r None a show thesis
      by (intro new [of ep ok calls]) (auto simp: LiveServer_Accept_def Live_session_Accept_def Let_def)
  qed
qed

lemma distinct_emplace:
  assumes "smap_find endpoint_less ep m = None" and "distinct (map snd m)" and "\<And>k. (k, n) \<notin> set m"
  shows "distinct (map snd (smap_emplace endpoint_less ep n m))"
proof -
  have "mset (map snd (smap_emplace endpoint_less ep n m)) = image_mset snd (add_mset (ep, n) (mset m))"
    by (simp only: mset_map endpoints.mset_emplace_absent [OF assms(1)])
  then have "mset (map snd (smap_emplace endpoint_less ep n m)) = mset (n # map snd m)" by simp
  moreover have "n \<notin> snd ` set m" using assms(3) by auto
  ultimately show ?thesis using mset_eq_imp_distinct_iff assms(2) by fastforce
qed

lemma live_inv_accepting [simp]: "live_inv (sv\<lparr>lv_Accepting := a\<rparr>) = live_inv sv"
  by (simp add: live_inv_def)

lemma inv_accept:
  assumes i: "live_inv sv" and o: "is_open s0"
    and h: "LiveServer_Accept accept s0 failed remote gone sv = (sv', Inr ())"
  shows "live_inv sv'"
proof -
  let ?n = "lv_Fresh sv"
  have fresh: "\<not> live sv ?n" "pending sv ?n = 0" "lv_Waits sv ?n = 0"
    using i by (auto simp: live_inv_def pending_def)
  then have nk: "(k, ?n) \<notin> set (lv_Sessions sv)" for k by (force simp: live_def)
  show ?thesis using h
  proof (cases rule: accept_cases)
    case failed
    with i show ?thesis by simp
  next
    case (taken ep m)
    have "live_inv (sv\<lparr>lv_Heap := (lv_Heap sv)(?n := s0), lv_Fresh := Suc ?n\<rparr>)"
      using i fresh nk unfolding live_inv_def by (auto simp: less_Suc_eq)
    with taken live_inv_erase show ?thesis by blast
  next
    case (new ep ok calls)
    let ?s1 = "s0\<lparr>m_RemoteEndpoint := ep\<rparr>" let ?m = "smap_emplace endpoint_less ep ?n (lv_Sessions sv)"
    let ?sv3 = "sv\<lparr>lv_Fresh := Suc ?n, lv_Sessions := ?m, lv_Heap := (lv_Heap sv)(?n := ?s1), lv_Calls := lv_Calls sv @ calls\<rparr>"
    have m: "set ?m = insert (ep, ?n) (set (lv_Sessions sv))" by (rule endpoints.set_emplace_absent [OF new(3)])
    show ?thesis
    proof (cases ok)
      case True
      have so: "smap_sorted endpoint_less ?m" using i by (simp add: live_inv_def endpoints.sorted_emplace)
      have di: "distinct (map snd ?m)" using i nk by (intro distinct_emplace [OF new(3)]) (auto simp: live_inv_def)
      have rn: "Ready_read ?n b \<notin> set (lv_Ready sv)" for b using fresh(2) pending_ready [of ?n b sv] by auto
      have l3: "live (start_wait ?n ?sv3) j \<longleftrightarrow> j = ?n \<or> live sv j" for j by (auto simp: live_def m)
      have "live_inv (start_wait ?n ?sv3)"
        using i fresh nk rn so di o l3 unfolding live_inv_def by (auto simp: m less_Suc_eq)
      with True new(5) show ?thesis by simp
    next
      case False
      have fd: "smap_find endpoint_less ep ?m = Some ?n" by (simp add: endpoints.find_emplace_absent [OF new(3)])
      have er: "smap_erase endpoint_less ep ?m = lv_Sessions sv"
        using i new(3) by (simp add: endpoints.erase_emplace live_inv_def)
      have "sv' = sv\<lparr>lv_Fresh := Suc ?n, lv_Heap := (lv_Heap sv)(?n := ?s1), lv_Calls := lv_Calls sv @ calls\<rparr>"
        using False new(5) fd er fresh by (simp add: erase_session_def cancel_waits_def fun_upd_idem)
      with i fresh nk show ?thesis unfolding live_inv_def by (auto simp: less_Suc_eq)
    qed
  qed
qed

text \<open>
  No handler outlives its session: every session a handler is still to run for is in the map.
  The events that can break it: a connection from the endpoint of a stored session, and a
  removal that finds its session closed.
\<close>

definition held :: "'a LiveServer \<Rightarrow> bool" where
  "held sv \<longleftrightarrow> (\<forall>i. 0 < pending sv i \<longrightarrow> live sv i)"

definition reuses :: "'a::linorder live_event \<Rightarrow> 'a LiveServer \<Rightarrow> bool" where
  "reuses e sv \<longleftrightarrow>
     (case e of
        Lv_accept _ _ failed remote _ \<Rightarrow>
          \<not> failed \<and>
          (case remote of
             Inl _ \<Rightarrow> False
           | Inr ep \<Rightarrow> (case smap_find endpoint_less ep (lv_Sessions sv) of None \<Rightarrow> False | Some i \<Rightarrow> 0 < pending sv i))
      | _ \<Rightarrow> False)"

definition removes :: "'a::linorder live_event \<Rightarrow> 'a LiveServer \<Rightarrow> bool" where
  "removes e sv \<longleftrightarrow>
     (case e of
        Lv_run k _ _ _ \<Rightarrow>
          (case lv_Ready sv ! k of
             Ready_read _ _ \<Rightarrow> False
           | Ready_remove ep \<Rightarrow>
               (case smap_find endpoint_less ep (lv_Sessions sv) of None \<Rightarrow> False | Some i \<Rightarrow> \<not> is_open (lv_Heap sv i)))
      | _ \<Rightarrow> False)"

lemma accept_effect:
  assumes i: "live_inv sv" and h: "LiveServer_Accept accept s0 failed remote gone sv = (sv', Inr ())"
  shows "0 < pending sv' j \<Longrightarrow> 0 < pending sv j \<or> live sv' j"
    and "live sv j \<Longrightarrow> live sv' j \<or> \<not> failed \<and> (\<exists>ep. remote = Inr ep \<and> smap_find endpoint_less ep (lv_Sessions sv) = Some j)"
    and "live sv' j \<Longrightarrow> live sv j \<and> lv_Heap sv' j = lv_Heap sv j \<or> is_open (lv_Heap sv' j) = is_open s0"
    and "Ready_remove q \<in> set (lv_Ready sv') \<Longrightarrow> Ready_remove q \<in> set (lv_Ready sv)"
proof -
  let ?n = "lv_Fresh sv"
  let ?sv1 = "sv\<lparr>lv_Heap := (lv_Heap sv)(?n := s0), lv_Fresh := Suc ?n\<rparr>"
  have s: "smap_sorted endpoint_less (lv_Sessions sv)" and d: "distinct (map snd (lv_Sessions sv))"
    and fr: "live sv j \<Longrightarrow> j \<noteq> ?n" and wn: "lv_Waits sv ?n = 0"
    using i by (auto simp: live_inv_def pending_def)
  from h have "(0 < pending sv' j \<longrightarrow> 0 < pending sv j \<or> live sv' j) \<and>
    (live sv j \<longrightarrow> live sv' j \<or> \<not> failed \<and> (\<exists>ep. remote = Inr ep \<and> smap_find endpoint_less ep (lv_Sessions sv) = Some j)) \<and>
    (live sv' j \<longrightarrow> live sv j \<and> lv_Heap sv' j = lv_Heap sv j \<or> is_open (lv_Heap sv' j) = is_open s0) \<and>
    (Ready_remove q \<in> set (lv_Ready sv') \<longrightarrow> Ready_remove q \<in> set (lv_Ready sv))"
  proof (cases rule: accept_cases)
    case failed
    then show ?thesis by simp
  next
    case (taken ep m)
    have l: "live (erase_session ep ?sv1) j \<longleftrightarrow> live sv j \<and> j \<noteq> m" using live_erase [of ?sv1 ep m j] s d taken by simp
    have "pending (erase_session ep ?sv1) = pending sv" "lv_Heap (erase_session ep ?sv1) = (lv_Heap sv)(?n := s0)"
      "lv_Ready (erase_session ep ?sv1) = lv_Ready sv @ replicate (lv_Waits sv m) (Ready_read m True)"
      using taken by (simp_all add: erase_session_def)
    with taken l fr show ?thesis by auto
  next
    case (new ep ok calls)
    have f: "smap_find endpoint_less ep (smap_emplace endpoint_less ep ?n (lv_Sessions sv)) = Some ?n"
      by (simp add: endpoints.find_emplace_absent [OF new(3)])
    show ?thesis using new fr wn s
      by (auto simp: Let_def erase_session_def f endpoints.erase_emplace live_def endpoints.set_emplace_absent)
  qed
  then show "0 < pending sv' j \<Longrightarrow> 0 < pending sv j \<or> live sv' j"
    "live sv j \<Longrightarrow> live sv' j \<or> \<not> failed \<and> (\<exists>ep. remote = Inr ep \<and> smap_find endpoint_less ep (lv_Sessions sv) = Some j)"
    "live sv' j \<Longrightarrow> live sv j \<and> lv_Heap sv' j = lv_Heap sv j \<or> is_open (lv_Heap sv' j) = is_open s0"
    "Ready_remove q \<in> set (lv_Ready sv') \<Longrightarrow> Ready_remove q \<in> set (lv_Ready sv)" by blast+
qed

text \<open>
  A write that fails, and the states in which no session has been closed and nothing is to be
  removed.
\<close>

definition fails_write :: "'a::linorder live_event \<Rightarrow> 'a LiveServer \<Rightarrow> bool" where
  "fails_write e sv \<longleftrightarrow>
     (case e of
        Lv_send io ep \<Rightarrow> fst io
      | Lv_send_all io \<Rightarrow> list_ex (\<lambda>p. fst (io (fst p))) (lv_Sessions sv)
      | _ \<Rightarrow> False)"

definition no_remove :: "'a LiveServer \<Rightarrow> bool" where
  "no_remove sv \<longleftrightarrow> (\<forall>ep. Ready_remove ep \<notin> set (lv_Ready sv))"

definition quiet :: "'a LiveServer \<Rightarrow> bool" where
  "quiet sv \<longleftrightarrow> (\<forall>ep. Ready_remove ep \<notin> set (lv_Ready sv)) \<and> (\<forall>i. live sv i \<longrightarrow> is_open (lv_Heap sv i))"

section \<open>The handler of a close\<close>

text \<open>
  All the handler may do is to post removals. The one of the TCP server posts none, the one of
  the TLS server the endpoint of the session.
\<close>

locale closed_handler =
  fixes closed :: "'a::linorder endpoint \<Rightarrow> 'a LiveServer \<Rightarrow> 'a LiveServer"
    and posts :: "'a endpoint \<Rightarrow> 'a endpoint list"
  assumes closed_law: "closed ep sv = sv\<lparr>lv_Ready := lv_Ready sv @ map Ready_remove (posts ep)\<rparr>"
begin

lemma HandleClosedSocket_simps [simp]:
  "lv_Accepting (Live_HandleClosedSocket closed n sv) = lv_Accepting sv"
  "lv_Calls (Live_HandleClosedSocket closed n sv) = lv_Calls sv"
  "lv_Sessions (Live_HandleClosedSocket closed n sv) = lv_Sessions sv"
  "lv_Fresh (Live_HandleClosedSocket closed n sv) = lv_Fresh sv"
  "lv_Waits (Live_HandleClosedSocket closed n sv) = (lv_Waits sv)(n := 0)"
  "lv_Heap (Live_HandleClosedSocket closed n sv) = (lv_Heap sv)(n := fst (HandleClosedSocket (lv_Heap sv n)))"
  "lv_Ready (Live_HandleClosedSocket closed n sv) =
     lv_Ready sv @ map Ready_remove (posts (m_RemoteEndpoint (lv_Heap sv n))) @ replicate (lv_Waits sv n) (Ready_read n True)"
  "pending (Live_HandleClosedSocket closed n sv) = pending sv"
  "live (Live_HandleClosedSocket closed n sv) = live sv"
  by (simp_all add: Live_HandleClosedSocket_def closed_law Let_def)

lemma inv_close: "live_inv sv \<Longrightarrow> live_inv (Live_HandleClosedSocket closed n sv)"
  by (rule inv_close_session [of sv _ n]) (auto simp del: replicate.simps)

lemma inv_send: "live_inv sv \<Longrightarrow> live_inv (fst (Live_SendData closed io n sv))"
  by (simp add: Live_SendData_def inv_close)

lemma inv_send_all: "live_inv sv \<Longrightarrow> live_inv (live_send_all closed io ps sv)"
  by (induction ps arbitrary: sv) (auto simp: inv_send)

lemma inv_read:
  assumes i: "live_inv sv" and k: "k < length (lv_Ready sv)" and r: "lv_Ready sv ! k = Ready_read n failed"
    and l: "live sv n" and h: "Live_readDataFunc closed on_data failed available d n (take_ready k sv) = Some (sv', Inr ())"
  shows "live_inv sv'"
proof -
  let ?sv = "take_ready k sv"
  note p = pending_take_read [OF k r]
  have "pending sv n \<le> 1" using i by (simp add: live_inv_def)
  with p [of n] have p1: "pending ?sv n = 0" by simp
  have q: "pending ?sv j = (if j = n then 0 else pending sv j)" for j using p [of j] p1 by simp
  have inv0: "live_inv ?sv" if "\<not> is_open (lv_Heap sv n)"
    using i that unfolding live_inv_def by (auto simp: q dest: set_take_ready)
  show ?thesis
  proof (cases failed)
    case True
    have "Ready_read n True \<in> set (lv_Ready sv)" using k r True by (metis nth_mem)
    then have "\<not> is_open (lv_Heap sv n)" using i l by (auto simp: live_inv_def)
    with inv0 h True show ?thesis by (auto simp: Live_readDataFunc_def intro: inv_close)
  next
    case False
    with h have o: "is_open (lv_Heap sv n)" by (auto simp: Live_readDataFunc_def split: if_splits)
    obtain s1 c calls again where d: "SessionBase_ReadData on_data False available d (lv_Heap sv n) = Some (s1, c, calls, again)"
      using h False o by (auto simp: Live_readDataFunc_def split: option.splits)
    have s1: "is_open s1" "m_RemoteEndpoint s1 = m_RemoteEndpoint (lv_Heap sv n)" "again"
      using d o by (auto simp: SessionBase_ReadData_def split: if_splits option.splits prod.splits)
    have e: "sv' = start_wait n (?sv\<lparr>lv_Heap := (lv_Heap sv)(n := s1), lv_Calls := lv_Calls sv @ calls\<rparr>)"
      using h False o d s1 by (simp add: Live_readDataFunc_def)
    have q: "pending sv' = pending sv" using p p1 by (auto simp: e fun_eq_iff)
    have "lv_Waits sv n = 0" using p1 by (simp add: pending_def)
    with i l o s1 q show ?thesis unfolding live_inv_def by (auto simp: e dest: set_take_ready)
  qed
qed

lemma inv_remove:
  assumes i: "live_inv sv" and k: "k < length (lv_Ready sv)" and r: "lv_Ready sv ! k = Ready_remove ep"
  shows "live_inv (Live_removeSessionFn ep (take_ready k sv))"
proof -
  have "live_inv (take_ready k sv)"
    using i pending_take_remove [OF k r] unfolding live_inv_def by (auto dest: set_take_ready)
  then have "live_inv (fst (LiveServer_CheckClosedSessions ep (take_ready k sv)))"
    by (auto simp: LiveServer_CheckClosedSessions_def Let_def live_inv_erase split: option.split)
  then show ?thesis by (simp add: Live_removeSessionFn_def Let_def live_inv_def)
qed

lemma inv_handle:
  assumes i: "live_inv sv" and e: "live_enabled e sv" and h: "live_handle closed e sv = Some (sv', Inr ())"
  shows "live_inv sv'"
proof (cases e)
  case (Lv_accept accept s0 failed remote gone)
  with i e h inv_accept show ?thesis by auto
next
  case (Lv_readable n)
  have w: "0 < lv_Waits sv n" using e Lv_readable by simp
  have "pending sv' = pending sv" using h readable_pending [OF w] by (auto simp: Lv_readable)
  with i w show ?thesis using h unfolding live_inv_def by (auto simp: Lv_readable split: if_splits)
next
  case (Lv_run k on_data available r)
  with i e h show ?thesis
    by (cases "lv_Ready sv ! k") (auto simp: inv_remove intro: inv_read split: if_splits)
next
  case (Lv_send io ep)
  with i h show ?thesis by (auto simp: LiveServer_SendSocketData_def inv_send split: option.splits)
next
  case (Lv_send_all io)
  with i h show ?thesis by (auto simp: LiveServer_SendToAllClients_def inv_send_all)
qed

lemma inv_reach: "live_reach closed allowed sv \<Longrightarrow> live_inv sv"
proof (induction rule: live_reach.induct)
  case (start s0)
  show ?case by (simp add: live_inv_def live_started_def LiveServer_Start_def LiveServer_ctor_def pending_def live_def)
next
  case (step sv e sv')
  then show ?case by (blast intro: inv_handle)
qed

lemma ready_close: "Ready_remove ep \<in> set (lv_Ready (Live_HandleClosedSocket closed n sv)) \<Longrightarrow>
    Ready_remove ep \<in> set (lv_Ready sv) \<or> posts (m_RemoteEndpoint (lv_Heap sv n)) \<noteq> []"
  by (auto simp del: replicate.simps)

lemma held_send_all:
  "held sv \<Longrightarrow> held (live_send_all closed io ps sv)"
  by (induction ps arbitrary: sv) (auto simp: Live_SendData_def held_def)

lemma held_handle:
  assumes i: "live_inv sv" and a: "held sv" and e: "live_enabled e sv" and r: "\<not> reuses e sv" "\<not> removes e sv"
    and h: "live_handle closed e sv = Some (sv', Inr ())"
  shows "held sv'"
proof (cases e)
  case (Lv_accept accept s0 failed remote gone)
  with e h have "LiveServer_Accept accept s0 failed remote gone sv = (sv', Inr ())" by simp
  note ae = accept_effect [OF i this]
  have "live sv j \<Longrightarrow> 0 < pending sv j \<Longrightarrow> live sv' j" for j
    using ae(2) [of j] r(1) by (auto simp: Lv_accept reuses_def split: sum.splits option.splits)
  with ae(1) a show ?thesis unfolding held_def by blast
next
  case (Lv_readable n)
  with e h have "sv' = sv\<lparr>lv_Waits := (lv_Waits sv)(n := lv_Waits sv n - 1), lv_Ready := lv_Ready sv @ [Ready_read n False]\<rparr>"
    and "0 < lv_Waits sv n" by simp_all
  with a readable_pending [of sv n] show ?thesis by (simp add: held_def)
next
  case (Lv_run k on_data available d)
  show ?thesis
  proof (cases "lv_Ready sv ! k")
    case (Ready_remove ep)
    with Lv_run r(2) e h have "pending sv' = pending sv \<and> live sv' = live sv"
      by (auto simp: removes_def Live_removeSessionFn_def LiveServer_CheckClosedSessions_def Let_def pending_take_remove
          split: option.splits)
    with a show ?thesis by (simp add: held_def)
  next
    case (Ready_read n failed)
    have k: "k < length (lv_Ready sv)" using e Lv_run by simp
    note p = pending_take_read [OF k Ready_read]
    have l: "live sv n" and res: "Live_readDataFunc closed on_data failed available d n (take_ready k sv) = Some (sv', Inr ())"
      using h Lv_run Ready_read by (auto split: if_splits)
    have "live sv' = live sv \<and> (\<forall>j. j \<noteq> n \<longrightarrow> pending sv' j = pending sv j)"
      using res p by (auto simp: Live_readDataFunc_def Let_def split: if_splits option.splits)
    with a l show ?thesis unfolding held_def by metis
  qed
next
  case (Lv_send io ep)
  with h a show ?thesis by (auto simp: LiveServer_SendSocketData_def Live_SendData_def held_def split: option.splits if_splits)
next
  case (Lv_send_all io)
  with h a show ?thesis by (auto simp: LiveServer_SendToAllClients_def intro: held_send_all)
qed

lemma send_all_ok: "\<not> list_ex (\<lambda>p. fst (io (fst p))) ps \<Longrightarrow> live_send_all closed io ps sv = sv"
  by (induction ps arbitrary: sv) (auto simp: Live_SendData_def)

lemma quiet_handle:
  assumes i: "live_inv sv" and q: "quiet sv" and e: "live_enabled e sv" and w: "\<not> fails_write e sv"
    and h: "live_handle closed e sv = Some (sv', Inr ())"
  shows "quiet sv'"
proof (cases e)
  case (Lv_accept accept s0 failed remote gone)
  with e h have a: "LiveServer_Accept accept s0 failed remote gone sv = (sv', Inr ())" and "is_open s0" by simp_all
  with accept_effect(3,4) [OF i a] q show ?thesis unfolding quiet_def by metis
next
  case (Lv_readable n)
  with h q show ?thesis by (auto simp: quiet_def)
next
  case (Lv_run k on_data available d)
  with e have k: "lv_Ready sv ! k \<in> set (lv_Ready sv)" by simp
  with q obtain n failed where r: "lv_Ready sv ! k = Ready_read n failed" by (cases "lv_Ready sv ! k") (auto simp: quiet_def)
  have l: "live sv n" and res: "Live_readDataFunc closed on_data failed available d n (take_ready k sv) = Some (sv', Inr ())"
    using h Lv_run r by (auto split: if_splits)
  have o: "is_open (lv_Heap sv n)" using l q by (simp add: quiet_def)
  with i l k r have "\<not> failed" by (cases failed) (auto simp: live_inv_def)
  with res o obtain s1 c calls again where
    d: "SessionBase_ReadData on_data False available d (lv_Heap sv n) = Some (s1, c, calls, again)"
    by (auto simp: Live_readDataFunc_def split: option.splits)
  have "is_open s1" using d o by (auto simp: SessionBase_ReadData_def split: if_splits option.splits prod.splits)
  with q res o d \<open>\<not> failed\<close> show ?thesis
    by (auto simp: Live_readDataFunc_def quiet_def Let_def dest!: set_take_ready split: if_splits)
next
  case (Lv_send io ep)
  with h q w show ?thesis
    by (auto simp: LiveServer_SendSocketData_def Live_SendData_def fails_write_def split: option.splits if_splits)
next
  case (Lv_send_all io)
  with h q w show ?thesis
    by (auto simp: LiveServer_SendToAllClients_def send_all_ok fails_write_def)
qed

lemma quiet_not_removes: "quiet sv \<Longrightarrow> live_enabled e sv \<Longrightarrow> \<not> removes e sv"
  by (cases e) (auto simp: removes_def quiet_def split: ready.splits option.splits dest: live_find)

lemma quiet_reach:
  "live_reach closed (\<lambda>e sv. \<not> fails_write e sv \<and> \<not> reuses e sv) sv \<Longrightarrow> quiet sv \<and> held sv"
proof (induction rule: live_reach.induct)
  case (start s0)
  show ?case
    by (simp add: quiet_def held_def live_started_def LiveServer_Start_def LiveServer_ctor_def pending_def live_def)
next
  case (step sv e sv')
  from inv_reach [OF step.hyps(1)] step show ?case by (meson quiet_handle held_handle quiet_not_removes)
qed

lemma no_remove_send_all:
  assumes "posts = (\<lambda>_. [])"
  shows "no_remove sv \<Longrightarrow> no_remove (live_send_all closed io ps sv)"
  by (induction ps arbitrary: sv) (auto simp: Live_SendData_def no_remove_def assms simp del: replicate.simps)

lemma no_remove_handle:
  assumes p: "posts = (\<lambda>_. [])" and i: "live_inv sv" and n: "no_remove sv" and e: "live_enabled e sv"
    and h: "live_handle closed e sv = Some (sv', Inr ())"
  shows "no_remove sv'"
proof (cases e)
  case (Lv_accept accept s0 failed remote gone)
  with h have a: "LiveServer_Accept accept s0 failed remote gone sv = (sv', Inr ())" by simp
  with accept_effect(4) [OF i a] n show ?thesis unfolding no_remove_def by blast
next
  case (Lv_readable n)
  with h n show ?thesis by (auto simp: no_remove_def)
next
  case (Lv_run k on_data available d)
  with e have k: "lv_Ready sv ! k \<in> set (lv_Ready sv)" by simp
  with n obtain m failed where r: "lv_Ready sv ! k = Ready_read m failed" by (cases "lv_Ready sv ! k") (auto simp: no_remove_def)
  with h Lv_run n p show ?thesis
    by (auto simp: Live_readDataFunc_def no_remove_def Let_def simp del: replicate.simps dest!: set_take_ready split: if_splits option.splits)
next
  case (Lv_send io ep)
  with h n p show ?thesis
    by (auto simp: LiveServer_SendSocketData_def Live_SendData_def no_remove_def simp del: replicate.simps split: option.splits if_splits)
next
  case (Lv_send_all io)
  with h n no_remove_send_all [OF p] show ?thesis by (auto simp: LiveServer_SendToAllClients_def)
qed

end

interpretation tcp: closed_handler Tcp_closed "\<lambda>_. []"
  by unfold_locales (simp add: Tcp_closed_def)

interpretation ssl: closed_handler Ssl_closed "\<lambda>ep. [ep]"
  by unfold_locales (simp add: Ssl_closed_def)

end
