(* ===== verification/SocketLifeProps.thy ===== *)
theory SocketLifeProps
  imports SocketLifeInv
begin

text \<open>
  What becomes of the sessions of the TCP and TLS servers: when their handlers are safe to run, what
  a failed write leads to, and that the end of a connection is not noticed otherwise.
\<close>

section \<open>A server with one client\<close>

text \<open>The state of a server that has accepted one client, for the instances below.\<close>

definition one_client :: "nat endpoint \<Rightarrow> nat LiveServer" where
  "one_client ep =
     (let s0 = \<lparr>m_RemoteEndpoint = (0, 0), is_open = True, m_ReceiveBuffer = RingBuffer_ctor ''....''\<rparr>
      in fst (LiveServer_Accept TcpSession_Accept s0 False (Inr ep) None (live_started s0)))"

lemmas live_eval = one_client_def live_started_def LiveServer_Start_def LiveServer_ctor_def LiveServer_Accept_def
  Live_session_Accept_def TcpSession_Accept_def start_wait_def live_def pending_def Let_def

lemma one_client_simps:
  "lv_Sessions (one_client ep) = [(ep, 0)]" "lv_Waits (one_client ep) = (\<lambda>i. of_bool (i = 0))"
  "lv_Ready (one_client ep) = []" "lv_Accepting (one_client ep)"
  "is_open (lv_Heap (one_client ep) 0)" "live (one_client ep) i \<longleftrightarrow> i = 0"
  by (auto simp: live_eval fun_eq_iff)

lemma one_client_reach:
  assumes "\<And>accept s0 ep gone m. allowed (Lv_accept accept s0 False (Inr ep) gone) (live_started m :: nat LiveServer)"
  shows "live_reach closed allowed (one_client ep)"
proof -
  let ?s0 = "\<lparr>m_RemoteEndpoint = (0 :: nat, 0), is_open = True, m_ReceiveBuffer = RingBuffer_ctor ''....''\<rparr>"
  have "live_handle closed (Lv_accept TcpSession_Accept ?s0 False (Inr ep) None) (live_started ?s0) = Some (one_client ep, Inr ())"
    by (simp add: live_eval)
  moreover have "live_enabled (Lv_accept TcpSession_Accept ?s0 False (Inr ep) None) (live_started ?s0)" by (simp add: live_eval)
  ultimately show ?thesis using assms live_reach.step [OF live_reach.start [of closed allowed ?s0]] by blast
qed

section \<open>Handlers and their sessions\<close>

lemma tcp_held:
  "live_reach Tcp_closed (\<lambda>e sv. \<not> reuses e sv) sv \<Longrightarrow> no_remove sv \<and> held sv"
proof (induction rule: live_reach.induct)
  case (start s0)
  show ?case
    by (simp add: no_remove_def held_def live_started_def LiveServer_Start_def LiveServer_ctor_def pending_def live_def)
next
  case (step sv e sv')
  note i = tcp.inv_reach [OF step.hyps(1)]
  have "\<not> removes e sv"
    using step.IH step.hyps(2) by (cases e) (auto simp: removes_def no_remove_def split: ready.splits option.splits dest: nth_mem)
  with i step show ?case using tcp.no_remove_handle [OF refl i] tcp.held_handle [OF i] by blast
qed

definition has_session :: "'a LiveServer \<Rightarrow> 'a ready \<Rightarrow> bool" where
  "has_session sv r \<longleftrightarrow> (case r of Ready_read i _ \<Rightarrow> live sv i | Ready_remove _ \<Rightarrow> True)"

lemma held_has_session: "held sv \<Longrightarrow> list_all (has_session sv) (lv_Ready sv)"
  by (auto simp: list_all_iff has_session_def held_def split: ready.split dest: pending_ready)

lemma reuse_dangles:
  assumes i: "live_inv sv" and r: "reuses (Lv_accept accept s0 False (Inr ep) gone) sv"
  shows "\<not> list_all (has_session (fst (LiveServer_Accept accept s0 False (Inr ep) gone sv)))
    (lv_Ready (fst (LiveServer_Accept accept s0 False (Inr ep) gone sv)))"
proof -
  let ?sv1 = "sv\<lparr>lv_Heap := (lv_Heap sv)(lv_Fresh sv := s0), lv_Fresh := Suc (lv_Fresh sv)\<rparr>"
  from r obtain n where f: "smap_find endpoint_less ep (lv_Sessions sv) = Some n" and p: "0 < pending sv n"
    by (auto simp: reuses_def split: option.splits)
  have e: "fst (LiveServer_Accept accept s0 False (Inr ep) gone sv) = erase_session ep ?sv1"
    using f by (simp add: LiveServer_Accept_def Let_def)
  have "\<not> live (erase_session ep ?sv1) n" using live_erase [of ?sv1 ep n n] i f by (simp add: live_inv_def)
  moreover have "pending (erase_session ep ?sv1) n = pending sv n" "lv_Waits (erase_session ep ?sv1) n = 0"
    by simp (simp add: erase_session_def f)
  then have "0 < length (List.filter (is_read n) (lv_Ready (erase_session ep ?sv1)))" using p unfolding pending_def by linarith
  then have "List.filter (is_read n) (lv_Ready (erase_session ep ?sv1)) \<noteq> []" by simp
  then obtain b where "Ready_read n b \<in> set (lv_Ready (erase_session ep ?sv1))"
    by (auto simp: filter_empty_conv is_read_iff)
  ultimately show ?thesis unfolding e by (force simp: list_all_iff has_session_def)
qed

text \<open>
  C31: The TCP server runs no handler of a destroyed session as long as no client connects from the
  endpoint of a session that still has a handler to run; the first that does destroys that
  session and leaves its handler to run.
\<close>

theorem tcp_handlers_alive:
  assumes "live_reach Tcp_closed (\<lambda>e sv. \<not> reuses e sv) sv"
  shows "list_all (has_session sv) (lv_Ready sv) \<and>
    (reuses (Lv_accept accept s0 False (Inr ep) gone) sv \<longrightarrow>
      \<not> list_all (has_session (fst (LiveServer_Accept accept s0 False (Inr ep) gone sv)))
        (lv_Ready (fst (LiveServer_Accept accept s0 False (Inr ep) gone sv))))"
  using assms tcp_held [OF assms] by (auto intro: held_has_session dest: reuse_dangles [OF tcp.inv_reach [OF assms]])

theorem tcp_handlers_alive_witness:
  "\<exists>sv (s0 :: nat session). live_reach Tcp_closed (\<lambda>e sv. \<not> reuses e sv) sv \<and> reuses (Lv_accept TcpSession_Accept s0 False (Inr (1, 7)) None) sv \<and>
    \<not> list_all (has_session (fst (LiveServer_Accept TcpSession_Accept s0 False (Inr (1, 7)) None sv)))
        (lv_Ready (fst (LiveServer_Accept TcpSession_Accept s0 False (Inr (1, 7)) None sv)))"
proof -
  have r: "live_reach Tcp_closed (\<lambda>e sv. \<not> reuses e sv) (one_client (1, 7))"
    by (rule one_client_reach) (simp add: reuses_def live_eval)
  moreover have "reuses (Lv_accept TcpSession_Accept (lv_Heap (one_client (1, 7)) 0) False (Inr (1, 7)) None) (one_client (1, 7))"
    by (simp add: reuses_def one_client_simps pending_def endpoint_less_def key_equiv_def)
  ultimately show ?thesis using tcp_handlers_alive [OF r, of TcpSession_Accept "lv_Heap (one_client (1, 7)) 0" "(1, 7)" None] by blast
qed

section \<open>Failed writes\<close>

text \<open>
  C30: The TLS server closes a session only after a write to it has failed: without failed writes and
  reused endpoints every session in its list stays open with exactly one handler to run, its
  endpoint and no removal posted, whatever the clients do, leaving included.
\<close>

theorem ssl_closes_after_failed_write:
  assumes "live_reach Ssl_closed (\<lambda>e sv. \<not> fails_write e sv \<and> \<not> reuses e sv) sv"
    and "smap_find endpoint_less ep (lv_Sessions sv) = Some i"
  shows "is_open (lv_Heap sv i) \<and> m_RemoteEndpoint (lv_Heap sv i) = ep \<and> pending sv i = 1 \<and>
    Ready_read i True \<notin> set (lv_Ready sv) \<and> Ready_remove ep \<notin> set (lv_Ready sv) \<and> list_all (has_session sv) (lv_Ready sv)"
proof -
  note q = ssl.quiet_reach [OF assms(1)]
  have l: "live sv i" by (rule live_find [OF assms(2)])
  have "(ep, i) \<in> set (lv_Sessions sv)" using assms(2) by (rule endpoints.find_Some_mem_pair)
  moreover have "live_inv sv" by (rule ssl.inv_reach [OF assms(1)])
  moreover have "Ready_remove ep \<notin> set (lv_Ready sv)" "list_all (has_session sv) (lv_Ready sv)" "is_open (lv_Heap sv i)"
    using q l unfolding quiet_def by (blast intro: held_has_session)+
  ultimately show ?thesis using l unfolding live_inv_def by auto
qed

theorem ssl_closes_after_failed_write_witness:
  "\<exists>i. smap_find endpoint_less (1, 7) (lv_Sessions (one_client (1, 7))) = Some i \<and> is_open (lv_Heap (one_client (1, 7)) i) \<and>
    m_RemoteEndpoint (lv_Heap (one_client (1, 7)) i) = (1, 7)"
proof -
  have r: "live_reach Ssl_closed (\<lambda>e sv. \<not> fails_write e sv \<and> \<not> reuses e sv) (one_client (1, 7))"
    by (rule one_client_reach) (simp add: reuses_def fails_write_def live_eval)
  have f: "smap_find endpoint_less (1, 7) (lv_Sessions (one_client (1, 7))) = Some 0"
    by (simp add: one_client_simps endpoint_less_def)
  from ssl_closes_after_failed_write [OF r f] f show ?thesis by blast
qed

text \<open>
  Every failed write to a waiting session of the TLS server ends in undefined behaviour when one
  thread runs the handlers in their order: the write posts the removal first and cancels the wait
  second, so that the removal destroys the session and the cancelled handler runs after it.
\<close>

theorem ssl_failed_write_dangles:
  assumes "live_reach Ssl_closed allowed sv" and "smap_find endpoint_less ep (lv_Sessions sv) = Some i"
    and "is_open (lv_Heap sv i)" and "lv_Ready sv = []"
  shows "\<exists>sv'. live_run Ssl_closed [Lv_send (True, n) ep, Lv_run 0 f a r] sv = Some sv' \<and>
    lv_Ready sv' = [Ready_read i True] \<and> \<not> live sv' i \<and> live_handle Ssl_closed (Lv_run 0 f a r) sv' = None"
proof -
  have inv: "live_inv sv" by (rule ssl.inv_reach [OF assms(1)])
  have m: "(ep, i) \<in> set (lv_Sessions sv)" using assms(2) by (rule endpoints.find_Some_mem_pair)
  have "pending sv i = 1" using inv live_find [OF assms(2)] assms(3) unfolding live_inv_def by blast
  then have w: "lv_Waits sv i = 1" using assms(4) by (simp add: pending_def)
  have e: "m_RemoteEndpoint (lv_Heap sv i) = ep" using inv m unfolding live_inv_def by fast
  let ?sv1 = "Live_HandleClosedSocket Ssl_closed i sv"
  let ?sv2 = "?sv1\<lparr>lv_Ready := [Ready_read i True]\<rparr>"
  let ?sv3 = "(erase_session ep ?sv2)\<lparr>lv_Calls := lv_Calls sv @ [OnSessionClosed ep]\<rparr>"
  have s: "live_handle Ssl_closed (Lv_send (True, n) ep) sv = Some (?sv1, Inr ())"
    using assms(2,3) by (simp add: LiveServer_SendSocketData_def Live_SendData_def)
  have ready: "lv_Ready ?sv1 = [Ready_remove ep, Ready_read i True]" using assms(4) w e by simp
  have t: "take_ready 0 ?sv1 = ?sv2" unfolding take_ready_def ready by simp
  have x: "live_handle Ssl_closed (Lv_run 0 f a r) ?sv1 = Some (?sv3, Inr ())"
    using assms(2) w e
    by (simp add: assms(4) t Live_removeSessionFn_def LiveServer_CheckClosedSessions_def Let_def HandleClosedSocket_def)
  have "\<not> live ?sv3 i"
    using live_erase [of ?sv2 ep i i] inv assms(2) by (simp add: live_inv_def)
  moreover have "lv_Ready ?sv3 = [Ready_read i True]" using assms(2) by (simp add: erase_session_def)
  moreover have "live_run Ssl_closed [Lv_send (True, n) ep, Lv_run 0 f a r] sv = Some ?sv3"
    using s x w e assms(4) by simp
  ultimately show ?thesis by (intro exI [of _ ?sv3]) simp
qed

theorem ssl_failed_write_dangles_witness:
  "\<exists>sv'. live_run Ssl_closed [Lv_send (True, 0) (1, 7), Lv_run 0 (\<lambda>rb. (rb, [])) 0 None] (one_client (1, 7)) = Some sv' \<and>
    live_handle Ssl_closed (Lv_run 0 (\<lambda>rb. (rb, [])) 0 None) sv' = None"
proof -
  have r: "live_reach Ssl_closed (\<lambda>_ _. True) (one_client (1, 7))" by (rule one_client_reach) simp
  have f: "smap_find endpoint_less (1, 7) (lv_Sessions (one_client (1, 7))) = Some 0"
    by (simp add: one_client_simps endpoint_less_def)
  from ssl_failed_write_dangles [OF r f, of 0 "\<lambda>rb. (rb, [])" 0 None] show ?thesis by (auto simp: one_client_simps)
qed

text \<open>
  A write that fails after the socket became readable throws from the read handler, which asks the
  closed socket for the bytes it has.
\<close>

theorem failed_write_throws:
  assumes "smap_find endpoint_less ep (lv_Sessions sv) = Some i" and "is_open (lv_Heap sv i)"
    and "lv_Ready sv = [Ready_read i False]" and "lv_Waits sv i = 0"
  shows "\<exists>sv1 sv2. live_handle Tcp_closed (Lv_send (True, n) ep) sv = Some (sv1, Inr ()) \<and>
    live_handle Tcp_closed (Lv_run 0 f a r) sv1 = Some (sv2, Inl available_error)"
proof -
  have "live sv i" by (rule live_find [OF assms(1)])
  with assms show ?thesis
    by (simp add: LiveServer_SendSocketData_def Live_SendData_def Live_readDataFunc_def HandleClosedSocket_def)
qed

section \<open>The end of a connection\<close>

text \<open>
  A client that ends its connection is not noticed. Its socket is readable with nothing available,
  and the handler of such a wait only starts the next one: however often this happens, the server
  is in the state it was in before, the session open and in its list.
\<close>

theorem eof_unnoticed:
  assumes "live sv i" and "is_open (lv_Heap sv i)" and "lv_Waits sv i = 1" and "lv_Ready sv = []"
  shows "live_run closed (concat (replicate n [Lv_readable i, Lv_run 0 f 0 r])) sv = Some sv"
proof (induction n)
  case (Suc n)
  let ?sv1 = "sv\<lparr>lv_Waits := (lv_Waits sv)(i := 0), lv_Ready := [Ready_read i False]\<rparr>"
  have "live_handle closed (Lv_readable i) sv = Some (?sv1, Inr ())" using assms by simp
  moreover have "live_handle closed (Lv_run 0 f 0 r) ?sv1 = Some (sv, Inr ())"
    using assms by (simp add: Live_readDataFunc_def SessionBase_ReadData_def take_ready_def start_wait_def fun_upd_idem)
  ultimately show ?case using Suc assms by (simp del: live_handle.simps)
qed simp

theorem eof_unnoticed_witness:
  "live_run Ssl_closed (concat (replicate 1000000 [Lv_readable 0, Lv_run 0 (\<lambda>rb. (rb, [])) 0 None])) (one_client (1, 7)) = Some (one_client (1, 7))"
  by (rule eof_unnoticed) (simp_all add: one_client_simps)

end
