(* ===== verification/SocketLifeWs.thy ===== *)
theory SocketLifeWs
  imports SocketLifeProps
begin

text \<open>
  The lifetime of the sessions of the web socket server of \<open>socket\<close>, over the same state. A session
  waits for a whole message here; pings, control frames and failed reads call the handler for its
  close, which posts the removal, and closing is left to the library: with every call comes
  whether the stream is still open after it.
\<close>

section \<open>Events\<close>

text \<open>
  \<open>Wl_complete\<close>: the read of a session ends, with an error when its stream is not open any more.
  \<open>Wl_control\<close>: a control frame arrives in the middle of a read. \<open>Wl_run\<close> runs a handler that is
  ready, with the message that was read.
\<close>

datatype 'a ws_live_event =
    Wl_accept bool bool "'a session" bool "'a endpoint throws" "cpp_exn option"
  | Wl_complete nat bool
  | Wl_control nat frame_type bool bool
  | Wl_run nat string
  | Wl_send bool bool "'a endpoint"
  | Wl_send_all "'a endpoint \<Rightarrow> bool \<times> bool"
  | Wl_ping "'a endpoint \<Rightarrow> bool \<times> bool"

definition set_open :: "bool \<Rightarrow> nat \<Rightarrow> 'a LiveServer \<Rightarrow> 'a LiveServer" where
  "set_open stillOpen i sv =
     sv\<lparr>lv_Heap := (lv_Heap sv)(i := (lv_Heap sv i)\<lparr>is_open := is_open (lv_Heap sv i) \<and> stillOpen\<rparr>)\<rparr>"

text \<open>The handler of a read, and the handler of a control frame, of a session that exists.\<close>

definition Wl_readDataFunc :: "bool \<Rightarrow> string \<Rightarrow> nat \<Rightarrow> 'a LiveServer \<Rightarrow> 'a LiveServer" where
  "Wl_readDataFunc failed msg i sv =
     (case WsSession_ReadData (if failed then None else Some msg) (lv_Heap sv i) of
        (calls, closed, again) \<Rightarrow>
          let sv1 = sv\<lparr>lv_Calls := lv_Calls sv @ calls\<rparr>;
              sv2 = (if again then start_wait i sv1 else sv1)
          in if closed then Ssl_closed (m_RemoteEndpoint (lv_Heap sv i)) sv2 else sv2)"

definition Wl_HandleControlCallback :: "bool \<Rightarrow> frame_type \<Rightarrow> nat \<Rightarrow> 'a LiveServer \<Rightarrow> 'a LiveServer" where
  "Wl_HandleControlCallback pongFailed kind i sv =
     (if WsSession_HandleControlCallback pongFailed kind then Ssl_closed (m_RemoteEndpoint (lv_Heap sv i)) sv else sv)"

definition Wl_SendPingRequest :: "bool \<times> bool \<Rightarrow> nat \<Rightarrow> 'a LiveServer \<Rightarrow> 'a LiveServer" where
  "Wl_SendPingRequest io i sv =
     (case io of (failed, stillOpen) \<Rightarrow>
        let sv1 = set_open stillOpen i sv
        in if snd (WsSession_SendPingRequest failed) then Ssl_closed (m_RemoteEndpoint (lv_Heap sv1 i)) sv1 else sv1)"

fun ping_all :: "('a endpoint \<Rightarrow> bool \<times> bool) \<Rightarrow> ('a endpoint \<times> nat) list \<Rightarrow> 'a LiveServer \<Rightarrow> 'a LiveServer" where
  "ping_all io [] sv = sv"
| "ping_all io ((k, v) # ps) sv = ping_all io ps (Wl_SendPingRequest (io k) v sv)"

definition WsLive_SendPingRequest :: "('a endpoint \<Rightarrow> bool \<times> bool) \<Rightarrow> 'a LiveServer \<Rightarrow> 'a LiveServer" where
  "WsLive_SendPingRequest io sv = ping_all io (lv_Sessions sv) sv"

definition WsLive_SendWebSocketData :: "bool \<Rightarrow> bool \<Rightarrow> 'a::linorder endpoint \<Rightarrow> 'a LiveServer \<Rightarrow> 'a LiveServer \<times> bool" where
  "WsLive_SendWebSocketData failed stillOpen ep sv =
     (case smap_find endpoint_less ep (lv_Sessions sv) of
        Some i \<Rightarrow> (set_open stillOpen i sv, WsSession_SendWebSocketData failed (lv_Heap sv i))
      | None \<Rightarrow> (sv, False))"

fun ws_send_all :: "('a endpoint \<Rightarrow> bool \<times> bool) \<Rightarrow> ('a endpoint \<times> nat) list \<Rightarrow> 'a LiveServer \<Rightarrow> 'a LiveServer" where
  "ws_send_all io [] sv = sv"
| "ws_send_all io ((k, v) # ps) sv = ws_send_all io ps (set_open (snd (io k)) v sv)"

definition WsLive_SendToAllClients :: "('a endpoint \<Rightarrow> bool \<times> bool) \<Rightarrow> 'a LiveServer \<Rightarrow> 'a LiveServer" where
  "WsLive_SendToAllClients io sv = ws_send_all io (lv_Sessions sv) sv"

definition WsLive_Accept ::
  "bool \<Rightarrow> bool \<Rightarrow> 'a session \<Rightarrow> bool \<Rightarrow> 'a::linorder endpoint throws \<Rightarrow> cpp_exn option \<Rightarrow> 'a LiveServer \<Rightarrow> 'a LiveServer \<times> unit throws" where
  "WsLive_Accept handshakeFailed acceptFailed = LiveServer_Accept (WsSession_Accept handshakeFailed acceptFailed)"

fun wl_enabled :: "'a ws_live_event \<Rightarrow> 'a LiveServer \<Rightarrow> bool" where
  "wl_enabled (Wl_accept _ _ s0 failed remote gone) sv \<longleftrightarrow> lv_Accepting sv \<and> is_open s0"
| "wl_enabled (Wl_complete i failed) sv \<longleftrightarrow> 0 < lv_Waits sv i \<and> (failed \<longrightarrow> \<not> is_open (lv_Heap sv i))"
| "wl_enabled (Wl_control i kind pongFailed stillOpen) sv \<longleftrightarrow> 0 < lv_Waits sv i \<and> live sv i"
| "wl_enabled (Wl_run k msg) sv \<longleftrightarrow> k < length (lv_Ready sv)"
| "wl_enabled (Wl_send failed stillOpen ep) sv \<longleftrightarrow> True"
| "wl_enabled (Wl_send_all io) sv \<longleftrightarrow> True"
| "wl_enabled (Wl_ping io) sv \<longleftrightarrow> True"

fun wl_handle :: "'a::linorder ws_live_event \<Rightarrow> 'a LiveServer \<Rightarrow> ('a LiveServer \<times> unit throws) option" where
  "wl_handle (Wl_accept handshakeFailed acceptFailed s0 failed remote gone) sv =
     Some (WsLive_Accept handshakeFailed acceptFailed s0 failed remote gone sv)"
| "wl_handle (Wl_complete i failed) sv =
     Some (sv\<lparr>lv_Waits := (lv_Waits sv)(i := lv_Waits sv i - 1), lv_Ready := lv_Ready sv @ [Ready_read i failed]\<rparr>, Inr ())"
| "wl_handle (Wl_control i kind pongFailed stillOpen) sv =
     Some (set_open stillOpen i (Wl_HandleControlCallback pongFailed kind i sv), Inr ())"
| "wl_handle (Wl_run k msg) sv =
     (case lv_Ready sv ! k of
        Ready_remove ep \<Rightarrow> Some (Live_removeSessionFn ep (take_ready k sv), Inr ())
      | Ready_read i failed \<Rightarrow> if live sv i then Some (Wl_readDataFunc failed msg i (take_ready k sv), Inr ()) else None)"
| "wl_handle (Wl_send failed stillOpen ep) sv = Some (fst (WsLive_SendWebSocketData failed stillOpen ep sv), Inr ())"
| "wl_handle (Wl_send_all io) sv = Some (WsLive_SendToAllClients io sv, Inr ())"
| "wl_handle (Wl_ping io) sv = Some (WsLive_SendPingRequest io sv, Inr ())"

inductive wl_reach :: "'a::linorder LiveServer \<Rightarrow> bool" where
  start: "wl_reach (live_started s0)"
| step: "wl_reach sv \<Longrightarrow> wl_enabled e sv \<Longrightarrow> wl_handle e sv = Some (sv', Inr ()) \<Longrightarrow> wl_reach sv'"

fun wl_run :: "'a::linorder ws_live_event list \<Rightarrow> 'a LiveServer \<Rightarrow> 'a LiveServer option" where
  "wl_run [] sv = Some sv"
| "wl_run (e # es) sv =
     (if wl_enabled e sv then (case wl_handle e sv of Some (sv', Inr _) \<Rightarrow> wl_run es sv' | _ \<Rightarrow> None) else None)"

section \<open>The map of the sessions\<close>

definition wl_inv :: "'a::linorder LiveServer \<Rightarrow> bool" where
  "wl_inv sv \<longleftrightarrow>
     smap_sorted endpoint_less (lv_Sessions sv) \<and> distinct (map snd (lv_Sessions sv)) \<and>
     (\<forall>i. live sv i \<longrightarrow> i < lv_Fresh sv) \<and> (\<forall>(ep, i) \<in> set (lv_Sessions sv). m_RemoteEndpoint (lv_Heap sv i) = ep)"

lemma set_open_simps [simp]:
  "lv_Accepting (set_open b i sv) = lv_Accepting sv"
  "lv_Waits (set_open b i sv) = lv_Waits sv"
  "lv_Fresh (set_open b i sv) = lv_Fresh sv"
  "lv_Sessions (set_open b i sv) = lv_Sessions sv"
  "lv_Ready (set_open b i sv) = lv_Ready sv"
  "lv_Calls (set_open b i sv) = lv_Calls sv"
  "live (set_open b i sv) = live sv"
  "m_RemoteEndpoint (lv_Heap (set_open b i sv) j) = m_RemoteEndpoint (lv_Heap sv j)"
  "is_open (lv_Heap (set_open b i sv) j) \<longleftrightarrow> is_open (lv_Heap sv j) \<and> (j = i \<longrightarrow> b)"
  by (auto simp: set_open_def)

lemma wl_inv_same:
  assumes "wl_inv sv" and "lv_Sessions sv' = lv_Sessions sv" and "lv_Fresh sv' = lv_Fresh sv"
    and "\<And>i. m_RemoteEndpoint (lv_Heap sv' i) = m_RemoteEndpoint (lv_Heap sv i)"
  shows "wl_inv sv'"
  using assms by (auto simp: wl_inv_def live_def)

lemma ping_all_same:
  "lv_Sessions (ping_all io ps sv) = lv_Sessions sv \<and> lv_Fresh (ping_all io ps sv) = lv_Fresh sv \<and>
   m_RemoteEndpoint (lv_Heap (ping_all io ps sv) i) = m_RemoteEndpoint (lv_Heap sv i)"
  by (induction ps arbitrary: sv) (auto simp: Wl_SendPingRequest_def Ssl_closed_def Let_def split: prod.split)

lemma ws_send_all_same:
  "lv_Sessions (ws_send_all io ps sv) = lv_Sessions sv \<and> lv_Fresh (ws_send_all io ps sv) = lv_Fresh sv \<and>
   m_RemoteEndpoint (lv_Heap (ws_send_all io ps sv) i) = m_RemoteEndpoint (lv_Heap sv i)"
  by (induction ps arbitrary: sv) auto

lemma wl_inv_erase:
  assumes i: "wl_inv sv"
  shows "wl_inv (erase_session ep sv)"
proof (cases "smap_find endpoint_less ep (lv_Sessions sv)")
  case None
  with i show ?thesis by (simp add: erase_session_def)
next
  case (Some n)
  have s: "smap_sorted endpoint_less (lv_Sessions sv)" and d: "distinct (map snd (lv_Sessions sv))"
    using i by (simp_all add: wl_inv_def)
  have e: "lv_Sessions (erase_session ep sv) = List.filter (\<lambda>p. fst p \<noteq> ep) (lv_Sessions sv)"
    "smap_sorted endpoint_less (lv_Sessions (erase_session ep sv))"
    using Some s by (simp_all add: erase_session_def endpoints.erase_filter [OF s, symmetric] smap_sorted_erase)
  show ?thesis using i e(2) live_erase [OF s d Some] unfolding wl_inv_def
    by (auto simp: e(1) distinct_map_filter)
qed

lemma wl_inv_accept:
  assumes i: "wl_inv sv" and h: "LiveServer_Accept accept s0 failed remote gone sv = (sv', Inr ())"
  shows "wl_inv sv'"
proof -
  let ?n = "lv_Fresh sv"
  have nk: "(k, ?n) \<notin> set (lv_Sessions sv)" for k using i by (fastforce simp: wl_inv_def live_def)
  show ?thesis using h
  proof (cases rule: accept_cases)
    case failed
    with i show ?thesis by simp
  next
    case (taken ep m)
    have "wl_inv (sv\<lparr>lv_Heap := (lv_Heap sv)(?n := s0), lv_Fresh := Suc ?n\<rparr>)"
      using i nk unfolding wl_inv_def by (auto simp: less_Suc_eq)
    with taken wl_inv_erase show ?thesis by blast
  next
    case (new ep ok calls)
    let ?s1 = "s0\<lparr>m_RemoteEndpoint := ep\<rparr>" let ?m = "smap_emplace endpoint_less ep ?n (lv_Sessions sv)"
    let ?sv3 = "sv\<lparr>lv_Fresh := Suc ?n, lv_Sessions := ?m, lv_Heap := (lv_Heap sv)(?n := ?s1), lv_Calls := lv_Calls sv @ calls\<rparr>"
    have m: "set ?m = insert (ep, ?n) (set (lv_Sessions sv))" by (rule endpoints.set_emplace_absent [OF new(3)])
    have so: "smap_sorted endpoint_less ?m" using i by (simp add: wl_inv_def endpoints.sorted_emplace)
    have di: "distinct (map snd ?m)" using i nk by (intro distinct_emplace [OF new(3)]) (auto simp: wl_inv_def)
    have i3: "wl_inv ?sv3" using i nk so di unfolding wl_inv_def by (auto simp: m live_def less_Suc_eq)
    have "wl_inv (start_wait ?n ?sv3)" by (rule wl_inv_same [OF i3]) simp_all
    with wl_inv_erase [OF i3] new(5) show ?thesis by (cases ok) (simp_all add: Let_def)
  qed
qed


lemma wl_inv_handle:
  assumes i: "wl_inv sv" and h: "wl_handle e sv = Some (sv', Inr ())"
  shows "wl_inv sv'"
proof (cases e)
  case (Wl_accept a b s0 failed remote gone)
  with i h wl_inv_accept show ?thesis by (auto simp: WsLive_Accept_def)
next
  case (Wl_complete n failed)
  with h show ?thesis by (intro wl_inv_same [OF i]) auto
next
  case (Wl_control n kind pongFailed stillOpen)
  with h show ?thesis by (intro wl_inv_same [OF i]) (auto simp: Wl_HandleControlCallback_def Ssl_closed_def)
next
  case (Wl_run k msg)
  show ?thesis
  proof (cases "lv_Ready sv ! k")
    case (Ready_remove ep)
    have t: "wl_inv (take_ready k sv)" by (rule wl_inv_same [OF i]) simp_all
    let ?c = "fst (LiveServer_CheckClosedSessions ep (take_ready k sv))"
    have c: "wl_inv ?c"
      using t wl_inv_erase [OF t, of ep] by (simp add: LiveServer_CheckClosedSessions_def Let_def split: option.split)
    have "sv' = ?c\<lparr>lv_Calls := lv_Calls ?c @ [OnSessionClosed ep]\<rparr>"
      using h Wl_run Ready_remove by (simp add: Live_removeSessionFn_def Let_def)
    then show ?thesis by (intro wl_inv_same [OF c]) simp_all
  next
    case (Ready_read n failed)
    with h Wl_run show ?thesis
      by (intro wl_inv_same [OF i]) (auto simp: Wl_readDataFunc_def WsSession_ReadData_def Ssl_closed_def Let_def split: if_splits)
  qed
next
  case (Wl_send failed stillOpen ep)
  with h show ?thesis by (intro wl_inv_same [OF i]) (auto simp: WsLive_SendWebSocketData_def split: option.splits)
next
  case (Wl_send_all io)
  with h show ?thesis by (intro wl_inv_same [OF i]) (auto simp: WsLive_SendToAllClients_def ws_send_all_same)
next
  case (Wl_ping io)
  with h show ?thesis by (intro wl_inv_same [OF i]) (auto simp: WsLive_SendPingRequest_def ping_all_same)
qed

lemma wl_reach_inv: "wl_reach sv \<Longrightarrow> wl_inv sv"
proof (induction rule: wl_reach.induct)
  case (start s0)
  show ?case by (simp add: wl_inv_def live_started_def LiveServer_Start_def LiveServer_ctor_def live_def)
qed (rule wl_inv_handle)

lemma one_client_wl_reach: "wl_reach (one_client ep)"
proof -
  let ?s0 = "\<lparr>m_RemoteEndpoint = (0 :: nat, 0), is_open = True, m_ReceiveBuffer = RingBuffer_ctor ''....''\<rparr>"
  have "wl_handle (Wl_accept False False ?s0 False (Inr ep) None) (live_started ?s0) = Some (one_client ep, Inr ())"
    by (simp add: WsLive_Accept_def WsSession_Accept_def live_eval)
  moreover have "wl_enabled (Wl_accept False False ?s0 False (Inr ep) None) (live_started ?s0)" by (simp add: live_eval)
  ultimately show ?thesis using wl_reach.step [OF wl_reach.start [of ?s0]] by blast
qed

lemma one_client_find: "smap_find endpoint_less ep (lv_Sessions (one_client ep)) = Some 0"
  by (simp add: one_client_simps endpoints.lt_irrefl)

section \<open>Removing a session\<close>

text \<open>
  The posted removal of a session whose stream is not open: the session is gone, the callback
  told, and the handler of a read still in progress is left to run without it.
\<close>

lemma remove_closed:
  assumes i: "wl_inv sv" and f: "smap_find endpoint_less ep (lv_Sessions sv) = Some n" and o: "\<not> is_open (lv_Heap sv n)"
  shows "lv_Ready (Live_removeSessionFn ep sv) = lv_Ready sv @ replicate (lv_Waits sv n) (Ready_read n True)"
    and "live (Live_removeSessionFn ep sv) j \<longleftrightarrow> live sv j \<and> j \<noteq> n"
    and "lv_Calls (Live_removeSessionFn ep sv) = lv_Calls sv @ [OnSessionClosed ep]"
    and "smap_find endpoint_less ep (lv_Sessions (Live_removeSessionFn ep sv)) = None"
proof -
  have s: "smap_sorted endpoint_less (lv_Sessions sv)" and d: "distinct (map snd (lv_Sessions sv))"
    using i by (simp_all add: wl_inv_def)
  have e: "Live_removeSessionFn ep sv = (erase_session ep sv)\<lparr>lv_Calls := lv_Calls sv @ [OnSessionClosed ep]\<rparr>"
    using f o by (simp add: Live_removeSessionFn_def LiveServer_CheckClosedSessions_def Let_def)
  show "lv_Ready (Live_removeSessionFn ep sv) = lv_Ready sv @ replicate (lv_Waits sv n) (Ready_read n True)"
    "lv_Calls (Live_removeSessionFn ep sv) = lv_Calls sv @ [OnSessionClosed ep]"
    "smap_find endpoint_less ep (lv_Sessions (Live_removeSessionFn ep sv)) = None"
    using f s by (simp_all add: e) (simp_all add: erase_session_def endpoints.find_erase)
  show "live (Live_removeSessionFn ep sv) j \<longleftrightarrow> live sv j \<and> j \<noteq> n" by (simp add: e live_erase [OF s d f])
qed

text \<open>
  A failed read of a web socket session takes it out of the list in the two steps that follow, and
  leaves no handler behind: after them nothing is ready and the callback was told once.
\<close>

theorem ws_failed_read_removes:
  assumes "wl_reach sv" and "smap_find endpoint_less ep (lv_Sessions sv) = Some i" and "lv_Waits sv i = 1"
    and "\<not> is_open (lv_Heap sv i)" and "lv_Ready sv = []"
  shows "\<exists>sv'. wl_run [Wl_complete i True, Wl_run 0 m, Wl_run 0 m] sv = Some sv' \<and>
    smap_find endpoint_less ep (lv_Sessions sv') = None \<and> \<not> live sv' i \<and> lv_Ready sv' = [] \<and>
    lv_Calls sv' = lv_Calls sv @ [OnSessionClosed ep]"
proof -
  have i: "wl_inv sv" by (rule wl_reach_inv [OF assms(1)])
  have l: "live sv i" by (rule live_find [OF assms(2)])
  have ep: "m_RemoteEndpoint (lv_Heap sv i) = ep"
    using i endpoints.find_Some_mem_pair [OF assms(2)] unfolding wl_inv_def by fast
  let ?sv1 = "sv\<lparr>lv_Waits := (lv_Waits sv)(i := 0), lv_Ready := [Ready_read i True]\<rparr>"
  let ?sv2 = "sv\<lparr>lv_Waits := (lv_Waits sv)(i := 0), lv_Ready := [Ready_remove ep]\<rparr>"
  let ?sv3 = "sv\<lparr>lv_Waits := (lv_Waits sv)(i := 0), lv_Ready := []\<rparr>"
  have i3: "wl_inv ?sv3" by (rule wl_inv_same [OF i]) simp_all
  have "wl_handle (Wl_complete i True) sv = Some (?sv1, Inr ())" using assms by simp
  moreover have "wl_handle (Wl_run 0 m) ?sv1 = Some (?sv2, Inr ())"
    using l ep by (simp add: Wl_readDataFunc_def WsSession_ReadData_def Ssl_closed_def take_ready_def Let_def)
  moreover have "wl_handle (Wl_run 0 m) ?sv2 = Some (Live_removeSessionFn ep ?sv3, Inr ())" by (simp add: take_ready_def)
  ultimately have "wl_run [Wl_complete i True, Wl_run 0 m, Wl_run 0 m] sv = Some (Live_removeSessionFn ep ?sv3)"
    using assms by (simp del: wl_handle.simps)
  with remove_closed [OF i3, of ep i] assms show ?thesis by simp
qed

theorem ws_failed_read_removes_witness:
  "\<exists>sv sv'. wl_run [Wl_send True False (1, 7)] (one_client (1, 7)) = Some sv \<and>
    wl_run [Wl_complete 0 True, Wl_run 0 ''x'', Wl_run 0 ''x''] sv = Some sv' \<and>
    smap_find endpoint_less (1, 7) (lv_Sessions sv') = None \<and> lv_Ready sv' = []"
proof -
  let ?sv = "set_open False 0 (one_client (1, 7))"
  have s: "wl_handle (Wl_send True False (1, 7)) (one_client (1, 7)) = Some (?sv, Inr ())"
    using one_client_find [of "(1, 7)"] by (simp add: WsLive_SendWebSocketData_def)
  have "wl_reach ?sv" by (rule wl_reach.step [OF one_client_wl_reach _ s]) simp
  from ws_failed_read_removes [OF this, of "(1, 7)" 0 "''x''"] one_client_find [of "(1, 7)"]
  have "\<exists>sv'. wl_run [Wl_complete 0 True, Wl_run 0 ''x'', Wl_run 0 ''x''] ?sv = Some sv' \<and>
    smap_find endpoint_less (1, 7) (lv_Sessions sv') = None \<and> lv_Ready sv' = []"
    by (auto simp: one_client_simps)
  moreover have "wl_run [Wl_send True False (1, 7)] (one_client (1, 7)) = Some ?sv" using s by (simp del: wl_handle.simps)
  ultimately show ?thesis by blast
qed

text \<open>What a removal does while the read of its session is still in progress.\<close>

lemma remove_dangles:
  assumes i: "wl_inv sv" and f: "smap_find endpoint_less ep (lv_Sessions sv) = Some n" and w: "lv_Waits sv n = 1"
    and o: "\<not> is_open (lv_Heap sv n)" and r: "lv_Ready sv = [Ready_remove ep]"
  shows "\<exists>sv'. wl_run [Wl_run 0 m] sv = Some sv' \<and> lv_Ready sv' = [Ready_read n True] \<and> \<not> live sv' n \<and>
    wl_handle (Wl_run 0 m) sv' = None"
proof -
  let ?sv1 = "sv\<lparr>lv_Ready := []\<rparr>"
  have i1: "wl_inv ?sv1" by (rule wl_inv_same [OF i]) simp_all
  have "wl_handle (Wl_run 0 m) sv = Some (Live_removeSessionFn ep ?sv1, Inr ())" by (simp add: take_ready_def r)
  then have run: "wl_run [Wl_run 0 m] sv = Some (Live_removeSessionFn ep ?sv1)" using r by (simp del: wl_handle.simps)
  have "lv_Ready (Live_removeSessionFn ep ?sv1) = [Ready_read n True]" "\<not> live (Live_removeSessionFn ep ?sv1) n"
    using remove_closed(1) [OF i1, of ep n] remove_closed(2) [OF i1, of ep n n] f w o by simp_all
  with run show ?thesis by (intro exI [of _ "Live_removeSessionFn ep ?sv1"]) simp
qed

text \<open>
  A client that closes its web socket as the protocol has it makes the server use a destroyed
  session: the close frame posts the removal in the middle of the read that met it, the removal
  finds the stream closing and destroys the session, and the read's handler runs after that.
\<close>

theorem ws_close_dangles:
  assumes "wl_reach sv" and "smap_find endpoint_less ep (lv_Sessions sv) = Some i" and "lv_Waits sv i = 1"
    and "is_open (lv_Heap sv i)" and "lv_Ready sv = []"
  shows "\<exists>sv'. wl_run [Wl_control i Frame_close pongFailed False, Wl_run 0 m] sv = Some sv' \<and>
    lv_Ready sv' = [Ready_read i True] \<and> \<not> live sv' i \<and> wl_handle (Wl_run 0 m) sv' = None"
proof -
  have i: "wl_inv sv" by (rule wl_reach_inv [OF assms(1)])
  have l: "live sv i" by (rule live_find [OF assms(2)])
  have ep: "m_RemoteEndpoint (lv_Heap sv i) = ep"
    using i endpoints.find_Some_mem_pair [OF assms(2)] unfolding wl_inv_def by fast
  let ?sv1 = "set_open False i (Ssl_closed ep sv)"
  have h: "wl_handle (Wl_control i Frame_close pongFailed False) sv = Some (?sv1, Inr ())"
    by (simp add: Wl_HandleControlCallback_def ep)
  have "wl_inv ?sv1" by (rule wl_inv_same [OF i]) (simp_all add: Ssl_closed_def)
  from remove_dangles [OF this, of ep i m] assms l h show ?thesis
    by (simp add: Ssl_closed_def del: wl_handle.simps(4))
qed

theorem ws_close_dangles_witness:
  "\<exists>sv'. wl_run [Wl_control 0 Frame_close False False, Wl_run 0 ''x''] (one_client (1, 7)) = Some sv' \<and>
    \<not> live sv' 0 \<and> wl_handle (Wl_run 0 ''x'') sv' = None"
  using ws_close_dangles [OF one_client_wl_reach one_client_find, of "(1, 7)" False "''x''"] by (auto simp: one_client_simps)

text \<open>A ping that fails does the same to the session it was sent on.\<close>

lemma set_open_True [simp]: "set_open True i sv = sv"
  by (simp add: set_open_def)

lemma ping_none: "ep \<notin> fst ` set ps \<Longrightarrow> ping_all (\<lambda>q. (q = ep, q \<noteq> ep)) ps sv = sv"
  by (induction ps arbitrary: sv) (auto simp: Wl_SendPingRequest_def WsSession_SendPingRequest_def)

lemma ws_ping_one:
  "distinct (map fst ps) \<Longrightarrow> (ep, i) \<in> set ps \<Longrightarrow>
   ping_all (\<lambda>q. (q = ep, q \<noteq> ep)) ps sv = Ssl_closed (m_RemoteEndpoint (lv_Heap sv i)) (set_open False i sv)"
proof (induction ps)
  case (Cons p ps)
  obtain k v where p: "p = (k, v)" by fastforce
  show ?case
  proof (cases "k = ep")
    case True
    with Cons.prems p have "v = i" "ep \<notin> fst ` set ps" by force+
    with True p show ?thesis by (simp add: Wl_SendPingRequest_def WsSession_SendPingRequest_def ping_none)
  next
    case False
    with Cons p show ?thesis by (auto simp: Wl_SendPingRequest_def WsSession_SendPingRequest_def)
  qed
qed simp

theorem ws_ping_dangles:
  assumes "wl_reach sv" and "smap_find endpoint_less ep (lv_Sessions sv) = Some i" and "lv_Waits sv i = 1"
    and "lv_Ready sv = []"
  shows "\<exists>sv'. wl_run [Wl_ping (\<lambda>q. (q = ep, q \<noteq> ep)), Wl_run 0 m] sv = Some sv' \<and>
    lv_Ready sv' = [Ready_read i True] \<and> \<not> live sv' i \<and> wl_handle (Wl_run 0 m) sv' = None"
proof -
  have i: "wl_inv sv" by (rule wl_reach_inv [OF assms(1)])
  have mem: "(ep, i) \<in> set (lv_Sessions sv)" by (rule endpoints.find_Some_mem_pair [OF assms(2)])
  have ep: "m_RemoteEndpoint (lv_Heap sv i) = ep" using i mem unfolding wl_inv_def by fast
  have d: "distinct (map fst (lv_Sessions sv))" using i by (simp add: wl_inv_def endpoints.sorted_distinct)
  let ?sv1 = "Ssl_closed ep (set_open False i sv)"
  have h: "wl_handle (Wl_ping (\<lambda>q. (q = ep, q \<noteq> ep))) sv = Some (?sv1, Inr ())"
    by (simp add: WsLive_SendPingRequest_def ws_ping_one [OF d mem] ep)
  have "wl_inv ?sv1" by (rule wl_inv_same [OF i]) (simp_all add: Ssl_closed_def)
  from remove_dangles [OF this, of ep i m] assms h show ?thesis
    by (simp add: Ssl_closed_def del: wl_handle.simps(4) wl_handle.simps(7))
qed

end
