(* ===== verification/SocketClients.thy ===== *)
theory SocketClients
  imports Sockets Timers
begin

text \<open>
  The clients of \<open>socket\<close>, which hold one session, the ping timer that the web socket client and
  server share, and the sizes of the buffers of the sockets. The outcome of every call of the I/O
  library is an argument; a call through a null pointer is \<open>None\<close>.
\<close>

section \<open>Buffer sizes\<close>

text \<open>
  A socket's receive and send buffer; each call of the library fails with a text or not. Results:
  the socket's sizes, the lines logged, and the answer.
\<close>

record socket_options =
  receive_buffer_size :: nat
  send_buffer_size :: nat

definition RingBufferSize :: nat where
  "RingBufferSize = 1024 * 512"

definition GetReceiveBufferSize :: "string option \<Rightarrow> socket_options \<Rightarrow> string list \<times> nat" where
  "GetReceiveBufferSize ec s =
     (case ec of
        Some e \<Rightarrow> ([''Get tcp receive buffer size failed:'' @ e], 0)
      | None \<Rightarrow> ([], receive_buffer_size s))"

definition SetReceiveBufferSize :: "string option \<Rightarrow> nat \<Rightarrow> socket_options \<Rightarrow> socket_options \<times> string list \<times> bool" where
  "SetReceiveBufferSize ec n s =
     (case ec of
        Some e \<Rightarrow> (s, [''Set tcp receive buffer size failed:'' @ e], False)
      | None \<Rightarrow> (s\<lparr>receive_buffer_size := n\<rparr>, [''Tcp receive buffer set to:'' @ dec_nat n], True))"

definition GetSendBufferSize :: "string option \<Rightarrow> socket_options \<Rightarrow> string list \<times> nat" where
  "GetSendBufferSize ec s =
     (case ec of
        Some e \<Rightarrow> ([''Get tcp send buffer size failed:'' @ e], 0)
      | None \<Rightarrow> ([], send_buffer_size s))"

definition SetSendBufferSize :: "string option \<Rightarrow> nat \<Rightarrow> socket_options \<Rightarrow> socket_options \<times> string list \<times> bool" where
  "SetSendBufferSize ec n s =
     (case ec of
        Some e \<Rightarrow> (s, [''Set tcp send buffer size failed:'' @ e], False)
      | None \<Rightarrow> (s\<lparr>send_buffer_size := n\<rparr>, [''Tcp send buffer set to:'' @ dec_nat n], True))"

text \<open>The outcomes of the four calls it can make, in their order.\<close>

definition SetTcpBufferSizes ::
  "string option \<Rightarrow> string option \<Rightarrow> string option \<Rightarrow> string option \<Rightarrow> socket_options \<Rightarrow> socket_options \<times> string list" where
  "SetTcpBufferSizes setReceive getReceive setSend getSend s =
     (let (s1, l1, ok1) = SetReceiveBufferSize setReceive RingBufferSize s;
          l2 = (if \<not> ok1 then (let (l, n) = GetReceiveBufferSize getReceive s1 in l @ [''Receive tcp buffer size:'' @ dec_nat n]) else []);
          (s2, l3, ok2) = SetSendBufferSize setSend RingBufferSize s1;
          l4 = (if \<not> ok2 then (let (l, n) = GetSendBufferSize getSend s2 in l @ [''Send tcp buffer size:'' @ dec_nat n]) else [])
      in (s2, l1 @ l2 @ l3 @ l4))"

text \<open>The web socket session has functions of its own, with other texts.\<close>

definition Ws_GetReceiveBufferSize :: "string option \<Rightarrow> socket_options \<Rightarrow> string list \<times> nat" where
  "Ws_GetReceiveBufferSize ec s =
     (case ec of Some e \<Rightarrow> ([''Get tcp receive size failed:'' @ e], 0) | None \<Rightarrow> ([], receive_buffer_size s))"

definition Ws_SetReceiveBufferSize :: "string option \<Rightarrow> nat \<Rightarrow> socket_options \<Rightarrow> socket_options \<times> string list \<times> bool" where
  "Ws_SetReceiveBufferSize ec n s =
     (case ec of
        Some e \<Rightarrow> (s, [''Set tcp receive size failed:'' @ e], False)
      | None \<Rightarrow> (s\<lparr>receive_buffer_size := n\<rparr>, [''Tcp receive buffer set to:'' @ dec_nat n], True))"

definition Ws_GetSendBufferSize :: "string option \<Rightarrow> socket_options \<Rightarrow> string list \<times> nat" where
  "Ws_GetSendBufferSize ec s =
     (case ec of Some e \<Rightarrow> ([''Get tcp send size failed:'' @ e], 0) | None \<Rightarrow> ([], send_buffer_size s))"

definition Ws_SetSendBufferSize :: "string option \<Rightarrow> nat \<Rightarrow> socket_options \<Rightarrow> socket_options \<times> string list \<times> bool" where
  "Ws_SetSendBufferSize ec n s =
     (case ec of
        Some e \<Rightarrow> (s, [''Set tcp receive size failed:'' @ e], False)
      | None \<Rightarrow> (s\<lparr>send_buffer_size := n\<rparr>, [''Tcp send buffer set to:'' @ dec_nat n], True))"

section \<open>Clients\<close>

record 'a socket_client =
  cl_Session :: "'a session option"
  cl_Calls :: "'a callback list"
  cl_Target :: string

definition SocketClient_ctor :: "'a socket_client" where
  "SocketClient_ctor = \<lparr>cl_Session = None, cl_Calls = [], cl_Target = ''/''\<rparr>"

definition SetTarget :: "string \<Rightarrow> 'a socket_client \<Rightarrow> 'a socket_client" where
  "SetTarget target cl = cl\<lparr>cl_Target := target\<rparr>"

text \<open>
  The session of a client: its endpoint is known when it is connected, before that it is the
  default one. A connect opens the socket, and leaves it open when it fails.
\<close>

definition client_session :: "'a endpoint \<Rightarrow> bool \<Rightarrow> string \<Rightarrow> 'a session" where
  "client_session ep opened storage = \<lparr>m_RemoteEndpoint = ep, is_open = opened, m_ReceiveBuffer = RingBuffer_ctor storage\<rparr>"

definition TcpSocketClient_Start ::
  "'a endpoint \<Rightarrow> 'a endpoint \<Rightarrow> string \<Rightarrow> bool \<Rightarrow> bool \<Rightarrow> 'a socket_client \<Rightarrow> 'a socket_client \<times> bool" where
  "TcpSocketClient_Start default_ep remote storage resolveFailed connectFailed cl =
     (let s = client_session (if resolveFailed \<or> connectFailed then default_ep else remote) (\<not> resolveFailed) storage;
          (ok, calls) = TcpSession_Connect resolveFailed connectFailed s
      in (cl\<lparr>cl_Session := Some s, cl_Calls := cl_Calls cl @ calls\<rparr>, ok))"

definition SslSocketClient_Start ::
  "'a endpoint \<Rightarrow> 'a endpoint \<Rightarrow> string \<Rightarrow> bool \<Rightarrow> bool \<Rightarrow> bool \<Rightarrow> 'a socket_client \<Rightarrow> 'a socket_client \<times> bool" where
  "SslSocketClient_Start default_ep remote storage resolveFailed connectFailed handshakeFailed cl =
     (let s = client_session (if resolveFailed \<or> connectFailed then default_ep else remote) (\<not> resolveFailed) storage;
          (ok, calls) = SslSession_Connect resolveFailed connectFailed handshakeFailed s
      in (cl\<lparr>cl_Session := Some s, cl_Calls := cl_Calls cl @ calls\<rparr>, ok))"

text \<open>The handler of a closed session: the TCP client has none, the TLS client calls back.\<close>

definition TcpSocketClient_closed :: "'a endpoint \<Rightarrow> 'a socket_client \<Rightarrow> 'a socket_client" where
  "TcpSocketClient_closed ep cl = cl"

definition SslSocketClient_closed :: "'a endpoint \<Rightarrow> 'a socket_client \<Rightarrow> 'a socket_client" where
  "SslSocketClient_closed ep cl = cl\<lparr>cl_Calls := cl_Calls cl @ [OnSessionClosed ep]\<rparr>"

definition TcpSocketClient_SendSocketData :: "bool \<times> nat \<Rightarrow> 'a socket_client \<Rightarrow> 'a socket_client \<times> nat" where
  "TcpSocketClient_SendSocketData io cl =
     (case cl_Session cl of
        Some s \<Rightarrow>
          (case SessionBase_SendData io s of
             (s1, closed, n) \<Rightarrow>
               let cl1 = cl\<lparr>cl_Session := Some s1\<rparr> in (if closed then TcpSocketClient_closed (m_RemoteEndpoint s) cl1 else cl1, n))
      | None \<Rightarrow> (cl, 0))"

definition SslSocketClient_SendSocketData :: "bool \<times> nat \<Rightarrow> 'a socket_client \<Rightarrow> ('a socket_client \<times> nat) option" where
  "SslSocketClient_SendSocketData io cl =
     (case cl_Session cl of
        Some s \<Rightarrow>
          (case SessionBase_SendData io s of
             (s1, closed, n) \<Rightarrow>
               let cl1 = cl\<lparr>cl_Session := Some s1\<rparr>
               in Some (if closed then SslSocketClient_closed (m_RemoteEndpoint s) cl1 else cl1, n))
      | None \<Rightarrow> None)"

section \<open>The ping timer\<close>

text \<open>\<open>StartPingTimer\<close>, of the class the web socket client and server share; the time is in microseconds.\<close>

definition StartPingTimer :: "int \<Rightarrow> ('w \<Rightarrow> 'w \<times> bool) \<Rightarrow> int \<Rightarrow> 'w Timer \<Rightarrow> 'w Timer" where
  "StartPingTimer now SendPingRequest pingTime t =
     Timer_Start now (\<lambda>w. (fst (SendPingRequest w), True)) pingTime t"

definition WsSocketClient_closed :: "'a endpoint \<Rightarrow> 'a socket_client \<Rightarrow> 'a socket_client" where
  "WsSocketClient_closed ep cl = cl\<lparr>cl_Calls := cl_Calls cl @ [OnSessionClosed ep]\<rparr>"

text \<open>
  The ping of the client, with the outcomes of the pings to come. The pointer is not null when
  the timer runs, which \<open>Start\<close> starts after it has made the session.
\<close>

definition WsSocketClient_SendPingRequest :: "'a socket_client \<times> (nat \<Rightarrow> bool) \<Rightarrow> ('a socket_client \<times> (nat \<Rightarrow> bool)) \<times> bool" where
  "WsSocketClient_SendPingRequest st =
     (case st of (cl, failed) \<Rightarrow>
        (case cl_Session cl of
           None \<Rightarrow> (st, False)
         | Some s \<Rightarrow>
             (case WsSession_SendPingRequest (failed 0) of
                (ok, closed) \<Rightarrow> ((if closed then WsSocketClient_closed (m_RemoteEndpoint s) cl else cl, failed \<circ> Suc), ok))))"

definition WsSocketClient_Start ::
  "int \<Rightarrow> 'a endpoint \<Rightarrow> 'a endpoint \<Rightarrow> string \<Rightarrow> bool \<Rightarrow> bool \<Rightarrow> bool \<Rightarrow> bool \<Rightarrow> bool \<Rightarrow>
   'a socket_client \<times> ('a socket_client \<times> (nat \<Rightarrow> bool)) Timer \<Rightarrow>
   ('a socket_client \<times> ('a socket_client \<times> (nat \<Rightarrow> bool)) Timer) \<times> bool" where
  "WsSocketClient_Start now default_ep remote storage resolveFailed connectFailed handshakeFailed secondHandshakeFailed
     wsHandshakeFailed st =
     (let s = client_session (if resolveFailed \<or> connectFailed then default_ep else remote) False storage;
          (ok, calls) = WsSession_Connect resolveFailed connectFailed handshakeFailed secondHandshakeFailed wsHandshakeFailed s;
          cl = (fst st)\<lparr>cl_Session := Some (s\<lparr>is_open := ok\<rparr>), cl_Calls := cl_Calls (fst st) @ calls\<rparr>
      in if ok then ((cl, StartPingTimer now WsSocketClient_SendPingRequest 3000000 (snd st)), True)
         else ((cl, snd st), False))"

definition WsSocketClient_SendWebSocketData :: "bool \<Rightarrow> 'a socket_client \<Rightarrow> nat option" where
  "WsSocketClient_SendWebSocketData failed cl =
     (case cl_Session cl of None \<Rightarrow> None | Some s \<Rightarrow> Some (of_bool (WsSession_SendWebSocketData failed s)))"

text \<open>The web socket server with its ping timer; the pings to all sessions have an outcome each.\<close>

definition WsServer_ping :: "'a server \<times> (nat \<Rightarrow> 'a endpoint \<Rightarrow> bool) \<Rightarrow> ('a server \<times> (nat \<Rightarrow> 'a endpoint \<Rightarrow> bool)) \<times> bool" where
  "WsServer_ping st = (case WsServer_SendPingRequest (snd st 0) (fst st) of (sv, ok) \<Rightarrow> ((sv, snd st \<circ> Suc), ok))"

definition WsServer_Start ::
  "int \<Rightarrow> bool \<Rightarrow> bool \<Rightarrow> bool \<Rightarrow> bool \<Rightarrow> bool \<Rightarrow> 'a server \<times> ('a server \<times> (nat \<Rightarrow> 'a endpoint \<Rightarrow> bool)) Timer \<Rightarrow>
   ('a server \<times> ('a server \<times> (nat \<Rightarrow> 'a endpoint \<Rightarrow> bool)) Timer) \<times> bool" where
  "WsServer_Start now resolveFailed openFailed optionFailed bindFailed listenFailed st =
     (case Server_Start resolveFailed openFailed optionFailed bindFailed listenFailed (fst st) of
        (sv, ok) \<Rightarrow>
          if ok then ((sv, StartPingTimer now WsServer_ping 3000000 (snd st)), True) else ((sv, snd st), False))"

text \<open>\<open>SendToAllClients\<close> of the web socket server: the keys to which the write failed, which are logged.\<close>

definition WsServer_SendToAllClients :: "('a endpoint \<Rightarrow> bool) \<Rightarrow> 'a server \<Rightarrow> 'a endpoint list" where
  "WsServer_SendToAllClients failed sv =
     map fst (List.filter (\<lambda>p. \<not> WsSession_SendWebSocketData (failed (fst p)) (snd p)) (m_Sessions sv))"

section \<open>What the pings do\<close>

lemma StartPingTimer_alive:
  "timer_alive (\<lambda>w. fst (SendPingRequest w)) pingTime (now, w, StartPingTimer now SendPingRequest pingTime t)"
  unfolding StartPingTimer_def by (rule timer_alive_started)

text \<open>
  A web socket client whose connection is lost while its pings fail tells its callback of the
  closed session again at every ping, without end: after any number of such pings the timer still
  gets to the next one, and each adds a call.
\<close>

theorem ws_client_reports_again:
  assumes "WsSocketClient_Start now default_ep remote storage False False False False False (cl, t) = ((cl1, t1), ok)"
    and "timer_alone\<^sup>*\<^sup>* (now, (cl1, failed), t1) (now', (cl2, failed'), t2)" and "failed' 0"
  shows "\<exists>now'' t3. timer_alone\<^sup>*\<^sup>* (now', (cl2, failed'), t2)
    (now'', (cl2\<lparr>cl_Calls := cl_Calls cl2 @ [OnSessionClosed remote]\<rparr>, failed' \<circ> Suc), t3)"
proof -
  let ?f = "\<lambda>w :: 'a socket_client \<times> (nat \<Rightarrow> bool). fst (WsSocketClient_SendPingRequest w)"
  from assms(1) have t1: "t1 = StartPingTimer now WsSocketClient_SendPingRequest 3000000 t"
    and cl1: "map_option m_RemoteEndpoint (cl_Session cl1) = Some remote"
    by (auto simp: WsSocketClient_Start_def WsSession_Connect_def client_session_def Let_def)
  have al: "timer_alive ?f 3000000 (now, (cl1, failed), t1)" unfolding t1 by (rule StartPingTimer_alive)
  have keep: "map_option m_RemoteEndpoint (cl_Session (fst (?f w))) = map_option m_RemoteEndpoint (cl_Session (fst w))" for w
    by (cases w) (auto simp: WsSocketClient_SendPingRequest_def WsSocketClient_closed_def split: option.split prod.split)
  have "map_option m_RemoteEndpoint (cl_Session (fst w')) = Some remote \<and> timer_alive ?f 3000000 (now', w', t')"
    if "timer_alone\<^sup>*\<^sup>* (now, (cl1, failed), t1) (now', w', t')" for now' w' t'
    using that
  proof (induction "(now', w', t')" arbitrary: now' w' t' rule: rtranclp_induct)
    case base
    with cl1 al show ?case by simp
  next
    case (step s)
    obtain n2 w2 t2 where s: "s = (n2, w2, t2)" by (cases s)
    from step.hyps(3) [OF s] have r: "map_option m_RemoteEndpoint (cl_Session (fst w2)) = Some remote"
      and a: "timer_alive ?f 3000000 (n2, w2, t2)" by simp_all
    from step.hyps(2) have st: "timer_alone (n2, w2, t2) (now', w', t')" unfolding s .
    from a have "w' = w2 \<or> w' = ?f w2"
      using st by (auto simp: timer_alive_def m_TimerHandler_def split: if_splits elim!: timer_stepE)
    with r keep have "map_option m_RemoteEndpoint (cl_Session (fst w')) = Some remote" by metis
    with timer_alive_step [OF st a] show ?case by simp
  qed
  from this [OF assms(2)] have r: "map_option m_RemoteEndpoint (cl_Session cl2) = Some remote"
    and a: "timer_alive ?f 3000000 (now', (cl2, failed'), t2)" by simp_all
  from r assms(3) have "?f (cl2, failed') = (cl2\<lparr>cl_Calls := cl_Calls cl2 @ [OnSessionClosed remote]\<rparr>, failed' \<circ> Suc)"
    by (auto simp: WsSocketClient_SendPingRequest_def WsSession_SendPingRequest_def WsSocketClient_closed_def)
  with timer_next_call [OF a] show ?thesis by metis
qed

theorem ws_client_reports_again_witness:
  "\<exists>(cl :: nat socket_client) t now'' t3.
     timer_alone\<^sup>*\<^sup>* (0, (cl, \<lambda>_. True), t) (now'', (cl\<lparr>cl_Calls := cl_Calls cl @ [OnSessionClosed (1, 80)]\<rparr>, (\<lambda>_. True) \<circ> Suc), t3)"
proof -
  obtain cl1 t1 ok where s: "WsSocketClient_Start 0 (0, 0) (1 :: nat, 80) [] False False False False False (SocketClient_ctor, Timer_ctor) =
      ((cl1, t1), ok)" by (metis prod.collapse)
  have f: "(\<lambda>_. True) (0 :: nat)" by simp
  from ws_client_reports_again [OF s rtranclp.rtrancl_refl, of "\<lambda>_. True", OF f] show ?thesis by blast
qed

end
