(* ===== verification/SocketPrograms.thy ===== *)
theory SocketPrograms
  imports SocketLifeWs SocketClients
begin

text \<open>
  The example programs around the servers and clients of \<open>socket\<close>: \<open>tcp_server\<close>, \<open>ssl_server\<close>,
  \<open>tcp_client\<close>, \<open>ssl_client\<close> and \<open>web_socket_client\<close>. Each makes a service, stops it at a signal,
  starts its server or client and runs the service; the clients send from a timer. The four
  session handlers of the TCP and TLS programs have the same text.
\<close>

section \<open>The callbacks of a program\<close>

fun SessionHandler_log :: "'a callback \<Rightarrow> string" where
  "SessionHandler_log (OnDataRead ep shown) = ''Received data''"
| "SessionHandler_log (OnSessionConnected ep) = ''Session connected''"
| "SessionHandler_log (OnSessionClosed ep) = ''Session closed''"

text \<open>\<open>OnDataRead\<close> reads nothing from the buffer it is given.\<close>

definition SessionHandler_OnDataRead :: data_handler where
  "SessionHandler_OnDataRead readBuffer = (readBuffer, [])"

text \<open>
  \<open>Run\<close> of a program: the handlers its threads take, the handler of the signal among them. A
  handler changes the service and the state of the program, and logs; \<open>None\<close> is undefined
  behaviour. The run ends when the service is stopped; the exception of a handler leaves \<open>main\<close>
  on the thread of \<open>main\<close>, and stops the service on another one.
\<close>

datatype 'h main_handler = On_signal | On_handler 'h

fun main_Run ::
  "('h \<Rightarrow> Service \<times> 'w \<Rightarrow> (Service \<times> 'w \<times> string list \<times> unit throws) option) \<Rightarrow> (nat \<times> 'h main_handler) list \<Rightarrow>
   Service \<times> 'w \<times> string list \<Rightarrow> (Service \<times> 'w \<times> string list \<times> unit throws) option" where
  "main_Run run [] (service, w, lg) = Some (service, w, lg, Inr ())"
| "main_Run run ((thread, h) # hs) (service, w, lg) =
     (if m_Stopped service then Some (service, w, lg, Inr ())
      else case h of
        On_signal \<Rightarrow> main_Run run hs (Service_Stop service, w, lg @ [''Control-C received, stopping application''])
      | On_handler e \<Rightarrow>
          (case run e (service, w) of
             None \<Rightarrow> None
           | Some (service1, w1, ls, Inr _) \<Rightarrow> main_Run run hs (service1, w1, lg @ ls)
           | Some (service1, w1, ls, Inl x) \<Rightarrow>
               if thread = 0 then Some (service1, w1, lg @ ls, Inl x)
               else main_Run run hs (Service_worker (Inl (Some x)) service1, w1, lg @ ls)))"

section \<open>The servers\<close>

text \<open>
  What happens to a server that sends nothing: \<open>Sp_accept\<close> is a new connection, \<open>Sp_readable\<close>
  and \<open>Sp_run\<close> are as for the server itself. A new session is made for the accepted socket, with
  the storage of its ring buffer.
\<close>

datatype 'a server_handler =
    Sp_accept bool string bool "'a endpoint throws" "cpp_exn option"
  | Sp_readable nat
  | Sp_run nat nat "string option"

definition accepted_session :: "string \<Rightarrow> 'a endpoint \<Rightarrow> 'a session" where
  "accepted_session storage ep = \<lparr>m_RemoteEndpoint = ep, is_open = True, m_ReceiveBuffer = RingBuffer_ctor storage\<rparr>"

fun server_event :: "(bool \<Rightarrow> 'a session \<Rightarrow> bool \<times> 'a callback list) \<Rightarrow> 'a endpoint \<Rightarrow> 'a server_handler \<Rightarrow> 'a live_event" where
  "server_event accept ep0 (Sp_accept handshakeFailed storage failed remote gone) =
     Lv_accept (accept handshakeFailed) (accepted_session storage ep0) failed remote gone"
| "server_event accept ep0 (Sp_readable i) = Lv_readable i"
| "server_event accept ep0 (Sp_run k available r) = Lv_run k SessionHandler_OnDataRead available r"

definition server_program ::
  "('a endpoint \<Rightarrow> 'a LiveServer \<Rightarrow> 'a LiveServer) \<Rightarrow> (bool \<Rightarrow> 'a session \<Rightarrow> bool \<times> 'a callback list) \<Rightarrow> 'a::linorder endpoint \<Rightarrow>
   'a server_handler \<Rightarrow> Service \<times> 'a LiveServer \<Rightarrow> (Service \<times> 'a LiveServer \<times> string list \<times> unit throws) option" where
  "server_program closed accept ep0 h st =
     (case st of (service, sv) \<Rightarrow>
        if live_enabled (server_event accept ep0 h) sv then
          (case live_handle closed (server_event accept ep0 h) sv of
             None \<Rightarrow> None
           | Some (sv1, res) \<Rightarrow>
               Some (service, sv1, map SessionHandler_log (drop (length (lv_Calls sv)) (lv_Calls sv1)), res))
        else Some (service, sv, [], Inr ()))"

text \<open>
  \<open>main\<close> of the two servers: the five failures of \<open>Start\<close>, then the handlers that run. The result
  of a run that is not over is the state it is in, with no exception.
\<close>

definition server_main ::
  "('a endpoint \<Rightarrow> 'a LiveServer \<Rightarrow> 'a LiveServer) \<Rightarrow> (bool \<Rightarrow> 'a session \<Rightarrow> bool \<times> 'a callback list) \<Rightarrow> string \<Rightarrow>
   bool \<times> bool \<times> bool \<times> bool \<times> bool \<Rightarrow> 'a::linorder endpoint \<Rightarrow> (nat \<times> 'a server_handler main_handler) list \<Rightarrow>
   (Service \<times> 'a LiveServer \<times> string list \<times> unit throws) option" where
  "server_main closed accept started start ep0 hs =
     (case start of (resolveFailed, openFailed, optionFailed, bindFailed, listenFailed) \<Rightarrow>
        case LiveServer_Start resolveFailed openFailed optionFailed bindFailed listenFailed (LiveServer_ctor (accepted_session [] ep0)) of
          (sv, ok) \<Rightarrow>
            if ok then main_Run (server_program closed accept ep0) hs (Service_ctor 2, sv, [started])
            else Some (Service_ctor 2, sv, [], Inr ()))"

definition tcp_server_main ::
  "bool \<times> bool \<times> bool \<times> bool \<times> bool \<Rightarrow> 'a::linorder endpoint \<Rightarrow> (nat \<times> 'a server_handler main_handler) list \<Rightarrow>
   (Service \<times> 'a LiveServer \<times> string list \<times> unit throws) option" where
  "tcp_server_main = server_main Tcp_closed (\<lambda>_. TcpSession_Accept) ''Server started to 127.0.0.1:6543''"

definition ssl_server_main ::
  "bool \<times> bool \<times> bool \<times> bool \<times> bool \<Rightarrow> 'a::linorder endpoint \<Rightarrow> (nat \<times> 'a server_handler main_handler) list \<Rightarrow>
   (Service \<times> 'a LiveServer \<times> string list \<times> unit throws) option" where
  "ssl_server_main = server_main Ssl_closed SslSession_Accept ''Server started to localhost:51374''"

section \<open>The clients\<close>

text \<open>
  The state of a client program: the client, the bytes on the wire, and the outcomes of the writes
  to come. The timer function writes the text and starts the timer again when something was sent.
\<close>

record 'a client_program =
  cp_Client :: "'a socket_client"
  cp_Wire :: string
  cp_Io :: "nat \<Rightarrow> bool \<times> nat"

text \<open>
  What a write of the text puts on the wire: nothing without an open session, otherwise the bytes
  of the outcome, also where the write has failed after a part.
\<close>

definition on_wire :: "bool \<times> nat \<Rightarrow> 'a socket_client \<Rightarrow> string" where
  "on_wire io cl =
     (case cl_Session cl of
        None \<Rightarrow> []
      | Some s \<Rightarrow> if is_open s then take (snd io) ''blablalbalbalg'' else [])"

definition tcp_client_timerFn :: "'a client_program \<Rightarrow> 'a client_program \<times> bool" where
  "tcp_client_timerFn cp =
     (case TcpSocketClient_SendSocketData (cp_Io cp 0) (cp_Client cp) of
        (cl, n) \<Rightarrow> (cp\<lparr>cp_Client := cl, cp_Wire := cp_Wire cp @ on_wire (cp_Io cp 0) (cp_Client cp), cp_Io := cp_Io cp \<circ> Suc\<rparr>, 0 < n))"

text \<open>The session of the TLS client exists when the timer runs, which is started after it is made.\<close>

definition ssl_client_timerFn :: "'a client_program \<Rightarrow> 'a client_program \<times> bool" where
  "ssl_client_timerFn cp =
     (case SslSocketClient_SendSocketData (cp_Io cp 0) (cp_Client cp) of
        None \<Rightarrow> (cp, False)
      | Some (cl, n) \<Rightarrow> (cp\<lparr>cp_Client := cl, cp_Wire := cp_Wire cp @ on_wire (cp_Io cp 0) (cp_Client cp), cp_Io := cp_Io cp \<circ> Suc\<rparr>, 0 < n))"

definition tcp_client_main ::
  "int \<Rightarrow> 'a endpoint \<Rightarrow> 'a endpoint \<Rightarrow> string \<Rightarrow> bool \<Rightarrow> bool \<Rightarrow> (nat \<Rightarrow> bool \<times> nat) \<Rightarrow>
   ('a client_program \<times> 'a client_program Timer) option" where
  "tcp_client_main now default_ep remote storage resolveFailed connectFailed io =
     (case TcpSocketClient_Start default_ep remote storage resolveFailed connectFailed SocketClient_ctor of
        (cl, ok) \<Rightarrow>
          if ok then Some (\<lparr>cp_Client = cl, cp_Wire = [], cp_Io = io\<rparr>, Timer_Start now tcp_client_timerFn 1000 Timer_ctor) else None)"

definition ssl_client_main ::
  "int \<Rightarrow> 'a endpoint \<Rightarrow> 'a endpoint \<Rightarrow> string \<Rightarrow> bool \<Rightarrow> bool \<Rightarrow> bool \<Rightarrow> (nat \<Rightarrow> bool \<times> nat) \<Rightarrow>
   ('a client_program \<times> 'a client_program Timer) option" where
  "ssl_client_main now default_ep remote storage resolveFailed connectFailed handshakeFailed io =
     (case SslSocketClient_Start default_ep remote storage resolveFailed connectFailed handshakeFailed SocketClient_ctor of
        (cl, ok) \<Rightarrow>
          if ok then Some (\<lparr>cp_Client = cl, cp_Wire = [], cp_Io = io\<rparr>, Timer_Start now ssl_client_timerFn 1000 Timer_ctor) else None)"

section \<open>Servers that consume nothing\<close>

text \<open>The ring buffer of a session whose callback never consumes, and what a read does to it.\<close>

definition unread :: "char RingBuffer \<Rightarrow> bool" where
  "unread rb \<longleftrightarrow> rb_ok rb \<and> rb_read rb = 0 \<and> length (rb_buffer rb) = RingBufferSize"

lemma unread_ctor: "length storage = RingBufferSize \<Longrightarrow> unread (RingBuffer_ctor storage)"
  by (simp add: unread_def rb_ok_def RingBuffer_ctor_def RingBufferSize_def)

lemma ReadData_unread:
  assumes u: "unread (m_ReceiveBuffer s)" and l: "\<And>d. r = Some d \<Longrightarrow> length d \<le> available"
  shows "\<exists>rb calls. SessionBase_ReadData SessionHandler_OnDataRead False available r s = Some (s\<lparr>m_ReceiveBuffer := rb\<rparr>, False, calls, True) \<and>
    unread rb \<and> set calls \<subseteq> range (OnDataRead (m_RemoteEndpoint s)) \<and>
    (RingBufferSize < length (rb_contents (m_ReceiveBuffer s)) + available \<longrightarrow> calls = [] \<and> rb = m_ReceiveBuffer s)"
proof (cases "0 < available")
  case False
  with u show ?thesis
    by (intro exI [of _ "m_ReceiveBuffer s"] exI [of _ "[]"]) (auto simp: SessionBase_ReadData_def)
next
  case True
  let ?rb = "m_ReceiveBuffer s"
  have ok: "rb_ok ?rb" "rb_read ?rb = 0" and n: "length (rb_buffer ?rb) = RingBufferSize" using u by (auto simp: unread_def)
  then have len: "length (rb_contents ?rb) = rb_write ?rb" by (auto simp: rb_contents_def rb_ok_def)
  have g: "RingBuffer_GetWriteBuffer available ?rb =
      Some (?rb, if rb_write ?rb + available \<le> RingBufferSize then Some (rb_write ?rb) else None)"
    by (simp add: GetWriteBuffer_result [OF ok(1)] len n)
  obtain stored m where f: "Session_ReadBuffer r available = (stored, m)" by fastforce
  have lm: "length stored \<le> available" "m \<le> length stored"
    using f l by (auto simp: Session_ReadBuffer_def split: option.splits)
  obtain rb' b where w: "RingBuffer_WriteBuffer_fn (Session_ReadBuffer r) available ?rb = Some (rb', b)"
    by (cases "rb_write ?rb + available \<le> RingBufferSize"; cases "0 < m \<and> m \<le> available")
       (auto simp: RingBuffer_WriteBuffer_fn_def g f Let_def)
  have ok': "rb_ok rb'" "length (rb_buffer rb') = RingBufferSize"
    using WriteBuffer_fn_result [OF ok(1) w f lm] n by auto
  have r0: "rb_read rb' = 0"
    using w ok(2) by (auto simp: RingBuffer_WriteBuffer_fn_def g f RingBuffer_Commit_def Let_def split: if_splits)
  have full: "\<not> b \<and> rb' = ?rb" if "RingBufferSize < rb_write ?rb + available"
    using w that by (simp add: RingBuffer_WriteBuffer_fn_def g)
  from True w ok' r0 full show ?thesis
    by (cases b) (auto simp: SessionBase_ReadData_def SessionHandler_OnDataRead_def unread_def len)
qed

text \<open>What the events of a server program are like: the reads get at most what was available.\<close>

fun delivered :: "'a server_handler \<Rightarrow> bool" where
  "delivered (Sp_accept handshakeFailed storage failed remote gone) \<longleftrightarrow> length storage = RingBufferSize"
| "delivered (Sp_readable i) \<longleftrightarrow> True"
| "delivered (Sp_run k available r) \<longleftrightarrow> (case r of None \<Rightarrow> True | Some d \<Rightarrow> length d \<le> available)"

fun delivered_main :: "nat \<times> 'a server_handler main_handler \<Rightarrow> bool" where
  "delivered_main (thread, On_signal) \<longleftrightarrow> True"
| "delivered_main (thread, On_handler h) \<longleftrightarrow> delivered h"

definition all_unread :: "'a LiveServer \<Rightarrow> bool" where
  "all_unread sv \<longleftrightarrow> (\<forall>i. live sv i \<longrightarrow> is_open (lv_Heap sv i) \<and> unread (m_ReceiveBuffer (lv_Heap sv i)))"

definition tells_close :: "'a callback \<Rightarrow> bool" where
  "tells_close c \<longleftrightarrow> (\<exists>ep. c = OnSessionClosed ep)"

lemma accept_new:
  assumes i: "live_inv sv" and h: "LiveServer_Accept accept s0 failed remote gone sv = (sv', res)"
  shows "live sv' j \<Longrightarrow> live sv j \<and> lv_Heap sv' j = lv_Heap sv j \<or> lv_Heap sv' j = s0\<lparr>m_RemoteEndpoint := m_RemoteEndpoint (lv_Heap sv' j)\<rparr>"
    and "\<exists>s. lv_Calls sv' = lv_Calls sv \<or> lv_Calls sv' = lv_Calls sv @ snd (accept s)"
proof -
  let ?n = "lv_Fresh sv"
  have s: "smap_sorted endpoint_less (lv_Sessions sv)" and d: "distinct (map snd (lv_Sessions sv))"
    and n: "\<not> live sv ?n" "lv_Waits sv ?n = 0"
    using i by (auto simp: live_inv_def pending_def)
  have "(live sv' j \<longrightarrow> live sv j \<and> lv_Heap sv' j = lv_Heap sv j \<or> lv_Heap sv' j = s0\<lparr>m_RemoteEndpoint := m_RemoteEndpoint (lv_Heap sv' j)\<rparr>) \<and>
    (\<exists>s. lv_Calls sv' = lv_Calls sv \<or> lv_Calls sv' = lv_Calls sv @ snd (accept s))"
  proof (cases res)
    case (Inr u)
    with h have h: "LiveServer_Accept accept s0 failed remote gone sv = (sv', Inr ())" by simp
    then show ?thesis
    proof (cases rule: accept_cases)
      case failed
      then show ?thesis by simp
    next
      case (taken ep m)
      let ?sv1 = "sv\<lparr>lv_Heap := (lv_Heap sv)(?n := s0), lv_Fresh := Suc ?n\<rparr>"
      have "live sv' j \<Longrightarrow> live sv j" using live_erase [of ?sv1 ep m j] s d taken by simp
      with n taken show ?thesis by (auto simp: erase_session_def)
    next
      case (new ep ok calls)
      have f: "smap_find endpoint_less ep (smap_emplace endpoint_less ep ?n (lv_Sessions sv)) = Some ?n"
        by (simp add: endpoints.find_emplace_absent [OF new(3)])
      have c: "lv_Calls sv' = lv_Calls sv @ snd (accept (s0\<lparr>m_RemoteEndpoint := ep\<rparr>))"
        using new(4,5) by (cases ok) (simp_all add: Let_def)
      have "live sv' j \<longrightarrow> live sv j \<and> lv_Heap sv' j = lv_Heap sv j \<or> lv_Heap sv' j = s0\<lparr>m_RemoteEndpoint := m_RemoteEndpoint (lv_Heap sv' j)\<rparr>"
        using new(3,5) n s
        by (cases ok) (auto simp: Let_def erase_session_def f endpoints.erase_emplace live_def endpoints.set_emplace_absent)
      with c show ?thesis by blast
    qed
  next
    case (Inl x)
    have r: "failed = False" "(\<exists>x. remote = Inl x) \<or> (\<exists>ep x. remote = Inr ep \<and> gone = Some x \<and> smap_find endpoint_less ep (lv_Sessions sv) = None)"
      using h Inl by (auto simp: LiveServer_Accept_def Live_session_Accept_def Let_def split: if_splits sum.splits option.splits prod.splits)
    from r(2) show ?thesis
    proof (elim disjE exE conjE)
      fix y assume "remote = Inl y"
      with h r(1) show ?thesis by (auto simp: LiveServer_Accept_def)
    next
      fix ep y assume e: "remote = Inr ep" "gone = Some y" "smap_find endpoint_less ep (lv_Sessions sv) = None"
      show ?thesis using h r(1) e n
        by (cases "j = ?n") (auto 4 4 simp: LiveServer_Accept_def Live_session_Accept_def Let_def live_def endpoints.set_emplace_absent image_iff Bex_def)
    qed
  qed
  then show "live sv' j \<Longrightarrow> live sv j \<and> lv_Heap sv' j = lv_Heap sv j \<or> lv_Heap sv' j = s0\<lparr>m_RemoteEndpoint := m_RemoteEndpoint (lv_Heap sv' j)\<rparr>"
    "\<exists>s. lv_Calls sv' = lv_Calls sv \<or> lv_Calls sv' = lv_Calls sv @ snd (accept s)" by blast+
qed

text \<open>A server that sends nothing and whose callback consumes nothing.\<close>

locale silent_server = closed_handler closed posts
  for closed :: "'a::linorder endpoint \<Rightarrow> 'a LiveServer \<Rightarrow> 'a LiveServer" and posts +
  fixes accept :: "bool \<Rightarrow> 'a session \<Rightarrow> bool \<times> 'a callback list"
  assumes accept_law: "set (snd (accept b s)) \<subseteq> range OnSessionConnected"
begin

lemma step_accept:
  assumes i: "live_inv sv" and u: "all_unread sv" and n: "length storage = RingBufferSize"
    and h: "LiveServer_Accept (accept b) (accepted_session storage ep0) failed remote gone sv = (sv', res)"
  shows "all_unread sv' \<and> (\<exists>cs. lv_Calls sv' = lv_Calls sv @ cs \<and> \<not> list_ex tells_close cs)"
proof
  show "all_unread sv'"
    unfolding all_unread_def
  proof (intro allI impI)
    fix j assume "live sv' j"
    with accept_new(1) [OF i h this] u unread_ctor [OF n]
    show "is_open (lv_Heap sv' j) \<and> unread (m_ReceiveBuffer (lv_Heap sv' j))"
      by (metis all_unread_def accepted_session_def session.select_convs session.update_convs(1))
  qed
  have "\<not> list_ex tells_close (snd (accept b s))" for s
    using accept_law [of b s] by (auto simp: list_ex_iff tells_close_def)
  with accept_new(2) [OF i h] show "\<exists>cs. lv_Calls sv' = lv_Calls sv @ cs \<and> \<not> list_ex tells_close cs" by force
qed

lemma step_read:
  assumes u: "all_unread sv" and l: "live sv n" and d: "\<And>d. r = Some d \<Longrightarrow> length d \<le> available"
  shows "\<exists>rb calls. Live_readDataFunc closed SessionHandler_OnDataRead False available r n sv =
      Some (start_wait n (sv\<lparr>lv_Heap := (lv_Heap sv)(n := (lv_Heap sv n)\<lparr>m_ReceiveBuffer := rb\<rparr>), lv_Calls := lv_Calls sv @ calls\<rparr>), Inr ()) \<and>
    unread rb \<and> \<not> list_ex tells_close calls \<and>
    (RingBufferSize < length (rb_contents (m_ReceiveBuffer (lv_Heap sv n))) + available \<longrightarrow>
      calls = [] \<and> rb = m_ReceiveBuffer (lv_Heap sv n))"
proof -
  have o: "is_open (lv_Heap sv n)" "unread (m_ReceiveBuffer (lv_Heap sv n))" using u l by (auto simp: all_unread_def)
  obtain rb calls where "SessionBase_ReadData SessionHandler_OnDataRead False available r (lv_Heap sv n) =
      Some ((lv_Heap sv n)\<lparr>m_ReceiveBuffer := rb\<rparr>, False, calls, True)" "unread rb"
    "set calls \<subseteq> range (OnDataRead (m_RemoteEndpoint (lv_Heap sv n)))"
    "RingBufferSize < length (rb_contents (m_ReceiveBuffer (lv_Heap sv n))) + available \<longrightarrow> calls = [] \<and> rb = m_ReceiveBuffer (lv_Heap sv n)"
    using ReadData_unread [OF o(2) d] by blast
  with o(1) show ?thesis
    by (intro exI [of _ rb] exI [of _ calls]) (auto simp: Live_readDataFunc_def Let_def list_ex_iff tells_close_def)
qed

lemma step_program:
  assumes i: "live_inv sv" and q: "quiet sv" and u: "all_unread sv" and d: "delivered h"
    and e: "live_enabled (server_event accept ep0 h) sv"
    and s: "live_handle closed (server_event accept ep0 h) sv = Some (sv', res)"
  shows "all_unread sv' \<and> (\<exists>cs. lv_Calls sv' = lv_Calls sv @ cs \<and> \<not> list_ex tells_close cs) \<and>
    (res = Inr () \<longrightarrow> live_inv sv' \<and> quiet sv')"
proof -
  have "res = Inr () \<longrightarrow> live_inv sv' \<and> quiet sv'"
    using inv_handle [OF i e] quiet_handle [OF i q e] s by (cases h) (auto simp: fails_write_def)
  moreover have "all_unread sv' \<and> (\<exists>cs. lv_Calls sv' = lv_Calls sv @ cs \<and> \<not> list_ex tells_close cs)"
  proof (cases h)
    case (Sp_accept b storage failed remote gone)
    with step_accept [OF i u _ , of storage b ep0 failed remote gone] d s show ?thesis by simp
  next
    case (Sp_readable n)
    with s u show ?thesis by (auto simp: all_unread_def)
  next
    case (Sp_run k available r)
    with e have k: "lv_Ready sv ! k \<in> set (lv_Ready sv)" by simp
    with q obtain n failed where rd: "lv_Ready sv ! k = Ready_read n failed" by (cases "lv_Ready sv ! k") (auto simp: quiet_def)
    have l: "live sv n" and res: "Live_readDataFunc closed SessionHandler_OnDataRead failed available r n (take_ready k sv) = Some (sv', res)"
      using s Sp_run rd by (auto split: if_splits)
    have "\<not> failed" using i q l k rd by (cases failed) (auto simp: live_inv_def quiet_def)
    have ut: "all_unread (take_ready k sv)" using u by (simp add: all_unread_def)
    have lt: "live (take_ready k sv) n" using l by simp
    have rl: "length d \<le> available" if "r = Some d" for d using d Sp_run that by simp
    from step_read [of "take_ready k sv" n r available, OF ut lt rl] obtain rb calls where
      "Live_readDataFunc closed SessionHandler_OnDataRead False available r n (take_ready k sv) =
        Some (start_wait n ((take_ready k sv)\<lparr>lv_Heap := (lv_Heap sv)(n := (lv_Heap sv n)\<lparr>m_ReceiveBuffer := rb\<rparr>), lv_Calls := lv_Calls sv @ calls\<rparr>), Inr ())"
      "unread rb" "\<not> list_ex tells_close calls" by auto
    with res \<open>\<not> failed\<close> u show ?thesis by (auto simp: all_unread_def)
  qed
  ultimately show ?thesis by blast
qed

lemma program_run:
  assumes "main_Run (server_program closed accept ep0) hs (service, sv, lg) = Some (service', sv', lg', res)"
    and "list_all delivered_main hs" and "live_inv sv" and "quiet sv" and "all_unread sv" and "''Session closed'' \<notin> set lg"
  shows "all_unread sv' \<and> ''Session closed'' \<notin> set lg'"
  using assms
proof (induction hs arbitrary: service sv lg)
  case (Cons th hs)
  obtain thread h where th: "th = (thread, h)" by (cases th)
  show ?case
  proof (cases "m_Stopped service \<or> h = On_signal")
    case True
    with Cons th show ?thesis by (cases "m_Stopped service") auto
  next
    case False
    then obtain p where h: "h = On_handler p" and ns: "\<not> m_Stopped service" by (cases h) auto
    show ?thesis
    proof (cases "live_enabled (server_event accept ep0 p) sv")
      case en: False
      with Cons th h ns show ?thesis by (auto simp: server_program_def)
    next
      case en: True
      with Cons.prems(1) th h ns obtain sv1 r1 where
        s: "live_handle closed (server_event accept ep0 p) sv = Some (sv1, r1)"
        by (auto simp: server_program_def split: option.splits)
      have "delivered p" using Cons.prems(2) th h by simp
      from step_program [OF Cons.prems(3,4,5) this en s] obtain cs where
        st: "all_unread sv1" "lv_Calls sv1 = lv_Calls sv @ cs" "\<not> list_ex tells_close cs"
          "r1 = Inr () \<longrightarrow> live_inv sv1 \<and> quiet sv1" by blast
      let ?ls = "map SessionHandler_log cs"
      have "SessionHandler_log c \<noteq> ''Session closed''" if "c \<in> set cs" for c
        using st(3) that by (cases c) (auto simp: list_ex_iff tells_close_def)
      then have "''Session closed'' \<noteq> SessionHandler_log c" if "c \<in> set cs" for c using that by metis
      then have lg: "''Session closed'' \<notin> set (lg @ ?ls)" using Cons.prems(6) by (auto simp: image_iff)
      have p: "server_program closed accept ep0 p (service, sv) = Some (service, sv1, ?ls, r1)"
        using en s st(2) by (simp add: server_program_def)
      show ?thesis
      proof (cases r1)
        case (Inr x)
        with Cons.IH [OF _ _ _ _ st(1) lg, of service] Cons.prems(1,2) th h ns p st(4) show ?thesis by simp
      next
        case (Inl x)
        have "main_Run run hs (Service_worker (Inl (Some x)) service, w, l) = Some (Service_worker (Inl (Some x)) service, w, l, Inr ())"
          for run and w :: "'a LiveServer" and l by (cases hs) (auto simp: split_paired_all)
        with Cons.prems(1) th h ns p Inl st(1) lg show ?thesis by (auto split: if_splits)
      qed
    qed
  qed
qed simp

end

interpretation tcp_silent: silent_server Tcp_closed "\<lambda>_. []" "\<lambda>_. TcpSession_Accept"
  by unfold_locales (auto simp: TcpSession_Accept_def)

interpretation ssl_silent: silent_server Ssl_closed "\<lambda>ep. [ep]" SslSession_Accept
  by unfold_locales (auto simp: SslSession_Accept_def)

lemma started_silent:
  "LiveServer_Start a b c d e (LiveServer_ctor s0) = (sv, ok) \<Longrightarrow> live_inv sv \<and> quiet sv \<and> all_unread sv"
  by (auto simp: LiveServer_Start_def LiveServer_ctor_def live_inv_def quiet_def all_unread_def pending_def live_def split: if_splits)

context silent_server begin

lemma main_silent:
  assumes "server_main closed accept started start ep0 hs = Some (service, sv, lg, res)"
    and "list_all delivered_main hs" and "started \<noteq> ''Session closed''"
  shows "all_unread sv \<and> ''Session closed'' \<notin> set lg"
proof -
  obtain a b c d e where st: "start = (a, b, c, d, e)" by (cases start)
  obtain sv0 ok where s: "LiveServer_Start a b c d e (LiveServer_ctor (accepted_session [] ep0)) = (sv0, ok)" by fastforce
  note i = started_silent [OF s]
  show ?thesis
  proof (cases ok)
    case True
    with assms(1) st s have "main_Run (server_program closed accept ep0) hs (Service_ctor 2, sv0, [started]) = Some (service, sv, lg, res)"
      by (simp add: server_main_def)
    from program_run [OF this assms(2)] i assms(3) show ?thesis by simp
  next
    case False
    with assms(1) st s i show ?thesis by (auto simp: server_main_def)
  qed
qed

end

text \<open>
  The TCP and the TLS server program never close a session and never say that one was closed,
  whatever the clients do: all they do with data is to keep it. Once a client has sent more than
  the ring buffer has room for, its read handler takes nothing and only waits again, with the
  same bytes still to be read: from then on it runs without end.
\<close>

theorem silent_servers:
  assumes "main = tcp_server_main \<or> main = ssl_server_main"
    and "main start ep0 hs = Some (service, sv, lg, res)" and "list_all delivered_main hs" and "live sv i"
  shows "''Session closed'' \<notin> set lg \<and> is_open (lv_Heap sv i) \<and>
    length (rb_contents (m_ReceiveBuffer (lv_Heap sv i))) \<le> RingBufferSize \<and>
    (RingBufferSize < length (rb_contents (m_ReceiveBuffer (lv_Heap sv i))) + available \<longrightarrow>
      Live_readDataFunc closed SessionHandler_OnDataRead False available r i sv = Some (start_wait i sv, Inr ()))"
proof -
  have u: "all_unread sv \<and> ''Session closed'' \<notin> set lg"
    using assms(1)
  proof
    assume "main = tcp_server_main"
    with assms(2) have "server_main Tcp_closed (\<lambda>_. TcpSession_Accept) ''Server started to 127.0.0.1:6543'' start ep0 hs = Some (service, sv, lg, res)"
      by (simp add: tcp_server_main_def)
    from tcp_silent.main_silent [OF this assms(3)] show ?thesis by simp
  next
    assume "main = ssl_server_main"
    with assms(2) have "server_main Ssl_closed SslSession_Accept ''Server started to localhost:51374'' start ep0 hs = Some (service, sv, lg, res)"
      by (simp add: ssl_server_main_def)
    from ssl_silent.main_silent [OF this assms(3)] show ?thesis by simp
  qed
  let ?s = "lv_Heap sv i"
  from u assms(4) have o: "is_open ?s" "unread (m_ReceiveBuffer ?s)" by (auto simp: all_unread_def)
  have g: "SessionBase_ReadData SessionHandler_OnDataRead False available r ?s = Some (?s, False, [], True)"
    if f: "RingBufferSize < length (rb_contents (m_ReceiveBuffer ?s)) + available"
  proof -
    have "RingBuffer_GetWriteBuffer available (m_ReceiveBuffer ?s) = Some (m_ReceiveBuffer ?s, None)"
      using o(2) f by (auto simp: GetWriteBuffer_result unread_def rb_contents_def rb_ok_def)
    then show ?thesis by (simp add: SessionBase_ReadData_def RingBuffer_WriteBuffer_fn_def)
  qed
  have "length (rb_contents (m_ReceiveBuffer ?s)) \<le> RingBufferSize" using o(2) by (auto simp: unread_def rb_contents_def)
  with u o(1) g show ?thesis by (auto simp: Live_readDataFunc_def start_wait_def)
qed

text \<open>One client connects and sends four bytes more than the server has room for.\<close>

theorem silent_servers_witness:
  "\<exists>sv. ssl_server_main (False, False, False, False, False) (0 :: nat, 0)
      [(0, On_handler (Sp_accept False (replicate RingBufferSize CHR ''.'') False (Inr (1, 7)) None)), (1, On_signal)] =
      Some (Service_Stop (Service_ctor 2), sv,
        [''Server started to localhost:51374'', ''Session connected'', ''Control-C received, stopping application''], Inr ()) \<and>
    Live_readDataFunc Ssl_closed SessionHandler_OnDataRead False (RingBufferSize + 4) None 0 sv = Some (start_wait 0 sv, Inr ())"
proof -
  let ?storage = "replicate RingBufferSize CHR ''.''"
  let ?hs = "[(0, On_handler (Sp_accept False ?storage False (Inr (1, 7)) None)), (1, On_signal)]"
  let ?lg = "[''Server started to localhost:51374'', ''Session connected'', ''Control-C received, stopping application'']"
  obtain sv where m: "ssl_server_main (False, False, False, False, False) (0 :: nat, 0) ?hs = Some (Service_Stop (Service_ctor 2), sv, ?lg, Inr ())"
    and l: "live sv 0"
    by (simp add: ssl_server_main_def server_main_def LiveServer_Start_def LiveServer_ctor_def server_program_def accepted_session_def
        LiveServer_Accept_def Live_session_Accept_def SslSession_Accept_def Service_ctor_def Let_def live_def start_wait_def)
  from silent_servers [OF disjI2 [OF refl] m _ l, of "RingBufferSize + 4" Ssl_closed None] m show ?thesis by auto
qed

section \<open>Clients that send until a write fails\<close>

lemma polls_dead: "\<not> m_Waiting t \<Longrightarrow> Timer_polls nows (w, t) = Some (w, t)"
  by (induction nows) (simp_all add: Timer_poll_def)

text \<open>
  A timer whose function may leave it stopped: it calls the function as one that always restarts
  does, up to the first call that does not restart it.
\<close>

definition nth_state :: "('w \<Rightarrow> 'w \<times> bool) \<Rightarrow> nat \<Rightarrow> 'w \<Rightarrow> 'w" where
  "nth_state f n w = ((fst \<circ> f) ^^ n) w"

lemma nth_state_simps [simp]:
  "nth_state f 0 w = w"
  "nth_state f (Suc n) w = nth_state f n (fst (f w))"
  by (simp_all add: nth_state_def funpow_swap1)

lemma nth_state_Suc: "nth_state f (Suc n) w = fst (f (nth_state f n w))"
  by (simp add: nth_state_def)

lemma polls_until:
  "sorted nows \<Longrightarrow> m_TimerFunction t = Some f \<Longrightarrow> m_Timeout t = Some timeout \<Longrightarrow>
   m_Waiting t \<Longrightarrow> m_Expiry t = start + timeout \<Longrightarrow> \<forall>now \<in> set nows. start \<le> now \<Longrightarrow> 0 < timeout \<Longrightarrow>
   \<exists>calls t'. Timer_polls nows (w, t) = Some (nth_state f (length calls) w, t') \<and> set calls \<subseteq> set nows \<and>
     sorted_wrt (\<lambda>a b. a + timeout \<le> b) (start # calls) \<and>
     (\<forall>j. Suc j < length calls \<longrightarrow> snd (f (nth_state f j w))) \<and>
     (\<forall>now \<in> set nows. (\<exists>c \<in> set (start # calls). c \<le> now \<and> now < c + timeout) \<or>
        (\<exists>j. Suc j = length calls \<and> \<not> snd (f (nth_state f j w))))"
proof (induction nows arbitrary: w t start)
  case (Cons now nows)
  show ?case
  proof (cases "m_Expiry t \<le> now")
    case False
    obtain calls t' where IH: "Timer_polls nows (w, t) = Some (nth_state f (length calls) w, t')" "set calls \<subseteq> set nows"
        "sorted_wrt (\<lambda>a b. a + timeout \<le> b) (start # calls)" "\<forall>j. Suc j < length calls \<longrightarrow> snd (f (nth_state f j w))"
        "\<forall>now \<in> set nows. (\<exists>c \<in> set (start # calls). c \<le> now \<and> now < c + timeout) \<or>
          (\<exists>j. Suc j = length calls \<and> \<not> snd (f (nth_state f j w)))"
      using Cons.IH [of t start w] Cons.prems by auto
    from False have "Timer_polls (now # nows) (w, t) = Timer_polls nows (w, t)" by (simp add: Timer_poll_def)
    moreover from False Cons.prems(5,6) have "start \<le> now \<and> now < start + timeout" by simp
    ultimately show ?thesis using IH by (intro exI [of _ calls] exI [of _ t']) auto
  next
    case True
    have le: "start + timeout \<le> now" using True Cons.prems(5) by simp
    show ?thesis
    proof (cases "snd (f w)")
      case dead: False
      have "Timer_poll now (w, t) = Some (fst (f w), t\<lparr>m_Waiting := False\<rparr>)"
        using True Cons.prems dead by (simp add: Timer_poll_def m_TimerHandler_def case_prod_unfold)
      then have "Timer_polls (now # nows) (w, t) = Some (nth_state f (length [now]) w, t\<lparr>m_Waiting := False\<rparr>)"
        by (simp add: polls_dead)
      with le dead show ?thesis by (intro exI [of _ "[now]"] exI [of _ "t\<lparr>m_Waiting := False\<rparr>"]) auto
    next
      case again: True
      let ?t = "Timer_Start_timeout now timeout (t\<lparr>m_Waiting := False\<rparr>)"
      obtain calls t' where IH: "Timer_polls nows (fst (f w), ?t) = Some (nth_state f (length calls) (fst (f w)), t')"
          "set calls \<subseteq> set nows" "sorted_wrt (\<lambda>a b. a + timeout \<le> b) (now # calls)"
          "\<forall>j. Suc j < length calls \<longrightarrow> snd (f (nth_state f j (fst (f w))))"
          "\<forall>now' \<in> set nows. (\<exists>c \<in> set (now # calls). c \<le> now' \<and> now' < c + timeout) \<or>
            (\<exists>j. Suc j = length calls \<and> \<not> snd (f (nth_state f j (fst (f w)))))"
        using Cons.IH [of ?t now "fst (f w)"] Cons.prems by (auto simp: Timer_Start_timeout_def)
      have "Timer_poll now (w, t) = Some (fst (f w), ?t)"
        using True Cons.prems again by (simp add: Timer_poll_def m_TimerHandler_def Timer_Restart_def case_prod_unfold)
      with IH(1) have p: "Timer_polls (now # nows) (w, t) = Some (nth_state f (length (now # calls)) w, t')" by simp
      have "sorted_wrt (\<lambda>a b. a + timeout \<le> b) (start # now # calls)" using le IH(3) Cons.prems(7) by fastforce
      moreover have "snd (f (nth_state f j w))" if "Suc j < length (now # calls)" for j
        using again IH(4) that by (cases j) auto
      moreover have "(\<exists>c \<in> set (start # now # calls). c \<le> now' \<and> now' < c + timeout) \<or>
          (\<exists>j. Suc j = length (now # calls) \<and> \<not> snd (f (nth_state f j w)))" if "now' \<in> set (now # nows)" for now'
      proof (cases "now' = now")
        case True
        with Cons.prems(7) show ?thesis by auto
      next
        case False
        with that IH(5) have "(\<exists>c \<in> set (now # calls). c \<le> now' \<and> now' < c + timeout) \<or>
            (\<exists>j. Suc j = length calls \<and> \<not> snd (f (nth_state f j (fst (f w)))))" by simp
        then show ?thesis
        proof
          assume "\<exists>j. Suc j = length calls \<and> \<not> snd (f (nth_state f j (fst (f w))))"
          then obtain j where "Suc j = length calls" "\<not> snd (f (nth_state f j (fst (f w))))" by blast
          then have "Suc (Suc j) = length (now # calls) \<and> \<not> snd (f (nth_state f (Suc j) w))"
            unfolding nth_state_simps by (simp del: nth_state_simps)
          then show ?thesis by blast
        qed auto
      qed
      ultimately show ?thesis using p IH(2) by (intro exI [of _ "now # calls"] exI [of _ t']) auto
    qed
  qed
qed simp

text \<open>What the write of a call puts on the wire, and whether the timer goes on after it.\<close>

definition written :: "(nat \<Rightarrow> bool \<times> nat) \<Rightarrow> nat \<Rightarrow> string" where
  "written io j = take (snd (io j)) ''blablalbalbalg''"

definition sends_on :: "(nat \<Rightarrow> bool \<times> nat) \<Rightarrow> nat \<Rightarrow> bool" where
  "sends_on io j \<longleftrightarrow> \<not> fst (io j) \<and> written io j \<noteq> []"

text \<open>What the two client programs have in common: a write to an open session, failed or not.\<close>

locale sending_client =
  fixes f :: "'a client_program \<Rightarrow> 'a client_program \<times> bool"
  assumes send_ok: "cl_Session (cp_Client cp) = Some s \<Longrightarrow> is_open s \<Longrightarrow> \<not> fst (cp_Io cp 0) \<Longrightarrow>
      f cp = (cp\<lparr>cp_Wire := cp_Wire cp @ take (snd (cp_Io cp 0)) ''blablalbalbalg'', cp_Io := cp_Io cp \<circ> Suc\<rparr>, 0 < snd (cp_Io cp 0))"
    and send_failed: "cl_Session (cp_Client cp) = Some s \<Longrightarrow> is_open s \<Longrightarrow> fst (cp_Io cp 0) \<Longrightarrow>
      cp_Wire (fst (f cp)) = cp_Wire cp @ take (snd (cp_Io cp 0)) ''blablalbalbalg'' \<and> \<not> snd (f cp)"
begin

lemma sends:
  assumes s: "cl_Session (cp_Client cp) = Some s" "is_open s" and k: "\<forall>j < k. \<not> fst (cp_Io cp j)"
  shows "nth_state f k cp = cp\<lparr>cp_Wire := cp_Wire cp @ concat (map (written (cp_Io cp)) [0..<k]), cp_Io := (\<lambda>j. cp_Io cp (k + j))\<rparr>"
  using k
proof (induction k)
  case (Suc k)
  let ?cp = "cp\<lparr>cp_Wire := cp_Wire cp @ concat (map (written (cp_Io cp)) [0..<k]), cp_Io := (\<lambda>j. cp_Io cp (k + j))\<rparr>"
  from Suc have IH: "nth_state f k cp = ?cp" by simp
  from send_ok [of ?cp s] s Suc.prems
  have "f ?cp = (?cp\<lparr>cp_Wire := cp_Wire ?cp @ take (snd (cp_Io cp k)) ''blablalbalbalg'', cp_Io := cp_Io ?cp \<circ> Suc\<rparr>, 0 < snd (cp_Io cp k))"
    by simp
  moreover have "written (cp_Io cp) k = take (snd (cp_Io cp k)) ''blablalbalbalg''" using Suc.prems by (simp add: written_def)
  moreover have "(\<lambda>j. cp_Io cp (k + j)) \<circ> Suc = (\<lambda>j. cp_Io cp (Suc k + j))" by (simp add: fun_eq_iff)
  ultimately show ?case by (simp add: nth_state_Suc IH del: nth_state_simps(2))
qed simp

text \<open>
  The calls of the timer: as long as each has written something without an error. What is on the
  wire is what the calls have written.
\<close>

lemma sends_until:
  assumes n: "sorted nows" "\<forall>now \<in> set nows. start \<le> now" and s: "cl_Session (cp_Client cp) = Some s" "is_open s"
    and w: "cp_Wire cp = []"
  shows "\<exists>calls cp' t'. Timer_polls nows (cp, Timer_Start start f 1000 t) = Some (cp', t') \<and> set calls \<subseteq> set nows \<and>
    sorted_wrt (\<lambda>a b. a + 1000 \<le> b) (start # calls) \<and>
    cp_Wire cp' = concat (map (written (cp_Io cp)) [0..<length calls]) \<and>
    (\<forall>j. Suc j < length calls \<longrightarrow> sends_on (cp_Io cp) j) \<and>
    (\<forall>now \<in> set nows. (\<exists>c \<in> set (start # calls). c \<le> now \<and> now < c + 1000) \<or>
       (\<exists>j. Suc j = length calls \<and> \<not> sends_on (cp_Io cp) j))"
proof -
  let ?t = "Timer_Start start f 1000 t" and ?io = "cp_Io cp"
  obtain calls t' where p: "Timer_polls nows (cp, ?t) = Some (nth_state f (length calls) cp, t')" "set calls \<subseteq> set nows"
      "sorted_wrt (\<lambda>a b. a + 1000 \<le> b) (start # calls)" "\<forall>j. Suc j < length calls \<longrightarrow> snd (f (nth_state f j cp))"
      "\<forall>now \<in> set nows. (\<exists>c \<in> set (start # calls). c \<le> now \<and> now < c + 1000) \<or>
         (\<exists>j. Suc j = length calls \<and> \<not> snd (f (nth_state f j cp)))"
    using polls_until [OF n(1) _ _ _ _ n(2), of ?t f 1000 cp] by (auto simp: Timer_Start_def Timer_Start_timeout_def)
  have again: "snd (f (nth_state f j cp)) \<longleftrightarrow> sends_on ?io j" if "\<forall>i < j. \<not> fst (?io i)" for j
    using sends [OF s that] send_ok [of "nth_state f j cp" s] send_failed [of "nth_state f j cp" s] s
    by (cases "fst (?io j)") (auto simp: sends_on_def written_def)
  have ok: "\<not> fst (?io j)" if "Suc j < length calls" for j
    using that
  proof (induction j rule: less_induct)
    case (less j)
    then have "\<forall>i < j. \<not> fst (?io i)" by simp
    with again p(4) less.prems have "sends_on ?io j" by blast
    then show ?case by (simp add: sends_on_def)
  qed
  have w': "cp_Wire (nth_state f (length calls) cp) = concat (map (written ?io) [0..<length calls])"
  proof (cases "length calls")
    case (Suc k)
    have k: "\<forall>j < k. \<not> fst (?io j)" using ok Suc by simp
    note e = sends [OF s k]
    show ?thesis
      unfolding Suc nth_state_Suc
      using e send_ok [of "nth_state f k cp" s] send_failed [of "nth_state f k cp" s] s w
      by (cases "fst (?io k)") (auto simp: written_def)
  qed (simp add: w)
  have "\<forall>j. Suc j < length calls \<longrightarrow> sends_on ?io j"
    using p(4) ok again by (meson Suc_lessD less_trans_Suc)
  moreover have "\<forall>now \<in> set nows. (\<exists>c \<in> set (start # calls). c \<le> now \<and> now < c + 1000) \<or>
       (\<exists>j. Suc j = length calls \<and> \<not> sends_on ?io j)"
    using p(5) ok again by (metis Suc_less_eq)
  ultimately show ?thesis using p(1-3) w'
    by (intro exI [of _ calls] exI [of _ "nth_state f (length calls) cp"] exI [of _ t']) simp
qed

end

interpretation tcp_sender: sending_client tcp_client_timerFn
  by unfold_locales
     (auto simp: tcp_client_timerFn_def TcpSocketClient_SendSocketData_def SessionBase_SendData_def HandleClosedSocket_def
        TcpSocketClient_closed_def on_wire_def)

interpretation ssl_sender: sending_client ssl_client_timerFn
  by unfold_locales
     (auto simp: ssl_client_timerFn_def SslSocketClient_SendSocketData_def SessionBase_SendData_def HandleClosedSocket_def
        SslSocketClient_closed_def on_wire_def)

text \<open>
  C33: The TCP and the TLS client program write their text about once a millisecond, until the first
  write that fails or writes nothing: at any time the service looks at the timer, less than a
  millisecond has passed since the last write, or the last write failed or wrote nothing and there
  is no further one. On the wire is what the writes have put there, in order, with the part of a
  text that went out before its write failed. Nobody is told then, and the program goes on without
  sending.
\<close>

theorem clients_send_until_failure:
  assumes "tcp_client_main start ep0 remote storage resolveFailed connectFailed io = Some (cp, t) \<or>
      ssl_client_main start ep0 remote storage resolveFailed connectFailed handshakeFailed io = Some (cp, t)"
    and "sorted nows" and "\<forall>now \<in> set nows. start \<le> now"
  shows "\<exists>calls cp' t'. Timer_polls nows (cp, t) = Some (cp', t') \<and> set calls \<subseteq> set nows \<and>
    sorted_wrt (\<lambda>a b. a + 1000 \<le> b) (start # calls) \<and>
    cp_Wire cp' = concat (map (written io) [0..<length calls]) \<and>
    (\<forall>j. Suc j < length calls \<longrightarrow> sends_on io j) \<and>
    (\<forall>now \<in> set nows. (\<exists>c \<in> set (start # calls). c \<le> now \<and> now < c + 1000) \<or>
       (\<exists>j. Suc j = length calls \<and> \<not> sends_on io j))"
  using assms(1)
proof
  assume a: "tcp_client_main start ep0 remote storage resolveFailed connectFailed io = Some (cp, t)"
  then have "cl_Session (cp_Client cp) = Some (client_session remote True storage)" "cp_Wire cp = []" "cp_Io cp = io"
    "t = Timer_Start start tcp_client_timerFn 1000 Timer_ctor"
    by (auto simp: tcp_client_main_def TcpSocketClient_Start_def TcpSession_Connect_def Let_def split: if_splits)
  with tcp_sender.sends_until [OF assms(2,3), of cp] show ?thesis by (simp add: client_session_def)
next
  assume a: "ssl_client_main start ep0 remote storage resolveFailed connectFailed handshakeFailed io = Some (cp, t)"
  then have "cl_Session (cp_Client cp) = Some (client_session remote True storage)" "cp_Wire cp = []" "cp_Io cp = io"
    "t = Timer_Start start ssl_client_timerFn 1000 Timer_ctor"
    by (auto simp: ssl_client_main_def SslSocketClient_Start_def SslSession_Connect_def Let_def split: if_splits)
  with ssl_sender.sends_until [OF assms(2,3), of cp] show ?thesis by (simp add: client_session_def)
qed

theorem clients_send_until_failure_witness:
  "\<exists>cp t calls cp' t'. tcp_client_main 0 (0 :: nat, 0) (1, 6543) [] False False (\<lambda>j. (j = 2, if j = 2 then 5 else 14)) = Some (cp, t) \<and>
    Timer_polls [1000, 1500, 2100, 3200, 9000] (cp, t) = Some (cp', t') \<and> sorted_wrt (\<lambda>a b. a + 1000 \<le> b) (0 # calls :: int list) \<and>
    cp_Wire cp' = concat (map (written (\<lambda>j. (j = 2, if j = 2 then 5 else 14))) [0..<length calls])"
proof -
  obtain cp t where m: "tcp_client_main 0 (0 :: nat, 0) (1, 6543) [] False False (\<lambda>j. (j = 2, if j = 2 then 5 else 14)) = Some (cp, t)"
    by (auto simp: tcp_client_main_def TcpSocketClient_Start_def TcpSession_Connect_def Let_def)
  have n: "sorted [1000, 1500, 2100, 3200, 9000 :: int]" "\<forall>now \<in> set [1000, 1500, 2100, 3200, 9000 :: int]. 0 \<le> now" by simp_all
  from clients_send_until_failure [OF disjI1 [OF m] n] m show ?thesis by blast
qed

end
