(* ===== verification/WsPrograms.thy ===== *)
theory WsPrograms
  imports SocketPrograms
begin

text \<open>
  The example programs around the web socket client and server of \<open>socket\<close>. The session handler
  of the client stops the service when its session is closed.
\<close>

section \<open>The client\<close>

definition WsClient_SessionHandler :: "'a callback \<Rightarrow> Service \<Rightarrow> Service \<times> string" where
  "WsClient_SessionHandler c service =
     (case c of
        OnDataRead ep msg \<Rightarrow> (service, ''Received data'')
      | OnSessionConnected ep \<Rightarrow> (service, ''Session connected'')
      | OnSessionClosed ep \<Rightarrow> (Service_Stop service, ''Session closed''))"

fun tell :: "'a callback list \<Rightarrow> Service \<Rightarrow> Service \<times> string list" where
  "tell [] service = (service, [])"
| "tell (c # cs) service =
     (case WsClient_SessionHandler c service of
        (service1, l) \<Rightarrow> (case tell cs service1 of (service2, ls) \<Rightarrow> (service2, l # ls)))"

text \<open>
  The handlers of the program: a read ends with a message or an error, a control frame arrives, the
  two timers call their functions. \<open>wc_Armed\<close> says that the timer that sends was started again;
  it sends the count of the clock.
\<close>

datatype wc_handler =
    Wc_read "string option"
  | Wc_control frame_type bool
  | Wc_ping bool
  | Wc_send bool int

record 'a ws_client_program =
  wc_Client :: "'a socket_client"
  wc_Wire :: "string list"
  wc_Armed :: bool

definition ws_client_timerFn :: "bool \<Rightarrow> int \<Rightarrow> 'a ws_client_program \<Rightarrow> 'a ws_client_program option" where
  "ws_client_timerFn failed ticks cp =
     (let strm = ''Time point:'' @ to_string ticks
      in case WsSocketClient_SendWebSocketData failed (wc_Client cp) of
           None \<Rightarrow> None
         | Some n \<Rightarrow> Some (if n > 0 then cp\<lparr>wc_Wire := wc_Wire cp @ [strm]\<rparr> else cp\<lparr>wc_Armed := False\<rparr>))"

fun wc_client :: "wc_handler \<Rightarrow> 'a session \<Rightarrow> 'a socket_client \<Rightarrow> 'a socket_client" where
  "wc_client (Wc_read r) s cl =
     (case WsSession_ReadData r s of
        (calls, closed, again) \<Rightarrow>
          let cl1 = cl\<lparr>cl_Calls := cl_Calls cl @ calls\<rparr>
          in if closed then WsSocketClient_closed (m_RemoteEndpoint s) cl1 else cl1)"
| "wc_client (Wc_control kind pongFailed) s cl =
     (if WsSession_HandleControlCallback pongFailed kind then WsSocketClient_closed (m_RemoteEndpoint s) cl else cl)"
| "wc_client (Wc_ping failed) s cl = fst (fst (WsSocketClient_SendPingRequest (cl, \<lambda>_. failed)))"
| "wc_client (Wc_send failed ticks) s cl = cl"

definition ws_client_program ::
  "wc_handler \<Rightarrow> Service \<times> 'a ws_client_program \<Rightarrow> (Service \<times> 'a ws_client_program \<times> string list \<times> unit throws) option" where
  "ws_client_program h st =
     (case st of (service, cp) \<Rightarrow>
        case h of
          Wc_send failed ticks \<Rightarrow>
            if wc_Armed cp then map_option (\<lambda>cp1. (service, cp1, [], Inr ())) (ws_client_timerFn failed ticks cp)
            else Some (service, cp, [], Inr ())
        | _ \<Rightarrow>
            (case cl_Session (wc_Client cp) of
               None \<Rightarrow> None
             | Some s \<Rightarrow>
                 let cl = wc_client h s (wc_Client cp);
                     (service1, ls) = tell (drop (length (cl_Calls (wc_Client cp))) (cl_Calls cl)) service
                 in Some (service1, cp\<lparr>wc_Client := cl\<rparr>, ls, Inr ())))"

definition ws_client_main ::
  "int \<Rightarrow> 'a endpoint \<Rightarrow> 'a endpoint \<Rightarrow> string \<Rightarrow> bool \<times> bool \<times> bool \<times> bool \<times> bool \<Rightarrow> (nat \<times> wc_handler main_handler) list \<Rightarrow>
   (Service \<times> 'a ws_client_program \<times> string list \<times> unit throws) option" where
  "ws_client_main now default_ep remote storage start hs =
     (case start of (resolveFailed, connectFailed, handshakeFailed, secondHandshakeFailed, wsHandshakeFailed) \<Rightarrow>
        case WsSocketClient_Start now default_ep remote storage resolveFailed connectFailed handshakeFailed secondHandshakeFailed
               wsHandshakeFailed (SocketClient_ctor, Timer_ctor) of
          ((cl, t), ok) \<Rightarrow>
            let (service, ls) = tell (cl_Calls cl) (Service_ctor 2);
                cp = \<lparr>wc_Client = cl, wc_Wire = [], wc_Armed = ok\<rparr>
            in if ok then main_Run ws_client_program hs (service, cp, ls @ [''Client connected to 127.0.0.1:6543''])
               else Some (service, cp, ls, Inr ()))"

text \<open>The handlers that close the session.\<close>

fun wc_closes :: "wc_handler \<Rightarrow> bool" where
  "wc_closes (Wc_read r) \<longleftrightarrow> r = None"
| "wc_closes (Wc_control kind pongFailed) \<longleftrightarrow> kind = Frame_close \<or> kind = Frame_ping \<and> pongFailed"
| "wc_closes (Wc_ping failed) \<longleftrightarrow> failed"
| "wc_closes (Wc_send failed ticks) \<longleftrightarrow> False"

fun wc_keeps :: "nat \<times> wc_handler main_handler \<Rightarrow> bool" where
  "wc_keeps (thread, On_signal) \<longleftrightarrow> False"
| "wc_keeps (thread, On_handler h) \<longleftrightarrow> \<not> wc_closes h"

lemma program_closes:
  assumes "cl_Session (wc_Client cp) = Some s" and "wc_closes h"
  shows "\<exists>cp'. ws_client_program h (service, cp) = Some (Service_Stop service, cp', [''Session closed''], Inr ()) \<and> wc_Wire cp' = wc_Wire cp"
  using assms
  by (cases h; cases "case h of Wc_control kind _ \<Rightarrow> kind | _ \<Rightarrow> Frame_pong")
     (auto simp: ws_client_program_def WsSession_ReadData_def WsSocketClient_closed_def WsSocketClient_SendPingRequest_def
        WsSession_SendPingRequest_def WsSession_SendPongReply_def WsClient_SessionHandler_def Let_def)

lemma program_keeps:
  assumes "cl_Session (wc_Client cp) = Some s" and "\<not> wc_closes h"
  shows "\<exists>cp' ls. ws_client_program h (service, cp) = Some (service, cp', ls, Inr ()) \<and> cl_Session (wc_Client cp') = Some s \<and>
    ''Session closed'' \<notin> set ls"
proof (cases h)
  case (Wc_control kind pongFailed)
  with assms show ?thesis
    by (cases kind) (auto simp: ws_client_program_def WsSession_SendPongReply_def Let_def)
qed (use assms in \<open>auto simp: ws_client_program_def ws_client_timerFn_def WsSession_ReadData_def WsSocketClient_SendWebSocketData_def
        WsSocketClient_SendPingRequest_def WsSession_SendPingRequest_def WsClient_SessionHandler_def Let_def\<close>)

lemma run_keeps:
  "cl_Session (wc_Client cp) = Some s \<Longrightarrow> \<not> m_Stopped service \<Longrightarrow> list_all wc_keeps hs \<Longrightarrow> ''Session closed'' \<notin> set lg \<Longrightarrow>
   \<exists>cp' lg'. main_Run ws_client_program (hs @ hs') (service, cp, lg) = main_Run ws_client_program hs' (service, cp', lg') \<and>
     cl_Session (wc_Client cp') = Some s \<and> ''Session closed'' \<notin> set lg'"
proof (induction hs arbitrary: cp lg)
  case (Cons th hs)
  then obtain thread h where th: "th = (thread, On_handler h)" and h: "\<not> wc_closes h"
    by (cases th rule: wc_keeps.cases) auto
  from program_keeps [OF Cons.prems(1) h, of service] obtain cp1 ls where
    p: "ws_client_program h (service, cp) = Some (service, cp1, ls, Inr ())" "cl_Session (wc_Client cp1) = Some s"
      "''Session closed'' \<notin> set ls" by blast
  from Cons.IH [OF p(2) Cons.prems(2), of "lg @ ls"] Cons.prems p show ?case by (simp add: th)
qed (auto intro: exI [of _ cp])

text \<open>
  The web socket client program ends at the first sign that its session is closed: a failed read,
  a close frame, a pong or a ping that cannot be sent. It says so once, and no handler
  runs afterwards.
\<close>

theorem ws_client_stops_at_close:
  assumes "list_all wc_keeps hs" and "wc_closes h"
  shows "\<exists>cp lg. ws_client_main now ep0 remote storage (False, False, False, False, False) (hs @ (thread, On_handler h) # hs') =
      Some (Service_Stop (Service_ctor 2), cp, lg @ [''Session closed''], Inr ()) \<and> ''Session closed'' \<notin> set lg"
proof -
  let ?s = "(client_session remote False storage)\<lparr>is_open := True\<rparr>"
  let ?cl = "\<lparr>cl_Session = Some ?s, cl_Calls = [OnSessionConnected remote], cl_Target = ''/''\<rparr>"
  let ?cp = "\<lparr>wc_Client = ?cl, wc_Wire = [], wc_Armed = True\<rparr>"
  let ?lg = "[''Session connected'', ''Client connected to 127.0.0.1:6543'']"
  have m: "ws_client_main now ep0 remote storage (False, False, False, False, False) es =
      main_Run ws_client_program es (Service_ctor 2, ?cp, ?lg)" for es
    by (simp add: ws_client_main_def WsSocketClient_Start_def WsSession_Connect_def SocketClient_ctor_def client_session_def
        WsClient_SessionHandler_def Let_def)
  have "\<not> m_Stopped (Service_ctor 2)" by (simp add: Service_ctor_def)
  with run_keeps [of ?cp ?s "Service_ctor 2" hs ?lg "(thread, On_handler h) # hs'"] assms(1)
  obtain cp' lg' where r: "main_Run ws_client_program (hs @ (thread, On_handler h) # hs') (Service_ctor 2, ?cp, ?lg) =
      main_Run ws_client_program ((thread, On_handler h) # hs') (Service_ctor 2, cp', lg')"
    "cl_Session (wc_Client cp') = Some ?s" "''Session closed'' \<notin> set lg'" by auto
  from program_closes [OF r(2) assms(2), of "Service_ctor 2"] obtain cp2 where
    "ws_client_program h (Service_ctor 2, cp') = Some (Service_Stop (Service_ctor 2), cp2, [''Session closed''], Inr ())" by blast
  moreover have "main_Run ws_client_program hs' (Service_Stop (Service_ctor 2), cp2, l) =
      Some (Service_Stop (Service_ctor 2), cp2, l, Inr ())" for l by (cases hs') (auto simp: split_paired_all)
  ultimately show ?thesis using r by (auto simp: m Service_ctor_def)
qed

theorem ws_client_stops_at_close_witness:
  "\<exists>cp lg. ws_client_main 0 (0, 0) (1 :: nat, 6543) [] (False, False, False, False, False)
      ([(0, On_handler (Wc_read (Some ''hello''))), (1, On_handler (Wc_send False 17))] @ (1, On_handler (Wc_ping True)) # [(0, On_handler (Wc_read None))]) =
      Some (Service_Stop (Service_ctor 2), cp, lg @ [''Session closed''], Inr ()) \<and> ''Session closed'' \<notin> set lg"
  by (rule ws_client_stops_at_close) simp_all

section \<open>The server\<close>

text \<open>
  The session handler of the server logs the message and the count of the clock. The handlers of
  the program are those of the server without its sends; a new session is made for the accepted
  socket.
\<close>

fun WsServer_SessionHandler :: "int \<Rightarrow> 'a callback \<Rightarrow> string" where
  "WsServer_SessionHandler ticks (OnDataRead ep s) = ''Received data '' @ s @ '' '' @ to_string ticks"
| "WsServer_SessionHandler ticks (OnSessionConnected ep) = ''Session connected''"
| "WsServer_SessionHandler ticks (OnSessionClosed ep) = ''Session closed''"

datatype 'a ws_server_handler =
    Sw_accept bool bool string bool "'a endpoint throws" "cpp_exn option"
  | Sw_complete nat bool
  | Sw_control nat frame_type bool bool
  | Sw_run nat string
  | Sw_ping "'a endpoint \<Rightarrow> bool \<times> bool"

fun ws_server_event :: "'a endpoint \<Rightarrow> 'a ws_server_handler \<Rightarrow> 'a ws_live_event" where
  "ws_server_event ep0 (Sw_accept handshakeFailed acceptFailed storage failed remote gone) =
     Wl_accept handshakeFailed acceptFailed (accepted_session storage ep0) failed remote gone"
| "ws_server_event ep0 (Sw_complete i failed) = Wl_complete i failed"
| "ws_server_event ep0 (Sw_control i kind pongFailed stillOpen) = Wl_control i kind pongFailed stillOpen"
| "ws_server_event ep0 (Sw_run k msg) = Wl_run k msg"
| "ws_server_event ep0 (Sw_ping io) = Wl_ping io"

definition ws_server_program ::
  "'a::linorder endpoint \<Rightarrow> int \<times> 'a ws_server_handler \<Rightarrow> Service \<times> 'a LiveServer \<Rightarrow>
   (Service \<times> 'a LiveServer \<times> string list \<times> unit throws) option" where
  "ws_server_program ep0 h st =
     (case (h, st) of ((ticks, e), (service, sv)) \<Rightarrow>
        if wl_enabled (ws_server_event ep0 e) sv then
          (case wl_handle (ws_server_event ep0 e) sv of
             None \<Rightarrow> None
           | Some (sv1, res) \<Rightarrow>
               Some (service, sv1, map (WsServer_SessionHandler ticks) (drop (length (lv_Calls sv)) (lv_Calls sv1)), res))
        else Some (service, sv, [], Inr ()))"

definition ws_server_main ::
  "bool \<times> bool \<times> bool \<times> bool \<times> bool \<Rightarrow> 'a::linorder endpoint \<Rightarrow> (nat \<times> (int \<times> 'a ws_server_handler) main_handler) list \<Rightarrow>
   (Service \<times> 'a LiveServer \<times> string list \<times> unit throws) option" where
  "ws_server_main start ep0 hs =
     (case start of (resolveFailed, openFailed, optionFailed, bindFailed, listenFailed) \<Rightarrow>
        case LiveServer_Start resolveFailed openFailed optionFailed bindFailed listenFailed (LiveServer_ctor (accepted_session [] ep0)) of
          (sv, ok) \<Rightarrow>
            if ok then main_Run (ws_server_program ep0) hs (Service_ctor 2, sv, [''Server started to 127.0.0.1:6543''])
            else Some (Service_ctor 2, sv, [], Inr ()))"

text \<open>A client connects, sends messages, and closes its web socket; any thread runs the handlers.\<close>

definition ws_connects :: "nat \<Rightarrow> 'a endpoint \<Rightarrow> nat \<times> (int \<times> 'a ws_server_handler) main_handler" where
  "ws_connects thread ep = (thread, On_handler (0, Sw_accept False False [] False (Inr ep) None))"

text \<open>
  What happens while it is connected: it says something, the server pings it, it pings the server
  or answers a ping; no ping or pong fails.
\<close>

datatype ws_item = Says nat string int | Pings nat | Pinged nat | Ponged nat

fun ws_talks :: "ws_item \<Rightarrow> (nat \<times> (int \<times> 'a ws_server_handler) main_handler) list" where
  "ws_talks (Says thread msg ticks) =
     [(thread, On_handler (ticks, Sw_complete 0 False)), (thread, On_handler (ticks, Sw_run 0 msg))]"
| "ws_talks (Pings thread) = [(thread, On_handler (0, Sw_ping (\<lambda>_. (False, True))))]"
| "ws_talks (Pinged thread) = [(thread, On_handler (0, Sw_control 0 Frame_ping False True))]"
| "ws_talks (Ponged thread) = [(thread, On_handler (0, Sw_control 0 Frame_pong False True))]"

fun ws_logged :: "ws_item \<Rightarrow> string list" where
  "ws_logged (Says thread msg ticks) = [''Received data '' @ msg @ '' '' @ to_string ticks]"
| "ws_logged _ = []"

text \<open>
  The close of the web socket: the close frame, then the removal of the session and the handler of
  the read that met it, in this order; and with the handler of the read before the removal.
\<close>

definition ws_leaves :: "nat \<Rightarrow> nat \<Rightarrow> nat \<Rightarrow> (nat \<times> (int \<times> 'a ws_server_handler) main_handler) list" where
  "ws_leaves t1 t2 t3 =
     [(t1, On_handler (0, Sw_control 0 Frame_close False False)), (t2, On_handler (0, Sw_run 0 [])), (t3, On_handler (0, Sw_run 0 []))]"

definition ws_leaves_read_first :: "nat \<Rightarrow> nat \<Rightarrow> nat \<Rightarrow> nat \<Rightarrow> nat \<Rightarrow> (nat \<times> (int \<times> 'a ws_server_handler) main_handler) list" where
  "ws_leaves_read_first t1 t2 t3 t4 t5 =
     [(t1, On_handler (0, Sw_control 0 Frame_close False False)), (t2, On_handler (0, Sw_complete 0 True)),
      (t3, On_handler (0, Sw_run 1 [])), (t4, On_handler (0, Sw_run 0 [])), (t5, On_handler (0, Sw_run 0 []))]"

definition ws_served :: "'a endpoint \<Rightarrow> 'a LiveServer \<Rightarrow> bool" where
  "ws_served ep sv \<longleftrightarrow>
     lv_Sessions sv = [(ep, 0)] \<and> lv_Waits sv 0 = 1 \<and> lv_Ready sv = [] \<and> lv_Fresh sv = 1 \<and>
     is_open (lv_Heap sv 0) \<and> m_RemoteEndpoint (lv_Heap sv 0) = ep"

lemma running: "\<not> m_Stopped (Service_ctor 2)"
  by (simp add: Service_ctor_def)

lemma ws_main_connects:
  "\<exists>sv. ws_server_main (False, False, False, False, False) ep0 (ws_connects thread ep # hs) =
      main_Run (ws_server_program ep0) hs (Service_ctor 2, sv, [''Server started to 127.0.0.1:6543'', ''Session connected'']) \<and>
    ws_served ep sv"
  by (simp add: ws_server_main_def ws_connects_def ws_server_program_def ws_served_def running accepted_session_def
      WsLive_Accept_def WsSession_Accept_def live_eval) (rule exI, rule conjI, rule refl, simp)

lemma ws_run_talk:
  assumes "ws_served ep sv"
  shows "\<exists>sv'. main_Run (ws_server_program ep0) (ws_talks m @ hs) (Service_ctor 2, sv, lg) =
      main_Run (ws_server_program ep0) hs (Service_ctor 2, sv', lg @ ws_logged m) \<and> ws_served ep sv'"
proof (cases m)
  case (Says thread msg ticks)
  let ?sv1 = "sv\<lparr>lv_Waits := (lv_Waits sv)(0 := 0), lv_Ready := [Ready_read 0 False]\<rparr>"
  let ?sv2 = "start_wait 0 (sv\<lparr>lv_Waits := (lv_Waits sv)(0 := 0), lv_Calls := lv_Calls sv @ [OnDataRead ep msg]\<rparr>)"
  have l: "live sv 0" using assms by (simp add: ws_served_def live_def)
  have "ws_server_program ep0 (ticks, Sw_complete 0 False) (Service_ctor 2, sv) = Some (Service_ctor 2, ?sv1, [], Inr ())"
    using assms by (simp add: ws_server_program_def ws_served_def)
  moreover have "ws_server_program ep0 (ticks, Sw_run 0 msg) (Service_ctor 2, ?sv1) =
      Some (Service_ctor 2, ?sv2, [''Received data '' @ msg @ '' '' @ to_string ticks], Inr ())"
    using assms l
    by (simp add: ws_server_program_def ws_served_def Wl_readDataFunc_def WsSession_ReadData_def take_ready_def Let_def)
  moreover have "ws_served ep ?sv2" using assms by (simp add: ws_served_def)
  ultimately show ?thesis by (intro exI [of _ ?sv2]) (simp add: Says running)
next
  case (Pings thread)
  have "ws_server_program ep0 (0, Sw_ping (\<lambda>_. (False, True))) (Service_ctor 2, sv) = Some (Service_ctor 2, sv, [], Inr ())"
    using assms
    by (simp add: ws_server_program_def ws_served_def WsLive_SendPingRequest_def Wl_SendPingRequest_def WsSession_SendPingRequest_def)
  with assms show ?thesis by (intro exI [of _ sv]) (simp add: Pings running)
next
  case (Pinged thread)
  have "ws_server_program ep0 (0, Sw_control 0 Frame_ping False True) (Service_ctor 2, sv) = Some (Service_ctor 2, sv, [], Inr ())"
    using assms
    by (simp add: ws_server_program_def ws_served_def live_def Wl_HandleControlCallback_def WsSession_SendPongReply_def)
  with assms show ?thesis by (intro exI [of _ sv]) (simp add: Pinged running)
next
  case (Ponged thread)
  have "ws_server_program ep0 (0, Sw_control 0 Frame_pong False True) (Service_ctor 2, sv) = Some (Service_ctor 2, sv, [], Inr ())"
    using assms by (simp add: ws_server_program_def ws_served_def live_def Wl_HandleControlCallback_def)
  with assms show ?thesis by (intro exI [of _ sv]) (simp add: Ponged running)
qed

lemma ws_run_talks:
  "ws_served ep sv \<Longrightarrow>
   \<exists>sv'. main_Run (ws_server_program ep0) (concat (map ws_talks ms) @ hs) (Service_ctor 2, sv, lg) =
      main_Run (ws_server_program ep0) hs (Service_ctor 2, sv', lg @ concat (map ws_logged ms)) \<and> ws_served ep sv'"
proof (induction ms arbitrary: sv lg)
  case (Cons m ms)
  obtain sv1 where "main_Run (ws_server_program ep0) (ws_talks m @ concat (map ws_talks ms) @ hs) (Service_ctor 2, sv, lg) =
      main_Run (ws_server_program ep0) (concat (map ws_talks ms) @ hs) (Service_ctor 2, sv1, lg @ ws_logged m)" "ws_served ep sv1"
    using ws_run_talk [OF Cons.prems] by blast
  with Cons.IH [of sv1 "lg @ ws_logged m"] show ?case by simp
qed (auto intro: exI [of _ sv])

lemma ws_run_leaves:
  assumes "ws_served ep sv"
  shows "main_Run (ws_server_program ep0) (ws_leaves t1 t2 t3 @ hs) (Service_ctor 2, sv, lg) = None"
proof -
  let ?sv1 = "set_open False 0 (Ssl_closed ep sv)"
  have l: "live sv 0" using assms by (simp add: ws_served_def live_def)
  have c: "ws_server_program ep0 (0, Sw_control 0 Frame_close False False) (Service_ctor 2, sv) = Some (Service_ctor 2, ?sv1, [], Inr ())"
    using assms l by (simp add: ws_server_program_def ws_served_def Wl_HandleControlCallback_def Ssl_closed_def)
  have i: "wl_inv ?sv1" and f: "smap_find endpoint_less ep (lv_Sessions ?sv1) = Some 0"
    using assms by (auto simp: ws_served_def wl_inv_def live_def Ssl_closed_def endpoints.lt_irrefl)
  have "lv_Waits ?sv1 0 = 1" "\<not> is_open (lv_Heap ?sv1 0)" "lv_Ready ?sv1 = [Ready_remove ep]"
    using assms by (simp_all add: ws_served_def Ssl_closed_def)
  from remove_dangles [OF i f this, of "[]"] obtain sv2 where
    s: "wl_run [Wl_run 0 []] ?sv1 = Some sv2" "lv_Ready sv2 = [Ready_read 0 True]" "wl_handle (Wl_run 0 []) sv2 = None" by blast
  then have "wl_handle (Wl_run 0 []) ?sv1 = Some (sv2, Inr ())" and "wl_enabled (Wl_run 0 []) ?sv1"
    by (auto simp del: wl_handle.simps wl_enabled.simps split: if_splits option.splits sum.splits)
  with s show ?thesis
    by (simp add: ws_leaves_def c running ws_server_program_def [of _ "(0, Sw_run 0 [])"] del: wl_handle.simps)
qed

lemma remove_only:
  assumes "lv_Sessions sv = [(ep, 0)]" and "lv_Waits sv 0 = 0" and "\<not> is_open (lv_Heap sv 0)"
  shows "lv_Sessions (Live_removeSessionFn ep sv) = [] \<and> lv_Ready (Live_removeSessionFn ep sv) = lv_Ready sv \<and>
    lv_Calls (Live_removeSessionFn ep sv) = lv_Calls sv @ [OnSessionClosed ep]"
  using assms
  by (simp add: Live_removeSessionFn_def LiveServer_CheckClosedSessions_def erase_session_def cancel_waits_def endpoints.lt_irrefl Let_def)

lemma ws_run_leaves_read_first:
  assumes "ws_served ep sv"
  shows "\<exists>sv'. main_Run (ws_server_program ep0) (ws_leaves_read_first t1 t2 t3 t4 t5) (Service_ctor 2, sv, lg) =
      Some (Service_ctor 2, sv', lg @ [''Session closed'', ''Session closed''], Inr ()) \<and> lv_Sessions sv' = [] \<and> lv_Ready sv' = []"
proof -
  have l: "live sv 0" using assms by (simp add: ws_served_def live_def)
  let ?sv1 = "set_open False 0 (Ssl_closed ep sv)"
  let ?sv2 = "?sv1\<lparr>lv_Waits := (lv_Waits sv)(0 := 0), lv_Ready := [Ready_remove ep, Ready_read 0 True]\<rparr>"
  let ?sv3 = "?sv2\<lparr>lv_Ready := [Ready_remove ep, Ready_remove ep]\<rparr>"
  have c: "ws_server_program ep0 (0, Sw_control 0 Frame_close False False) (Service_ctor 2, sv) = Some (Service_ctor 2, ?sv1, [], Inr ())"
    using assms l by (simp add: ws_server_program_def ws_served_def Wl_HandleControlCallback_def Ssl_closed_def)
  have d: "ws_server_program ep0 (0, Sw_complete 0 True) (Service_ctor 2, ?sv1) = Some (Service_ctor 2, ?sv2, [], Inr ())"
    using assms by (simp add: ws_server_program_def ws_served_def Ssl_closed_def)
  have e: "ws_server_program ep0 (0, Sw_run 1 []) (Service_ctor 2, ?sv2) = Some (Service_ctor 2, ?sv3, [], Inr ())"
    using assms l
    by (simp add: ws_server_program_def ws_served_def Wl_readDataFunc_def WsSession_ReadData_def take_ready_def Ssl_closed_def live_def Let_def)
  let ?r3 = "?sv3\<lparr>lv_Ready := [Ready_remove ep]\<rparr>"
  obtain sv4 where sv4: "Live_removeSessionFn ep ?r3 = sv4" "lv_Sessions sv4 = []" "lv_Ready sv4 = [Ready_remove ep]"
      "lv_Calls sv4 = lv_Calls sv @ [OnSessionClosed ep]"
    using remove_only [of ?r3 ep] assms by (simp add: ws_served_def Ssl_closed_def)
  have f: "ws_server_program ep0 (0, Sw_run 0 []) (Service_ctor 2, ?sv3) = Some (Service_ctor 2, sv4, [''Session closed''], Inr ())"
    using sv4 by (simp add: ws_server_program_def take_ready_def Ssl_closed_def)
  have g: "ws_server_program ep0 (0, Sw_run 0 []) (Service_ctor 2, sv4) =
      Some (Service_ctor 2, sv4\<lparr>lv_Ready := [], lv_Calls := lv_Calls sv4 @ [OnSessionClosed ep]\<rparr>, [''Session closed''], Inr ())"
    using sv4(2,3)
    by (simp add: ws_server_program_def take_ready_def Live_removeSessionFn_def LiveServer_CheckClosedSessions_def)
  from sv4(2) e f show ?thesis by (simp add: ws_leaves_read_first_def c d g running)
qed

text \<open>
  C32: The web socket server program with one client, whose messages come one after the other with
  successful pings and pongs of either side between them: it logs every message, in order and with
  the count of its clock. When the client then closes its web socket and the removal of the session
  runs before the handler of the read that met the close frame, the program uses the session it has
  destroyed; when that handler runs before the removal, the session is removed once and the close
  is logged twice.
\<close>

theorem ws_server_until_close:
  "(\<exists>sv. ws_server_main (False, False, False, False, False) ep0 (ws_connects thread ep # concat (map ws_talks ms)) =
      Some (Service_ctor 2, sv, [''Server started to 127.0.0.1:6543'', ''Session connected''] @ concat (map ws_logged ms), Inr ())) \<and>
   ws_server_main (False, False, False, False, False) ep0 (ws_connects thread ep # concat (map ws_talks ms) @ ws_leaves t1 t2 t3) = None \<and>
   (\<exists>sv. ws_server_main (False, False, False, False, False) ep0
        (ws_connects thread ep # concat (map ws_talks ms) @ ws_leaves_read_first t1 t2 t3 t4 t5) =
      Some (Service_ctor 2, sv, [''Server started to 127.0.0.1:6543'', ''Session connected''] @ concat (map ws_logged ms) @
        [''Session closed'', ''Session closed''], Inr ()) \<and> lv_Sessions sv = [] \<and> lv_Ready sv = [])"
proof -
  let ?started = "[''Server started to 127.0.0.1:6543'', ''Session connected'']"
  let ?main = "\<lambda>hs. ws_server_main (False, False, False, False, False) ep0 (ws_connects thread ep # concat (map ws_talks ms) @ hs)"
  have run: "\<exists>sv. ?main hs = main_Run (ws_server_program ep0) hs (Service_ctor 2, sv, ?started @ concat (map ws_logged ms)) \<and>
      ws_served ep sv" for hs
    using ws_main_connects [of ep0 thread ep "concat (map ws_talks ms) @ hs"] ws_run_talks by metis
  have "\<exists>sv. ?main [] = Some (Service_ctor 2, sv, ?started @ concat (map ws_logged ms), Inr ())"
    using run [of "[]"] unfolding main_Run.simps(1) by blast
  moreover have "?main (ws_leaves t1 t2 t3) = None"
    using run [of "ws_leaves t1 t2 t3"] ws_run_leaves [of ep _ ep0 t1 t2 t3 "[]"] unfolding append_Nil2 by metis
  moreover have "\<exists>sv. ?main (ws_leaves_read_first t1 t2 t3 t4 t5) =
      Some (Service_ctor 2, sv, (?started @ concat (map ws_logged ms)) @ [''Session closed'', ''Session closed''], Inr ()) \<and>
      lv_Sessions sv = [] \<and> lv_Ready sv = []"
    using run [of "ws_leaves_read_first t1 t2 t3 t4 t5"] ws_run_leaves_read_first by metis
  ultimately show ?thesis by simp
qed

end
