(* ===== verification/QueueElements.thy ===== *)
theory QueueElements
  imports RingBuffer
begin

text \<open>
  The elements the two queue programs exchange: an array of 5000 characters with a header and
  the digits of the sequence number as its payload. The header is copied as it lies in memory: in
  \<open>atomic_queue\<close> it is packed, in \<open>lockfree_ringbuffer\<close> the packing is saved but not set, so that
  seven bytes of padding follow its second member. Integers lie with their low byte first.
\<close>

section \<open>Integers in memory\<close>

definition le_chars :: "nat \<Rightarrow> nat \<Rightarrow> string" where
  "le_chars k n = map (\<lambda>i. char_of (n div 256 ^ i)) [0..<k]"

definition le_value :: "string \<Rightarrow> nat" where
  "le_value cs = foldr (\<lambda>c n. of_char c + 256 * n) cs 0"

lemma length_le_chars [simp]: "length (le_chars k n) = k"
  by (simp add: le_chars_def)

lemma le_chars_Suc: "le_chars (Suc k) n = char_of n # le_chars k (n div 256)"
  by (simp add: le_chars_def map_upt_Suc div_mult2_eq del: upt_Suc)

lemma le_value_chars: "le_value (le_chars k n) = n mod 256 ^ k"
proof (induction k arbitrary: n)
  case 0
  then show ?case by (simp add: le_chars_def le_value_def)
next
  case (Suc k)
  have "le_value (le_chars (Suc k) n) = n mod 256 + 256 * le_value (le_chars k (n div 256))"
    by (simp add: le_chars_Suc le_value_def)
  with Suc show ?case by (simp add: mod_mult2_eq)
qed

section \<open>Elements\<close>

definition capacity :: nat where
  "capacity = 5000"

record Header =
  m_PayloadSize :: u64
  m_Type :: "8 word"
  m_SequenceNumber :: u64
  m_TimePoint :: u64

text \<open>The bytes of a header, with the padding after the type, and the header in bytes.\<close>

definition Header_bytes :: "string \<Rightarrow> Header \<Rightarrow> string" where
  "Header_bytes pad h =
     le_chars 8 (unat (m_PayloadSize h)) @ le_chars 1 (unat (m_Type h)) @ pad @
     le_chars 8 (unat (m_SequenceNumber h)) @ le_chars 8 (unat (m_TimePoint h))"

definition Header_of :: "nat \<Rightarrow> string \<Rightarrow> Header" where
  "Header_of padding bs =
     \<lparr>m_PayloadSize = of_nat (le_value (take 8 bs)),
      m_Type = of_nat (le_value (take 1 (drop 8 bs))),
      m_SequenceNumber = of_nat (le_value (take 8 (drop (9 + padding) bs))),
      m_TimePoint = of_nat (le_value (take 8 (drop (17 + padding) bs)))\<rparr>"

lemma Header_of_bytes:
  assumes "length pad = padding"
  shows "Header_of padding (Header_bytes pad h @ rest) = h"
proof -
  have "unat (a :: u64) < 2 ^ 64" for a using unsigned_less [of a] by simp
  moreover have "unat (a :: 8 word) < 2 ^ 8" for a using unsigned_less [of a] by simp
  ultimately show ?thesis
    using assms by (simp add: Header_of_def Header_bytes_def le_value_chars)
qed

text \<open>
  Filling an element: \<open>array\<close> is what the memory held before, \<open>sequenceNumber\<close> and \<open>time\<close> go into
  the header, the digits of the number behind it.
\<close>

definition fill_element :: "string \<Rightarrow> u64 \<Rightarrow> u64 \<Rightarrow> string \<Rightarrow> string" where
  "fill_element pad sequenceNumber time array =
     (let str = dec_nat (unat sequenceNumber);
          header = \<lparr>m_PayloadSize = of_nat (length str), m_Type = 1, m_SequenceNumber = sequenceNumber, m_TimePoint = time\<rparr>;
          bytes = Header_bytes pad header
      in store_at (length bytes) str (store_at 0 bytes array))"

text \<open>
  Reading an element: a payload of no bytes is reported, and one that reaches past the array is
  undefined (\<open>None\<close>). \<open>readSequenceNumber\<close> is the number expected, \<open>now\<close> the clock.
\<close>

datatype consumer_line =
    Payload_size_zero
  | Invalid_sequence u64 u64
  | Consumed string u64 u64

definition read_element :: "nat \<Rightarrow> u64 \<Rightarrow> string \<Rightarrow> u64 \<Rightarrow> (u64 \<times> consumer_line) option" where
  "read_element padding now element readSequenceNumber =
     (let header = Header_of padding element
      in if m_PayloadSize header = 0 then Some (readSequenceNumber, Payload_size_zero)
         else if length element < 25 + padding + unat (m_PayloadSize header) then None
         else
           let str = take (unat (m_PayloadSize header)) (drop (25 + padding) element);
               delta = now - m_TimePoint header
           in Some (readSequenceNumber + 1,
                if readSequenceNumber \<noteq> m_SequenceNumber header then Invalid_sequence readSequenceNumber (m_SequenceNumber header)
                else Consumed str (m_SequenceNumber header) delta))"

text \<open>
  Every element is read as it was filled, whatever the memory held before: its number is
  compared with the expected one, and its payload is the decimal number.
\<close>

theorem element_roundtrip:
  assumes "length array = capacity" and "length pad = padding" and "padding \<le> 7"
  shows "read_element padding now (fill_element pad n time array) m =
      Some (m + 1, if m \<noteq> n then Invalid_sequence m n else Consumed (dec_nat (unat n)) n (now - time)) \<and>
    length (fill_element pad n time array) = capacity"
proof -
  let ?str = "dec_nat (unat n)"
  let ?h = "\<lparr>m_PayloadSize = of_nat (length ?str), m_Type = 1, m_SequenceNumber = n, m_TimePoint = time\<rparr>"
  let ?b = "Header_bytes pad ?h"
  have lb: "length ?b = 25 + padding" using assms(2) by (simp add: Header_bytes_def)
  have ls: "length ?str \<le> 20" by (rule length_dec_u64)
  have fe: "fill_element pad n time array = ?b @ ?str @ drop (length ?b + length ?str) array"
    using assms lb ls by (simp add: fill_element_def store_at_def capacity_def Let_def add.commute)
  have h: "Header_of padding (fill_element pad n time array) = ?h" unfolding fe by (rule Header_of_bytes [OF assms(2)])
  have sz: "unat (of_nat (length ?str) :: u64) = length ?str" using ls by (simp add: unat_of_nat)
  have nz: "(of_nat (length ?str) :: u64) \<noteq> 0" using sz by (metis dec_nat_nonempty length_0_conv unat_0)
  have len: "length (fill_element pad n time array) = capacity"
    unfolding fe using assms lb ls by (simp add: capacity_def)
  have pl: "take (length ?str) (drop (25 + padding) (fill_element pad n time array)) = ?str"
    unfolding fe using lb by simp
  have "\<not> length (fill_element pad n time array) < 25 + padding + length ?str"
    using len ls assms(3) by (simp add: capacity_def)
  then show ?thesis
    unfolding read_element_def using h sz nz pl len by (simp add: Let_def)
qed

theorem element_roundtrip_witness:
  "read_element 7 30 (fill_element ''.......'' 1234 20 (replicate capacity CHR ''x'')) 1234 = Some (1235, Consumed ''1234'' 1234 10)"
proof -
  have "dec_nat 1234 = ''1234''" by code_simp
  with element_roundtrip [of "replicate capacity CHR ''x''" "''.......''" 7 30 1234 20 1234] show ?thesis by simp
qed

text \<open>The lines of a consumer that has read the numbers from zero on.\<close>

definition in_sequence :: "consumer_line list \<Rightarrow> bool" where
  "in_sequence ls \<longleftrightarrow> (\<forall>j < length ls. \<exists>delta. ls ! j = Consumed (dec_nat (unat (of_nat j :: u64))) (of_nat j) delta)"

lemma in_sequence_snoc:
  "in_sequence ls \<Longrightarrow> n = of_nat (length ls) \<Longrightarrow> in_sequence (ls @ [Consumed (dec_nat (unat (n :: u64))) n delta])"
  by (auto simp: in_sequence_def nth_append less_Suc_eq)

end
