(* ===== verification/AtomicQueueProgram.thy ===== *)
theory AtomicQueueProgram
  imports QueueElements
begin

text \<open>
  The program \<open>atomic_queue\<close>: four producers put numbered elements into a queue of a third party,
  one consumer takes them out and checks the numbers. The queue is a parameter, with what its
  documentation promises as the hypothesis \<open>queue_laws\<close>: first in, first out, and a push into a
  full queue waits. A step is what happens between two points at which the other threads can see
  something: the part of a producer before its push, the push, and the signal, all under the
  mutex of the producers; the wait of the consumer, its end, and each turn of its inner loop.
\<close>

section \<open>The queue\<close>

record 'q queue_api =
  q_new :: 'q
  q_push :: "string \<Rightarrow> 'q \<Rightarrow> 'q option"
  q_pop :: "'q \<Rightarrow> string \<times> 'q"
  was_empty :: "'q \<Rightarrow> bool"

definition queue_laws :: "'q queue_api \<Rightarrow> nat \<Rightarrow> ('q \<Rightarrow> string list) \<Rightarrow> bool" where
  "queue_laws api cap contents \<longleftrightarrow>
     contents (q_new api) = [] \<and>
     (\<forall>q. was_empty api q \<longleftrightarrow> contents q = []) \<and>
     (\<forall>e q. q_push api e q = None \<longleftrightarrow> cap \<le> length (contents q)) \<and>
     (\<forall>e q q'. q_push api e q = Some q' \<longrightarrow> contents q' = contents q @ [e]) \<and>
     (\<forall>q. contents q \<noteq> [] \<longrightarrow> contents q = fst (q_pop api q) # contents (snd (q_pop api q)))"

lemma laws_push: "queue_laws api cap contents \<Longrightarrow> q_push api e q = Some q' \<Longrightarrow> contents q' = contents q @ [e] \<and> length (contents q) < cap"
  unfolding queue_laws_def by (metis not_le option.distinct(1))

lemma laws_full: "queue_laws api cap contents \<Longrightarrow> length (contents q) = cap \<Longrightarrow> q_push api e q = None"
  unfolding queue_laws_def by (metis order_refl)

lemma laws_room: "queue_laws api cap contents \<Longrightarrow> length (contents q) < cap \<Longrightarrow> \<exists>q'. q_push api e q = Some q' \<and> contents q' = contents q @ [e]"
  unfolding queue_laws_def by (metis not_le not_None_eq)

lemma laws_pop: "queue_laws api cap contents \<Longrightarrow> contents q = a # as \<Longrightarrow> q_pop api q = (a', q') \<Longrightarrow> a' = a \<and> contents q' = as"
  unfolding queue_laws_def by (metis fst_conv list.distinct(1) list.inject snd_conv)

lemma laws_empty: "queue_laws api cap contents \<Longrightarrow> was_empty api q \<longleftrightarrow> contents q = []"
  unfolding queue_laws_def by blast

section \<open>The threads\<close>

text \<open>
  \<open>aq_Holder\<close> is the producer that holds the mutex, with the element it is about to push, or none
  when it is about to signal.
\<close>

datatype consumer_state = Start_wait | Waiting | Reading

record 'q aq_program =
  aq_Queue :: 'q
  writeSequenceNumber :: u64
  aq_Holder :: "(nat \<times> string option) option"
  aq_Consumer :: consumer_state
  readSequenceNumber :: u64
  aq_Lines :: "consumer_line list"

definition aq_main :: "'q queue_api \<Rightarrow> 'q aq_program" where
  "aq_main api =
     \<lparr>aq_Queue = q_new api, writeSequenceNumber = 0, aq_Holder = None, aq_Consumer = Start_wait, readSequenceNumber = 0, aq_Lines = []\<rparr>"

text \<open>\<open>array\<close> is what the memory of the new array held.\<close>

definition Producer_fill :: "nat \<Rightarrow> u64 \<Rightarrow> string \<Rightarrow> 'q aq_program \<Rightarrow> 'q aq_program" where
  "Producer_fill i time array s =
     s\<lparr>aq_Holder := Some (i, Some (fill_element [] (writeSequenceNumber s) time array)),
       writeSequenceNumber := writeSequenceNumber s + 1\<rparr>"

definition Producer_push :: "'q queue_api \<Rightarrow> nat \<Rightarrow> string \<Rightarrow> 'q aq_program \<Rightarrow> 'q aq_program option" where
  "Producer_push api i a s = map_option (\<lambda>q. s\<lparr>aq_Queue := q, aq_Holder := Some (i, None)\<rparr>) (q_push api a (aq_Queue s))"

text \<open>A signal wakes a consumer that waits, and is lost otherwise. The end of the block gives the mutex back.\<close>

definition Signal :: "'q aq_program \<Rightarrow> 'q aq_program" where
  "Signal s = s\<lparr>aq_Holder := None, aq_Consumer := (if aq_Consumer s = Waiting then Reading else aq_Consumer s)\<rparr>"

definition Consumer_read :: "'q queue_api \<Rightarrow> u64 \<Rightarrow> 'q aq_program \<Rightarrow> 'q aq_program option" where
  "Consumer_read api now s =
     (if was_empty api (aq_Queue s) then Some (s\<lparr>aq_Consumer := Start_wait\<rparr>)
      else case q_pop api (aq_Queue s) of
        (array, q) \<Rightarrow>
          map_option (\<lambda>(n, line). s\<lparr>aq_Queue := q, readSequenceNumber := n, aq_Lines := aq_Lines s @ [line]\<rparr>)
            (read_element 0 now array (readSequenceNumber s)))"

text \<open>
  A wait that times out goes to the next wait. With \<open>spurious\<close>, a wait can end as if it was
  signalled when it was not.
\<close>

inductive aq_step :: "'q queue_api \<Rightarrow> bool \<Rightarrow> 'q aq_program \<Rightarrow> 'q aq_program \<Rightarrow> bool"
  for api spurious where
  lock_and_fill: "aq_Holder s = None \<Longrightarrow> i < 4 \<Longrightarrow> length array = capacity \<Longrightarrow> aq_step api spurious s (Producer_fill i time array s)"
| push: "aq_Holder s = Some (i, Some a) \<Longrightarrow> Producer_push api i a s = Some s' \<Longrightarrow> aq_step api spurious s s'"
| signal: "aq_Holder s = Some (i, None) \<Longrightarrow> aq_step api spurious s (Signal s)"
| start_wait: "aq_Consumer s = Start_wait \<Longrightarrow> aq_step api spurious s (s\<lparr>aq_Consumer := Waiting\<rparr>)"
| timeout: "aq_Consumer s = Waiting \<Longrightarrow> aq_step api spurious s (s\<lparr>aq_Consumer := Start_wait\<rparr>)"
| wakes: "spurious \<Longrightarrow> aq_Consumer s = Waiting \<Longrightarrow> aq_step api spurious s (s\<lparr>aq_Consumer := Reading\<rparr>)"
| read: "aq_Consumer s = Reading \<Longrightarrow> Consumer_read api now s = Some s' \<Longrightarrow> aq_step api spurious s s'"

section \<open>The numbers\<close>

definition is_element :: "u64 \<Rightarrow> string \<Rightarrow> bool" where
  "is_element n a \<longleftrightarrow> (\<exists>time array. length array = capacity \<and> a = fill_element [] n time array)"

lemma read_is_element:
  "is_element n a \<Longrightarrow> \<exists>delta. read_element 0 now a n = Some (n + 1, Consumed (dec_nat (unat n)) n delta)"
  using element_roundtrip [of _ "[]" 0 now n _ n] by (auto simp: is_element_def)

text \<open>
  The elements in the queue carry the numbers from the expected one on, then the one a producer
  is about to push; the number to write next is the one after.
\<close>

definition to_come :: "('q \<Rightarrow> string list) \<Rightarrow> 'q aq_program \<Rightarrow> string list" where
  "to_come contents s = contents (aq_Queue s) @ (case aq_Holder s of Some (i, Some a) \<Rightarrow> [a] | _ \<Rightarrow> [])"

definition aq_inv :: "('q \<Rightarrow> string list) \<Rightarrow> 'q aq_program \<Rightarrow> bool" where
  "aq_inv contents s \<longleftrightarrow>
     in_sequence (aq_Lines s) \<and> readSequenceNumber s = of_nat (length (aq_Lines s)) \<and>
     length (contents (aq_Queue s)) \<le> 512 \<and>
     writeSequenceNumber s = readSequenceNumber s + of_nat (length (to_come contents s)) \<and>
     (\<forall>k < length (to_come contents s). is_element (readSequenceNumber s + of_nat k) (to_come contents s ! k))"

lemma aq_inv_step:
  assumes l: "queue_laws api 512 contents" and i: "aq_inv contents s" and s: "aq_step api spurious s s'"
  shows "aq_inv contents s'"
  using s i
proof (cases rule: aq_step.cases)
  case (lock_and_fill i array time)
  have "is_element (writeSequenceNumber s) (fill_element [] (writeSequenceNumber s) time array)"
    using lock_and_fill(4) by (auto simp: is_element_def)
  with i lock_and_fill(1,2) show ?thesis
    by (auto simp: aq_inv_def to_come_def Producer_fill_def nth_append less_Suc_eq)
next
  case (push i a)
  then obtain q where q: "q_push api a (aq_Queue s) = Some q" "s' = s\<lparr>aq_Queue := q, aq_Holder := Some (i, None)\<rparr>"
    by (auto simp: Producer_push_def)
  with laws_push [OF l] have "contents q = contents (aq_Queue s) @ [a]" "length (contents (aq_Queue s)) < 512" by blast+
  with i push(1) q show ?thesis by (auto simp: aq_inv_def to_come_def)
next
  case (read now)
  show ?thesis
  proof (cases "contents (aq_Queue s)")
    case Nil
    then have "was_empty api (aq_Queue s)" by (simp add: laws_empty [OF l])
    with read(2) i show ?thesis by (auto simp: Consumer_read_def aq_inv_def to_come_def)
  next
    case (Cons a as)
    obtain a' q where p: "q_pop api (aq_Queue s) = (a', q)" by fastforce
    with laws_pop [OF l Cons p] Cons
    have p: "q_pop api (aq_Queue s) = (a, q)" and q: "contents q = as" and e: "\<not> was_empty api (aq_Queue s)"
      by (simp_all add: laws_empty [OF l])
    let ?n = "readSequenceNumber s"
    have tc: "to_come contents s = a # to_come contents (s\<lparr>aq_Queue := q\<rparr>)" using Cons q by (simp add: to_come_def)
    have "is_element ?n a" using i tc by (auto simp: aq_inv_def dest: spec [of _ 0])
    from read_is_element [OF this, of now] obtain delta where
      "read_element 0 now a ?n = Some (?n + 1, Consumed (dec_nat (unat ?n)) ?n delta)" by blast
    with read(2) p e have s': "s' = s\<lparr>aq_Queue := q, readSequenceNumber := ?n + 1,
        aq_Lines := aq_Lines s @ [Consumed (dec_nat (unat ?n)) ?n delta]\<rparr>" by (simp add: Consumer_read_def)
    let ?tc = "to_come contents (s\<lparr>aq_Queue := q\<rparr>)"
    have tc': "to_come contents s' = ?tc" by (simp add: s' to_come_def)
    have "is_element (?n + 1 + of_nat k) (?tc ! k)" if "k < length ?tc" for k
    proof -
      have "Suc k < length (to_come contents s)" using tc that by simp
      then have "is_element (?n + of_nat (Suc k)) (to_come contents s ! Suc k)" using i unfolding aq_inv_def by blast
      moreover have "to_come contents s ! Suc k = ?tc ! k" by (simp add: tc)
      moreover have "?n + of_nat (Suc k) = ?n + 1 + of_nat k" by simp
      ultimately show ?thesis by (simp only:)
    qed
    moreover have "length as \<le> 512" "writeSequenceNumber s = ?n + 1 + of_nat (length ?tc)" "?n = of_nat (length (aq_Lines s))"
      "in_sequence (aq_Lines s)"
      using i tc Cons by (auto simp: aq_inv_def)
    ultimately show ?thesis
      unfolding aq_inv_def tc' using q in_sequence_snoc [of "aq_Lines s" ?n delta] by (simp add: s')
  qed
qed (auto simp: aq_inv_def to_come_def Signal_def)

lemma aq_inv_reach:
  assumes "queue_laws api 512 contents" and "(aq_step api spurious)\<^sup>*\<^sup>* (aq_main api) s"
  shows "aq_inv contents s"
  using assms(2)
proof (induction rule: rtranclp_induct)
  case base
  show ?case using assms(1) by (simp add: aq_inv_def aq_main_def to_come_def queue_laws_def in_sequence_def)
next
  case (step s s')
  then show ?case using aq_inv_step [OF assms(1)] by blast
qed

text \<open>
  C34: However the producers and the consumer are interleaved, the consumer is never told of an invalid
  sequence or an empty payload: its lines are the numbers from zero on, each with its digits, and
  no element is read past its end.
\<close>

theorem aq_numbers_in_sequence:
  assumes "queue_laws api 512 contents" and "(aq_step api spurious)\<^sup>*\<^sup>* (aq_main api) s"
  shows "in_sequence (aq_Lines s) \<and> Consumer_read api now s \<noteq> None \<and>
    writeSequenceNumber s = of_nat (length (aq_Lines s) + length (to_come contents s))"
proof -
  have i: "aq_inv contents s" by (rule aq_inv_reach [OF assms])
  have "Consumer_read api now s \<noteq> None"
  proof (cases "contents (aq_Queue s)")
    case Nil
    then show ?thesis by (simp add: Consumer_read_def laws_empty [OF assms(1)])
  next
    case (Cons a as)
    obtain a' q where p: "q_pop api (aq_Queue s) = (a', q)" by fastforce
    with laws_pop [OF assms(1) Cons] have "a' = a" by blast
    moreover have "is_element (readSequenceNumber s) a" using i Cons by (auto simp: aq_inv_def to_come_def dest: spec [of _ 0])
    ultimately show ?thesis using read_is_element [of "readSequenceNumber s" a now] p by (auto simp: Consumer_read_def)
  qed
  with i show ?thesis by (simp add: aq_inv_def)
qed

text \<open>The queue as a list, for the instances.\<close>

definition list_queue :: "nat \<Rightarrow> string list queue_api" where
  "list_queue cap =
     \<lparr>q_new = [], q_push = (\<lambda>e q. if length q < cap then Some (q @ [e]) else None), q_pop = (\<lambda>q. (hd q, tl q)), was_empty = (\<lambda>q. q = [])\<rparr>"

lemma list_queue_laws: "queue_laws (list_queue cap) cap (\<lambda>q. q)"
  by (auto simp: queue_laws_def list_queue_def)

theorem aq_numbers_in_sequence_witness:
  "\<exists>s. (aq_step (list_queue 512) False)\<^sup>*\<^sup>* (aq_main (list_queue 512)) s \<and> aq_Holder s \<noteq> None \<and> in_sequence (aq_Lines s) \<and>
    writeSequenceNumber s = of_nat (length (aq_Lines s) + length (to_come (\<lambda>q. q) s))"
proof -
  let ?s = "Producer_fill 0 7 (replicate capacity CHR ''x'') (aq_main (list_queue 512))"
  have r: "(aq_step (list_queue 512) False)\<^sup>*\<^sup>* (aq_main (list_queue 512)) ?s"
    by (rule r_into_rtranclp, rule lock_and_fill) (simp_all add: aq_main_def)
  have "aq_Holder ?s \<noteq> None" by (simp add: Producer_fill_def)
  with r aq_numbers_in_sequence [OF list_queue_laws r] show ?thesis by blast
qed

section \<open>The lost signal\<close>

text \<open>
  The consumer waits without looking at the queue first, so a signal that comes before it waits is
  lost. When the queue fills up meanwhile, the producer that holds the mutex waits in its push.
\<close>

definition aq_stalled :: "('q \<Rightarrow> string list) \<Rightarrow> 'q aq_program \<Rightarrow> bool" where
  "aq_stalled contents s \<longleftrightarrow>
     length (contents (aq_Queue s)) = 512 \<and> (\<exists>i a. aq_Holder s = Some (i, Some a)) \<and> aq_Consumer s \<noteq> Reading"

lemma stalled_step:
  assumes "queue_laws api 512 contents" and "aq_stalled contents s" and "aq_step api False s s'"
  shows "aq_stalled contents s' \<and> aq_Queue s' = aq_Queue s \<and> aq_Lines s' = aq_Lines s \<and> writeSequenceNumber s' = writeSequenceNumber s"
  using assms(3,2)
  by (cases rule: aq_step.cases) (auto simp: aq_stalled_def Producer_push_def laws_full [OF assms(1)])

lemma stalled_steps:
  assumes "queue_laws api 512 contents" and "aq_stalled contents s" and "(aq_step api False)\<^sup>*\<^sup>* s s'"
  shows "aq_stalled contents s' \<and> aq_Queue s' = aq_Queue s \<and> aq_Lines s' = aq_Lines s \<and> writeSequenceNumber s' = writeSequenceNumber s"
  using assms(3)
proof (induction rule: rtranclp_induct)
  case base
  with assms(2) show ?case by blast
next
  case (step s1 s2)
  with stalled_step [OF assms(1), of s1 s2] show ?case by metis
qed

lemma fill_queue:
  assumes l: "queue_laws api 512 contents"
  shows "k \<le> 512 \<Longrightarrow> \<exists>s. (aq_step api False)\<^sup>*\<^sup>* (aq_main api) s \<and> length (contents (aq_Queue s)) = k \<and>
    aq_Holder s = None \<and> aq_Consumer s = Start_wait \<and> aq_Lines s = []"
proof (induction k)
  case 0
  show ?case using l by (intro exI [of _ "aq_main api"]) (simp add: aq_main_def queue_laws_def)
next
  case (Suc k)
  then obtain s where s: "(aq_step api False)\<^sup>*\<^sup>* (aq_main api) s" "length (contents (aq_Queue s)) = k"
    "aq_Holder s = None" "aq_Consumer s = Start_wait" "aq_Lines s = []" by auto
  let ?a = "fill_element [] (writeSequenceNumber s) 0 (replicate capacity CHR ''x'')"
  let ?s1 = "Producer_fill 0 0 (replicate capacity CHR ''x'') s"
  have "aq_step api False s ?s1" by (rule lock_and_fill) (simp_all add: s)
  with s(1) have r1: "(aq_step api False)\<^sup>*\<^sup>* (aq_main api) ?s1" by simp
  obtain q where q: "q_push api ?a (aq_Queue s) = Some q" "contents q = contents (aq_Queue s) @ [?a]"
    using laws_room [OF l, of "aq_Queue s" ?a] s(2) Suc.prems by auto
  let ?s2 = "?s1\<lparr>aq_Queue := q, aq_Holder := Some (0, None)\<rparr>"
  have "aq_step api False ?s1 ?s2"
    using q by (intro push [of _ 0 ?a]) (simp_all add: Producer_fill_def Producer_push_def)
  moreover have "aq_step api False ?s2 (Signal ?s2)" by (rule signal) simp
  ultimately have "(aq_step api False)\<^sup>*\<^sup>* (aq_main api) (Signal ?s2)" using r1 by (meson rtranclp.rtrancl_into_rtrancl)
  with q(2) s show ?case by (intro exI [of _ "Signal ?s2"]) (simp add: Signal_def Producer_fill_def)
qed

text \<open>
  The program can come to a standstill: producers that fill the queue before the consumer waits
  leave a state in which, unless a wait ends of itself, nothing is ever consumed or produced
  again, although the queue is full.
\<close>

theorem aq_can_stall:
  assumes l: "queue_laws api 512 contents"
  shows "\<exists>s. (aq_step api False)\<^sup>*\<^sup>* (aq_main api) s \<and> length (contents (aq_Queue s)) = 512 \<and>
    (\<forall>s'. (aq_step api False)\<^sup>*\<^sup>* s s' \<longrightarrow>
       aq_Queue s' = aq_Queue s \<and> aq_Lines s' = aq_Lines s \<and> writeSequenceNumber s' = writeSequenceNumber s)"
proof -
  obtain s where s: "(aq_step api False)\<^sup>*\<^sup>* (aq_main api) s" "length (contents (aq_Queue s)) = 512"
    "aq_Holder s = None" "aq_Consumer s = Start_wait" using fill_queue [OF l, of 512] by auto
  let ?s = "Producer_fill 0 0 (replicate capacity CHR ''x'') s"
  have "aq_step api False s ?s" by (rule lock_and_fill) (simp_all add: s)
  with s(1) have r: "(aq_step api False)\<^sup>*\<^sup>* (aq_main api) ?s" by simp
  have st: "aq_stalled contents ?s" using s by (simp add: aq_stalled_def Producer_fill_def)
  from stalled_steps [OF l st] have
    "\<forall>s'. (aq_step api False)\<^sup>*\<^sup>* ?s s' \<longrightarrow>
       aq_Queue s' = aq_Queue ?s \<and> aq_Lines s' = aq_Lines ?s \<and> writeSequenceNumber s' = writeSequenceNumber ?s" by blast
  moreover have "length (contents (aq_Queue ?s)) = 512" using st by (simp add: aq_stalled_def)
  ultimately show ?thesis using r by blast
qed

theorem aq_can_stall_witness:
  "\<exists>s. (aq_step (list_queue 512) False)\<^sup>*\<^sup>* (aq_main (list_queue 512)) s \<and> length (aq_Queue s) = 512"
  using aq_can_stall [OF list_queue_laws] by blast

end
