(* ===== verification/LockLessRingBuffer.thy ===== *)
theory LockLessRingBuffer
  imports Fifo
begin

text \<open>
  \<open>LockLessRingBuffer<T, N>\<close>: an array of \<open>N\<close> slots with a head and a tail counter of 16 bits
  that only grow. First the operations as one thread sees them, then the interleavings of several
  threads, where the test for space, the reservation of a slot and the access to it are steps of
  their own.
\<close>

section \<open>Operations\<close>

record 'a LockLess =
  ll_Head :: u16
  ll_Tail :: u16
  ll_Queue :: "'a list"

definition LockLess_ctor :: "'a list \<Rightarrow> 'a LockLess" where
  "LockLess_ctor slots = \<lparr>ll_Head = 0, ll_Tail = 0, ll_Queue = slots\<rparr>"

text \<open>The difference is taken as an \<open>int\<close> and returned as 16 bits.\<close>

definition LockLess_Size :: "'a LockLess \<Rightarrow> nat" where
  "LockLess_Size q = unat (ll_Head q - ll_Tail q)"

definition LockLess_Capacity :: "'a LockLess \<Rightarrow> nat" where
  "LockLess_Capacity q = length (ll_Queue q)"

definition LockLess_HasSpace :: "'a LockLess \<Rightarrow> bool" where
  "LockLess_HasSpace q \<longleftrightarrow> LockLess_Size q < LockLess_Capacity q"

definition LockLess_Empty :: "'a LockLess \<Rightarrow> bool" where
  "LockLess_Empty q \<longleftrightarrow> uint (ll_Head q) - uint (ll_Tail q) = 0"

definition LockLess_slot :: "u16 \<Rightarrow> 'a LockLess \<Rightarrow> nat" where
  "LockLess_slot counter q = unat counter mod length (ll_Queue q)"

text \<open>
  \<open>pushFn\<close> is shown the slot and the position; its effect is the new value of the slot and its
  answer. The head has moved before it is called, and stays so whatever it answers.
\<close>

definition LockLess_Push :: "('a \<Rightarrow> nat \<Rightarrow> 'a \<times> bool) \<Rightarrow> 'a LockLess \<Rightarrow> 'a LockLess \<times> bool" where
  "LockLess_Push pushFn q =
     (if \<not> LockLess_HasSpace q then (q, False)
      else
        let headPosition = LockLess_slot (ll_Head q) q;
            q1 = q\<lparr>ll_Head := ll_Head q + 1\<rparr>;
            (slot, answer) = pushFn (ll_Queue q1 ! headPosition) headPosition
        in (q1\<lparr>ll_Queue := (ll_Queue q1)[headPosition := slot]\<rparr>, answer))"

text \<open>\<open>Pop\<close> returns the value \<open>popFn\<close> is called on, if it is called.\<close>

definition LockLess_Pop :: "'a LockLess \<Rightarrow> 'a LockLess \<times> 'a option" where
  "LockLess_Pop q =
     (if LockLess_Empty q then (q, None)
      else
        let tailPosition = LockLess_slot (ll_Tail q) q;
            q1 = q\<lparr>ll_Tail := ll_Tail q + 1\<rparr>
        in (q1, Some (ll_Queue q1 ! tailPosition)))"

section \<open>One thread\<close>

text \<open>
  The queue in use. The slot of a counter is its remainder by the capacity, so the slots go
  round without a gap only when the capacity divides \<open>2 ^ 16\<close>.
\<close>

definition ll_ok :: "'a LockLess \<Rightarrow> bool" where
  "ll_ok q \<longleftrightarrow> length (ll_Queue q) dvd 2 ^ 16 \<and> length (ll_Queue q) < 2 ^ 16 \<and> LockLess_Size q \<le> length (ll_Queue q)"

definition ll_contents :: "'a LockLess \<Rightarrow> 'a list" where
  "ll_contents q = map (\<lambda>i. ll_Queue q ! ((unat (ll_Tail q) + i) mod length (ll_Queue q))) [0..<LockLess_Size q]"

lemma two_dvd: "Suc (Suc 0) dvd 65536"
  by (rule dvdI [of _ _ 32768]) simp

lemma ll_ok_pos: "ll_ok q \<Longrightarrow> 0 < length (ll_Queue q)"
  by (cases "length (ll_Queue q) = 0") (auto simp: ll_ok_def)

lemma Empty_iff: "LockLess_Empty q \<longleftrightarrow> LockLess_Size q = 0"
proof -
  have "uint (ll_Head q) - uint (ll_Tail q) = 0 \<longleftrightarrow> ll_Head q = ll_Tail q"
    using word_uint_eq_iff [of "ll_Head q" "ll_Tail q"] by auto
  then show ?thesis by (simp add: LockLess_Empty_def LockLess_Size_def unat_eq_0)
qed

lemma unat_plus_mod:
  assumes "n dvd 2 ^ 16" and "k < 2 ^ 16"
  shows "unat ((a :: u16) + of_nat k) mod n = (unat a + k) mod n"
proof -
  have "unat (a + of_nat k) = (unat a + k) mod 2 ^ 16"
    using assms(2) by (simp add: unat_word_ariths unat_of_nat)
  with assms(1) show ?thesis by (simp add: mod_mod_cancel)
qed

lemma Size_push:
  assumes "LockLess_Size q < 2 ^ 16 - 1"
  shows "LockLess_Size (q\<lparr>ll_Head := ll_Head q + 1\<rparr>) = Suc (LockLess_Size q)"
proof -
  have "ll_Head q + 1 - ll_Tail q = (ll_Head q - ll_Tail q) + 1" by simp
  moreover have "unat ((ll_Head q - ll_Tail q) + 1) = Suc (unat (ll_Head q - ll_Tail q))"
    using assms by (simp add: LockLess_Size_def unat_word_ariths)
  ultimately have "unat (ll_Head q + 1 - ll_Tail q) = Suc (unat (ll_Head q - ll_Tail q))" by (simp only:)
  then show ?thesis by (simp add: LockLess_Size_def)
qed

lemma Size_pop:
  assumes "0 < LockLess_Size q"
  shows "LockLess_Size (q\<lparr>ll_Tail := ll_Tail q + 1\<rparr>) = LockLess_Size q - 1"
proof -
  have "ll_Head q - (ll_Tail q + 1) = (ll_Head q - ll_Tail q) - 1" by simp
  moreover have "ll_Head q - ll_Tail q \<noteq> 0" using assms by (auto simp: LockLess_Size_def)
  then have "unat (ll_Head q - ll_Tail q - 1) = unat (ll_Head q - ll_Tail q) - 1" by (rule unat_minus_one)
  ultimately have "unat (ll_Head q - (ll_Tail q + 1)) = unat (ll_Head q - ll_Tail q) - 1" by (simp only:)
  then show ?thesis by (simp add: LockLess_Size_def)
qed

text \<open>Where the head's slot is, seen from the tail.\<close>

lemma head_slot:
  assumes "ll_ok q"
  shows "LockLess_slot (ll_Head q) q = (unat (ll_Tail q) + LockLess_Size q) mod length (ll_Queue q)"
proof -
  have "ll_Head q = ll_Tail q + of_nat (LockLess_Size q)" by (simp add: LockLess_Size_def)
  moreover have "LockLess_Size q < 2 ^ 16" using assms by (simp add: ll_ok_def)
  ultimately show ?thesis
    using unat_plus_mod [of "length (ll_Queue q)" "LockLess_Size q" "ll_Tail q"] assms
    by (simp add: LockLess_slot_def ll_ok_def)
qed

lemma slots_distinct:
  fixes t i s n :: nat
  assumes "i < s" and "s < n"
  shows "(t + i) mod n \<noteq> (t + s) mod n"
proof
  assume "(t + i) mod n = (t + s) mod n"
  then have "n dvd (t + s) - (t + i)" using assms by (metis mod_eq_dvd_iff_nat add_le_cancel_left less_imp_le)
  with assms show False by (auto dest: dvd_imp_le)
qed

lemma Push_result:
  assumes ok: "ll_ok q" and s: "LockLess_Size q < length (ll_Queue q)"
  shows "LockLess_Push (\<lambda>old p. (v, b)) q =
      (q\<lparr>ll_Head := ll_Head q + 1, ll_Queue := (ll_Queue q)[LockLess_slot (ll_Head q) q := v]\<rparr>, b) \<and>
    ll_ok (fst (LockLess_Push (\<lambda>old p. (v, b)) q)) \<and>
    ll_contents (fst (LockLess_Push (\<lambda>old p. (v, b)) q)) = ll_contents q @ [v]"
proof -
  let ?n = "length (ll_Queue q)" let ?s = "LockLess_Size q" let ?t = "unat (ll_Tail q)"
  let ?q = "q\<lparr>ll_Head := ll_Head q + 1, ll_Queue := (ll_Queue q)[LockLess_slot (ll_Head q) q := v]\<rparr>"
  have r: "LockLess_Push (\<lambda>old p. (v, b)) q = (?q, b)"
    using s by (simp add: LockLess_Push_def LockLess_HasSpace_def LockLess_Capacity_def Let_def)
  have "?s < 2 ^ 16 - 1" using ok s by (simp add: ll_ok_def)
  then have sz: "LockLess_Size ?q = Suc ?s" using Size_push [of q] by (simp add: LockLess_Size_def)
  have "\<And>i. i < ?s \<Longrightarrow> (?t + ?s) mod ?n \<noteq> (?t + i) mod ?n"
    using slots_distinct [OF _ s] by metis
  moreover have "(?t + ?s) mod ?n < ?n" using ll_ok_pos [OF ok] by simp
  ultimately have "ll_contents ?q = ll_contents q @ [v]"
    using sz by (simp add: ll_contents_def head_slot [OF ok])
  moreover have "ll_ok ?q" using ok s sz by (simp add: ll_ok_def)
  ultimately show ?thesis by (simp add: r)
qed

lemma Pop_result:
  assumes ok: "ll_ok q"
  shows "case LockLess_Pop q of
      (q', None) \<Rightarrow> q' = q \<and> ll_contents q = []
    | (q', Some v) \<Rightarrow> ll_ok q' \<and> ll_contents q = v # ll_contents q'"
proof (cases "LockLess_Size q")
  case 0
  then show ?thesis by (simp add: LockLess_Pop_def Empty_iff ll_contents_def)
next
  case (Suc s)
  let ?q = "q\<lparr>ll_Tail := ll_Tail q + 1\<rparr>"
  have sz: "LockLess_Size ?q = s" using Size_pop [of q] Suc by simp
  have m: "(unat (ll_Tail q + 1) + i) mod length (ll_Queue q) = (unat (ll_Tail q) + Suc i) mod length (ll_Queue q)" for i
    using unat_plus_mod [of "length (ll_Queue q)" 1 "ll_Tail q"] ok
    by (simp add: ll_ok_def) (metis add.commute add_Suc_right mod_add_left_eq plus_1_eq_Suc add.assoc)
  have "ll_contents q = ll_Queue q ! (unat (ll_Tail q) mod length (ll_Queue q)) # ll_contents ?q"
    unfolding ll_contents_def sz Suc by (simp add: m upt_conv_Cons map_Suc_upt [symmetric] del: upt_Suc)
  moreover have "ll_ok ?q" using ok sz Suc by (simp add: ll_ok_def)
  ultimately show ?thesis using Suc by (simp add: LockLess_Pop_def Empty_iff LockLess_slot_def Let_def)
qed

text \<open>The queue as a first-in-first-out buffer of single elements; no other block is an operation.\<close>

definition ll_push :: "'a list \<Rightarrow> 'a LockLess \<Rightarrow> ('a LockLess \<times> bool) option" where
  "ll_push d q = (case d of [v] \<Rightarrow> Some (LockLess_Push (\<lambda>old p. (v, True)) q) | _ \<Rightarrow> None)"

definition ll_pop :: "nat \<Rightarrow> 'a LockLess \<Rightarrow> ('a LockLess \<times> 'a list) option" where
  "ll_pop n q =
     (if n = 1 then Some (case LockLess_Pop q of (q', None) \<Rightarrow> (q', []) | (q', Some v) \<Rightarrow> (q', [v])) else None)"

lemma Push_full: "\<not> LockLess_Size q < length (ll_Queue q) \<Longrightarrow> LockLess_Push f q = (q, False)"
  by (simp add: LockLess_Push_def LockLess_HasSpace_def LockLess_Capacity_def)

interpretation lockless: fifo ll_push ll_pop ll_ok ll_contents
proof
  fix q q' :: "'a LockLess" and d ok
  assume q: "ll_ok q" and p: "ll_push d q = Some (q', ok)"
  then obtain v where d: "d = [v]" and r: "LockLess_Push (\<lambda>old p. (v, True)) q = (q', ok)"
    by (auto simp: ll_push_def split: list.splits)
  show "ll_ok q' \<and> ll_contents q' = ll_contents q @ (if ok then d else [])"
  proof (cases "LockLess_Size q < length (ll_Queue q)")
    case True
    from Push_result [OF q True, of v True] r d show ?thesis by auto
  next
    case False
    from Push_full [OF False, of "\<lambda>old p. (v, True)"] r q show ?thesis by auto
  qed
next
  fix q q' :: "'a LockLess" and n out
  assume q: "ll_ok q" and p: "ll_pop n q = Some (q', out)"
  from Pop_result [OF q] p q show "ll_ok q' \<and> ll_contents q = out @ ll_contents q'"
    by (auto simp: ll_pop_def split: if_splits prod.splits option.splits)
qed

text \<open>
  C23: Used by one thread, with a capacity that divides \<open>2 ^ 16\<close>, the queue is first in, first
  out over any number of pushes and pops, the wrap-around of both counters included.
\<close>

theorem lockless_fifo:
  assumes "length slots dvd 2 ^ 16" and "length slots < 2 ^ 16"
    and "fifo_run ll_push ll_pop ops (LockLess_ctor slots) = Some (q, pushed, popped)"
  shows "popped @ ll_contents q = pushed \<and> LockLess_Size q \<le> length (ll_Queue q)"
proof -
  have "ll_ok (LockLess_ctor slots)" "ll_contents (LockLess_ctor slots) = []"
    using assms(1,2) by (simp_all add: ll_ok_def ll_contents_def LockLess_ctor_def LockLess_Size_def)
  from lockless.run_fifo [OF this(1) assms(3)] this(2) show ?thesis by (simp add: ll_ok_def)
qed

lemmas ll_eval = ll_push_def ll_pop_def LockLess_Push_def LockLess_Pop_def LockLess_HasSpace_def
  LockLess_Size_def LockLess_Capacity_def LockLess_Empty_def LockLess_slot_def LockLess_ctor_def
  ll_contents_def Let_def

theorem lockless_fifo_witness:
  "\<exists>q. fifo_run ll_push ll_pop [Push [7], Push [8], Push [9], Pop 1] (LockLess_ctor [0, 0 :: nat]) =
     Some (q, [7, 8], [7]) \<and> [7] @ ll_contents q = [7, 8]"
proof -
  have r: "fifo_run ll_push ll_pop [Push [7], Push [8], Push [9], Pop 1] (LockLess_ctor [0, 0 :: nat]) =
     Some (\<lparr>ll_Head = 2, ll_Tail = 1, ll_Queue = [7, 8]\<rparr>, [7, 8], [7])"
    by (simp add: ll_eval)
  have d: "length [0, 0 :: nat] dvd 2 ^ 16" by (rule dvdI [of _ _ 32768]) simp
  from lockless_fifo [OF d _ r] r show ?thesis by auto
qed

text \<open>
  A capacity that does not divide \<open>2 ^ 16\<close> loses an element when the head counter wraps: with
  one that divides 65535, two pushes in a row go to the same slot, both are accepted, and the
  two pops that follow both deliver the second value.
\<close>

theorem lockless_wrap_loses:
  assumes "length (ll_Queue q) dvd 65535" and "2 \<le> length (ll_Queue q)"
    and "ll_Head q = 65535" and "ll_Tail q = 65535"
  shows "\<exists>q2 q3 q4.
    fst (LockLess_Push (\<lambda>old p. (w, True)) (fst (LockLess_Push (\<lambda>old p. (v, True)) q))) = q2 \<and>
    snd (LockLess_Push (\<lambda>old p. (v, True)) q) \<and>
    snd (LockLess_Push (\<lambda>old p. (w, True)) (fst (LockLess_Push (\<lambda>old p. (v, True)) q))) \<and>
    LockLess_Pop q2 = (q3, Some w) \<and> LockLess_Pop q3 = (q4, Some w)"
proof -
  let ?n = "length (ll_Queue q)"
  have m: "65535 mod ?n = 0" using assms(1) by auto
  have n: "0 < ?n" "1 < ?n" using assms(2) by auto
  have "LockLess_Push (\<lambda>old p. (v, True)) q = (q\<lparr>ll_Head := 0, ll_Queue := (ll_Queue q)[0 := v]\<rparr>, True)"
    using assms(3,4) n m by (simp add: LockLess_Push_def LockLess_HasSpace_def LockLess_Size_def
        LockLess_Capacity_def LockLess_slot_def Let_def)
  moreover have "LockLess_Push (\<lambda>old p. (w, True)) (q\<lparr>ll_Head := 0, ll_Queue := (ll_Queue q)[0 := v]\<rparr>) =
      (q\<lparr>ll_Head := 1, ll_Queue := (ll_Queue q)[0 := w]\<rparr>, True)"
    using assms(3,4) n m by (simp add: LockLess_Push_def LockLess_HasSpace_def LockLess_Size_def
        LockLess_Capacity_def LockLess_slot_def Let_def)
  moreover have "LockLess_Pop (q\<lparr>ll_Head := 1, ll_Queue := (ll_Queue q)[0 := w]\<rparr>) =
      (q\<lparr>ll_Head := 1, ll_Tail := 0, ll_Queue := (ll_Queue q)[0 := w]\<rparr>, Some w)"
    using assms(3,4) n m by (simp add: LockLess_Pop_def LockLess_Empty_def LockLess_slot_def Let_def)
  moreover have "LockLess_Pop (q\<lparr>ll_Head := 1, ll_Tail := 0, ll_Queue := (ll_Queue q)[0 := w]\<rparr>) =
      (q\<lparr>ll_Head := 1, ll_Tail := 1, ll_Queue := (ll_Queue q)[0 := w]\<rparr>, Some w)"
    using n by (simp add: LockLess_Pop_def LockLess_Empty_def LockLess_slot_def Let_def)
  ultimately show ?thesis by simp
qed

theorem lockless_wrap_loses_witness:
  "\<exists>q3 q4. LockLess_Pop (fst (LockLess_Push (\<lambda>old p. (CHR ''b'', True)) (fst (LockLess_Push (\<lambda>old p. (CHR ''a'', True))
      \<lparr>ll_Head = 65535, ll_Tail = 65535, ll_Queue = ''xyz''\<rparr>)))) = (q3, Some (CHR ''b'')) \<and>
    LockLess_Pop q3 = (q4, Some (CHR ''b''))"
proof -
  have "length (ll_Queue \<lparr>ll_Head = 65535, ll_Tail = 65535, ll_Queue = ''xyz''\<rparr>) dvd 65535"
    by (rule dvdI [of _ _ 21845]) simp
  from lockless_wrap_loses [OF this, of "CHR ''b''" "CHR ''a''"] show ?thesis by auto
qed

text \<open>
  A push whose function declines still takes a slot: the queue is one longer, and a pop will
  deliver what the slot holds.
\<close>

theorem lockless_failed_push_consumes:
  assumes "ll_ok q" and "LockLess_Size q < length (ll_Queue q)"
  shows "snd (LockLess_Push (\<lambda>old p. (v, False)) q) = False \<and>
    ll_contents (fst (LockLess_Push (\<lambda>old p. (v, False)) q)) = ll_contents q @ [v]"
  using Push_result [OF assms, of v False] by (metis snd_conv)

theorem lockless_failed_push_consumes_witness:
  "ll_contents (fst (LockLess_Push (\<lambda>old p. (8, False)) \<lparr>ll_Head = 1, ll_Tail = 0, ll_Queue = [7, 0 :: nat]\<rparr>)) = [7, 8]"
proof -
  have "ll_ok \<lparr>ll_Head = 1, ll_Tail = 0, ll_Queue = [7, 0 :: nat]\<rparr>" by (simp add: ll_ok_def LockLess_Size_def two_dvd)
  from lockless_failed_push_consumes [OF this, of 8] show ?thesis by (simp add: ll_contents_def LockLess_Size_def)
qed

section \<open>Several threads\<close>

text \<open>
  What a thread is about to do: the test has passed, or a slot has been reserved. The lock the
  class can be configured with is taken after the reservation, so it only makes the access to a
  slot atomic, which it is here.
\<close>

datatype 'a pc = Idle | PushChecked 'a | PushAt 'a nat | PopChecked | PopAt nat | Popped 'a

inductive ll_step :: "'a LockLess \<times> (nat \<Rightarrow> 'a pc) \<Rightarrow> 'a LockLess \<times> (nat \<Rightarrow> 'a pc) \<Rightarrow> bool" where
  push_check: "th i = Idle \<Longrightarrow> LockLess_HasSpace q \<Longrightarrow> ll_step (q, th) (q, th(i := PushChecked v))"
| push_reserve: "th i = PushChecked v \<Longrightarrow>
     ll_step (q, th) (q\<lparr>ll_Head := ll_Head q + 1\<rparr>, th(i := PushAt v (LockLess_slot (ll_Head q) q)))"
| push_store: "th i = PushAt v p \<Longrightarrow> ll_step (q, th) (q\<lparr>ll_Queue := (ll_Queue q)[p := v]\<rparr>, th(i := Idle))"
| pop_check: "th i = Idle \<Longrightarrow> \<not> LockLess_Empty q \<Longrightarrow> ll_step (q, th) (q, th(i := PopChecked))"
| pop_take: "th i = PopChecked \<Longrightarrow>
     ll_step (q, th) (q\<lparr>ll_Tail := ll_Tail q + 1\<rparr>, th(i := PopAt (LockLess_slot (ll_Tail q) q)))"
| pop_read: "th i = PopAt p \<Longrightarrow> ll_step (q, th) (q, th(i := Popped (ll_Queue q ! p)))"
| pop_done: "th i = Popped v \<Longrightarrow> ll_step (q, th) (q, th(i := Idle))"

inductive_simps ll_step_simps: "ll_step (q, th) s'"

abbreviation ll_reach :: "'a LockLess \<times> (nat \<Rightarrow> 'a pc) \<Rightarrow> 'a LockLess \<times> (nat \<Rightarrow> 'a pc) \<Rightarrow> bool" where
  "ll_reach \<equiv> ll_step\<^sup>*\<^sup>*"

lemma reach_step: "ll_step a b \<Longrightarrow> ll_reach b c \<Longrightarrow> ll_reach a c"
  by (rule converse_rtranclp_into_rtranclp)

text \<open>Run alone, the three steps of a push and of a pop are the operations of one thread.\<close>

lemma solo_push:
  assumes "th i = Idle" and "LockLess_HasSpace q"
  shows "ll_reach (q, th) (fst (LockLess_Push (\<lambda>old p. (v, True)) q), th)"
proof -
  let ?p = "LockLess_slot (ll_Head q) q"
  have s1: "ll_step (q, th) (q, th(i := PushChecked v))" using assms by (rule push_check)
  have s2: "ll_step (q, th(i := PushChecked v)) (q\<lparr>ll_Head := ll_Head q + 1\<rparr>, th(i := PushAt v ?p))"
    using push_reserve [of "th(i := PushChecked v)" i v q] by simp
  have s3: "ll_step (q\<lparr>ll_Head := ll_Head q + 1\<rparr>, th(i := PushAt v ?p))
      (q\<lparr>ll_Head := ll_Head q + 1, ll_Queue := (ll_Queue q)[?p := v]\<rparr>, th)"
    using push_store [of "th(i := PushAt v ?p)" i v ?p "q\<lparr>ll_Head := ll_Head q + 1\<rparr>"] assms(1)
    by (simp add: fun_upd_idem)
  have "ll_reach (q, th) (q\<lparr>ll_Head := ll_Head q + 1, ll_Queue := (ll_Queue q)[?p := v]\<rparr>, th)"
    by (rule reach_step [OF s1 reach_step [OF s2 reach_step [OF s3 rtranclp.rtrancl_refl]]])
  then show ?thesis using assms(2) by (simp add: LockLess_Push_def Let_def)
qed

text \<open>
  C24: Two producers can overfill the queue: with one free slot both pass the test for space before
  either reserves, and the queue ends with more elements than slots; the second store has
  overwritten the oldest element, which was never read.
\<close>

theorem lockless_race_overfills:
  assumes "ll_ok q" and "Suc (LockLess_Size q) = length (ll_Queue q)" and "length (ll_Queue q) < 2 ^ 16 - 1"
    and "th i = Idle" and "th j = Idle" and "i \<noteq> j"
  shows "\<exists>q'. ll_reach (q, th) (q', th) \<and> LockLess_Size q' = Suc (length (ll_Queue q')) \<and>
    ll_Tail q' = ll_Tail q \<and> ll_Queue q' ! LockLess_slot (ll_Tail q) q = w"
proof -
  let ?h1 = "ll_Head q + 1" let ?p = "LockLess_slot (ll_Head q) q"
  let ?q1 = "q\<lparr>ll_Head := ?h1\<rparr>" let ?q2 = "q\<lparr>ll_Head := ?h1 + 1\<rparr>"
  let ?p1 = "LockLess_slot ?h1 ?q1"
  have pos: "0 < length (ll_Queue q)" by (rule ll_ok_pos [OF assms(1)])
  have h: "LockLess_HasSpace q" using assms(2) by (simp add: LockLess_HasSpace_def LockLess_Capacity_def)
  have s1: "ll_step (q, th) (q, th(i := PushChecked v))" using assms(4) h by (rule push_check)
  have s2: "ll_step (q, th(i := PushChecked v)) (q, th(i := PushChecked v, j := PushChecked w))"
    using push_check [of "th(i := PushChecked v)" j q w] assms h by simp
  have s3: "ll_step (q, th(i := PushChecked v, j := PushChecked w)) (?q1, th(i := PushAt v ?p, j := PushChecked w))"
    using push_reserve [of "th(i := PushChecked v, j := PushChecked w)" i v q] assms(6) by (simp add: fun_upd_twist)
  have s4: "ll_step (?q1, th(i := PushAt v ?p, j := PushChecked w)) (?q2, th(i := PushAt v ?p, j := PushAt w ?p1))"
    using push_reserve [of "th(i := PushAt v ?p, j := PushChecked w)" j w ?q1] by simp
  have s5: "ll_step (?q2, th(i := PushAt v ?p, j := PushAt w ?p1))
      (?q2\<lparr>ll_Queue := (ll_Queue q)[?p := v]\<rparr>, th(j := PushAt w ?p1))"
    using push_store [of "th(i := PushAt v ?p, j := PushAt w ?p1)" i v ?p ?q2] assms(4,6)
    by (simp add: fun_upd_twist fun_upd_idem)
  have s6: "ll_step (?q2\<lparr>ll_Queue := (ll_Queue q)[?p := v]\<rparr>, th(j := PushAt w ?p1))
      (?q2\<lparr>ll_Queue := (ll_Queue q)[?p := v, ?p1 := w]\<rparr>, th)"
    using push_store [of "th(j := PushAt w ?p1)" j w ?p1 "?q2\<lparr>ll_Queue := (ll_Queue q)[?p := v]\<rparr>"] assms(5)
    by (simp add: fun_upd_idem)
  let ?q' = "?q2\<lparr>ll_Queue := (ll_Queue q)[?p := v, ?p1 := w]\<rparr>"
  have r: "ll_reach (q, th) (?q', th)"
    by (rule reach_step [OF s1 reach_step [OF s2 reach_step [OF s3 reach_step [OF s4
          reach_step [OF s5 reach_step [OF s6 rtranclp.rtrancl_refl]]]]]])
  have b: "LockLess_Size q < 2 ^ 16 - 1" "LockLess_Size ?q1 < 2 ^ 16 - 1" and z: "LockLess_Size ?q1 = length (ll_Queue q)"
    using assms(2,3) Size_push [of q] by simp_all
  have "LockLess_Size ?q2 = Suc (length (ll_Queue q))"
    using Size_push [OF b(2)] z by simp
  then have n: "LockLess_Size ?q' = Suc (length (ll_Queue ?q'))" by (simp add: LockLess_Size_def)
  have "ll_ok ?q1" using assms(1) z by (simp add: ll_ok_def)
  from head_slot [OF this] z have "?p1 = LockLess_slot (ll_Tail q) q" by (simp add: LockLess_slot_def)
  then have "ll_Queue ?q' ! LockLess_slot (ll_Tail q) q = w" using pos by (simp add: LockLess_slot_def)
  with r n show ?thesis by (intro exI [of _ ?q']) simp
qed

theorem lockless_race_overfills_witness:
  "\<exists>q'. ll_reach (\<lparr>ll_Head = 1, ll_Tail = 0, ll_Queue = [7, 0 :: nat]\<rparr>, \<lambda>i. Idle) (q', \<lambda>i. Idle) \<and>
     LockLess_Size q' = Suc (length (ll_Queue q')) \<and> ll_Queue q' ! 0 = 9"
proof -
  have ok: "ll_ok \<lparr>ll_Head = 1, ll_Tail = 0, ll_Queue = [7, 0 :: nat]\<rparr>" by (simp add: ll_ok_def LockLess_Size_def two_dvd)
  show ?thesis
    using lockless_race_overfills [OF ok, of "\<lambda>i. Idle" 0 1 9] by (auto simp: LockLess_Size_def LockLess_slot_def)
qed

text \<open>
  A consumer can read a slot before its producer has written it: the producer makes the slot
  visible by moving the head first, so from an empty queue a pop can deliver the old content.
\<close>

theorem lockless_race_stale_read:
  assumes "LockLess_HasSpace q" and "LockLess_Empty q" and "th i = Idle" and "th j = Idle" and "i \<noteq> j"
  shows "\<exists>q' th'. ll_reach (q, th) (q', th') \<and>
    th' j = Popped (ll_Queue q ! LockLess_slot (ll_Head q) q) \<and> th' i = PushAt v (LockLess_slot (ll_Head q) q)"
proof -
  let ?p = "LockLess_slot (ll_Head q) q" let ?q1 = "q\<lparr>ll_Head := ll_Head q + 1\<rparr>"
  let ?q2 = "q\<lparr>ll_Head := ll_Head q + 1, ll_Tail := ll_Tail q + 1\<rparr>"
  have ht: "ll_Tail q = ll_Head q" using assms(2) by (simp add: Empty_iff LockLess_Size_def unat_eq_0)
  have s1: "ll_step (q, th) (q, th(i := PushChecked v))" using assms(3,1) by (rule push_check)
  have s2: "ll_step (q, th(i := PushChecked v)) (?q1, th(i := PushAt v ?p))"
    using push_reserve [of "th(i := PushChecked v)" i v q] by simp
  have "\<not> LockLess_Empty ?q1" by (simp add: Empty_iff LockLess_Size_def ht)
  then have s3: "ll_step (?q1, th(i := PushAt v ?p)) (?q1, th(i := PushAt v ?p, j := PopChecked))"
    using pop_check [of "th(i := PushAt v ?p)" j ?q1] assms(4,5) by simp
  have s4: "ll_step (?q1, th(i := PushAt v ?p, j := PopChecked)) (?q2, th(i := PushAt v ?p, j := PopAt ?p))"
    using pop_take [of "th(i := PushAt v ?p, j := PopChecked)" j ?q1] by (simp add: ht LockLess_slot_def)
  have s5: "ll_step (?q2, th(i := PushAt v ?p, j := PopAt ?p)) (?q2, th(i := PushAt v ?p, j := Popped (ll_Queue q ! ?p)))"
    using pop_read [of "th(i := PushAt v ?p, j := PopAt ?p)" j ?p ?q2] by simp
  have "ll_reach (q, th) (?q2, th(i := PushAt v ?p, j := Popped (ll_Queue q ! ?p)))"
    by (rule reach_step [OF s1 reach_step [OF s2 reach_step [OF s3 reach_step [OF s4 reach_step [OF s5 rtranclp.rtrancl_refl]]]]])
  with assms(5) show ?thesis
    by (intro exI [of _ ?q2] exI [of _ "th(i := PushAt v ?p, j := Popped (ll_Queue q ! ?p))"]) simp
qed

theorem lockless_race_stale_read_witness:
  "\<exists>q' th'. ll_reach (LockLess_ctor [5, 5 :: nat], \<lambda>i. Idle) (q', th') \<and> th' 1 = Popped 5 \<and> th' 0 = PushAt 7 0"
  using lockless_race_stale_read [of "LockLess_ctor [5, 5 :: nat]" "\<lambda>i. Idle" 0 1 7]
  by (simp add: ll_eval)

end
