(* ===== verification/LockFreeProgram.thy ===== *)
theory LockFreeProgram
  imports QueueElements LockLessRingBuffer
begin

text \<open>
  The program \<open>lockfree_ringbuffer\<close>: one producer and one consumer over a lock-less queue of 25
  elements. Each push and each pop is one step here; what happens when they overlap is in
  \<open>LockLessRingBuffer\<close>. Waiting and signalling only decide when the consumer looks.
\<close>

section \<open>The program\<close>

record lf_program =
  lf_Buffer :: "string LockLess"
  producerSequenceNumber :: u64
  sequenceNumber :: u64
  lf_Lines :: "consumer_line list"

definition lf_main :: "string list \<Rightarrow> lf_program" where
  "lf_main slots = \<lparr>lf_Buffer = LockLess_ctor slots, producerSequenceNumber = 0, sequenceNumber = 0, lf_Lines = []\<rparr>"

text \<open>\<open>pushFn\<close> fills the slot; \<open>pad\<close> is what the padding of the header held.\<close>

definition pushFn :: "u64 \<Rightarrow> u64 \<Rightarrow> string \<Rightarrow> string \<Rightarrow> nat \<Rightarrow> string \<times> bool" where
  "pushFn number time pad element headPosition = (fill_element pad number time element, True)"

definition producer_push :: "u64 \<Rightarrow> string \<Rightarrow> lf_program \<Rightarrow> lf_program" where
  "producer_push time pad s =
     (case LockLess_Push (pushFn (producerSequenceNumber s) time pad) (lf_Buffer s) of
        (q, pushed) \<Rightarrow>
          s\<lparr>lf_Buffer := q, producerSequenceNumber := (if pushed then producerSequenceNumber s + 1 else producerSequenceNumber s)\<rparr>)"

definition consumer_pop :: "u64 \<Rightarrow> lf_program \<Rightarrow> lf_program option" where
  "consumer_pop now s =
     (case LockLess_Pop (lf_Buffer s) of
        (q, None) \<Rightarrow> Some (s\<lparr>lf_Buffer := q\<rparr>)
      | (q, Some element) \<Rightarrow>
          map_option (\<lambda>(n, line). s\<lparr>lf_Buffer := q, sequenceNumber := n, lf_Lines := lf_Lines s @ [line]\<rparr>)
            (read_element 7 now element (sequenceNumber s)))"

datatype lf_op = Produce u64 string | Consume u64

fun lf_run :: "lf_op list \<Rightarrow> lf_program \<Rightarrow> lf_program option" where
  "lf_run [] s = Some s"
| "lf_run (Produce time pad # ops) s = lf_run ops (producer_push time pad s)"
| "lf_run (Consume now # ops) s = (case consumer_pop now s of None \<Rightarrow> None | Some s1 \<Rightarrow> lf_run ops s1)"

lemma lf_run_append: "lf_run (a @ b) s = (case lf_run a s of None \<Rightarrow> None | Some s1 \<Rightarrow> lf_run b s1)"
  by (induction a s rule: lf_run.induct) (auto split: option.split)

section \<open>Before the counters wrap\<close>

text \<open>The state after \<open>p\<close> pushes and \<open>c\<close> pops, with the lines of the consumer.\<close>

definition holds_element :: "u64 \<Rightarrow> string \<Rightarrow> bool" where
  "holds_element n a \<longleftrightarrow> (\<exists>time pad array. length array = capacity \<and> length pad = 7 \<and> a = fill_element pad n time array)"

lemma read_holds:
  assumes "holds_element n a"
  shows "\<exists>delta. read_element 7 now a m = Some (m + 1, if m \<noteq> n then Invalid_sequence m n else Consumed (dec_nat (unat n)) n delta)"
  using assms element_roundtrip [of _ _ 7 now n _ m] unfolding holds_element_def by blast

lemma holds_length: "holds_element n a \<Longrightarrow> length a = capacity"
  using element_roundtrip [of _ _ 7] unfolding holds_element_def by blast

definition lf_at :: "nat \<Rightarrow> nat \<Rightarrow> lf_program \<Rightarrow> bool" where
  "lf_at p c s \<longleftrightarrow>
     c \<le> p \<and> p \<le> c + 25 \<and> ll_Head (lf_Buffer s) = of_nat p \<and> ll_Tail (lf_Buffer s) = of_nat c \<and>
     producerSequenceNumber s = of_nat p \<and> sequenceNumber s = of_nat c \<and> length (lf_Lines s) = c \<and> in_sequence (lf_Lines s) \<and>
     length (ll_Queue (lf_Buffer s)) = 25 \<and> (\<forall>e \<in> set (ll_Queue (lf_Buffer s)). length e = capacity) \<and>
     (\<forall>k. c \<le> k \<and> k < p \<longrightarrow> holds_element (of_nat k) (ll_Queue (lf_Buffer s) ! (k mod 25)))"

lemma size_at: "c \<le> p \<Longrightarrow> p \<le> c + 25 \<Longrightarrow> unat (of_nat p - of_nat c :: u16) = p - c"
  by (simp add: unat_of_nat flip: of_nat_diff)

lemma fill_holds: "length array = capacity \<Longrightarrow> length pad = 7 \<Longrightarrow> holds_element n (fill_element pad n time array)"
  by (auto simp: holds_element_def)

lemma push_at:
  assumes a: "lf_at p c s" and p: "p < 65536" and pad: "length pad = 7"
  shows "lf_at (if p < c + 25 then Suc p else p) c (producer_push time pad s)"
proof -
  let ?q = "lf_Buffer s"
  have sz: "LockLess_Size ?q = p - c" using a size_at by (auto simp: lf_at_def LockLess_Size_def)
  show ?thesis
  proof (cases "p < c + 25")
    case False
    with a sz have "LockLess_Push f ?q = (?q, False)" for f
      by (auto simp: LockLess_Push_def LockLess_HasSpace_def LockLess_Capacity_def lf_at_def)
    with False a show ?thesis by (simp add: producer_push_def)
  next
    case True
    let ?slot = "p mod 25" let ?old = "ll_Queue ?q ! ?slot"
    let ?new = "fill_element pad (of_nat p) time ?old"
    have n: "length (ll_Queue ?q) = 25" using a by (simp add: lf_at_def)
    have h: "LockLess_slot (ll_Head ?q) ?q = ?slot" using a p by (simp add: LockLess_slot_def lf_at_def unat_of_nat)
    have "?old \<in> set (ll_Queue ?q)" using n by simp
    then have new: "holds_element (of_nat p) ?new" using a pad by (intro fill_holds) (auto simp: lf_at_def)
    have "LockLess_Push (pushFn (of_nat p) time pad) ?q =
        (?q\<lparr>ll_Head := ll_Head ?q + 1, ll_Queue := (ll_Queue ?q)[?slot := ?new]\<rparr>, True)"
      using True a sz h by (simp add: LockLess_Push_def LockLess_HasSpace_def LockLess_Capacity_def lf_at_def pushFn_def Let_def)
    then have e: "producer_push time pad s = s\<lparr>lf_Buffer := ?q\<lparr>ll_Head := ll_Head ?q + 1, ll_Queue := (ll_Queue ?q)[?slot := ?new]\<rparr>,
        producerSequenceNumber := of_nat p + 1\<rparr>" using a by (simp add: producer_push_def lf_at_def)
    have ne: "k mod 25 \<noteq> ?slot" if "c \<le> k" "k < p" for k
      using slots_distinct [of "k - c" "p - c" 25 c] that True by simp
    have "\<forall>x \<in> set ((ll_Queue ?q)[?slot := ?new]). length x = capacity"
      using a holds_length [OF new] set_update_subset_insert [of "ll_Queue ?q" ?slot ?new] by (auto simp: lf_at_def)
    moreover have "(ll_Queue ?q)[?slot := ?new] ! (k mod 25) = ll_Queue ?q ! (k mod 25)" if "c \<le> k" "k < p" for k
      using ne [OF that] by (metis nth_list_update_neq)
    ultimately show ?thesis using a True new n by (auto simp: lf_at_def e less_Suc_eq add.commute)
  qed
qed

lemma pop_at:
  assumes a: "lf_at p c s" and p: "p \<le> 65536"
  shows "\<exists>s'. consumer_pop now s = Some s' \<and> lf_at p (if c < p then Suc c else c) s'"
proof -
  let ?q = "lf_Buffer s"
  have sz: "LockLess_Size ?q = p - c" using a size_at by (auto simp: lf_at_def LockLess_Size_def)
  show ?thesis
  proof (cases "c < p")
    case False
    with sz have "LockLess_Pop ?q = (?q, None)" by (simp add: LockLess_Pop_def Empty_iff)
    with False a show ?thesis by (simp add: consumer_pop_def)
  next
    case True
    let ?e = "ll_Queue ?q ! (c mod 25)"
    have "LockLess_slot (ll_Tail ?q) ?q = c mod 25" using a True p by (simp add: LockLess_slot_def lf_at_def unat_of_nat)
    with True sz have pop: "LockLess_Pop ?q = (?q\<lparr>ll_Tail := ll_Tail ?q + 1\<rparr>, Some ?e)"
      by (simp add: LockLess_Pop_def Empty_iff Let_def)
    have "holds_element (of_nat c) ?e" using a True by (simp add: lf_at_def)
    from read_holds [OF this, of now "of_nat c"] obtain delta where
      r: "read_element 7 now ?e (of_nat c) = Some (of_nat c + 1, Consumed (dec_nat (unat (of_nat c :: u64))) (of_nat c) delta)" by auto
    let ?s = "s\<lparr>lf_Buffer := ?q\<lparr>ll_Tail := ll_Tail ?q + 1\<rparr>, sequenceNumber := of_nat c + 1,
        lf_Lines := lf_Lines s @ [Consumed (dec_nat (unat (of_nat c :: u64))) (of_nat c) delta]\<rparr>"
    have "consumer_pop now s = Some ?s" using a pop r by (simp add: consumer_pop_def lf_at_def)
    moreover have "in_sequence (lf_Lines ?s)" using a in_sequence_snoc [of "lf_Lines s" "of_nat c"] by (simp add: lf_at_def)
    with a True have "lf_at p (Suc c) ?s" by (simp add: lf_at_def add.commute)
    ultimately show ?thesis using True by simp
  qed
qed

fun lf_padded :: "lf_op \<Rightarrow> bool" where
  "lf_padded (Produce time pad) \<longleftrightarrow> length pad = 7"
| "lf_padded (Consume now) \<longleftrightarrow> True"

definition produces :: "lf_op list \<Rightarrow> nat" where
  "produces ops = length (List.filter (\<lambda>op. case op of Produce _ _ \<Rightarrow> True | Consume _ \<Rightarrow> False) ops)"

lemma run_at:
  "lf_at p c s \<Longrightarrow> p + produces ops \<le> 65536 \<Longrightarrow> list_all lf_padded ops \<Longrightarrow>
   \<exists>s' p' c'. lf_run ops s = Some s' \<and> lf_at p' c' s'"
proof (induction ops arbitrary: p c s)
  case (Cons op ops)
  show ?case
  proof (cases op)
    case (Produce time pad)
    with Cons.prems have "p < 65536" "length pad = 7" by (simp_all add: produces_def)
    from push_at [OF Cons.prems(1) this] Cons.prems(2,3) Produce Cons.IH [OF push_at [OF Cons.prems(1) this, of time]]
    show ?thesis by (auto simp: produces_def split: if_splits)
  next
    case (Consume now)
    with Cons.prems have "p \<le> 65536" by simp
    from pop_at [OF Cons.prems(1) this, of now] obtain s1 where
      "consumer_pop now s = Some s1" "lf_at p (if c < p then Suc c else c) s1" by blast
    with Cons.IH [OF this(2)] Cons.prems Consume show ?thesis by (simp add: produces_def)
  qed
qed auto

lemma main_at: "length slots = 25 \<Longrightarrow> \<forall>e \<in> set slots. length e = capacity \<Longrightarrow> lf_at 0 0 (lf_main slots)"
  by (simp add: lf_at_def lf_main_def LockLess_ctor_def in_sequence_def)

text \<open>
  Up to 65536 tries of the producer, with pops of the consumer anywhere between them, the
  consumer reads the numbers in their sequence.
\<close>

theorem lf_in_sequence:
  assumes "length slots = 25" and "\<forall>e \<in> set slots. length e = capacity" and "list_all lf_padded ops"
    and "produces ops \<le> 65536"
  shows "\<exists>s. lf_run ops (lf_main slots) = Some s \<and> in_sequence (lf_Lines s) \<and> sequenceNumber s = of_nat (length (lf_Lines s))"
  using run_at [OF main_at [OF assms(1,2)] _ assms(3)] assms(4) by (auto simp: lf_at_def)

theorem lf_in_sequence_witness:
  "\<exists>s. lf_run [Produce 5 ''.......'', Produce 6 ''.......'', Consume 9] (lf_main (replicate 25 (replicate capacity CHR ''x''))) = Some s \<and>
    in_sequence (lf_Lines s) \<and> sequenceNumber s = of_nat (length (lf_Lines s))"
  by (rule lf_in_sequence) (simp_all add: produces_def)

section \<open>Where the counters wrap\<close>

text \<open>A push counts or changes nothing, and the count of the producer does not go back.\<close>

lemma push_counts:
  "producer_push time pad s = s \<or> producerSequenceNumber (producer_push time pad s) = producerSequenceNumber s + 1"
  by (simp add: producer_push_def LockLess_Push_def pushFn_def Let_def)

lemma pop_keeps_count: "consumer_pop now s = Some s' \<Longrightarrow> producerSequenceNumber s' = producerSequenceNumber s"
  by (auto simp: consumer_pop_def split: prod.splits option.splits)

lemma run_count:
  "lf_run ops s = Some s' \<Longrightarrow> N < unat (producerSequenceNumber s) \<Longrightarrow> unat (producerSequenceNumber s) + length ops < 2 ^ 64 \<Longrightarrow>
   N < unat (producerSequenceNumber s')"
proof (induction ops arbitrary: s)
  case (Cons op ops)
  show ?case
  proof (cases op)
    case (Produce time pad)
    let ?s1 = "producer_push time pad s"
    have "unat (producerSequenceNumber s + 1) = Suc (unat (producerSequenceNumber s))"
      using Cons.prems(3) by (simp add: unat_word_ariths)
    with push_counts [of time pad s] have
      "unat (producerSequenceNumber s) \<le> unat (producerSequenceNumber ?s1)" "unat (producerSequenceNumber ?s1) \<le> Suc (unat (producerSequenceNumber s))"
      by auto
    with Cons Produce show ?thesis by simp
  next
    case (Consume now)
    with Cons.prems(1) obtain s1 where "consumer_pop now s = Some s1" "lf_run ops s1 = Some s'" by (auto split: option.splits)
    with Cons.IH [of s1] Cons.prems(2,3) pop_keeps_count show ?thesis by simp
  qed
qed simp

lemma run_to_wrap:
  "lf_at p c s \<Longrightarrow> p \<le> 65536 \<Longrightarrow> length ops < 2 ^ 63 \<Longrightarrow> list_all lf_padded ops \<Longrightarrow> lf_run ops s = Some s' \<Longrightarrow>
   producerSequenceNumber s' = 65536 \<Longrightarrow> \<exists>c'. lf_at 65536 c' s'"
proof (induction ops arbitrary: p c s)
  case Nil
  then have "of_nat p = (65536 :: u64)" by (simp add: lf_at_def)
  then have "unat (of_nat p :: u64) = unat (65536 :: u64)" by simp
  with Nil.prems(2) have "p = 65536" by (simp add: unat_of_nat)
  with Nil show ?case by auto
next
  case (Cons op ops)
  show ?case
  proof (cases op)
    case (Produce time pad)
    with Cons.prems have pad: "length pad = 7" and r: "lf_run ops (producer_push time pad s) = Some s'" by simp_all
    show ?thesis
    proof (cases "p < 65536")
      case True
      from push_at [OF Cons.prems(1) True pad, of time] Cons.IH [OF _ _ _ _ r] Cons.prems(3-6) True
      show ?thesis by (auto split: if_splits)
    next
      case False
      with Cons.prems(1,2) have psn: "producerSequenceNumber s = 65536" by (simp add: lf_at_def)
      from push_counts [of time pad s] show ?thesis
      proof
        assume "producer_push time pad s = s"
        with r Cons.IH [of p c s] Cons.prems show ?thesis by simp
      next
        assume "producerSequenceNumber (producer_push time pad s) = producerSequenceNumber s + 1"
        with run_count [OF r, of 65536] psn Cons.prems(3,6) show ?thesis by simp
      qed
    qed
  next
    case (Consume now)
    from pop_at [OF Cons.prems(1,2), of now] Consume Cons.prems Cons.IH show ?thesis by (auto split: if_splits)
  qed
qed

text \<open>A pop of an element with a number.\<close>

lemma pop_reads:
  assumes "ll_Head (lf_Buffer s) \<noteq> ll_Tail (lf_Buffer s)" and "LockLess_slot (ll_Tail (lf_Buffer s)) (lf_Buffer s) = slot"
    and "holds_element n (ll_Queue (lf_Buffer s) ! slot)"
  shows "\<exists>delta. consumer_pop now s = Some (s\<lparr>lf_Buffer := (lf_Buffer s)\<lparr>ll_Tail := ll_Tail (lf_Buffer s) + 1\<rparr>,
      sequenceNumber := sequenceNumber s + 1,
      lf_Lines := lf_Lines s @ [if sequenceNumber s \<noteq> n then Invalid_sequence (sequenceNumber s) n else Consumed (dec_nat (unat n)) n delta]\<rparr>)"
proof -
  have "LockLess_Pop (lf_Buffer s) = ((lf_Buffer s)\<lparr>ll_Tail := ll_Tail (lf_Buffer s) + 1\<rparr>, Some (ll_Queue (lf_Buffer s) ! slot))"
    using assms(1,2) by (simp add: LockLess_Pop_def LockLess_Empty_def word_uint_eq_iff Let_def)
  with read_holds [OF assms(3), of now "sequenceNumber s"] show ?thesis by (auto simp: consumer_pop_def)
qed

text \<open>
  After the push that reuses the first slot, while the consumer has not come to the element that
  was there.
\<close>

definition lf_wrapped :: "nat \<Rightarrow> lf_program \<Rightarrow> bool" where
  "lf_wrapped c s \<longleftrightarrow>
     c \<le> 65525 \<and> ll_Head (lf_Buffer s) = 1 \<and> 65511 \<le> c \<and> ll_Tail (lf_Buffer s) = of_nat c \<and>
     sequenceNumber s = of_nat c \<and> length (lf_Lines s) = c \<and> in_sequence (lf_Lines s) \<and> length (ll_Queue (lf_Buffer s)) = 25 \<and>
     holds_element 65536 (ll_Queue (lf_Buffer s) ! 0) \<and>
     (\<forall>k. c \<le> k \<and> k < 65525 \<longrightarrow> holds_element (of_nat k) (ll_Queue (lf_Buffer s) ! (k mod 25)))"

lemma push_wraps:
  assumes a: "lf_at 65536 c s" and c: "c \<le> 65525" "65511 < c" and pad: "length pad = 7"
  shows "lf_wrapped c (producer_push time pad s) \<and> LockLess_Size (lf_Buffer (producer_push time pad s)) = 65537 - c"
proof -
  let ?q = "lf_Buffer s"
  have q: "ll_Head ?q = 0" "ll_Tail ?q = of_nat c" "length (ll_Queue ?q) = 25" "producerSequenceNumber s = 65536" "ll_Queue ?q \<noteq> []"
    using a by (auto simp: lf_at_def)
  have sz: "LockLess_Size ?q = 65536 - c" using a size_at [of c 65536] by (simp add: lf_at_def LockLess_Size_def)
  have "ll_Queue ?q ! 0 \<in> set (ll_Queue ?q)" using q(5) by (metis length_greater_0_conv nth_mem)
  with a have "length (ll_Queue ?q ! 0) = capacity" by (simp add: lf_at_def)
  then have new: "holds_element 65536 (fill_element pad 65536 time (ll_Queue ?q ! 0))" (is "holds_element _ ?new")
    using pad by (rule fill_holds)
  have s: "producer_push time pad s = s\<lparr>lf_Buffer := ?q\<lparr>ll_Head := 1, ll_Queue := (ll_Queue ?q)[0 := ?new]\<rparr>, producerSequenceNumber := 65537\<rparr>"
    using q sz c by (simp add: producer_push_def LockLess_Push_def LockLess_HasSpace_def LockLess_Capacity_def LockLess_slot_def pushFn_def Let_def)
  have one: "of_nat 65537 = (1 :: u16)" by simp
  have "k mod 25 \<noteq> 0" if "c \<le> k" "k < 65525" for k
    using that c slots_distinct [of "k - 65511" 14 25 65511] by simp
  then have "holds_element (of_nat k) ((ll_Queue ?q)[0 := ?new] ! (k mod 25))" if "c \<le> k" "k < 65525" for k
    using that a by (simp add: lf_at_def)
  moreover have "unat (of_nat 65537 - of_nat c :: u16) = 65537 - c" by (rule size_at) (use c in simp_all)
  then have "unat (1 - of_nat c :: u16) = 65537 - c" unfolding one by simp
  ultimately show ?thesis using a c q new by (simp add: s lf_wrapped_def lf_at_def LockLess_Size_def)
qed

lemma pop_wrapped:
  assumes w: "lf_wrapped c s"
  shows "\<exists>s' l. consumer_pop now s = Some s' \<and> lf_Lines s' = lf_Lines s @ [l] \<and>
    (if c < 65525 then lf_wrapped (Suc c) s' else l = Invalid_sequence 65525 65536)"
proof -
  let ?q = "lf_Buffer s"
  have tail: "unat (of_nat c :: u16) = c" using w by (simp add: lf_wrapped_def unat_of_nat)
  have "ll_Head ?q \<noteq> ll_Tail ?q"
  proof
    assume "ll_Head ?q = ll_Tail ?q"
    with w have "of_nat c = (1 :: u16)" by (metis lf_wrapped_def)
    with tail w show False by (simp add: lf_wrapped_def)
  qed
  moreover have "LockLess_slot (ll_Tail ?q) ?q = c mod 25" using w tail by (simp add: LockLess_slot_def lf_wrapped_def)
  moreover have "holds_element (if c < 65525 then of_nat c else 65536) (ll_Queue ?q ! (c mod 25))"
    using w by (cases "c = 65525") (auto simp: lf_wrapped_def)
  ultimately obtain delta where p: "consumer_pop now s = Some (s\<lparr>lf_Buffer := ?q\<lparr>ll_Tail := ll_Tail ?q + 1\<rparr>,
      sequenceNumber := sequenceNumber s + 1,
      lf_Lines := lf_Lines s @ [if sequenceNumber s \<noteq> (if c < 65525 then of_nat c else 65536)
        then Invalid_sequence (sequenceNumber s) (if c < 65525 then of_nat c else 65536)
        else Consumed (dec_nat (unat (if c < 65525 then of_nat c else 65536 :: u64))) (if c < 65525 then of_nat c else 65536) delta]\<rparr>)"
    using pop_reads by blast
  show ?thesis
  proof (cases "c < 65525")
    case True
    then show ?thesis
      using w p in_sequence_snoc [of "lf_Lines s" "of_nat c"] by (auto simp: lf_wrapped_def add.commute)
  next
    case False
    with w have "c = 65525" by (simp add: lf_wrapped_def)
    with w p show ?thesis by (auto simp: lf_wrapped_def)
  qed
qed

lemma pops_wrapped:
  "lf_wrapped c s \<Longrightarrow> c + length nows \<le> 65525 \<Longrightarrow> \<exists>s'. lf_run (map Consume nows) s = Some s' \<and> lf_wrapped (c + length nows) s'"
proof (induction nows arbitrary: c s)
  case (Cons now nows)
  from pop_wrapped [OF Cons.prems(1), of now] Cons.prems(2) obtain s1 where
    "consumer_pop now s = Some s1" "lf_wrapped (Suc c) s1" by auto
  with Cons.IH [OF this(2)] Cons.prems(2) show ?case by simp
qed simp

text \<open>
  C35: The push after which it goes wrong. The producer has pushed 65536 elements, whatever the order
  of pushes and pops was, and at least eleven of them are not read while the queue is not full: the
  next push succeeds and overwrites an element that was not read. The consumer reads the elements
  before that one in their sequence, and reports an invalid sequence for the next.
\<close>

theorem lf_breaks_at_wrap:
  assumes "length slots = 25" and "\<forall>e \<in> set slots. length e = capacity" and "list_all lf_padded ops" and "length ops < 2 ^ 63"
    and "lf_run ops (lf_main slots) = Some s" and "producerSequenceNumber s = 65536"
    and "11 \<le> LockLess_Size (lf_Buffer s)" and "LockLess_Size (lf_Buffer s) < 25"
    and "length pad = 7" and "length nows = LockLess_Size (lf_Buffer s) - 11"
  shows "LockLess_Size (lf_Buffer (producer_push time pad s)) = Suc (LockLess_Size (lf_Buffer s)) \<and>
    (\<exists>s1 s2. lf_run (map Consume nows) (producer_push time pad s) = Some s1 \<and> in_sequence (lf_Lines s1) \<and> length (lf_Lines s1) = 65525 \<and>
       consumer_pop now s1 = Some s2 \<and> lf_Lines s2 = lf_Lines s1 @ [Invalid_sequence 65525 65536])"
proof -
  from run_to_wrap [OF main_at [OF assms(1,2)] _ assms(4,3,5,6)] obtain c where a: "lf_at 65536 c s" by auto
  then have sz: "LockLess_Size (lf_Buffer s) = 65536 - c" using size_at [of c 65536] by (simp add: lf_at_def LockLess_Size_def)
  with assms(7,8) have c: "c \<le> 65525" "65511 < c" by simp_all
  note w = push_wraps [OF a c assms(9), of time]
  from c assms(10) sz have n: "c + length nows = 65525" by simp
  from pops_wrapped [of c "producer_push time pad s" nows] w n obtain s1 where
    s1: "lf_run (map Consume nows) (producer_push time pad s) = Some s1" "lf_wrapped 65525 s1" by auto
  from pop_wrapped [OF s1(2), of now] obtain s2 where
    "consumer_pop now s1 = Some s2" "lf_Lines s2 = lf_Lines s1 @ [Invalid_sequence 65525 65536]" by auto
  with s1 w sz c show ?thesis by (auto simp: lf_wrapped_def)
qed

text \<open>A consumer that keeps up for 65522 elements, and then looks when there are fourteen.\<close>

lemma alternate_at:
  assumes "lf_at 0 0 s" and "length pad = 7"
  shows "n \<le> 65536 \<Longrightarrow> \<exists>s'. lf_run (concat (replicate n [Produce time pad, Consume now])) s = Some s' \<and> lf_at n n s'"
proof (induction n)
  case 0
  with assms(1) show ?case by simp
next
  case (Suc n)
  then obtain s1 where r: "lf_run (concat (replicate n [Produce time pad, Consume now])) s = Some s1" and a: "lf_at n n s1" by auto
  have "lf_at (Suc n) n (producer_push time pad s1)" using push_at [OF a _ assms(2), of time] Suc.prems by simp
  from pop_at [OF this, of now] Suc.prems obtain s2 where
    "consumer_pop now (producer_push time pad s1) = Some s2" "lf_at (Suc n) (Suc n) s2" by auto
  moreover have "concat (replicate (Suc n) [Produce time pad, Consume now]) =
      concat (replicate n [Produce time pad, Consume now]) @ [Produce time pad, Consume now]"
    by (simp add: replicate_append_same [symmetric] del: replicate_append_same)
  ultimately show ?case using r by (simp add: lf_run_append)
qed

lemma produce_at:
  "lf_at p c s \<Longrightarrow> length pad = 7 \<Longrightarrow> p + k \<le> 65536 \<Longrightarrow> p + k \<le> c + 25 \<Longrightarrow>
   \<exists>s'. lf_run (replicate k (Produce time pad)) s = Some s' \<and> lf_at (p + k) c s'"
proof (induction k arbitrary: p s)
  case (Suc k)
  then have "lf_at (Suc p) c (producer_push time pad s)" using push_at [of p c s pad time] by simp
  from Suc.IH [OF this] Suc.prems show ?case by simp
qed simp

theorem lf_breaks_at_wrap_witness:
  "\<exists>s s1 s2. lf_run (concat (replicate 65522 [Produce 5 ''.......'', Consume 9]) @ replicate 14 (Produce 5 ''.......''))
      (lf_main (replicate 25 (replicate capacity CHR ''x''))) = Some s \<and> LockLess_Size (lf_Buffer s) = 14 \<and>
    lf_run (map Consume [9, 9, 9]) (producer_push 5 ''.......'' s) = Some s1 \<and> in_sequence (lf_Lines s1) \<and> length (lf_Lines s1) = 65525 \<and>
    consumer_pop 9 s1 = Some s2 \<and> lf_Lines s2 = lf_Lines s1 @ [Invalid_sequence 65525 65536]"
proof -
  let ?slots = "replicate 25 (replicate capacity CHR ''x'')" and ?a = "concat (replicate 65522 [Produce 5 ''.......'', Consume 9])"
  let ?b = "replicate 14 (Produce 5 ''.......'')"
  have sl: "length ?slots = 25" "\<forall>e \<in> set ?slots. length e = capacity" by simp_all
  from alternate_at [OF main_at [OF sl], of "''.......''" 65522 5 9] obtain s1 where
    s1: "lf_run ?a (lf_main ?slots) = Some s1" "lf_at 65522 65522 s1" by auto
  from produce_at [OF s1(2), of "''.......''" 14 5] obtain s where s: "lf_run ?b s1 = Some s" "lf_at 65536 65522 s" by auto
  have r: "lf_run (?a @ ?b) (lf_main ?slots) = Some s" using s1(1) s(1) by (simp add: lf_run_append)
  have p: "list_all lf_padded (?a @ ?b)" by (simp add: list_all_iff)
  have l: "length (?a @ ?b) < 2 ^ 63" by (simp add: length_concat sum_list_replicate)
  have e: "producerSequenceNumber s = 65536" "LockLess_Size (lf_Buffer s) = 14"
    using s(2) size_at [of 65522 65536] by (simp_all add: lf_at_def LockLess_Size_def)
  from lf_breaks_at_wrap [OF sl p l r e(1), of "''.......''" "[9, 9, 9]" 5 9] e(2) r show ?thesis by auto
qed

end
