(* ===== verification/EchoPrograms.thy ===== *)
theory EchoPrograms
  imports Prelude
begin

text \<open>
  The pair of example programs \<open>boost_asio_ssl\<close>: a client sends one line and the server sends back
  what it receives. The two directions of a connection are queues of bytes; the reads and writes of
  the I/O library move as many bytes as they like, at least one, and a composed read or write
  calls its handler when it has moved all of them. Any operation may also end with an error. A
  session lives as long as a handler holds it, so it is over when an operation fails. What the two
  programs print is a list of texts each, without the ends of the lines.
\<close>

section \<open>A connection\<close>

text \<open>The operation each side has started: what is still to be written, what has been read.\<close>

datatype client_state = Connecting | Client_handshake | Client_writes string | Client_reads string | Client_ends

datatype session_state = Session_handshake | Session_reads | Session_writes string | Session_ends

record echo =
  request :: string
  ec_Client :: client_state
  ec_Session :: session_state
  ec_Up :: string
  ec_Down :: string
  ec_Out :: "string list"
  ec_ServerOut :: "string list"

text \<open>\<open>getline\<close> into 1024 characters, and \<open>strlen\<close> of what it stored.\<close>

definition max_length :: nat where
  "max_length = 1024"

definition send_request :: "string \<Rightarrow> echo \<Rightarrow> echo" where
  "send_request input e =
     (let typed = take (max_length - 1) (takeWhile (\<lambda>c. c \<noteq> CHR 0x0A) input);
          r = c_str typed
      in e\<lparr>request := r, ec_Client := Client_writes r, ec_Out := ec_Out e @ [''Enter message: '']\<rparr>)"

text \<open>
  The callback of the handshake for a certificate of the chain, and the calls of the library: one
  for each certificate, up to the first that is not accepted.
\<close>

definition verify_certificate :: "bool \<Rightarrow> string \<Rightarrow> echo \<Rightarrow> echo \<times> bool" where
  "verify_certificate preverified subject_name e = (e\<lparr>ec_Out := ec_Out e @ [''Verifying '' @ subject_name]\<rparr>, preverified)"

fun verify_chain :: "(bool \<times> string) list \<Rightarrow> echo \<Rightarrow> echo" where
  "verify_chain [] e = e"
| "verify_chain ((preverified, subject_name) # certs) e =
     (case verify_certificate preverified subject_name e of
        (e1, accepted) \<Rightarrow> if accepted then verify_chain certs e1 else e1)"

definition connect_handler :: "string option \<Rightarrow> echo \<Rightarrow> echo" where
  "connect_handler error e =
     (case error of
        None \<Rightarrow> e\<lparr>ec_Client := Client_handshake\<rparr>
      | Some msg \<Rightarrow> e\<lparr>ec_Client := Client_ends, ec_Out := ec_Out e @ [''Connect failed: '' @ msg]\<rparr>)"

definition client_handshake_handler :: "string option \<Rightarrow> string \<Rightarrow> echo \<Rightarrow> echo" where
  "client_handshake_handler error input e =
     (case error of
        None \<Rightarrow> send_request input e
      | Some msg \<Rightarrow> e\<lparr>ec_Client := Client_ends, ec_Out := ec_Out e @ [''Handshake failed: '' @ msg]\<rparr>)"

definition write_handler :: "string option \<Rightarrow> echo \<Rightarrow> echo" where
  "write_handler error e =
     (case error of
        None \<Rightarrow> e\<lparr>ec_Client := Client_reads []\<rparr>
      | Some msg \<Rightarrow> e\<lparr>ec_Client := Client_ends, ec_Out := ec_Out e @ [''Write failed: '' @ msg]\<rparr>)"

definition read_handler :: "string option \<Rightarrow> string \<Rightarrow> echo \<Rightarrow> echo" where
  "read_handler error reply e =
     (case error of
        None \<Rightarrow> e\<lparr>ec_Client := Client_ends, ec_Out := ec_Out e @ [''Reply: '' @ reply]\<rparr>
      | Some msg \<Rightarrow> e\<lparr>ec_Client := Client_ends, ec_Out := ec_Out e @ [''Read failed: '' @ msg]\<rparr>)"

text \<open>The handlers of the session; \<open>data\<close> is what was read into its buffer of 1024 bytes.\<close>

definition do_handshake_handler :: "bool \<Rightarrow> echo \<Rightarrow> echo" where
  "do_handshake_handler error e = e\<lparr>ec_Session := (if \<not> error then Session_reads else Session_ends)\<rparr>"

definition do_read_handler :: "bool \<Rightarrow> string \<Rightarrow> echo \<Rightarrow> echo" where
  "do_read_handler error data e =
     (if \<not> error then
        e\<lparr>ec_Session := Session_writes data, ec_ServerOut := ec_ServerOut e @ [''Read data and sending to back...'']\<rparr>
      else e\<lparr>ec_Session := Session_ends\<rparr>)"

definition do_write_handler :: "bool \<Rightarrow> echo \<Rightarrow> echo" where
  "do_write_handler error e = e\<lparr>ec_Session := (if \<not> error then Session_reads else Session_ends)\<rparr>"

text \<open>
  The steps of a connection. \<open>fails\<close> allows errors, \<open>chain\<close> are the subjects of the certificates
  of the server, which the client has all accepted when its handshake succeeds. The handshakes of
  the two sides end in any order; nothing is sent before.
\<close>

inductive echo_step :: "bool \<Rightarrow> string list \<Rightarrow> echo \<Rightarrow> echo \<Rightarrow> bool"
  for fails chain where
  connects: "ec_Client e = Connecting \<Longrightarrow> (error \<noteq> None \<longrightarrow> fails) \<Longrightarrow> echo_step fails chain e (connect_handler error e)"
| client_handshake: "ec_Client e = Client_handshake \<Longrightarrow>
    (if error = None then certs = map (Pair True) chain else fails) \<Longrightarrow>
    echo_step fails chain e (client_handshake_handler error input (verify_chain certs e))"
| client_write_some: "ec_Client e = Client_writes d \<Longrightarrow> 0 < n \<Longrightarrow> n \<le> length d \<Longrightarrow>
    echo_step fails chain e (e\<lparr>ec_Client := Client_writes (drop n d), ec_Up := ec_Up e @ take n d\<rparr>)"
| client_written: "ec_Client e = Client_writes d \<Longrightarrow> (if error = None then d = [] else fails) \<Longrightarrow> echo_step fails chain e (write_handler error e)"
| client_read_some: "ec_Client e = Client_reads d \<Longrightarrow> 0 < n \<Longrightarrow> n \<le> length (ec_Down e) \<Longrightarrow> length d + n \<le> length (request e) \<Longrightarrow>
    echo_step fails chain e (e\<lparr>ec_Client := Client_reads (d @ take n (ec_Down e)), ec_Down := drop n (ec_Down e)\<rparr>)"
| client_read: "ec_Client e = Client_reads d \<Longrightarrow> (if error = None then length d = length (request e) else fails) \<Longrightarrow>
    echo_step fails chain e (read_handler error d e)"
| session_handshake: "ec_Session e = Session_handshake \<Longrightarrow> ec_Client e \<noteq> Connecting \<Longrightarrow> (error \<longrightarrow> fails) \<Longrightarrow>
    echo_step fails chain e (do_handshake_handler error e)"
| session_read: "ec_Session e = Session_reads \<Longrightarrow> 0 < n \<Longrightarrow> n \<le> length (ec_Up e) \<Longrightarrow> n \<le> 1024 \<Longrightarrow>
    echo_step fails chain e (do_read_handler False (take n (ec_Up e)) (e\<lparr>ec_Up := drop n (ec_Up e)\<rparr>))"
| session_read_fails: "ec_Session e = Session_reads \<Longrightarrow> fails \<Longrightarrow> echo_step fails chain e (do_read_handler True [] e)"
| session_write_some: "ec_Session e = Session_writes d \<Longrightarrow> 0 < n \<Longrightarrow> n \<le> length d \<Longrightarrow>
    echo_step fails chain e (e\<lparr>ec_Session := Session_writes (drop n d), ec_Down := ec_Down e @ take n d\<rparr>)"
| session_written: "ec_Session e = Session_writes d \<Longrightarrow> (if error then fails else d = []) \<Longrightarrow> echo_step fails chain e (do_write_handler error e)"

definition echo_start :: echo where
  "echo_start = \<lparr>request = [], ec_Client = Connecting, ec_Session = Session_handshake, ec_Up = [], ec_Down = [], ec_Out = [], ec_ServerOut = []\<rparr>"

section \<open>What comes back\<close>

text \<open>The bytes of the request, from those the client has read back to those it has not written.\<close>

fun client_unwritten :: "client_state \<Rightarrow> string" where
  "client_unwritten (Client_writes d) = d"
| "client_unwritten _ = []"

fun client_got :: "client_state \<Rightarrow> string" where
  "client_got (Client_reads d) = d"
| "client_got _ = []"

fun session_holds :: "session_state \<Rightarrow> string" where
  "session_holds (Session_writes d) = d"
| "session_holds _ = []"

definition on_the_way :: "echo \<Rightarrow> string" where
  "on_the_way e = client_got (ec_Client e) @ ec_Down e @ session_holds (ec_Session e) @ ec_Up e @ client_unwritten (ec_Client e)"

definition is_reply :: "string \<Rightarrow> bool" where
  "is_reply l \<longleftrightarrow> take 7 l = ''Reply: ''"

text \<open>
  While the client runs, the bytes on the way are the request, or a beginning of it when a
  session has failed; the client has printed no reply yet, and what it prints as a reply is the
  request.
\<close>

definition echo_inv :: "echo \<Rightarrow> bool" where
  "echo_inv e \<longleftrightarrow>
     (\<forall>l \<in> set (ec_Out e). is_reply l \<longrightarrow> l = ''Reply: '' @ request e) \<and>
     (case ec_Client e of
        Connecting \<Rightarrow> request e = [] \<and> ec_Up e = [] \<and> ec_Down e = [] \<and> session_holds (ec_Session e) = [] \<and> ec_Out e = []
      | Client_handshake \<Rightarrow> request e = [] \<and> ec_Up e = [] \<and> ec_Down e = [] \<and> session_holds (ec_Session e) = [] \<and> ec_Out e = []
      | Client_writes d \<Rightarrow> ec_Session e \<noteq> Session_ends \<longrightarrow> on_the_way e = request e
      | Client_reads d \<Rightarrow> ec_Session e \<noteq> Session_ends \<longrightarrow> on_the_way e = request e
      | Client_ends \<Rightarrow> True) \<and>
     (ec_Client e \<noteq> Client_ends \<longrightarrow> (\<exists>rest. request e = client_got (ec_Client e) @ ec_Down e @ rest))"

text \<open>The verification prints, and what it prints is no reply.\<close>

lemma verify_chain_prints:
  "\<exists>ls. verify_chain certs e = e\<lparr>ec_Out := ec_Out e @ ls\<rparr> \<and> list_all (\<lambda>l. \<not> is_reply l) ls"
proof (induction certs arbitrary: e)
  case Nil
  show ?case by (intro exI [of _ "[]"]) simp
next
  case (Cons c certs)
  obtain preverified subject_name where c: "c = (preverified, subject_name)" by (cases c)
  let ?l = "''Verifying '' @ subject_name" and ?e = "e\<lparr>ec_Out := ec_Out e @ [''Verifying '' @ subject_name]\<rparr>"
  obtain ls where "verify_chain certs ?e = ?e\<lparr>ec_Out := ec_Out ?e @ ls\<rparr>" "list_all (\<lambda>l. \<not> is_reply l) ls"
    using Cons.IH [of ?e] by blast
  then show ?case
    by (intro exI [of _ "?l # (if preverified then ls else [])"]) (simp add: c verify_certificate_def is_reply_def)
qed

lemma verify_chain_accepted:
  "verify_chain (map (Pair True) chain) e = e\<lparr>ec_Out := ec_Out e @ map ((@) ''Verifying '') chain\<rparr>"
  by (induction chain arbitrary: e) (simp_all add: verify_certificate_def)

lemma beginning: "\<exists>rest. d @ z = take n d @ rest"
  by (rule exI [of _ "drop n d @ z"]) simp

lemma echo_inv_step:
  assumes "echo_step fails chain e e'" and "echo_inv e"
  shows "echo_inv e'"
  using assms
proof (cases rule: echo_step.cases)
  case (connects error)
  with assms(2) show ?thesis by (cases error) (auto simp: echo_inv_def connect_handler_def is_reply_def)
next
  case (client_handshake error certs input)
  obtain ls where "verify_chain certs e = e\<lparr>ec_Out := ec_Out e @ ls\<rparr>" "list_all (\<lambda>l. \<not> is_reply l) ls"
    using verify_chain_prints by blast
  with client_handshake assms(2) show ?thesis
    by (cases error) (auto simp: echo_inv_def client_handshake_handler_def send_request_def on_the_way_def is_reply_def list_all_iff Let_def)
next
  case (client_write_some d n)
  with assms(2) show ?thesis by (auto simp: echo_inv_def on_the_way_def)
next
  case (client_written d error)
  with assms(2) show ?thesis by (cases error) (auto simp: echo_inv_def write_handler_def on_the_way_def is_reply_def)
next
  case (client_read_some d n)
  with assms(2) show ?thesis
    by (auto simp: echo_inv_def on_the_way_def) (metis append_assoc append_take_drop_id)+
next
  case (client_read d error)
  with assms(2) show ?thesis
    by (cases error) (auto simp: echo_inv_def read_handler_def is_reply_def)
next
  case (session_handshake error)
  with assms(2) show ?thesis by (cases "ec_Client e") (auto simp: echo_inv_def do_handshake_handler_def on_the_way_def)
next
  case (session_read n)
  with assms(2) show ?thesis
    by (cases "ec_Client e") (auto simp: echo_inv_def do_read_handler_def on_the_way_def)
next
  case session_read_fails
  with assms(2) show ?thesis by (cases "ec_Client e") (auto simp: echo_inv_def do_read_handler_def on_the_way_def)
next
  case (session_write_some d n)
  with assms(2) show ?thesis
    by (cases "ec_Client e") (auto simp: echo_inv_def on_the_way_def beginning)
next
  case (session_written d error)
  with assms(2) show ?thesis by (cases "ec_Client e") (auto simp: echo_inv_def do_write_handler_def on_the_way_def)
qed

lemma echo_inv_reach: "(echo_step fails chain)\<^sup>*\<^sup>* echo_start e \<Longrightarrow> echo_inv e"
proof (induction rule: rtranclp_induct)
  case base
  show ?case by (simp add: echo_inv_def echo_start_def)
next
  case (step e e')
  then show ?case by (blast intro: echo_inv_step)
qed

section \<open>The reply comes\<close>

text \<open>How far a connection without errors is from its reply.\<close>

fun client_phase :: "client_state \<Rightarrow> nat" where
  "client_phase Connecting = 4"
| "client_phase Client_handshake = 3"
| "client_phase (Client_writes d) = 2"
| "client_phase (Client_reads d) = 1"
| "client_phase Client_ends = 0"

fun session_phase :: "session_state \<Rightarrow> nat" where
  "session_phase Session_handshake = 3"
| "session_phase Session_reads = 1"
| "session_phase (Session_writes d) = 2"
| "session_phase Session_ends = 0"

definition distance :: "echo \<Rightarrow> nat" where
  "distance e = 10000 * client_phase (ec_Client e) + 5 * length (client_unwritten (ec_Client e)) + 4 * length (ec_Up e) +
     2 * length (session_holds (ec_Session e)) + length (ec_Down e) + session_phase (ec_Session e)"

lemma length_c_str: "length (c_str s) \<le> length s"
  by (simp add: c_str_def length_takeWhile_le)

lemma distance_step:
  assumes "echo_step False chain e e'"
  shows "distance e' < distance e"
  using assms
proof (cases rule: echo_step.cases)
  case (client_handshake error certs input)
  obtain ls where v: "verify_chain certs e = e\<lparr>ec_Out := ec_Out e @ ls\<rparr>" using verify_chain_prints by blast
  have "length (c_str (take (max_length - 1) (takeWhile (\<lambda>c. c \<noteq> CHR 0x0A) input))) \<le> 1023"
    using length_c_str [of "take (max_length - 1) (takeWhile (\<lambda>c. c \<noteq> CHR 0x0A) input)"] by (simp add: max_length_def)
  with client_handshake v show ?thesis
    by (cases error) (auto simp: distance_def client_handshake_handler_def send_request_def Let_def simp del: c_str_def)
qed (auto simp: distance_def connect_handler_def write_handler_def read_handler_def do_handshake_handler_def do_read_handler_def
    do_write_handler_def split: option.splits if_splits)

text \<open>Without errors the session does not end, and what the client has printed follows from its state.\<close>

fun printed :: "string list \<Rightarrow> client_state \<Rightarrow> string \<Rightarrow> string list" where
  "printed chain Connecting r = []"
| "printed chain Client_handshake r = []"
| "printed chain (Client_writes d) r = map ((@) ''Verifying '') chain @ [''Enter message: '']"
| "printed chain (Client_reads d) r = map ((@) ''Verifying '') chain @ [''Enter message: '']"
| "printed chain Client_ends r = map ((@) ''Verifying '') chain @ [''Enter message: '', ''Reply: '' @ r]"

definition echo_ok :: "string list \<Rightarrow> echo \<Rightarrow> bool" where
  "echo_ok chain e \<longleftrightarrow> ec_Session e \<noteq> Session_ends \<and> ec_Out e = printed chain (ec_Client e) (request e)"

lemma echo_ok_step:
  assumes s: "echo_step False chain e e'" and i: "echo_inv e" and o: "echo_ok chain e"
  shows "echo_ok chain e'"
  using s
proof (cases rule: echo_step.cases)
  case (client_read d error)
  then have "length d = length (request e)" by (auto split: if_splits)
  moreover have "d @ ec_Down e @ session_holds (ec_Session e) @ ec_Up e = request e"
    using i o client_read(2) by (auto simp: echo_inv_def echo_ok_def on_the_way_def)
  ultimately have "d = request e" by (metis append_eq_conv_conj take_all order_refl)
  with client_read o show ?thesis by (cases error) (auto simp: echo_ok_def read_handler_def)
next
  case (client_handshake error certs input)
  with o show ?thesis
    by (cases error) (auto simp: echo_ok_def client_handshake_handler_def send_request_def verify_chain_accepted Let_def)
qed (use o in \<open>auto simp: echo_ok_def connect_handler_def write_handler_def
    do_handshake_handler_def do_read_handler_def do_write_handler_def Let_def split: option.splits if_splits\<close>)

lemma echo_progress:
  assumes i: "echo_inv e" and o: "echo_ok chain e" and c: "ec_Client e \<noteq> Client_ends"
  shows "\<exists>e'. echo_step False chain e e'"
proof (cases "ec_Client e")
  case Connecting
  then show ?thesis using connects [of e None False chain] by blast
next
  case Client_handshake
  then show ?thesis using echo_step.client_handshake [of e None "map (Pair True) chain" chain False] by auto
next
  case (Client_writes d)
  show ?thesis
  proof (cases d)
    case Nil
    then show ?thesis using client_written [of e d None False chain] Client_writes by auto
  next
    case (Cons a as)
    then show ?thesis using client_write_some [of e d 1 False chain] Client_writes by auto
  qed
next
  case (Client_reads d)
  have w: "d @ ec_Down e @ session_holds (ec_Session e) @ ec_Up e = request e"
    using i o Client_reads by (auto simp: echo_inv_def echo_ok_def on_the_way_def)
  then have l: "length (request e) = length d + length (ec_Down e) + length (session_holds (ec_Session e)) + length (ec_Up e)"
    by (metis add.assoc length_append)
  show ?thesis
  proof (cases "ec_Down e = []")
    case False
    then have n: "1 \<le> length (ec_Down e)" by (cases "ec_Down e") simp_all
    with l have "length d + 1 \<le> length (request e)" by linarith
    with client_read_some [OF Client_reads _ n, of False] show ?thesis by (metis zero_less_one)
  next
    case down: True
    show ?thesis
    proof (cases "ec_Session e")
      case Session_handshake
      then show ?thesis using session_handshake [of e False False] Client_reads by auto
    next
      case Session_reads
      show ?thesis
      proof (cases "ec_Up e = []")
        case True
        with Session_reads down l show ?thesis using client_read [of e d None False chain] Client_reads by auto
      next
        case False
        then have "1 \<le> length (ec_Up e)" by (cases "ec_Up e") simp_all
        with session_read [OF Session_reads, of 1 False] show ?thesis by (metis zero_less_one one_le_numeral)
      qed
    next
      case (Session_writes x)
      show ?thesis
      proof (cases x)
        case Nil
        then show ?thesis using session_written [of e x False False chain] Session_writes by auto
      next
        case (Cons a as)
        then show ?thesis using session_write_some [of e x 1 False chain] Session_writes by auto
      qed
    next
      case Session_ends
      with o show ?thesis by (simp add: echo_ok_def)
    qed
  qed
qed (use c in simp)

text \<open>
  C38: Without errors a connection takes at most 40003 steps whatever is typed, and it does not get
  stuck before the client has printed the certificates it has verified, its prompt and as its reply
  the request it sent.
\<close>

theorem echo_terminates:
  assumes "(echo_step False chain ^^ n) echo_start e"
  shows "n \<le> 40003 \<and> ((\<exists>e'. echo_step False chain e e') \<or>
    ec_Out e = map ((@) ''Verifying '') chain @ [''Enter message: '', ''Reply: '' @ request e])"
proof -
  from assms have "echo_inv e \<and> echo_ok chain e \<and> distance e + n \<le> 40003"
  proof (induction n arbitrary: e)
    case 0
    then show ?case by (auto simp: echo_inv_def echo_ok_def echo_start_def distance_def)
  next
    case (Suc n)
    then obtain e1 where "(echo_step False chain ^^ n) echo_start e1" and s: "echo_step False chain e1 e" by auto
    with Suc.IH [of e1] have i: "echo_inv e1" "echo_ok chain e1" "distance e1 + n \<le> 40003" by auto
    from echo_inv_step [OF s i(1)] echo_ok_step [OF s i(1,2)] distance_step [OF s] i(3) show ?case by simp
  qed
  then have i: "echo_inv e" "echo_ok chain e" and n: "n \<le> 40003" by simp_all
  show ?thesis
  proof (cases "ec_Client e = Client_ends")
    case True
    with i(2) n show ?thesis by (simp add: echo_ok_def)
  next
    case False
    from echo_progress [OF i False] n show ?thesis by blast
  qed
qed

text \<open>A run of the client that sends one character.\<close>

lemma echo_run:
  "(echo_step fails [''ca''] ^^ 9) echo_start
     \<lparr>request = ''a'', ec_Client = Client_ends, ec_Session = Session_writes [], ec_Up = [], ec_Down = [],
      ec_Out = [''Verifying ca'', ''Enter message: '', ''Reply: a''], ec_ServerOut = [''Read data and sending to back...'']\<rparr>"
proof -
  let ?e = "\<lambda>r c s up down out sout. \<lparr>request = r, ec_Client = c, ec_Session = s, ec_Up = up, ec_Down = down, ec_Out = out, ec_ServerOut = sout\<rparr>"
  let ?o = "[''Verifying ca'', ''Enter message: '']" and ?s = "[''Read data and sending to back...'']"
  note hs = verify_certificate_def connect_handler_def client_handshake_handler_def send_request_def write_handler_def read_handler_def
    do_handshake_handler_def do_read_handler_def max_length_def c_str_def Let_def
  have "echo_step fails [''ca''] echo_start (?e [] Client_handshake Session_handshake [] [] [] [])"
    using connects [of echo_start None fails "[''ca'']"] by (simp add: echo_start_def hs)
  moreover have "echo_step fails [''ca''] (?e [] Client_handshake Session_handshake [] [] [] []) (?e ''a'' (Client_writes ''a'') Session_handshake [] [] ?o [])"
    using client_handshake [of "?e [] Client_handshake Session_handshake [] [] [] []" None "[(True, ''ca'')]" "[''ca'']" fails "''a''"] by (simp add: hs)
  moreover have "echo_step fails [''ca''] (?e ''a'' (Client_writes ''a'') Session_handshake [] [] ?o []) (?e ''a'' (Client_writes []) Session_handshake ''a'' [] ?o [])"
    using client_write_some [of "?e ''a'' (Client_writes ''a'') Session_handshake [] [] ?o []" "''a''" 1 fails "[''ca'']"] by simp
  moreover have "echo_step fails [''ca''] (?e ''a'' (Client_writes []) Session_handshake ''a'' [] ?o []) (?e ''a'' (Client_reads []) Session_handshake ''a'' [] ?o [])"
    using client_written [of "?e ''a'' (Client_writes []) Session_handshake ''a'' [] ?o []" "[]" None fails "[''ca'']"] by (simp add: hs)
  moreover have "echo_step fails [''ca''] (?e ''a'' (Client_reads []) Session_handshake ''a'' [] ?o []) (?e ''a'' (Client_reads []) Session_reads ''a'' [] ?o [])"
    using session_handshake [of "?e ''a'' (Client_reads []) Session_handshake ''a'' [] ?o []" False fails "[''ca'']"] by (simp add: hs)
  moreover have "echo_step fails [''ca''] (?e ''a'' (Client_reads []) Session_reads ''a'' [] ?o []) (?e ''a'' (Client_reads []) (Session_writes ''a'') [] [] ?o ?s)"
    using session_read [of "?e ''a'' (Client_reads []) Session_reads ''a'' [] ?o []" 1 fails "[''ca'']"] by (simp add: hs)
  moreover have "echo_step fails [''ca''] (?e ''a'' (Client_reads []) (Session_writes ''a'') [] [] ?o ?s) (?e ''a'' (Client_reads []) (Session_writes []) [] ''a'' ?o ?s)"
    using session_write_some [of "?e ''a'' (Client_reads []) (Session_writes ''a'') [] [] ?o ?s" "''a''" 1 fails "[''ca'']"] by simp
  moreover have "echo_step fails [''ca''] (?e ''a'' (Client_reads []) (Session_writes []) [] ''a'' ?o ?s) (?e ''a'' (Client_reads ''a'') (Session_writes []) [] [] ?o ?s)"
    using client_read_some [of "?e ''a'' (Client_reads []) (Session_writes []) [] ''a'' ?o ?s" "[]" 1 fails "[''ca'']"] by simp
  moreover have "echo_step fails [''ca''] (?e ''a'' (Client_reads ''a'') (Session_writes []) [] [] ?o ?s)
      (?e ''a'' Client_ends (Session_writes []) [] [] (?o @ [''Reply: a'']) ?s)"
    using client_read [of "?e ''a'' (Client_reads ''a'') (Session_writes []) [] [] ?o ?s" "''a''" None fails "[''ca'']"] by (simp add: hs)
  ultimately have "(echo_step fails [''ca''] ^^ Suc (Suc (Suc (Suc (Suc (Suc (Suc (Suc (Suc 0))))))))) echo_start
      (?e ''a'' Client_ends (Session_writes []) [] [] (?o @ [''Reply: a'']) ?s)"
    by (blast intro: relpowp_Suc_I relpowp_0_I)
  then show ?thesis by (simp add: numeral_eq_Suc)
qed

theorem echo_terminates_witness:
  "\<exists>e. (echo_step False [''ca''] ^^ 9) echo_start e \<and> request e = ''a'' \<and> (9 :: nat) \<le> 40003 \<and>
    ((\<exists>e'. echo_step False [''ca''] e e') \<or> ec_Out e = [''Verifying ca'', ''Enter message: '', ''Reply: a''])"
  using echo_terminates [OF echo_run] echo_run by fastforce

text \<open>
  Whatever the network does with the bytes, and whatever fails, the only reply the client ever
  prints is the request it sent.
\<close>

theorem echo_reply_is_request:
  assumes "(echo_step fails chain)\<^sup>*\<^sup>* echo_start e" and "''Reply: '' @ r \<in> set (ec_Out e)"
  shows "r = request e"
  using echo_inv_reach [OF assms(1)] assms(2) by (auto simp: echo_inv_def is_reply_def)

theorem echo_reply_is_request_witness:
  "\<exists>e. (echo_step True [''ca''])\<^sup>*\<^sup>* echo_start e \<and> ''Reply: '' @ ''a'' \<in> set (ec_Out e) \<and> request e = ''a''"
proof -
  obtain e where r: "(echo_step True [''ca''])\<^sup>*\<^sup>* echo_start e" and o: "''Reply: '' @ ''a'' \<in> set (ec_Out e)"
    using relpowp_imp_rtranclp [OF echo_run] by fastforce
  from echo_reply_is_request [OF r o] r o show ?thesis by metis
qed

section \<open>The programs\<close>

text \<open>The server waits for the next connection after every one, accepted or failed.\<close>

definition do_accept_handler :: "bool \<Rightarrow> echo list \<Rightarrow> echo list" where
  "do_accept_handler error cs = (if \<not> error then cs @ [echo_start] else cs)"


text \<open>\<open>atoi\<close>: white space, a sign, digits; a number that does not fit into an \<open>int\<close> is not defined.\<close>

definition is_digit :: "char \<Rightarrow> bool" where
  "is_digit c \<longleftrightarrow> 48 \<le> (of_char c :: nat) \<and> (of_char c :: nat) \<le> 57"

definition is_space :: "char \<Rightarrow> bool" where
  "is_space c \<longleftrightarrow> (of_char c :: nat) = 32 \<or> 9 \<le> (of_char c :: nat) \<and> (of_char c :: nat) \<le> 13"

definition atoi :: "string \<Rightarrow> int" where
  "atoi s =
     (case dropWhile is_space s of
        [] \<Rightarrow> 0
      | c # cs \<Rightarrow>
          if c = CHR ''-'' then - int (parse_nat (takeWhile is_digit cs))
          else if c = CHR ''+'' then int (parse_nat (takeWhile is_digit cs))
          else int (parse_nat (takeWhile is_digit (c # cs))))"

text \<open>
  The constructor of the server opens its port and sets up the TLS context, which asks for the
  password of the key; then it accepts. \<open>bind\<close> and \<open>tls\<close> are the outcomes of the library.
\<close>

definition get_password :: string where
  "get_password = ''test''"

definition server_ctor :: "(u16 \<Rightarrow> unit throws) \<Rightarrow> (string \<Rightarrow> unit throws) \<Rightarrow> u16 \<Rightarrow> echo list throws" where
  "server_ctor bind tls port = bind_e (bind port) (\<lambda>_. bind_e (tls get_password) (\<lambda>_. Inr []))"

text \<open>What a program prints to the error stream and its status; \<open>run\<close> is what becomes of the service.\<close>

definition echo_exit :: "unit throws \<Rightarrow> string \<times> nat" where
  "echo_exit r = (case r of Inl (CppExn what) \<Rightarrow> (''Exception: '' @ what @ [CHR 0x0A], 0) | Inr _ \<Rightarrow> ([], 0))"

definition echo_server_main ::
  "(u16 \<Rightarrow> unit throws) \<Rightarrow> (string \<Rightarrow> unit throws) \<Rightarrow> (echo list \<Rightarrow> unit throws) \<Rightarrow> string list \<Rightarrow> string \<times> nat" where
  "echo_server_main bind tls run argv =
     (if length argv \<noteq> 2 then (''Usage: server <port>'' @ [CHR 0x0A], 1)
      else echo_exit (bind_e (server_ctor bind tls (word_of_int (atoi (argv ! 1)))) run))"

definition echo_client_main ::
  "(string \<Rightarrow> string \<Rightarrow> 'e throws) \<Rightarrow> (string \<Rightarrow> unit throws) \<Rightarrow> ('e \<Rightarrow> echo \<Rightarrow> unit throws) \<Rightarrow> string list \<Rightarrow> string \<times> nat" where
  "echo_client_main resolve load_verify_file run argv =
     (if length argv \<noteq> 3 then (''Usage: client <host> <port>'' @ [CHR 0x0A], 1)
      else echo_exit (bind_e (resolve (argv ! 1) (argv ! 2)) (\<lambda>endpoints.
        bind_e (load_verify_file ''ca.pem'') (\<lambda>_. run endpoints echo_start))))"

lemma digit_char_digit: "d < 10 \<Longrightarrow> is_digit (digit_char d) \<and> \<not> is_space (digit_char d)"
  by (simp add: is_digit_def is_space_def digit_char_def)

lemma atoi_dec_nat: "atoi (dec_nat n) = int n"
proof -
  have d: "\<forall>c \<in> set (dec_nat n). \<exists>d < 10. c = digit_char d" using dec_nat_digits by blast
  then have tw: "takeWhile is_digit (dec_nat n) = dec_nat n" using digit_char_digit by (auto simp: takeWhile_eq_all_conv)
  obtain c cs where c: "dec_nat n = c # cs" by (cases "dec_nat n") auto
  with d obtain k where k: "k < 10" "c = digit_char k" by auto
  have "digit_char k \<noteq> CHR ''+''"
  proof
    assume "digit_char k = CHR ''+''"
    then have "(of_char (digit_char k) :: nat) = of_char (CHR ''+'')" by simp
    with k(1) show False by (simp add: digit_char_def)
  qed
  with k digit_char_neq_minus [OF k(1)] digit_char_digit [OF k(1)] tw parse_dec_nat [of n] show ?thesis
    by (simp add: atoi_def c takeWhile_eq_all_conv [THEN iffD2])
qed

text \<open>
  The port is cut to sixteen bits without a check, so that the server listens on another port than
  the one asked for; and a server that cannot open its port ends with the status of success.
\<close>

theorem echo_server_port:
  "echo_server_main bind tls run [name, dec_nat n] = echo_exit (bind_e (server_ctor bind tls (of_nat n)) run) \<and>
   unat (of_nat n :: u16) = n mod 65536 \<and>
   echo_server_main (\<lambda>port. Inl (CppExn what)) tls run [name, dec_nat n] = (''Exception: '' @ what @ [CHR 0x0A], 0)"
  by (simp add: echo_server_main_def atoi_dec_nat server_ctor_def echo_exit_def unat_of_nat)

end
