(* ===== verification/SmallPrograms.thy ===== *)
theory SmallPrograms
  imports Prelude
begin

text \<open>
  Two small example programs. \<open>eqvilent\<close>: a number as a mantissa and a power of two, and the
  way back through floating point. \<open>meta_programming\<close>: the distance between two iterators, chosen
  by the category of the iterator.
\<close>

section \<open>Decimal numbers\<close>

record Decimal =
  d_exponent :: "8 word"
  d_mantissa :: u64

text \<open>What the members print, and the constructors with it.\<close>

definition Decimal_line :: "string \<Rightarrow> Decimal \<Rightarrow> string" where
  "Decimal_line what d =
     ''Decimal::'' @ what @ '', mantissa: '' @ dec_nat (unat (d_mantissa d)) @ '', exponent: '' @ to_string (sint (d_exponent d))"

definition Decimal_ctor :: "8 word \<Rightarrow> Decimal \<times> string list" where
  "Decimal_ctor exp = (let d = \<lparr>d_exponent = exp, d_mantissa = 0\<rparr> in (d, [Decimal_line ''Decimal'' d]))"

definition Decimal_move :: "Decimal \<Rightarrow> Decimal \<times> string list" where
  "Decimal_move other = (other, [Decimal_line ''move'' other])"

definition Decimal_dtor :: "Decimal \<Rightarrow> string list" where
  "Decimal_dtor d = [Decimal_line ''~Decimal'' d]"

definition setMantissa :: "u64 \<Rightarrow> Decimal \<Rightarrow> Decimal" where
  "setMantissa m d = d\<lparr>d_mantissa := m\<rparr>"

text \<open>
  A local object that is returned: the compiler may build it in the place of the result
  (\<open>elided\<close>), and moves it there and destroys it otherwise.
\<close>

definition return_local :: "bool \<Rightarrow> Decimal \<times> string list \<Rightarrow> Decimal \<times> string list" where
  "return_local elided r =
     (case r of (d, out) \<Rightarrow>
        if elided then (d, out) else (case Decimal_move d of (d1, out1) \<Rightarrow> (d1, out @ out1 @ Decimal_dtor d)))"

definition createDecimal1 :: "bool \<Rightarrow> u64 \<Rightarrow> (Decimal \<times> string list) throws" where
  "createDecimal1 elided number =
     (if number mod 1024 = 0 then
        (case Decimal_ctor 10 of (d, out) \<Rightarrow> Inr (return_local elided (setMantissa (number div 1024) d, out)))
      else if number mod 16 = 0 then
        (case Decimal_ctor 4 of (d, out) \<Rightarrow> Inr (return_local elided (setMantissa (number div 16) d, out)))
      else Inl (CppExn ''not supported''))"

definition createDecimal2 :: "bool \<Rightarrow> u64 \<Rightarrow> Decimal \<times> string list" where
  "createDecimal2 elided number =
     (case Decimal_ctor 1 of (d, out) \<Rightarrow> return_local elided (setMantissa (number div 2) d, out))"

text \<open>\<open>main\<close> makes two numbers and destroys them in the opposite order.\<close>

definition eqvilent_main :: "bool \<Rightarrow> bool \<Rightarrow> string list throws" where
  "eqvilent_main elided1 elided2 =
     (case createDecimal1 elided1 512 of
        Inl e \<Rightarrow> Inl e
      | Inr (a, out1) \<Rightarrow>
          (case createDecimal2 elided2 1024 of (b, out2) \<Rightarrow> Inr (out1 @ out2 @ Decimal_dtor b @ Decimal_dtor a)))"

text \<open>
  The product of the mantissa and \<open>std::pow(2, exponent)\<close> is a \<open>double\<close>: the mantissa is rounded
  to 53 bits, to the nearest and to even in the middle; the product with a power of two is exact,
  and its conversion to an integer drops the fraction and is undefined when it does not fit.
\<close>

definition round_to :: "nat \<Rightarrow> nat \<Rightarrow> nat" where
  "round_to k n =
     (let q = n div 2 ^ k; r = n mod 2 ^ k
      in (if 2 * r < 2 ^ k \<or> 2 * r = 2 ^ k \<and> even q then q else q + 1) * 2 ^ k)"

fun excess_bits :: "nat \<Rightarrow> nat" where
  "excess_bits n = (if n < 2 ^ 53 then 0 else Suc (excess_bits (n div 2)))"

declare excess_bits.simps [simp del]

definition to_double :: "nat \<Rightarrow> nat" where
  "to_double n = round_to (excess_bits n) n"

definition getNumber :: "Decimal \<Rightarrow> u64 option" where
  "getNumber d =
     (let e = sint (d_exponent d); m = to_double (unat (d_mantissa d));
          v = (if 0 \<le> e then m * 2 ^ nat e else m div 2 ^ nat (- e))
      in if v < 2 ^ 64 then Some (of_nat v) else None)"

lemma to_double_exact: "n < 2 ^ 53 \<Longrightarrow> to_double n = n"
  by (simp add: to_double_def excess_bits.simps round_to_def)

lemma round_to_multiple: "round_to k n = n \<longleftrightarrow> n mod 2 ^ k = 0"
proof
  assume "round_to k n = n"
  then show "n mod 2 ^ k = 0" unfolding round_to_def Let_def by (metis mod_mult_self2_is_0)
next
  assume "n mod 2 ^ k = 0"
  then show "round_to k n = n" using div_mult_mod_eq [of n "2 ^ k"] by (simp add: round_to_def)
qed

text \<open>
  A number comes back exactly when its mantissa needs no more than 53 bits: the bits the
  conversion drops are zero.
\<close>

lemma created1:
  assumes "createDecimal1 elided n = Inr (d, out)"
  shows "if n mod 1024 = 0 then d_exponent d = 10 \<and> d_mantissa d = n div 1024 else d_exponent d = 4 \<and> d_mantissa d = n div 16 \<and> n mod 16 = 0"
  using assms
  by (auto simp: createDecimal1_def Decimal_ctor_def return_local_def Decimal_move_def setMantissa_def Let_def split: if_splits)

lemma getNumber_scaled:
  assumes "d_exponent d = of_nat e" and "e < 128" and "unat (d_mantissa d) * 2 ^ e = unat n"
  shows "getNumber d = Some n \<longleftrightarrow> unat (d_mantissa d) mod 2 ^ excess_bits (unat (d_mantissa d)) = 0"
proof -
  let ?m = "unat (d_mantissa d)"
  have s: "sint (d_exponent d) = int e" unfolding assms(1) using assms(2) by (simp add: signed_of_nat take_bit_nat_eq_self signed_take_bit_int_eq_self)
  have u: "unat n < 2 ^ 64" using unsigned_less [of n] by simp
  have g: "getNumber d = (if to_double ?m * 2 ^ e < 2 ^ 64 then Some (of_nat (to_double ?m * 2 ^ e)) else None)"
    by (simp add: getNumber_def s Let_def)
  have v: "(if v < 2 ^ 64 then Some (of_nat v) else None) = Some n \<longleftrightarrow> v = unat n" for v
    using u by (auto simp: unat_of_nat)
  have "getNumber d = Some n \<longleftrightarrow> to_double ?m * 2 ^ e = unat n" unfolding g by (rule v)
  also have "\<dots> \<longleftrightarrow> to_double ?m = ?m" using assms(3) by (metis mult_cancel2 power_not_zero zero_neq_numeral)
  also have "\<dots> \<longleftrightarrow> ?m mod 2 ^ excess_bits ?m = 0" by (simp add: to_double_def round_to_multiple)
  finally show ?thesis .
qed

lemma unat_div_mod: "n mod of_nat k = 0 \<Longrightarrow> 0 < k \<Longrightarrow> k < 2 ^ 64 \<Longrightarrow> unat (n div of_nat k :: u64) * k = unat n"
proof -
  assume n: "n mod of_nat k = 0" and k: "0 < k" "k < 2 ^ 64"
  have uk: "unat (of_nat k :: u64) = k" using k by (simp add: unat_of_nat)
  from arg_cong [OF n, of unat] have "unat n mod k = 0" by (simp add: unat_mod uk)
  then show ?thesis using div_mult_mod_eq [of "unat n" k] by (simp add: unat_div uk)
qed

lemma excess_none: "m < 2 ^ 53 \<Longrightarrow> m mod 2 ^ excess_bits m = 0"
  by (simp add: excess_bits.simps)

theorem decimal_comes_back:
  assumes "createDecimal1 elided n = Inr (d, out)"
  shows "(getNumber d = Some n \<longleftrightarrow> unat (d_mantissa d) mod 2 ^ excess_bits (unat (d_mantissa d)) = 0) \<and>
    (unat n < 2 ^ 57 \<longrightarrow> getNumber d = Some n)"
proof -
  note c = created1 [OF assms]
  have "\<exists>e. d_exponent d = of_nat e \<and> e < 128 \<and> unat (d_mantissa d) * 2 ^ e = unat n \<and> 4 \<le> e"
  proof (cases "n mod 1024 = 0")
    case True
    with c have d: "d_exponent d = 10" "d_mantissa d = n div 1024" by (simp_all only: if_True simp_thms)
    have "unat (n div of_nat 1024) * 1024 = unat n"
      by (rule unat_div_mod) (simp_all only: of_nat_numeral True, simp_all)
    then have "unat (d_mantissa d) * 2 ^ 10 = unat n" by (simp only: d of_nat_numeral) simp
    moreover have "d_exponent d = of_nat 10" by (simp only: d of_nat_numeral)
    ultimately show ?thesis by (intro exI [of _ 10]) (simp only: simp_thms, simp)
  next
    case False
    with c have d: "d_exponent d = 4" "d_mantissa d = n div 16" "n mod 16 = 0" by (simp_all only: if_False simp_thms)
    have "unat (n div of_nat 16) * 16 = unat n"
      by (rule unat_div_mod) (simp_all only: of_nat_numeral d, simp_all)
    then have "unat (d_mantissa d) * 2 ^ 4 = unat n" by (simp only: d of_nat_numeral) simp
    moreover have "d_exponent d = of_nat 4" by (simp only: d of_nat_numeral)
    ultimately show ?thesis by (intro exI [of _ 4]) (simp only: simp_thms, simp)
  qed
  then obtain e where e: "d_exponent d = of_nat e" "e < 128" "unat (d_mantissa d) * 2 ^ e = unat n" "4 \<le> e" by blast
  note iff = getNumber_scaled [OF e(1-3)]
  have "unat (d_mantissa d) mod 2 ^ excess_bits (unat (d_mantissa d)) = 0" if "unat n < 2 ^ 57"
  proof (rule excess_none)
    have "(16 :: nat) \<le> 2 ^ e" using power_increasing [OF e(4), of "2 :: nat"] by simp
    then have "unat (d_mantissa d) * 16 \<le> unat n" unfolding e(3) [symmetric] by simp
    with that show "unat (d_mantissa d) < 2 ^ 53" by simp
  qed
  with iff show ?thesis by (intro conjI impI) (assumption, rule iff [THEN iffD2])
qed

text \<open>A number that does not: the last bit of the mantissa \<open>2 ^ 53 + 1\<close> is lost.\<close>

theorem decimal_comes_back_witness:
  "\<exists>d out. createDecimal1 True (2 ^ 57 + 16) = Inr (d, out) \<and> d_mantissa d = 2 ^ 53 + 1 \<and> getNumber d \<noteq> Some (2 ^ 57 + 16)"
proof -
  obtain d out where c: "createDecimal1 True (2 ^ 57 + 16) = Inr (d, out)" and m: "d_mantissa d = 2 ^ 53 + 1"
    by (simp add: createDecimal1_def Decimal_ctor_def return_local_def setMantissa_def Let_def)
  have "unat (d_mantissa d) mod 2 ^ excess_bits (unat (d_mantissa d)) \<noteq> 0" by (simp add: m excess_bits.simps)
  with decimal_comes_back [OF c] c m show ?thesis by blast
qed

text \<open>The second way to make a number drops its lowest bit; \<open>main\<close> uses it for 1024, which is even.\<close>

theorem decimal2_drops_bit:
  assumes "createDecimal2 elided n = (d, out)" and "unat n < 2 ^ 54"
  shows "getNumber d = Some (n - n mod 2)"
proof -
  have d: "d_exponent d = of_nat 1" "d_mantissa d = n div 2"
    using assms(1)
    by (auto simp: createDecimal2_def Decimal_ctor_def return_local_def Decimal_move_def setMantissa_def Let_def split: if_splits)
  have u: "unat (n - n mod 2) = unat n - unat n mod 2"
    by (subst unat_sub) (simp_all add: unat_mod word_le_nat_alt)
  have "unat (d_mantissa d) = unat n div 2" by (simp add: d(2) unat_div)
  then have "unat (d_mantissa d) * 2 ^ 1 = unat (n - n mod 2)" and "unat (d_mantissa d) < 2 ^ 53"
    using assms(2) u minus_mod_eq_div_mult [of "unat n" 2] by simp_all
  with getNumber_scaled [OF d(1)] excess_none show ?thesis by simp
qed

theorem decimal2_drops_bit_witness: "\<exists>d out. createDecimal2 False 1025 = (d, out) \<and> getNumber d = Some 1024"
proof -
  obtain d out where c: "createDecimal2 False 1025 = (d, out)" by fastforce
  have "unat (1025 :: u64) < 2 ^ 54" by simp
  from decimal2_drops_bit [OF c this] c show ?thesis by simp
qed

text \<open>
  Whatever the compiler leaves out, \<open>main\<close> ends, and destroys every number it has made or moved:
  two numbers at least, four at most.
\<close>

definition made :: "string \<Rightarrow> bool" where
  "made l \<longleftrightarrow> take 16 l = ''Decimal::Decimal'' \<or> take 13 l = ''Decimal::move''"

definition destroyed :: "string \<Rightarrow> bool" where
  "destroyed l \<longleftrightarrow> take 17 l = ''Decimal::~Decimal''"

lemma line_kinds [simp]:
  "made (Decimal_line ''Decimal'' d)" "made (Decimal_line ''move'' d)" "\<not> made (Decimal_line ''~Decimal'' d)"
  "\<not> destroyed (Decimal_line ''Decimal'' d)" "\<not> destroyed (Decimal_line ''move'' d)" "destroyed (Decimal_line ''~Decimal'' d)"
  by (simp_all add: made_def destroyed_def Decimal_line_def)

theorem eqvilent_destroys_all:
  "\<exists>out. eqvilent_main elided1 elided2 = Inr out \<and>
    length (List.filter made out) = 2 + of_bool (\<not> elided1) + of_bool (\<not> elided2) \<and>
    length (List.filter destroyed out) = length (List.filter made out) \<and> length out = 2 * length (List.filter made out)"
  by (simp add: eqvilent_main_def createDecimal1_def createDecimal2_def Decimal_ctor_def Decimal_move_def Decimal_dtor_def
      return_local_def setMantissa_def Let_def)

section \<open>Distances\<close>

text \<open>
  Iterators are positions in a container of \<open>n\<close> elements. The difference of two positions of a
  random access iterator is a \<open>ptrdiff_t\<close>, converted to \<open>int\<close>; the loop of the other function steps
  until it meets the second iterator, and stepping past the end is undefined. Its counter is an
  \<open>int\<close>.
\<close>

datatype iterator_category = Forward_iterator | Bidirectional_iterator | Random_access_iterator

definition getDistance_random :: "nat \<Rightarrow> nat \<Rightarrow> 32 word" where
  "getDistance_random iter1 iter2 = of_int (int iter2 - int iter1)"

function getDistance_forward :: "nat \<Rightarrow> nat \<Rightarrow> nat \<Rightarrow> 32 word \<Rightarrow> 32 word option" where
  "getDistance_forward n i iter2 dist =
     (if i = iter2 then Some dist else if n \<le> i then None else getDistance_forward n (Suc i) iter2 (dist + 1))"
  by pat_completeness auto

termination by (relation "measure (\<lambda>(n, i, _). n - i)") auto

declare getDistance_forward.simps [simp del]

text \<open>The overload is chosen by the category; a bidirectional iterator is a forward iterator too.\<close>

definition Distance :: "iterator_category \<Rightarrow> nat \<Rightarrow> nat \<Rightarrow> nat \<Rightarrow> (string \<times> 32 word) option" where
  "Distance category n iter1 iter2 =
     (case category of
        Random_access_iterator \<Rightarrow> Some (''Random access'', getDistance_random iter1 iter2)
      | _ \<Rightarrow> map_option (Pair ''Forward access'') (getDistance_forward n iter1 iter2 0))"

text \<open>
  The variant decides with a function type in the place of the category, which no iterator is
  derived from and no category is the same as, so that the branch that counts is never compiled.
  It prints the name of the function type first, which is up to the compiler.
\<close>

definition Distance_variant :: "string \<Rightarrow> nat \<Rightarrow> nat \<Rightarrow> string \<times> 32 word" where
  "Distance_variant name iter1 iter2 = (name @ '':false,false'' @ [CHR 0x0A], 0)"

text \<open>
  \<open>main\<close>: a line of the output is the name of the container, what the function prints, and the
  distance it returns. \<open>None\<close> is a loop past the end.
\<close>

definition distance_line :: "string \<Rightarrow> (string \<times> 32 word) option \<Rightarrow> string option" where
  "distance_line container d =
     map_option (\<lambda>(line, n). container @ '' Distance is:'' @ line @ [CHR 0x0A] @ to_string (sint n) @ [CHR 0x0A]) d"

definition meta_distances :: "(string \<times> iterator_category \<times> nat \<times> nat) list" where
  "meta_distances =
     [(''Deque'', Random_access_iterator, 0, 12), (''Array'', Random_access_iterator, 0, 12),
      (''Map'', Bidirectional_iterator, 0, 5), (''MultiMap'', Bidirectional_iterator, 0, 5),
      (''Unordered Map'', Forward_iterator, 0, 5),
      (''List'', Bidirectional_iterator, 1, 7), (''Set'', Bidirectional_iterator, 1, 8)]"

definition meta_main :: "string \<Rightarrow> string option list" where
  "meta_main name =
     (case Distance_variant name 0 12 of
        (line, n) \<Rightarrow> Some (''Vector Distance is:'' @ line @ to_string (sint n) @ [CHR 0x0A])) #
     map (\<lambda>(container, category, first, n). distance_line container (Distance category n first n)) meta_distances"

lemma forward_counts:
  "i \<le> iter2 \<Longrightarrow> iter2 \<le> n \<Longrightarrow> getDistance_forward n i iter2 dist = Some (dist + of_nat (iter2 - i))"
proof (induction "iter2 - i" arbitrary: i dist)
  case 0
  then show ?case by (simp add: getDistance_forward.simps)
next
  case (Suc d)
  then have "getDistance_forward n (Suc i) iter2 (dist + 1) = Some (dist + 1 + of_nat (iter2 - Suc i))" by simp
  moreover have "i \<noteq> iter2" "\<not> n \<le> i" "iter2 - i = Suc (iter2 - Suc i)" using Suc by auto
  ultimately show ?case by (subst getDistance_forward.simps) simp
qed

lemma forward_past_end: "iter2 < i \<Longrightarrow> i \<le> n \<Longrightarrow> getDistance_forward n i iter2 dist = None"
proof (induction "n - i" arbitrary: i dist)
  case 0
  then show ?case by (subst getDistance_forward.simps) simp
next
  case (Suc d)
  then show ?case by (subst getDistance_forward.simps) simp
qed

text \<open>
  For two iterators of one container the overloads agree when the first does not lie behind the
  second; otherwise the random access one is negative, and the other one leaves the container.
\<close>

theorem distances_agree:
  assumes "iter1 \<le> n" and "iter2 \<le> n"
  shows "map_option snd (Distance category n iter1 iter2) =
    (if iter1 \<le> iter2 then Some (of_nat (iter2 - iter1))
     else if category = Random_access_iterator then Some (- of_nat (iter1 - iter2)) else None)"
proof -
  have "getDistance_random iter1 iter2 = (if iter1 \<le> iter2 then of_nat (iter2 - iter1) else - of_nat (iter1 - iter2))"
    by (simp add: getDistance_random_def of_nat_diff)
  with assms show ?thesis
    by (cases category) (auto simp: Distance_def forward_counts forward_past_end option.map_comp comp_def)
qed

theorem distances_agree_witness:
  "map_option snd (Distance Bidirectional_iterator 7 1 7) = Some 6 \<and> map_option snd (Distance Random_access_iterator 12 12 0) = Some (- 12) \<and>
   Distance Forward_iterator 12 12 0 = None"
  using distances_agree [of 1 7 7 Bidirectional_iterator] distances_agree [of 12 12 0 Random_access_iterator]
    distances_agree [of 12 12 0 Forward_iterator] by simp

text \<open>What the program prints: the right distances, but for the vector, whose distance is zero.\<close>

lemma distance_text: "to_string (sint (of_nat n :: 32 word)) = dec_nat n" if "n < 2 ^ 31"
proof -
  have "sint (of_nat n :: 32 word) = int n"
    using that by (simp add: signed_of_nat take_bit_nat_eq_self signed_take_bit_int_eq_self)
  then show ?thesis by (simp add: to_string_def)
qed

theorem meta_main_prints:
  "meta_main name =
     Some (''Vector Distance is:'' @ name @ '':false,false'' @ [CHR 0x0A] @ ''0'' @ [CHR 0x0A]) #
     map (\<lambda>(container, category, first, n).
         Some (container @ '' Distance is:'' @ (if category = Random_access_iterator then ''Random access'' else ''Forward access'') @
           [CHR 0x0A] @ dec_nat (n - first) @ [CHR 0x0A])) meta_distances"
proof -
  have d: "distance_line c (Distance category n first n) =
      Some (c @ '' Distance is:'' @ (if category = Random_access_iterator then ''Random access'' else ''Forward access'') @
        [CHR 0x0A] @ dec_nat (n - first) @ [CHR 0x0A])" if "first \<le> n" "n < 2 ^ 31" for c category first n
    using that distance_text [of "n - first"]
    by (cases category) (simp_all add: distance_line_def Distance_def forward_counts getDistance_random_def flip: of_nat_diff)
  have z: "to_string (sint (0 :: 32 word)) = ''0''" by code_simp
  show ?thesis unfolding meta_main_def meta_distances_def Distance_variant_def
    by (simp only: list.map prod.case d z append_assoc) (simp add: d)
qed

end
