(* ===== verification/SaxProgram.thy ===== *)
theory SaxProgram
  imports FeedProps
begin

text \<open>
  The program \<open>lohmann_sax_parsing\<close>: it parses three texts with the stream parser of binance and
  logs what was read. The SAX parser of the JSON library is the function \<open>sax\<close> from a text to its
  events. The index of the first loop is not initialised; its value is the argument \<open>i\<close>.
\<close>

section \<open>The texts\<close>

definition new_line :: "nat \<Rightarrow> string" where
  "new_line n = CHR 0x0A # replicate n CHR '' ''"

definition trade_json :: string where
  "trade_json =
     ''{\"stream\":\"btcusdt@trade\",'' @
     new_line 38 @ ''\"data\":{'' @
     new_line 38 @ ''\"e\":\"trade\",'' @
     new_line 38 @ ''\"E\":1672515782136,'' @
     new_line 38 @ ''\"s\":\"BTCUSDT\",'' @
     new_line 38 @ ''\"t\":12345,'' @
     new_line 38 @ ''\"p\":\"0.001\",'' @
     new_line 38 @ ''\"q\":\"100\",'' @
     new_line 38 @ ''\"b\":88,'' @
     new_line 38 @ ''\"a\":50,'' @
     new_line 38 @ ''\"T\":1672515782136,'' @
     new_line 38 @ ''\"m\":true,'' @
     new_line 38 @ ''\"M\":true'' @
     new_line 39 @ ''}}''"

definition bookTickerStreamJson :: string where
  "bookTickerStreamJson =
     new_line 6 @ ''{\"stream\":\"btcusdt@bookTicker\",'' @
     new_line 6 @ ''\"data\":{'' @
     new_line 8 @ ''\"u\":47335700876,'' @
     new_line 8 @ ''\"s\":\"BTCUSDT\",'' @
     new_line 8 @ ''\"b\":\"68325.09000000\",'' @
     new_line 8 @ ''\"B\":\"3.51123000\",'' @
     new_line 8 @ ''\"a\":\"68325.10000000\",'' @
     new_line 8 @ ''\"A\":\"6.82643000\"'' @
     new_line 8 @ ''}}''"

definition orderbookDepth5LevelSnapshot :: string where
  "orderbookDepth5LevelSnapshot =
     ''{'' @
     new_line 8 @ ''\"stream\":\"btcusdt@depth5@100ms\",'' @
     new_line 10 @ ''\"data\":{\"lastUpdateId\":47393218092,'' @
     new_line 12 @ ''\"bids\":[[\"68790.00000000\",\"2.08416000\"],['' @
       ''\"68789.95000000\",\"0.03166000\"],['' @
       ''\"68789.79000000\",\"0.03709000\"],['' @
       ''\"68788.60000000\",\"0.05820000\"],['' @
       ''\"68788.04000000\",\"0.01324000\"]],'' @
     new_line 12 @ ''\"asks\":[[\"68790.01000000\",\"6.81568000\"],['' @
       ''\"68790.02000000\",\"0.00436000\"],['' @
       ''\"68790.03000000\",\"0.00436000\"],['' @
       ''\"68790.04000000\",\"0.00436000\"],['' @
       ''\"68790.05000000\",\"0.00436000\"]]'' @
     new_line 6 @ ''}}''"

section \<open>The program\<close>

datatype 'd demo_line =
    TradeTickLine bool "'d TradeTick"
  | BookTickerLine bool "'d TopOfTheBook"
  | OrderbookDepthLine bool "'d OrderbookLevel" "'d OrderbookLevel"

definition parse_trade :: "'d double_api \<Rightarrow> (string \<Rightarrow> sax_event list) \<Rightarrow> 'd demo_line list option" where
  "parse_trade D sax =
     map_option (\<lambda>(p, result).
         if m_StreamType p = TradeTickStream then [TradeTickLine result (m_TradeTick (m_TradeTickStreamParser p))] else [])
       (sax_parse (Binance_event D) (sax trade_json) (BinanceStreamParser_ctor D))"

definition parse_ticker :: "'d double_api \<Rightarrow> (string \<Rightarrow> sax_event list) \<Rightarrow> 'd demo_line list option" where
  "parse_ticker D sax =
     map_option (\<lambda>(p, result).
         if m_StreamType p = BookTickerStream then [BookTickerLine result (m_BestBidOffer (m_BookTickerStreamParser p))] else [])
       (sax_parse (Binance_event D) (sax bookTickerStreamJson) (BinanceStreamParser_ctor D))"

text \<open>The first elements are read although the vectors have no size.\<close>

definition parse_depth :: "'d double_api \<Rightarrow> (string \<Rightarrow> sax_event list) \<Rightarrow> 'd demo_line list option" where
  "parse_depth D sax =
     map_option (\<lambda>(p, result).
         if m_StreamType p = Depth5LevelsStream then
           (let ob = m_Orderbook (m_OrderbookLevelsParser p)
            in [OrderbookDepthLine result (v_storage (m_Bids ob) ! 0) (v_storage (m_Asks ob) ! 0)])
         else [])
       (sax_parse (Binance_event D) (sax orderbookDepth5LevelSnapshot) (BinanceStreamParser_ctor D))"

fun repeat_lines :: "nat \<Rightarrow> 'a list option \<Rightarrow> 'a list option" where
  "repeat_lines 0 body = Some []"
| "repeat_lines (Suc n) body =
     (case body of None \<Rightarrow> None | Some ls \<Rightarrow> map_option (\<lambda>rest. ls @ rest) (repeat_lines n body))"

definition sax_main :: "'d double_api \<Rightarrow> (string \<Rightarrow> sax_event list) \<Rightarrow> int \<Rightarrow> 'd demo_line list option" where
  "sax_main D sax i =
     (case repeat_lines (nat (25 - i)) (parse_trade D sax) of
        None \<Rightarrow> None
      | Some trades \<Rightarrow>
          (case repeat_lines 25 (parse_ticker D sax) of
             None \<Rightarrow> None
           | Some tickers \<Rightarrow> map_option (\<lambda>depth. trades @ tickers @ depth) (parse_depth D sax)))"

section \<open>What it logs\<close>

text \<open>The events of the three texts.\<close>

definition trade_events :: "sax_event list" where
  "trade_events = stream_head ''btcusdt@trade'' @ concat (map field_events
     [(''e'', F_string ''trade''), (''E'', F_unsigned 1672515782136), (''s'', F_string ''BTCUSDT''), (''t'', F_unsigned 12345),
      (''p'', F_string ''0.001''), (''q'', F_string ''100''), (''b'', F_unsigned 88), (''a'', F_unsigned 50),
      (''T'', F_unsigned 1672515782136), (''m'', F_boolean True), (''M'', F_boolean True)]) @ [Sax_end_object, Sax_end_object]"

definition ticker_events :: "sax_event list" where
  "ticker_events = stream_head ''btcusdt@bookTicker'' @ concat (map field_events
     [(''u'', F_unsigned 47335700876), (''s'', F_string ''BTCUSDT''), (''b'', F_string ''68325.09000000''),
      (''B'', F_string ''3.51123000''), (''a'', F_string ''68325.10000000''), (''A'', F_string ''6.82643000'')]) @
     [Sax_end_object, Sax_end_object]"

definition depth_events :: "sax_event list" where
  "depth_events = stream_head ''btcusdt@depth5@100ms'' @ concat (map field_events [(''lastUpdateId'', F_unsigned 47393218092)]) @
     side_events ''bids'' [(''68790.00000000'', ''2.08416000''), (''68789.95000000'', ''0.03166000''), (''68789.79000000'', ''0.03709000''),
       (''68788.60000000'', ''0.05820000''), (''68788.04000000'', ''0.01324000'')] @
     side_events ''asks'' [(''68790.01000000'', ''6.81568000''), (''68790.02000000'', ''0.00436000''), (''68790.03000000'', ''0.00436000''),
       (''68790.04000000'', ''0.00436000''), (''68790.05000000'', ''0.00436000'')] @ [Sax_end_object, Sax_end_object]"

definition sax_of_texts :: "(string \<Rightarrow> sax_event list) \<Rightarrow> bool" where
  "sax_of_texts sax \<longleftrightarrow> sax trade_json = trade_events \<and> sax bookTickerStreamJson = ticker_events \<and>
     sax orderbookDepth5LevelSnapshot = depth_events"

lemma repeat_lines_one: "repeat_lines n (Some [l]) = Some (replicate n l)"
  by (induction n) auto

definition demo_trade :: "'d double_api \<Rightarrow> 'd TradeTick" where
  "demo_trade D = \<lparr>tradeId = ''12345'', tradePrice = d_strtod D ''0.001'', tradeVolume = d_strtod D ''100'',
     tradeTime = 1672515782136 * 1000000\<rparr>"

lemma dec_12345: "to_string 12345 = ''12345''"
  by (simp add: to_string_def dec_nat.simps digit_char_def char_of_def bit_iff_odd)

lemma parse_trade_line:
  assumes "sax trade_json = trade_events"
  shows "parse_trade D sax = Some [TradeTickLine False (demo_trade D)]"
  by (simp add: parse_trade_def assms trade_events_def stream_head_run stream_type_def BinanceStreamParser_ctor_def
      field_events_def Binance_number_unsigned_def Binance_string_def HandleTradeTick_number_def HandleTradeTick_string_def
      TestTradeTickFields_def TradeTickStreamParser_ctor_def demo_trade_def dec_12345 c_str_def stream_head_def Let_def)

lemma parse_ticker_line:
  assumes "sax bookTickerStreamJson = ticker_events"
  shows "parse_ticker D sax = Some [BookTickerLine True
    \<lparr>bidPrice = d_strtod D ''68325.09000000'', bidVolume = d_strtod D ''3.51123000'',
     askPrice = d_strtod D ''68325.10000000'', askVolume = d_strtod D ''6.82643000''\<rparr>]"
  by (simp add: parse_ticker_def assms ticker_events_def stream_type_def BinanceStreamParser_ctor_def
      field_events_def Binance_number_unsigned_def Binance_string_def HandleBookTicker_def
      TestBookTickerFields_def BookTickerStreamParser_ctor_def c_str_def stream_head_def Let_def)

lemma parse_depth_line:
  assumes "sax orderbookDepth5LevelSnapshot = depth_events"
  shows "parse_depth D sax = Some [OrderbookDepthLine True (level_of D (''68790.00000000'', ''2.08416000''))
    (level_of D (''68790.01000000'', ''6.81568000''))]"
proof -
  have ty: "stream_type ''btcusdt@depth5@100ms'' = Depth5LevelsStream" by (simp add: stream_type_def)
  let ?r = "sax_parse (Binance_event D) depth_events (BinanceStreamParser_ctor D)"
  note run = depth_run [where s = "''btcusdt@depth5@100ms''" and D = D and fs = "[(''lastUpdateId'', F_unsigned 47393218092)]"
        and bs = "[(''68790.00000000'', ''2.08416000''), (''68789.95000000'', ''0.03166000''), (''68789.79000000'', ''0.03709000''),
          (''68788.60000000'', ''0.05820000''), (''68788.04000000'', ''0.01324000'')]"
        and as = "[(''68790.01000000'', ''6.81568000''), (''68790.02000000'', ''0.00436000''), (''68790.03000000'', ''0.00436000''),
          (''68790.04000000'', ''0.00436000''), (''68790.05000000'', ''0.00436000'')]"]
  from run obtain p where "?r = Some (p, True)" "m_StreamType p = Depth5LevelsStream"
    "v_storage (m_Bids (m_Orderbook (m_OrderbookLevelsParser p))) ! 0 = level_of D (''68790.00000000'', ''2.08416000'')"
    "v_storage (m_Asks (m_Orderbook (m_OrderbookLevelsParser p))) ! 0 = level_of D (''68790.01000000'', ''6.81568000'')"
    unfolding depth_events_def [symmetric]
    by (cases ?r) (auto simp: ty depth_stream_def read_levels_def)
  then show ?thesis by (simp add: parse_depth_def assms)
qed

text \<open>
  The program logs the trade as it is in the text, but with the result of a parse that was stopped,
  because the parser stops at the last field it needs; the best prices and the first levels come
  with the result of a complete parse. How often the trade is logged depends on the value the
  index of the first loop happens to have.
\<close>

theorem sax_main_logs:
  assumes "sax_of_texts sax"
  shows "sax_main D sax i = Some (replicate (nat (25 - i)) (TradeTickLine False (demo_trade D)) @
    replicate 25 (BookTickerLine True
      \<lparr>bidPrice = d_strtod D ''68325.09000000'', bidVolume = d_strtod D ''3.51123000'',
       askPrice = d_strtod D ''68325.10000000'', askVolume = d_strtod D ''6.82643000''\<rparr>) @
    [OrderbookDepthLine True (level_of D (''68790.00000000'', ''2.08416000'')) (level_of D (''68790.01000000'', ''6.81568000''))])"
  using assms unfolding sax_main_def sax_of_texts_def
  by (simp only: parse_trade_line parse_ticker_line parse_depth_line repeat_lines_one option.case option.map simp_thms)

lemma texts_differ: "length trade_json = 669" "length bookTickerStreamJson = 223" "length orderbookDepth5LevelSnapshot = 460"
  by (simp_all add: trade_json_def bookTickerStreamJson_def orderbookDepth5LevelSnapshot_def new_line_def)

theorem sax_main_logs_witness:
  "\<exists>sax. sax_of_texts sax \<and> length (the (sax_main nat_api sax 25)) = 26 \<and> length (the (sax_main nat_api sax 0)) = 51"
proof -
  let ?sax = "\<lambda>t. if length t = length trade_json then trade_events
      else if length t = length bookTickerStreamJson then ticker_events else depth_events"
  have s: "sax_of_texts ?sax" by (simp add: sax_of_texts_def texts_differ)
  from sax_main_logs [OF s, of nat_api 25] sax_main_logs [OF s, of nat_api 0] s show ?thesis by (intro exI [of _ ?sax]) simp
qed

end
