(* ===== verification/LoggerThread.thy ===== *)
theory LoggerThread
  imports Logger
begin

text \<open>
  The consumer thread of \<open>logger.hpp\<close> beside the threads that log: the wait with its timeout, the
  notification after every line, and the end of the thread when the logger is destroyed. A line is
  pushed before its notification is sent; what happens in between is up to the scheduler.
\<close>

section \<open>The threads\<close>

datatype consumer_thread = Between_waits | In_wait | Notified | Thread_ended

text \<open>\<open>lt_Signals\<close> counts the threads that have pushed a line and not signalled yet.\<close>

record log_threads =
  lt_Logger :: Logger
  lt_Consumer :: consumer_thread
  lt_Signals :: nat
  stop_requested :: bool

definition Logger_start :: "Logger \<Rightarrow> log_threads" where
  "Logger_start lg = \<lparr>lt_Logger = lg, lt_Consumer = Between_waits, lt_Signals = 0, stop_requested = False\<rparr>"

text \<open>A notification wakes the thread when it waits, and is lost otherwise.\<close>

definition Logger_Signal :: "log_threads \<Rightarrow> log_threads" where
  "Logger_Signal st = st\<lparr>lt_Consumer := (if lt_Consumer st = In_wait then Notified else lt_Consumer st)\<rparr>"

definition Logger_dtor :: "log_threads \<Rightarrow> log_threads" where
  "Logger_dtor st = st\<lparr>stop_requested := True\<rparr>"

text \<open>
  The loop of the thread: it looks for a request to stop, waits, and writes when the wait did not
  time out.
\<close>

definition Thread_loop :: "log_threads \<Rightarrow> log_threads" where
  "Thread_loop st = st\<lparr>lt_Consumer := (if \<not> stop_requested st then In_wait else Thread_ended)\<rparr>"

definition Thread_write :: "bool \<Rightarrow> log_threads \<Rightarrow> log_threads" where
  "Thread_write signalled st = st\<lparr>lt_Logger := Logger_WaitAndWrite signalled (lt_Logger st), lt_Consumer := Between_waits\<rparr>"

text \<open>
  Logging a line: when the queue is full, there is a notification before the push that succeeds.
  A push that never succeeds does not end.
\<close>

definition Thread_LOG :: "LogLevel \<Rightarrow> bool \<Rightarrow> bool list \<Rightarrow> string \<Rightarrow> string \<Rightarrow> log_threads \<Rightarrow> log_threads option" where
  "Thread_LOG l bounded_ok answers prefix txt st =
     (if Logger_TestLevel l (lt_Logger st) then
        map_option (\<lambda>lg. (if bounded_ok then st else Logger_Signal st)\<lparr>lt_Logger := lg, lt_Signals := Suc (lt_Signals st)\<rparr>)
          (LOG l bounded_ok answers prefix txt (lt_Logger st))
      else Some st)"

datatype log_thread_event =
    Th_log LogLevel bool "bool list" string string
  | Th_signal
  | Th_level LogLevel
  | Th_loop
  | Th_timeout
  | Th_spurious
  | Th_write
  | Th_stop

fun log_thread_step :: "log_thread_event \<Rightarrow> log_threads \<Rightarrow> log_threads option" where
  "log_thread_step (Th_log l ok answers prefix txt) st = Thread_LOG l ok answers prefix txt st"
| "log_thread_step Th_signal st =
     (if 0 < lt_Signals st then Some (Logger_Signal (st\<lparr>lt_Signals := lt_Signals st - 1\<rparr>)) else None)"
| "log_thread_step (Th_level l) st = Some (st\<lparr>lt_Logger := Logger_SetLevel l (lt_Logger st)\<rparr>)"
| "log_thread_step Th_loop st = (if lt_Consumer st = Between_waits then Some (Thread_loop st) else None)"
| "log_thread_step Th_timeout st = (if lt_Consumer st = In_wait then Some (Thread_write False st) else None)"
| "log_thread_step Th_spurious st = (if lt_Consumer st = In_wait then Some (st\<lparr>lt_Consumer := Notified\<rparr>) else None)"
| "log_thread_step Th_write st = (if lt_Consumer st = Notified then Some (Thread_write True st) else None)"
| "log_thread_step Th_stop st = Some (Logger_dtor st)"

fun log_thread_run :: "log_thread_event list \<Rightarrow> log_threads \<Rightarrow> log_threads option" where
  "log_thread_run [] st = Some st"
| "log_thread_run (e # es) st = (case log_thread_step e st of None \<Rightarrow> None | Some st1 \<Rightarrow> log_thread_run es st1)"

lemma log_thread_run_append:
  "log_thread_run (a @ b) st = (case log_thread_run a st of None \<Rightarrow> None | Some st1 \<Rightarrow> log_thread_run b st1)"
  by (induction a arbitrary: st) (auto split: option.split)

section \<open>What is written\<close>

text \<open>The lines of a run: those that pass the level of their time.\<close>

fun run_lines :: "LogLevel \<Rightarrow> log_thread_event list \<Rightarrow> string list" where
  "run_lines level [] = []"
| "run_lines level (Th_log l ok answers prefix txt # es) =
     (if level \<noteq> LogLevel_None \<and> l \<ge> level then [log_line prefix txt] else []) @ run_lines level es"
| "run_lines level (Th_level l # es) = run_lines l es"
| "run_lines level (e # es) = run_lines level es"

lemma Logger_Signal_Logger [simp]: "lt_Logger (Logger_Signal st) = lt_Logger st"
  by (simp add: Logger_Signal_def)

text \<open>One step: the file with the lines of the queue grows by the line that is logged.\<close>

lemma write_True:
  assumes "lg_file lg = Some f"
  shows "lg_file (Logger_WaitAndWrite True lg) = Some (f @ concat (lg_queue lg))" "lg_queue (Logger_WaitAndWrite True lg) = []"
    "lg_level (Logger_WaitAndWrite True lg) = lg_level lg"
proof -
  have "lg = lg\<lparr>lg_file := Some f\<rparr>" using assms by simp
  then have "foldl (\<lambda>lg b. Logger_write b lg) lg (lg_queue lg) = lg\<lparr>lg_file := Some (f @ concat (lg_queue lg))\<rparr>"
    using write_file [where lg = lg and f = f and q = "lg_queue lg"] by simp
  then show "lg_file (Logger_WaitAndWrite True lg) = Some (f @ concat (lg_queue lg))" "lg_queue (Logger_WaitAndWrite True lg) = []"
    "lg_level (Logger_WaitAndWrite True lg) = lg_level lg"
    using assms by (auto simp: Logger_WaitAndWrite_def)
qed

lemma write_False [simp]: "Logger_WaitAndWrite False lg = lg"
  by (simp add: Logger_WaitAndWrite_def)

lemma LOG_result:
  assumes "LOG l ok answers prefix txt lg = Some lg'" and "Logger_TestLevel l lg"
  shows "lg_file lg' = lg_file lg \<and> lg_queue lg' = lg_queue lg @ [log_line prefix txt] \<and> lg_level lg' = lg_level lg"
  using assms by (auto simp: LOG_def Logger_log_def Let_def log_retry_result Logger_Push_def split: if_splits)

lemma log_thread_step_lines:
  assumes "log_thread_step e st = Some st'" and "lg_file (lt_Logger st) = Some f"
  shows "\<exists>w. lg_file (lt_Logger st') = Some (f @ concat w) \<and>
    lg_queue (lt_Logger st) @ run_lines (lg_level (lt_Logger st)) (e # es) = w @ lg_queue (lt_Logger st') @ run_lines (lg_level (lt_Logger st')) es"
proof (cases e)
  case (Th_log l ok answers pre body)
  show ?thesis
  proof (cases "Logger_TestLevel l (lt_Logger st)")
    case False
    with assms Th_log show ?thesis by (intro exI [of _ "[]"]) (auto simp: Thread_LOG_def Logger_TestLevel_def)
  next
    case True
    with assms(1) Th_log obtain lg' where lg: "LOG l ok answers pre body (lt_Logger st) = Some lg'" "lt_Logger st' = lg'"
      by (auto simp: Thread_LOG_def)
    from LOG_result [OF lg(1) True] True assms(2) lg(2) Th_log show ?thesis
      by (intro exI [of _ "[]"]) (auto simp: Logger_TestLevel_def)
  qed
next
  case Th_write
  with assms(1) have "lt_Logger st' = Logger_WaitAndWrite True (lt_Logger st)" by (auto simp: Thread_write_def split: if_splits)
  with write_True [OF assms(2)] Th_write show ?thesis by (intro exI [of _ "lg_queue (lt_Logger st)"]) simp
qed (use assms in \<open>auto simp: Thread_write_def Thread_loop_def Logger_dtor_def Logger_SetLevel_def intro!: exI [of _ "[]"] split: if_splits\<close>)

text \<open>
  C40: However the threads interleave, at every moment the file holds the first lines of those that
  passed their level, in order and whole, and the queue the others: nothing is lost, doubled or
  torn while the logger lives. A logger that has ended has written a beginning of the lines.
\<close>

theorem log_file_is_prefix:
  assumes "log_thread_run es (Logger_start lg) = Some st" and "lg_file lg = Some f" and "lg_queue lg = []"
  shows "\<exists>w. lg_file (lt_Logger st) = Some (f @ concat w) \<and> run_lines (lg_level lg) es = w @ lg_queue (lt_Logger st)"
proof -
  have "\<exists>w. lg_file (lt_Logger st) = Some (f @ concat w) \<and>
      lg_queue (lt_Logger st0) @ run_lines (lg_level (lt_Logger st0)) es = w @ lg_queue (lt_Logger st)"
    if "log_thread_run es st0 = Some st" "lg_file (lt_Logger st0) = Some f" for st0 es f
    using that
  proof (induction es arbitrary: st0 f)
    case (Cons e es)
    then obtain st1 where s: "log_thread_step e st0 = Some st1" "log_thread_run es st1 = Some st" by (auto split: option.splits)
    from log_thread_step_lines [OF s(1) Cons.prems(2), of es] obtain w where
      w: "lg_file (lt_Logger st1) = Some (f @ concat w)"
        "lg_queue (lt_Logger st0) @ run_lines (lg_level (lt_Logger st0)) (e # es) =
          w @ lg_queue (lt_Logger st1) @ run_lines (lg_level (lt_Logger st1)) es" by blast
    from Cons.IH [OF s(2) w(1)] obtain w' where "lg_file (lt_Logger st) = Some ((f @ concat w) @ concat w')"
      "lg_queue (lt_Logger st1) @ run_lines (lg_level (lt_Logger st1)) es = w' @ lg_queue (lt_Logger st)" by blast
    with w(2) show ?case by (intro exI [of _ "w @ w'"]) simp
  qed (auto intro: exI [of _ "[]"])
  from this [OF assms(1)] assms(2,3) show ?thesis by (simp add: Logger_start_def)
qed

theorem log_file_is_prefix_witness:
  "\<exists>st w. log_thread_run [Th_loop, Th_log LogLevel_Info True [] ''p'' ''a'', Th_signal, Th_log LogLevel_Debug True [] ''p'' ''b'',
       Th_write, Th_log LogLevel_Error False [False, True] ''p'' ''c'']
     (Logger_start (Logger_ctor\<lparr>lg_file := Some ''f''\<rparr>)) = Some st \<and>
   lg_file (lt_Logger st) = Some (''f'' @ concat w) \<and>
   [log_line ''p'' ''a'', log_line ''p'' ''c''] = w @ lg_queue (lt_Logger st)"
proof -
  let ?lg = "Logger_ctor\<lparr>lg_file := Some ''f''\<rparr>"
  let ?es = "[Th_loop, Th_log LogLevel_Info True [] ''p'' ''a'', Th_signal, Th_log LogLevel_Debug True [] ''p'' ''b'',
       Th_write, Th_log LogLevel_Error False [False, True] ''p'' ''c'']"
  obtain st where r: "log_thread_run ?es (Logger_start ?lg) = Some st"
    by (auto simp: Logger_start_def Logger_ctor_def Thread_loop_def Thread_LOG_def LOG_def Logger_log_def Logger_TestLevel_def
        Logger_Push_def Logger_PrintFull_def Logger_Signal_def Thread_write_def Logger_WaitAndWrite_def Logger_write_def
        less_eq_LogLevel_def Let_def)
  have "run_lines (lg_level ?lg) ?es = [log_line ''p'' ''a'', log_line ''p'' ''c'']"
    by (simp add: Logger_ctor_def less_eq_LogLevel_def)
  with log_file_is_prefix [OF r, of "''f''"] r show ?thesis by (auto simp: Logger_ctor_def)
qed

section \<open>Lines that wait\<close>

text \<open>A notification that meets a waiting thread gets all lines of the queue into the file.\<close>

lemma log_flushed:
  assumes "lt_Consumer st = In_wait" and "0 < lt_Signals st" and "lg_file (lt_Logger st) = Some f"
  shows "\<exists>st'. log_thread_run [Th_signal, Th_write] st = Some st' \<and> lg_queue (lt_Logger st') = [] \<and>
    lg_file (lt_Logger st') = Some (f @ concat (lg_queue (lt_Logger st)))"
  using assms write_True [OF assms(3)] by (simp add: Logger_Signal_def Thread_write_def)

text \<open>
  A line whose notification comes while the thread does not wait stays in the queue however often
  the wait times out, and is lost when the logger is destroyed then: the thread ends without
  looking at the queue again.
\<close>

theorem log_line_lost:
  assumes "lt_Consumer st = Between_waits" and "\<not> stop_requested st" and "Logger_TestLevel l (lt_Logger st)"
  shows "\<exists>st'. log_thread_run ([Th_log l True [] prefix txt, Th_signal, Th_loop] @ concat (replicate n [Th_timeout, Th_loop]) @
       [Th_timeout, Th_stop, Th_loop]) st = Some st' \<and> lt_Consumer st' = Thread_ended \<and>
    lg_file (lt_Logger st') = lg_file (lt_Logger st) \<and> lg_console (lt_Logger st') = lg_console (lt_Logger st) \<and>
    lg_queue (lt_Logger st') = lg_queue (lt_Logger st) @ [log_line prefix txt]"
proof -
  let ?lg = "Logger_Push (log_line prefix txt) (lt_Logger st)"
  let ?st1 = "st\<lparr>lt_Logger := ?lg, lt_Consumer := In_wait\<rparr>"
  have a: "log_thread_run [Th_log l True [] prefix txt, Th_signal, Th_loop] st = Some ?st1"
    using assms by (simp add: Thread_LOG_def LOG_def Logger_log_def Logger_Signal_def Thread_loop_def)
  have b: "log_thread_run (concat (replicate n [Th_timeout, Th_loop])) ?st1 = Some ?st1"
    using assms(2) by (induction n) (simp_all add: log_thread_run_append Thread_write_def Thread_loop_def)
  have c: "log_thread_run [Th_timeout, Th_stop, Th_loop] ?st1 =
      Some (st\<lparr>lt_Logger := ?lg, lt_Consumer := Thread_ended, stop_requested := True\<rparr>)"
    by (simp add: Thread_write_def Thread_loop_def Logger_dtor_def)
  show ?thesis unfolding log_thread_run_append a option.case b c by (simp add: Logger_Push_def)
qed

theorem log_line_lost_witness:
  "\<exists>st'. log_thread_run ([Th_log LogLevel_Fatal True [] ''p'' ''the end'', Th_signal, Th_loop] @ concat (replicate 1000 [Th_timeout, Th_loop]) @
       [Th_timeout, Th_stop, Th_loop]) (Logger_start Logger_ctor) = Some st' \<and> lt_Consumer st' = Thread_ended \<and>
    lg_console (lt_Logger st') = [] \<and> lg_queue (lt_Logger st') = [log_line ''p'' ''the end'']"
proof -
  have "Logger_TestLevel LogLevel_Fatal (lt_Logger (Logger_start Logger_ctor))"
    by (simp add: Logger_start_def Logger_ctor_def Logger_TestLevel_def less_eq_LogLevel_def)
  from log_line_lost [OF _ _ this, of "''p''" "''the end''" 1000]
  show ?thesis by (auto simp: Logger_start_def Logger_ctor_def)
qed

end
