(* ===== verification/NewLoggerProgram.thy ===== *)
theory NewLoggerProgram
  imports LoggerThread
begin

text \<open>
  The program \<open>new_logger\<close>: main logs a few lines, opens the log file, and starts two threads that
  log numbered lines until they are stopped. They and the thread of the logger take turns after
  every call. \<open>nl_Lines\<close> records the lines that passed the level: who logged them, their prefix and
  their text.
\<close>

section \<open>The program\<close>

datatype producer_at = Producer_test | Producer_logs nat | Producer_ends

record log_producer =
  pr_sequence :: u64
  pr_at :: producer_at
  pr_stop :: bool

datatype nl_main_at = Main_logs "(LogLevel \<times> string) list" | Main_opens | Main_starts | Main_joins nat | Main_ends

record new_logger =
  nl_Threads :: log_threads
  nl_Main :: nl_main_at
  nl_Producers :: "log_producer list"
  nl_Lines :: "(nat option \<times> string \<times> string) list"

text \<open>The lines of main, with what the formatting makes of their arguments.\<close>

definition main_lines :: "string \<Rightarrow> (LogLevel \<times> string) list" where
  "main_lines file =
     (let eight = ''one parameter log line in debug main '' @ file @ '' 42.43 124.4456 389249345678345678 true 16773123 100ms''
      in [(LogLevel_Debug, ''No parameter log line in debug ''), (LogLevel_Debug, ''one parameter log line in debug main''),
          (LogLevel_Debug, eight), (LogLevel_Trace, eight), (LogLevel_Info, ''one parameter log line in debug 42 ''),
          (LogLevel_Error, ''one parameter log line in debug 32 ''), (LogLevel_Fatal, ''one parameter log line in debug 33 '')])"

definition producer_text :: "u64 \<Rightarrow> string" where
  "producer_text sequence =
     ''Waiting in debug '' @ dec_nat (unat sequence) @ '', 124.4456, 389249345678345678, true, fff003, 100ms''"

definition new_producer :: log_producer where
  "new_producer = \<lparr>pr_sequence = 0, pr_at = Producer_test, pr_stop = False\<rparr>"

definition new_logger_start :: "string \<Rightarrow> new_logger" where
  "new_logger_start file =
     \<lparr>nl_Threads = Logger_start (Logger_SetLevel LogLevel_Debug Logger_ctor), nl_Main = Main_logs (main_lines file),
      nl_Producers = [], nl_Lines = []\<rparr>"

text \<open>A call of one of the macros: it may not return when the queue stays full.\<close>

definition nl_log :: "nat option \<Rightarrow> LogLevel \<Rightarrow> bool \<Rightarrow> bool list \<Rightarrow> string \<Rightarrow> string \<Rightarrow> new_logger \<Rightarrow> new_logger option" where
  "nl_log who l ok answers prefix txt s =
     map_option (\<lambda>th. s\<lparr>nl_Threads := th,
         nl_Lines := nl_Lines s @ (if Logger_TestLevel l (lt_Logger (nl_Threads s)) then [(who, prefix, txt)] else [])\<rparr>)
       (Thread_LOG l ok answers prefix txt (nl_Threads s))"

definition upd_producer :: "nat \<Rightarrow> (log_producer \<Rightarrow> log_producer) \<Rightarrow> new_logger \<Rightarrow> new_logger" where
  "upd_producer k f s = s\<lparr>nl_Producers := (nl_Producers s)[k := f (nl_Producers s ! k)]\<rparr>"

datatype nl_event =
    Nl_main bool "bool list" string
  | Nl_main_on
  | Nl_open string "string option"
  | Nl_stop
  | Nl_join
  | Nl_producer nat bool "bool list" string
  | Nl_signal
  | Nl_thread log_thread_event

text \<open>The events of the consumer thread alone.\<close>

fun consumer_event :: "log_thread_event \<Rightarrow> bool" where
  "consumer_event Th_loop = True"
| "consumer_event Th_timeout = True"
| "consumer_event Th_spurious = True"
| "consumer_event Th_write = True"
| "consumer_event e = False"

text \<open>
  The vector of the two threads is destroyed when main returns: each in turn is asked to stop and
  waited for. A producer looks at the request after every thousand lines.
\<close>

fun nl_step :: "nl_event \<Rightarrow> new_logger \<Rightarrow> new_logger option" where
  "nl_step (Nl_main ok answers prefix) s =
     (case nl_Main s of
        Main_logs ((l, txt) # ls) \<Rightarrow> map_option (\<lambda>s1. s1\<lparr>nl_Main := Main_logs ls\<rparr>) (nl_log None l ok answers prefix txt s)
      | _ \<Rightarrow> None)"
| "nl_step Nl_main_on s =
     (case nl_Main s of
        Main_logs [] \<Rightarrow> Some (s\<lparr>nl_Main := Main_opens\<rparr>)
      | Main_starts \<Rightarrow>
          (if length (nl_Producers s) < 2 then Some (s\<lparr>nl_Producers := nl_Producers s @ [new_producer]\<rparr>)
           else Some (s\<lparr>nl_Main := Main_joins 0\<rparr>))
      | _ \<Rightarrow> None)"
| "nl_step (Nl_open path opened) s =
     (if nl_Main s = Main_opens then
        Some (s\<lparr>nl_Main := Main_starts,
                nl_Threads := (nl_Threads s)\<lparr>lt_Logger := fst (Logger_SetLogFile path opened (lt_Logger (nl_Threads s)))\<rparr>\<rparr>)
      else None)"
| "nl_step Nl_stop s =
     (case nl_Main s of
        Main_joins k \<Rightarrow> (if k < length (nl_Producers s) then Some (upd_producer k (\<lambda>p. p\<lparr>pr_stop := True\<rparr>) s) else None)
      | _ \<Rightarrow> None)"
| "nl_step Nl_join s =
     (case nl_Main s of
        Main_joins k \<Rightarrow>
          (if k < length (nl_Producers s)
           then (if pr_stop (nl_Producers s ! k) \<and> pr_at (nl_Producers s ! k) = Producer_ends
                 then Some (s\<lparr>nl_Main := Main_joins (Suc k)\<rparr>) else None)
           else Some (s\<lparr>nl_Main := Main_ends\<rparr>))
      | _ \<Rightarrow> None)"
| "nl_step (Nl_producer k ok answers prefix) s =
     (if k < length (nl_Producers s) then
        (case pr_at (nl_Producers s ! k) of
           Producer_test \<Rightarrow>
             Some (upd_producer k (\<lambda>p. p\<lparr>pr_at := (if \<not> pr_stop p then Producer_logs 0 else Producer_ends)\<rparr>) s)
         | Producer_logs i \<Rightarrow>
             (if i < 1000 then
                map_option (upd_producer k (\<lambda>p. p\<lparr>pr_sequence := pr_sequence p + 1, pr_at := Producer_logs (Suc i)\<rparr>))
                  (nl_log (Some k) LogLevel_Info ok answers prefix (producer_text (pr_sequence (nl_Producers s ! k))) s)
              else Some (upd_producer k (\<lambda>p. p\<lparr>pr_at := Producer_test\<rparr>) s))
         | Producer_ends \<Rightarrow> None)
      else None)"
| "nl_step Nl_signal s = map_option (\<lambda>th. s\<lparr>nl_Threads := th\<rparr>) (log_thread_step Th_signal (nl_Threads s))"
| "nl_step (Nl_thread e) s =
     (if consumer_event e then map_option (\<lambda>th. s\<lparr>nl_Threads := th\<rparr>) (log_thread_step e (nl_Threads s)) else None)"

fun nl_run :: "nl_event list \<Rightarrow> new_logger \<Rightarrow> new_logger option" where
  "nl_run [] s = Some s"
| "nl_run (e # es) s = (case nl_step e s of None \<Rightarrow> None | Some s1 \<Rightarrow> nl_run es s1)"

section \<open>Where the lines are\<close>

definition texts_of :: "nat \<Rightarrow> new_logger \<Rightarrow> string list" where
  "texts_of k s = map (\<lambda>x. snd (snd x)) (List.filter (\<lambda>x. fst x = Some k) (nl_Lines s))"

definition the_line :: "nat option \<times> string \<times> string \<Rightarrow> string" where
  "the_line x = log_line (fst (snd x)) (snd (snd x))"

definition numbered :: "nat \<Rightarrow> new_logger \<Rightarrow> bool" where
  "numbered k s \<longleftrightarrow>
     texts_of k s = map (\<lambda>i. producer_text (of_nat i)) [0..<length (texts_of k s)] \<and>
     (if k < length (nl_Producers s) then pr_sequence (nl_Producers s ! k) = of_nat (length (texts_of k s)) else texts_of k s = [])"

definition in_file :: "new_logger \<Rightarrow> bool" where
  "in_file s \<longleftrightarrow>
     (\<exists>early w before. map the_line (nl_Lines s) = early @ w @ lg_queue (lt_Logger (nl_Threads s)) \<and>
        (case lg_file (lt_Logger (nl_Threads s)) of
           None \<Rightarrow> w = []
         | Some f \<Rightarrow> f = before @ ''Start new log file entry'' @ concat w))"

definition nl_inv :: "new_logger \<Rightarrow> bool" where
  "nl_inv s \<longleftrightarrow> in_file s \<and> (\<forall>k. numbered k s) \<and> lg_level (lt_Logger (nl_Threads s)) = LogLevel_Debug"


lemma nl_log_keeps:
  assumes "nl_log who l ok answers pre body s = Some s1"
  shows "nl_Producers s1 = nl_Producers s" and "nl_Main s1 = nl_Main s" and "in_file s \<Longrightarrow> in_file s1"
    and "lg_level (lt_Logger (nl_Threads s1)) = lg_level (lt_Logger (nl_Threads s))"
    and "texts_of k s1 = texts_of k s @ (if who = Some k \<and> Logger_TestLevel l (lt_Logger (nl_Threads s)) then [body] else [])"
proof -
  let ?lg = "lt_Logger (nl_Threads s)"
  obtain th where th: "Thread_LOG l ok answers pre body (nl_Threads s) = Some th"
    and s1: "s1 = s\<lparr>nl_Threads := th, nl_Lines := nl_Lines s @ (if Logger_TestLevel l ?lg then [(who, pre, body)] else [])\<rparr>"
    using assms by (auto simp: nl_log_def)
  have r: "lg_file (lt_Logger th) = lg_file ?lg \<and>
      lg_queue (lt_Logger th) = lg_queue ?lg @ (if Logger_TestLevel l ?lg then [log_line pre body] else []) \<and>
      lg_level (lt_Logger th) = lg_level ?lg"
  proof (cases "Logger_TestLevel l ?lg")
    case True
    with th obtain lg' where "LOG l ok answers pre body ?lg = Some lg'" "lt_Logger th = lg'" by (auto simp: Thread_LOG_def)
    with LOG_result [OF this(1) True] True show ?thesis by simp
  qed (use th in \<open>simp add: Thread_LOG_def\<close>)
  show "nl_Producers s1 = nl_Producers s" "nl_Main s1 = nl_Main s" by (simp_all add: s1)
  show "lg_level (lt_Logger (nl_Threads s1)) = lg_level ?lg" using r by (simp add: s1)
  show "texts_of k s1 = texts_of k s @ (if who = Some k \<and> Logger_TestLevel l ?lg then [body] else [])"
    by (simp add: s1 texts_of_def)
  show "in_file s1" if i: "in_file s"
  proof -
    obtain early w before where e: "map the_line (nl_Lines s) = early @ w @ lg_queue ?lg"
      "case lg_file ?lg of None \<Rightarrow> w = [] | Some f \<Rightarrow> f = before @ ''Start new log file entry'' @ concat w"
      using i by (auto simp: in_file_def)
    show ?thesis unfolding in_file_def
      by (rule exI [of _ early], rule exI [of _ w], rule exI [of _ before]) (use e r in \<open>simp add: s1 the_line_def\<close>)
  qed
qed

lemma write_console:
  "lg_file lg = None \<Longrightarrow> lg_file (Logger_WaitAndWrite True lg) = None \<and> lg_queue (Logger_WaitAndWrite True lg) = [] \<and>
    lg_level (Logger_WaitAndWrite True lg) = lg_level lg"
proof -
  have "lg_file (foldl (\<lambda>lg b. Logger_write b lg) lg q) = None \<and> lg_level (foldl (\<lambda>lg b. Logger_write b lg) lg q) = lg_level lg"
    if "lg_file lg = None" for q and lg :: Logger
    using that by (induction q arbitrary: lg) (simp_all add: Logger_write_def)
  then show "lg_file lg = None \<Longrightarrow> lg_file (Logger_WaitAndWrite True lg) = None \<and> lg_queue (Logger_WaitAndWrite True lg) = [] \<and>
    lg_level (Logger_WaitAndWrite True lg) = lg_level lg"
    by (simp add: Logger_WaitAndWrite_def)
qed

lemma write_in_file:
  assumes "in_file s" and "lt_Logger th = Logger_WaitAndWrite signalled (lt_Logger (nl_Threads s))"
  shows "in_file (s\<lparr>nl_Threads := th\<rparr>) \<and> lg_level (lt_Logger th) = lg_level (lt_Logger (nl_Threads s))"
proof (cases signalled)
  case False
  with assms show ?thesis by (simp add: in_file_def)
next
  case True
  let ?lg = "lt_Logger (nl_Threads s)"
  obtain early w before where e: "map the_line (nl_Lines s) = early @ w @ lg_queue ?lg"
    "case lg_file ?lg of None \<Rightarrow> w = [] | Some f \<Rightarrow> f = before @ ''Start new log file entry'' @ concat w"
    using assms(1) by (auto simp: in_file_def)
  show ?thesis
  proof (cases "lg_file ?lg")
    case None
    from write_console [OF None] True None e assms(2) show ?thesis
      unfolding in_file_def by (intro conjI exI [of _ "early @ lg_queue ?lg"] exI [of _ "[]"]) simp_all
  next
    case (Some f)
    from write_True [OF Some] True Some e assms(2) show ?thesis
      unfolding in_file_def by (intro conjI exI [of _ early] exI [of _ "w @ lg_queue ?lg"] exI [of _ before]) simp_all
  qed
qed

text \<open>What changes neither the lines nor the logger.\<close>

lemma in_file_cong:
  "nl_Lines s' = nl_Lines s \<Longrightarrow> lt_Logger (nl_Threads s') = lt_Logger (nl_Threads s) \<Longrightarrow> in_file s' = in_file s"
  by (simp add: in_file_def)

lemma numbered_cong:
  "nl_Lines s' = nl_Lines s \<Longrightarrow> map pr_sequence (nl_Producers s') = map pr_sequence (nl_Producers s) \<Longrightarrow> numbered k s' = numbered k s"
proof -
  assume l: "nl_Lines s' = nl_Lines s" and p: "map pr_sequence (nl_Producers s') = map pr_sequence (nl_Producers s)"
  have n: "length (nl_Producers s') = length (nl_Producers s)" using p by (metis length_map)
  have "k < length (nl_Producers s) \<Longrightarrow> pr_sequence (nl_Producers s' ! k) = pr_sequence (nl_Producers s ! k)"
    using p n by (metis nth_map)
  with l n show "numbered k s' = numbered k s" by (simp add: numbered_def texts_of_def)
qed

lemma nl_inv_cong:
  assumes "nl_inv s" and "nl_Lines s' = nl_Lines s" and "lt_Logger (nl_Threads s') = lt_Logger (nl_Threads s)"
    and "map pr_sequence (nl_Producers s') = map pr_sequence (nl_Producers s)"
  shows "nl_inv s'"
  using assms in_file_cong [OF assms(2,3)] numbered_cong [OF assms(2,4)] by (simp add: nl_inv_def)

lemma upd_producer_simps [simp]:
  "nl_Lines (upd_producer k f s) = nl_Lines s" "nl_Threads (upd_producer k f s) = nl_Threads s" "nl_Main (upd_producer k f s) = nl_Main s"
  "length (nl_Producers (upd_producer k f s)) = length (nl_Producers s)"
  by (simp_all add: upd_producer_def)

lemma upd_producer_sequence:
  assumes "\<And>p. pr_sequence (f p) = pr_sequence p"
  shows "map pr_sequence (nl_Producers (upd_producer k f s)) = map pr_sequence (nl_Producers s)"
proof (cases "k < length (nl_Producers s)")
  case True
  then have "pr_sequence (nl_Producers s ! k) = map pr_sequence (nl_Producers s) ! k" by simp
  then have "map pr_sequence (nl_Producers s) = (map pr_sequence (nl_Producers s))[k := pr_sequence (nl_Producers s ! k)]"
    by (metis list_update_id)
  with assms show ?thesis by (simp add: upd_producer_def map_update)
next
  case False
  then show ?thesis by (simp add: upd_producer_def list_update_beyond)
qed

lemma nl_inv_step:
  assumes "nl_inv s" and "nl_step e s = Some s'"
  shows "nl_inv s'"
proof (cases e)
  case (Nl_main ok answers pre)
  then obtain l body ls s1 where m: "nl_Main s = Main_logs ((l, body) # ls)" "nl_log None l ok answers pre body s = Some s1"
      "s' = s1\<lparr>nl_Main := Main_logs ls\<rparr>"
    using assms(2) by (auto split: nl_main_at.splits list.splits prod.splits)
  note k = nl_log_keeps [OF m(2)]
  have "nl_inv s1" using assms(1) k by (simp add: nl_inv_def numbered_def)
  then show ?thesis by (rule nl_inv_cong) (simp_all add: m(3))
next
  case Nl_main_on
  with assms(2) consider "s' = s\<lparr>nl_Main := Main_opens\<rparr>" | "s' = s\<lparr>nl_Producers := nl_Producers s @ [new_producer]\<rparr>"
    | "s' = s\<lparr>nl_Main := Main_joins 0\<rparr>" by (auto split: nl_main_at.splits list.splits if_splits)
  then show ?thesis
  proof cases
    case 2
    have "numbered k s'" for k
      using assms(1) by (auto simp: 2 nl_inv_def numbered_def texts_of_def new_producer_def nth_append less_Suc_eq dest: spec [of _ k])
    with assms(1) show ?thesis by (simp add: 2 nl_inv_def in_file_def)
  qed (use assms(1) in \<open>auto intro: nl_inv_cong\<close>)
next
  case (Nl_open path opened)
  then have s': "s' = s\<lparr>nl_Main := Main_starts,
      nl_Threads := (nl_Threads s)\<lparr>lt_Logger := fst (Logger_SetLogFile path opened (lt_Logger (nl_Threads s)))\<rparr>\<rparr>"
    using assms(2) by (auto split: if_splits)
  obtain early w before where i: "map the_line (nl_Lines s) = (early @ w) @ lg_queue (lt_Logger (nl_Threads s))"
    using assms(1) by (auto simp: nl_inv_def in_file_def)
  have "in_file s'"
    unfolding in_file_def
    by (rule exI [of _ "early @ w"], rule exI [of _ "[]"], rule exI [of _ "the opened"])
      (use i in \<open>simp add: s' Logger_SetLogFile_def Let_def split: option.split\<close>)
  moreover have "numbered k s' = numbered k s" for k by (rule numbered_cong) (simp_all add: s')
  ultimately show ?thesis using assms(1) by (simp add: nl_inv_def s' Logger_SetLogFile_def Let_def split: option.split)
next
  case Nl_stop
  then obtain k where "s' = upd_producer k (\<lambda>p. p\<lparr>pr_stop := True\<rparr>) s"
    using assms(2) by (auto split: nl_main_at.splits if_splits)
  with assms(1) show ?thesis by (auto intro: nl_inv_cong simp: upd_producer_sequence)
next
  case Nl_join
  with assms show ?thesis by (auto intro: nl_inv_cong split: nl_main_at.splits if_splits)
next
  case (Nl_producer k ok answers pre)
  then have k: "k < length (nl_Producers s)" using assms(2) by (auto split: if_splits)
  let ?p = "nl_Producers s ! k"
  show ?thesis
  proof (cases "\<exists>i < 1000. pr_at ?p = Producer_logs i")
    case False
    with assms(2) Nl_producer k obtain a where "s' = upd_producer k (\<lambda>p. p\<lparr>pr_at := a p\<rparr>) s"
      by (auto split: producer_at.splits if_splits)
    with assms(1) show ?thesis by (auto intro: nl_inv_cong simp: upd_producer_sequence)
  next
    case True
    then obtain i where i: "i < 1000" "pr_at ?p = Producer_logs i" by blast
    then obtain s1 where s1: "nl_log (Some k) LogLevel_Info ok answers pre (producer_text (pr_sequence ?p)) s = Some s1"
        "s' = upd_producer k (\<lambda>p. p\<lparr>pr_sequence := pr_sequence p + 1, pr_at := Producer_logs (Suc i)\<rparr>) s1"
      using assms(2) Nl_producer k by auto
    note q = nl_log_keeps [OF s1(1)]
    have pass: "Logger_TestLevel LogLevel_Info (lt_Logger (nl_Threads s))"
      using assms(1) by (simp add: nl_inv_def Logger_TestLevel_def less_eq_LogLevel_def)
    have t: "texts_of j s' = texts_of j s @ (if j = k then [producer_text (pr_sequence ?p)] else [])" for j
      using q(5) [of j] pass by (simp add: s1(2) texts_of_def)
    have "numbered j s'" for j
    proof -
      have n: "numbered j s" using assms(1) by (simp add: nl_inv_def)
      show ?thesis
      proof (cases "j = k")
        case True
        with n t [of j] k q(1) show ?thesis by (simp add: numbered_def s1(2) upd_producer_def)
      next
        case False
        with n t [of j] q(1) show ?thesis by (simp add: numbered_def s1(2) upd_producer_def)
      qed
    qed
    moreover have "in_file s'" using q(3) assms(1) by (simp add: nl_inv_def s1(2) in_file_def)
    ultimately show ?thesis using q(4) assms(1) by (simp add: nl_inv_def s1(2))
  qed
next
  case Nl_signal
  with assms(2) obtain th where "s' = s\<lparr>nl_Threads := th\<rparr>" "lt_Logger th = lt_Logger (nl_Threads s)" by (auto split: if_splits)
  with assms(1) show ?thesis by (auto intro: nl_inv_cong)
next
  case (Nl_thread e1)
  with assms(2) obtain th where th: "consumer_event e1" "log_thread_step e1 (nl_Threads s) = Some th" "s' = s\<lparr>nl_Threads := th\<rparr>"
    by (auto split: if_splits)
  have "\<exists>signalled. lt_Logger th = Logger_WaitAndWrite signalled (lt_Logger (nl_Threads s))"
    using th(1,2) by (cases e1) (auto simp: Thread_write_def Thread_loop_def split: if_splits intro: exI [of _ False])
  with write_in_file [of s th] assms(1) have "in_file s'" "lg_level (lt_Logger th) = LogLevel_Debug" by (auto simp: th(3) nl_inv_def)
  moreover have "numbered k s' = numbered k s" for k by (rule numbered_cong) (simp_all add: th(3))
  ultimately show ?thesis using assms(1) by (simp add: nl_inv_def th(3))
qed

text \<open>
  However the threads take turns, at every moment the lines of a producer that were logged are
  numbered from zero without a gap, and all lines that were logged are, in order, those written
  before the file was opened, those in the file behind its first text, and those in the queue.
\<close>

theorem new_logger_lines:
  assumes "nl_run es (new_logger_start file) = Some s"
  shows "(\<forall>k. \<exists>n. texts_of k s = map (\<lambda>i. producer_text (of_nat i)) [0..<n]) \<and>
    (\<exists>early w before. map the_line (nl_Lines s) = early @ w @ lg_queue (lt_Logger (nl_Threads s)) \<and>
       (case lg_file (lt_Logger (nl_Threads s)) of
          None \<Rightarrow> w = []
        | Some f \<Rightarrow> f = before @ ''Start new log file entry'' @ concat w))"
proof -
  have "nl_inv s" if "nl_run es s0 = Some s" "nl_inv s0" for s0
    using that by (induction es arbitrary: s0) (auto intro: nl_inv_step split: option.splits)
  moreover have "nl_inv (new_logger_start file)"
    by (simp add: nl_inv_def in_file_def numbered_def texts_of_def new_logger_start_def Logger_start_def Logger_ctor_def Logger_SetLevel_def)
  ultimately have "nl_inv s" using assms by blast
  then show ?thesis unfolding nl_inv_def numbered_def in_file_def by blast
qed


text \<open>Both producers log their first line, and the consumer is woken by the second one.\<close>

theorem new_logger_lines_witness:
  "\<exists>s. nl_run (replicate 7 (Nl_main True [] ''p'') @ [Nl_main_on, Nl_open ''new_logger.log'' (Some []), Nl_main_on, Nl_main_on, Nl_thread Th_loop,
        Nl_producer 0 True [] ''q'', Nl_producer 1 True [] ''r'', Nl_producer 1 True [] ''r'', Nl_producer 0 True [] ''q'', Nl_signal, Nl_thread Th_write])
      (new_logger_start ''main.cpp'') = Some s \<and>
    texts_of 1 s = [producer_text 0] \<and> lg_queue (lt_Logger (nl_Threads s)) = [] \<and>
    (\<exists>early w before. map the_line (nl_Lines s) = early @ w \<and>
       lg_file (lt_Logger (nl_Threads s)) = Some (before @ ''Start new log file entry'' @ concat w))"
proof -
  let ?es = "replicate 7 (Nl_main True [] ''p'') @ [Nl_main_on, Nl_open ''new_logger.log'' (Some []), Nl_main_on, Nl_main_on, Nl_thread Th_loop,
        Nl_producer 0 True [] ''q'', Nl_producer 1 True [] ''r'', Nl_producer 1 True [] ''r'', Nl_producer 0 True [] ''q'', Nl_signal, Nl_thread Th_write]"
  have r: "\<exists>s. nl_run ?es (new_logger_start ''main.cpp'') = Some s \<and> texts_of 1 s = [producer_text 0] \<and>
      lg_queue (lt_Logger (nl_Threads s)) = [] \<and> lg_file (lt_Logger (nl_Threads s)) \<noteq> None"
    by (simp add: numeral_eq_Suc new_logger_start_def main_lines_def nl_log_def Logger_start_def Logger_ctor_def Logger_SetLevel_def
        Thread_loop_def Thread_LOG_def LOG_def Logger_log_def Logger_TestLevel_def Logger_Push_def Logger_Signal_def Thread_write_def
        Logger_WaitAndWrite_def Logger_write_def Logger_SetLogFile_def upd_producer_def new_producer_def texts_of_def
        less_eq_LogLevel_def Let_def)
  then obtain s where s: "nl_run ?es (new_logger_start ''main.cpp'') = Some s" "texts_of 1 s = [producer_text 0]"
    "lg_queue (lt_Logger (nl_Threads s)) = []" "lg_file (lt_Logger (nl_Threads s)) \<noteq> None" by blast
  from new_logger_lines [OF s(1)] s show ?thesis by (auto split: option.splits)
qed

end
