(* ===== verification/SharedMemory.thy ===== *)
theory SharedMemory
  imports Prelude
begin

text \<open>
  The message channel in shared memory of \<open>share_memory\<close>: a publisher writes messages one behind
  the other into a named segment, a consumer of another process reads them up to where the
  publisher is, and a named semaphore tells it that there are some. The segment begins with a
  header of three words; an access behind its end is the outcome \<open>None\<close> or \<open>Read_outside\<close>.
\<close>

section \<open>The segment\<close>

text \<open>\<open>m_Payload\<close> is what lies behind the header, up to the end of the segment.\<close>

record segment =
  m_MaxPayloadBufferSize :: u64
  m_WriteOffset :: u64
  m_ReadOffset :: u64
  m_Payload :: string

definition sizeof_MemoryMapHeader :: nat where
  "sizeof_MemoryMapHeader = 24"

definition sizeof_MemoryMsg :: nat where
  "sizeof_MemoryMsg = 8"

text \<open>The size of a message is stored in eight bytes, the lowest first.\<close>

fun le_bytes :: "nat \<Rightarrow> nat \<Rightarrow> string" where
  "le_bytes 0 n = []"
| "le_bytes (Suc k) n = char_of (n mod 256) # le_bytes k (n div 256)"

fun le_number :: "string \<Rightarrow> nat" where
  "le_number [] = 0"
| "le_number (c # cs) = of_char c + 256 * le_number cs"

definition m_Size :: "nat \<Rightarrow> string \<Rightarrow> u64" where
  "m_Size off p = of_nat (le_number (take sizeof_MemoryMsg (drop off p)))"

definition put_bytes :: "nat \<Rightarrow> string \<Rightarrow> string \<Rightarrow> string" where
  "put_bytes off bs p = take off p @ bs @ drop (off + length bs) p"

text \<open>The first \<open>n\<close> bytes of the payload are in the segment, and have addresses.\<close>

definition inside :: "nat \<Rightarrow> segment \<Rightarrow> bool" where
  "inside n g \<longleftrightarrow> n \<le> length (m_Payload g) \<and> n < 2 ^ 64"

section \<open>Writing and reading\<close>

text \<open>
  The publisher starts over at the front when everything was read and when the message does not
  fit behind the others, also when those were not read.
\<close>

definition Write_full :: "string \<Rightarrow> segment \<Rightarrow> bool" where
  "Write_full buffer g \<longleftrightarrow>
     m_WriteOffset g = m_ReadOffset g \<or>
     m_WriteOffset g + of_nat sizeof_MemoryMsg + of_nat (length buffer) > m_MaxPayloadBufferSize g"

definition Write_message :: "string \<Rightarrow> segment \<Rightarrow> segment option" where
  "Write_message buffer g =
     (let off = unat (m_WriteOffset g)
      in if of_nat (length buffer) < m_MaxPayloadBufferSize g then
           (if inside (off + sizeof_MemoryMsg + length buffer) g then
              Some (g\<lparr>m_Payload := put_bytes (off + sizeof_MemoryMsg) buffer
                        (put_bytes off (le_bytes sizeof_MemoryMsg (length buffer)) (m_Payload g)),
                      m_WriteOffset := m_WriteOffset g + (of_nat sizeof_MemoryMsg + of_nat (length buffer))\<rparr>)
            else None)
         else Some g)"

definition SharedMemoryPublisher_Write :: "string \<Rightarrow> segment \<Rightarrow> segment option" where
  "SharedMemoryPublisher_Write buffer g =
     Write_message buffer (if Write_full buffer g then g\<lparr>m_ReadOffset := 0, m_WriteOffset := 0\<rparr> else g)"

lemma unat_advance:
  fixes a :: u64
  assumes "unat a + 8 + n < 2 ^ 64"
  shows "unat (a + (8 + of_nat n)) = unat a + 8 + n"
proof -
  have "unat (of_nat (unat a + 8 + n) :: u64) = unat a + 8 + n" using assms by (simp only: unat_of_nat) simp
  moreover have "a + (8 + of_nat n) = of_nat (unat a + 8 + n)" by simp
  ultimately show ?thesis by metis
qed

lemma unat_advance_word:
  fixes a s :: u64
  assumes "unat a + 8 + unat s < 2 ^ 64"
  shows "unat (a + (8 + s)) = unat a + 8 + unat s"
  using unat_advance [of a "unat s"] assms by simp

text \<open>
  The loop of the consumer counts the messages and keeps the last one, for its log. It returns
  early at a size that cannot be.
\<close>

datatype read_result = Read_all segment nat string | Read_stops segment | Read_outside

function Read_loop :: "nat \<Rightarrow> segment \<Rightarrow> read_result" where
  "Read_loop counter g =
     (let off = unat (m_ReadOffset g)
      in if \<not> inside (off + sizeof_MemoryMsg) g then Read_outside
         else let size = m_Size off (m_Payload g)
              in if size < m_MaxPayloadBufferSize g then
                   (if \<not> inside (off + sizeof_MemoryMsg + unat size) g then Read_outside
                    else let lastMsg = take (unat size) (drop (off + sizeof_MemoryMsg) (m_Payload g));
                             g1 = g\<lparr>m_ReadOffset := m_ReadOffset g + (of_nat sizeof_MemoryMsg + size)\<rparr>
                         in if m_WriteOffset g1 \<noteq> m_ReadOffset g1 then Read_loop (Suc counter) g1
                            else Read_all g1 (Suc counter) lastMsg)
                 else Read_stops g)"
  by pat_completeness auto

termination
  by (relation "measure (\<lambda>(c, g). length (m_Payload g) - unat (m_ReadOffset g))")
    (auto simp: inside_def sizeof_MemoryMsg_def Let_def unat_advance_word)

declare Read_loop.simps [simp del]

text \<open>What \<open>Read\<close> does when the wait succeeds: without a message there is nothing to log.\<close>

definition Read_messages :: "segment \<Rightarrow> read_result option" where
  "Read_messages g = (if m_ReadOffset g \<noteq> m_WriteOffset g then Some (Read_loop 0 g) else None)"


section \<open>A queue of messages\<close>

lemma length_le_bytes [simp]: "length (le_bytes k n) = k"
  by (induction k arbitrary: n) simp_all

lemma le_number_bytes: "le_number (le_bytes k n) = n mod 256 ^ k"
proof (induction k arbitrary: n)
  case (Suc k)
  have "n mod 256 + 256 * (n div 256 mod 256 ^ k) = n mod (256 * 256 ^ k)"
    by (metis add.commute mod_mult2_eq mult.commute)
  with Suc show ?case by (simp add: of_char_of take_bit_eq_mod)
qed simp

text \<open>A message as it lies in the payload, and the messages between the two offsets.\<close>

definition framed :: "string \<Rightarrow> string" where
  "framed m = le_bytes sizeof_MemoryMsg (length m) @ m"

lemma length_framed [simp]: "length (framed m) = 8 + length m"
  by (simp add: framed_def sizeof_MemoryMsg_def)

definition frames :: "string list \<Rightarrow> string" where
  "frames ms = concat (map framed ms)"

lemma frames_simps [simp]: "frames [] = []" "frames (m # ms) = framed m @ frames ms" "frames (ms @ ns) = frames ms @ frames ns"
  by (simp_all add: frames_def)

definition holds :: "segment \<Rightarrow> string list \<Rightarrow> bool" where
  "holds g ms \<longleftrightarrow>
     unat (m_WriteOffset g) \<le> unat (m_MaxPayloadBufferSize g) \<and> unat (m_MaxPayloadBufferSize g) \<le> length (m_Payload g) \<and>
     length (m_Payload g) < 2 ^ 63 \<and>
     unat (m_WriteOffset g) = unat (m_ReadOffset g) + length (frames ms) \<and>
     take (length (frames ms)) (drop (unat (m_ReadOffset g)) (m_Payload g)) = frames ms"

lemma holds_Nil: "holds g [] \<Longrightarrow> m_ReadOffset g = m_WriteOffset g"
  by (simp add: holds_def word_unat_eq_iff)

lemma holds_Cons: "holds g (m # ms) \<Longrightarrow> m_ReadOffset g \<noteq> m_WriteOffset g"
  by (auto simp: holds_def word_unat_eq_iff)

lemma size_of_frame:
  assumes "take (length (framed m @ rest)) (drop off p) = framed m @ rest" and "length m < 2 ^ 64"
  shows "m_Size off p = of_nat (length m)" and "take (length m) (drop (off + 8) p) = m"
    and "take (length rest) (drop (off + 8 + length m) p) = rest"
proof -
  obtain tl where p: "drop off p = (framed m @ rest) @ tl" using assms(1) by (metis append_take_drop_id)
  have d: "drop (off + n) p = drop n ((framed m @ rest) @ tl)" for n
    unfolding p [symmetric] by (simp add: add.commute)
  have "take 8 (drop off p) = le_bytes 8 (length m)" unfolding p by (simp add: framed_def sizeof_MemoryMsg_def)
  then show "m_Size off p = of_nat (length m)" using assms(2) by (simp add: m_Size_def sizeof_MemoryMsg_def le_number_bytes)
  show "take (length m) (drop (off + 8) p) = m" unfolding d by (simp add: framed_def sizeof_MemoryMsg_def)
  have "drop (off + 8 + length m) p = drop (8 + length m) ((framed m @ rest) @ tl)" using d [of "8 + length m"] by (simp add: add.assoc)
  then show "take (length rest) (drop (off + 8 + length m) p) = rest" by simp
qed

text \<open>Reading takes all messages, in order.\<close>

lemma Read_loop_holds:
  assumes "holds g ms" and "ms \<noteq> []"
  shows "\<exists>g'. Read_loop counter g = Read_all g' (counter + length ms) (last ms) \<and> holds g' [] \<and>
    m_MaxPayloadBufferSize g' = m_MaxPayloadBufferSize g \<and> m_Payload g' = m_Payload g \<and> m_WriteOffset g' = m_WriteOffset g"
  using assms
proof (induction ms arbitrary: counter g)
  case (Cons m ms)
  let ?off = "unat (m_ReadOffset g)" let ?p = "m_Payload g" let ?max = "m_MaxPayloadBufferSize g"
  let ?g1 = "g\<lparr>m_ReadOffset := m_ReadOffset g + (8 + of_nat (length m))\<rparr>"
  have sz: "length ?p < 2 ^ 63" and h: "unat (m_WriteOffset g) \<le> unat ?max" "unat ?max \<le> length ?p" "unat (m_WriteOffset g) = ?off + (8 + length m + length (frames ms))"
    "take (length (framed m @ frames ms)) (drop ?off ?p) = framed m @ frames ms" using Cons.prems(1) by (simp_all add: holds_def)
  have lt: "length m < 2 ^ 64" "?off + 8 + length m < 2 ^ 64" using h(1,3) unat_bound [of ?max] by linarith+
  note s = size_of_frame [OF h(4) lt(1)]
  have um: "unat (of_nat (length m) :: u64) = length m" using lt(1) by (simp add: unat_of_nat)
  have ins: "inside (?off + 8) g" "inside (?off + 8 + length m) g" using h(1-3) lt(2) unfolding inside_def by linarith+
  have less: "of_nat (length m) < ?max" using h(1,3) by (simp add: word_less_nat_alt um)
  have adv: "unat (m_ReadOffset ?g1) = ?off + 8 + length m" using unat_advance [OF lt(2)] by simp
  have h1: "holds ?g1 ms" unfolding holds_def adv using h s(3) sz by simp
  have step: "Read_loop counter g =
      (if m_WriteOffset ?g1 \<noteq> m_ReadOffset ?g1 then Read_loop (Suc counter) ?g1 else Read_all ?g1 (Suc counter) m)"
    unfolding Read_loop.simps [of counter g] using ins less um by (simp add: s Let_def sizeof_MemoryMsg_def)
  show ?case
  proof (cases "ms = []")
    case True
    with holds_Nil [of ?g1] h1 have "m_WriteOffset ?g1 = m_ReadOffset ?g1" by metis
    with step h1 True show ?thesis by simp
  next
    case False
    with holds_Cons [of ?g1] h1 have "m_WriteOffset ?g1 \<noteq> m_ReadOffset ?g1" by (metis neq_Nil_conv)
    with step Cons.IH [OF h1 False, of "Suc counter"] False show ?thesis by simp
  qed
qed simp

text \<open>Writing puts the message behind the others, or throws the others away when it does not fit.\<close>

lemma put_bytes_frame:
  assumes "take n (drop r p) = q" and "length q = n" and "r + n + 8 + length m \<le> length p"
  shows "take (n + (8 + length m)) (drop r (put_bytes (r + n + 8) m (put_bytes (r + n) (le_bytes 8 (length m)) p))) = q @ framed m"
proof -
  let ?h = "take r p"
  have p: "p = ?h @ q @ drop (r + n) p" using assms(1,2) by (metis append_take_drop_id drop_drop add.commute)
  have "length ?h = r" using assms(3) by simp
  have 1: "put_bytes (r + n) (le_bytes 8 (length m)) p = (?h @ q @ le_bytes 8 (length m)) @ drop (r + n + 8) p"
    unfolding put_bytes_def using assms(2,3) arg_cong [OF p, of "take (r + n)"] by simp
  have "length (?h @ q @ le_bytes 8 (length m)) = r + n + 8" using assms(2) \<open>length ?h = r\<close> by simp
  then have "put_bytes (r + n + 8) m (put_bytes (r + n) (le_bytes 8 (length m)) p) =
      (?h @ q @ le_bytes 8 (length m)) @ m @ drop (r + n + 8 + length m) p"
    unfolding 1 by (simp add: put_bytes_def add.commute)
  also have "\<dots> = ?h @ (q @ framed m) @ drop (r + n + 8 + length m) p" by (simp add: framed_def sizeof_MemoryMsg_def)
  finally show ?thesis using \<open>length ?h = r\<close> assms(2) by simp
qed

lemma Write_message_holds:
  assumes h: "holds g ms" and room: "unat (m_WriteOffset g) + 8 + length m \<le> unat (m_MaxPayloadBufferSize g)"
  shows "\<exists>g'. Write_message m g = Some g' \<and> holds g' (ms @ [m]) \<and> m_MaxPayloadBufferSize g' = m_MaxPayloadBufferSize g \<and>
    unat (m_WriteOffset g') = unat (m_WriteOffset g) + 8 + length m"
proof -
  let ?r = "unat (m_ReadOffset g)" let ?w = "unat (m_WriteOffset g)" let ?max = "m_MaxPayloadBufferSize g" let ?p = "m_Payload g"
  let ?p' = "put_bytes (?w + 8) m (put_bytes ?w (le_bytes 8 (length m)) ?p)"
  let ?g = "g\<lparr>m_Payload := ?p', m_WriteOffset := m_WriteOffset g + (8 + of_nat (length m))\<rparr>"
  have w: "?w = ?r + length (frames ms)" and le: "unat ?max \<le> length ?p" and sz: "length ?p < 2 ^ 63"
    and t: "take (length (frames ms)) (drop ?r ?p) = frames ms" using h by (simp_all add: holds_def)
  have lt: "?w + 8 + length m < 2 ^ 64" using room unat_bound [of ?max] by linarith
  then have um: "unat (of_nat (length m) :: u64) = length m" by (simp add: unat_of_nat)
  have less: "of_nat (length m) < ?max" using room by (simp add: word_less_nat_alt um)
  have ins: "inside (?w + 8 + length m) g" using room le lt by (simp add: inside_def)
  have e: "Write_message m g = Some ?g" using less ins by (simp add: Write_message_def Let_def sizeof_MemoryMsg_def)
  have len: "length ?p' = length ?p" using room le by (simp add: put_bytes_def)
  have "take (length (frames ms) + (8 + length m)) (drop ?r ?p') = frames ms @ framed m"
    unfolding w by (rule put_bytes_frame [OF t refl]) (use room le w in simp)
  then have "holds ?g (ms @ [m])" unfolding holds_def using unat_advance [OF lt] room le sz w len by simp
  with e unat_advance [OF lt] show ?thesis by simp
qed


lemma holds_reset: "holds g ms \<Longrightarrow> holds (g\<lparr>m_ReadOffset := 0, m_WriteOffset := 0\<rparr>) []"
  by (simp add: holds_def)

lemma Write_full_iff:
  assumes "holds g ms" and "8 + length m \<le> unat (m_MaxPayloadBufferSize g)"
  shows "Write_full m g \<longleftrightarrow> ms = [] \<or> unat (m_WriteOffset g) + 8 + length m > unat (m_MaxPayloadBufferSize g)"
proof -
  have lt: "unat (m_WriteOffset g) + 8 + length m < 2 ^ 64" using assms by (simp add: holds_def)
  have "unat (m_WriteOffset g + 8 + of_nat (length m)) = unat (m_WriteOffset g) + 8 + length m"
    using unat_advance [OF lt] by (simp add: add.assoc)
  moreover have "m_WriteOffset g = m_ReadOffset g \<longleftrightarrow> ms = []" using holds_Nil [of g] holds_Cons [of g] assms(1) by (cases ms) auto
  ultimately show ?thesis by (simp add: Write_full_def sizeof_MemoryMsg_def word_less_nat_alt)
qed

text \<open>The abstract queue: a message that does not fit behind the others takes their place.\<close>

definition queued :: "segment \<Rightarrow> string list \<Rightarrow> string \<Rightarrow> string list" where
  "queued g ms m = (if unat (m_WriteOffset g) + 8 + length m > unat (m_MaxPayloadBufferSize g) then [m] else ms @ [m])"

lemma Write_holds:
  assumes h: "holds g ms" and fits: "8 + length m \<le> unat (m_MaxPayloadBufferSize g)"
  shows "\<exists>g'. SharedMemoryPublisher_Write m g = Some g' \<and> holds g' (queued g ms m) \<and>
    m_MaxPayloadBufferSize g' = m_MaxPayloadBufferSize g"
proof (cases "Write_full m g")
  case True
  from Write_message_holds [OF holds_reset [OF h], of m] fits obtain g' where
    "SharedMemoryPublisher_Write m g = Some g'" "holds g' [m]" "m_MaxPayloadBufferSize g' = m_MaxPayloadBufferSize g"
    using True by (auto simp: SharedMemoryPublisher_Write_def)
  moreover have "queued g ms m = [m]" using True Write_full_iff [OF h fits] by (auto simp: queued_def)
  ultimately show ?thesis by simp
next
  case False
  with Write_full_iff [OF h fits] have n: "\<not> unat (m_WriteOffset g) + 8 + length m > unat (m_MaxPayloadBufferSize g)" by simp
  then have "unat (m_WriteOffset g) + 8 + length m \<le> unat (m_MaxPayloadBufferSize g)" by simp
  from Write_message_holds [OF h this] False n show ?thesis by (auto simp: SharedMemoryPublisher_Write_def queued_def)
qed

text \<open>The test of the size forgets the eight bytes before the message: these are written past the end.\<close>

theorem write_past_the_end:
  assumes "unat (m_MaxPayloadBufferSize g) = length (m_Payload g)" and "length (m_Payload g) < 2 ^ 62"
    and "length m < length (m_Payload g)" and "length (m_Payload g) < length m + 8"
    and "unat (m_WriteOffset g) \<le> length (m_Payload g)"
  shows "SharedMemoryPublisher_Write m g = None"
proof -
  have um: "unat (of_nat (length m) :: u64) = length m" using assms by (simp add: unat_of_nat)
  have lt: "unat (m_WriteOffset g) + 8 + length m < 2 ^ 64" using assms by simp
  have "Write_full m g"
    using unat_advance [OF lt] assms by (simp add: Write_full_def sizeof_MemoryMsg_def word_less_nat_alt add.assoc)
  then show ?thesis
    using assms um by (simp add: SharedMemoryPublisher_Write_def Write_message_def Let_def inside_def sizeof_MemoryMsg_def word_less_nat_alt)
qed

theorem write_past_the_end_witness:
  "SharedMemoryPublisher_Write ''twelve bytes'' \<lparr>m_MaxPayloadBufferSize = 16, m_WriteOffset = 0, m_ReadOffset = 0, m_Payload = replicate 16 CHR 0x00\<rparr> = None"
  by (rule write_past_the_end) simp_all

end
