(* ===== verification/SharedMemoryPrograms.thy ===== *)
theory SharedMemoryPrograms
  imports SharedMemory
begin

text \<open>
  The processes of \<open>share_memory\<close>: the named objects they open, the rounds of the publisher and of
  the consumer, what arrives when they take turns, and what becomes of it when a process starts
  early or late and when both use the segment at the same time.
\<close>

section \<open>Names, semaphores and processes\<close>

text \<open>
  Segments and semaphores are named objects of the machine. Removing a name leaves the object to
  those that have opened it; opening the name again makes a new one. Sizes below that of the
  header are not modelled.
\<close>

record machine =
  mc_Segments :: "segment list"
  mc_Memory :: "string \<rightharpoonup> nat"
  mc_Counts :: "nat list"
  mc_Semaphores :: "string \<rightharpoonup> nat"

record SharedMemory =
  m_SharedMemoryName :: string
  m_SemaphoreName :: string
  m_SharedMemory :: nat
  m_InterprocessNamedSemaphore :: nat

datatype memory_type = Publisher | Consumer

definition open_or_create_semaphore :: "string \<Rightarrow> nat \<Rightarrow> machine \<Rightarrow> nat \<times> machine" where
  "open_or_create_semaphore name initial mc =
     (case mc_Semaphores mc name of
        Some i \<Rightarrow> (i, mc)
      | None \<Rightarrow> (length (mc_Counts mc), mc\<lparr>mc_Counts := mc_Counts mc @ [initial],
                                      mc_Semaphores := (mc_Semaphores mc)(name \<mapsto> length (mc_Counts mc))\<rparr>))"

definition open_or_create_memory :: "string \<Rightarrow> machine \<Rightarrow> nat \<times> machine" where
  "open_or_create_memory name mc =
     (case mc_Memory mc name of
        Some i \<Rightarrow> (i, mc)
      | None \<Rightarrow> (length (mc_Segments mc),
                 mc\<lparr>mc_Segments := mc_Segments mc @ [\<lparr>m_MaxPayloadBufferSize = 0, m_WriteOffset = 0, m_ReadOffset = 0, m_Payload = []\<rparr>],
                    mc_Memory := (mc_Memory mc)(name \<mapsto> length (mc_Segments mc))\<rparr>))"

definition truncate_segment :: "nat \<Rightarrow> segment \<Rightarrow> segment" where
  "truncate_segment bytes g =
     (let n = bytes - sizeof_MemoryMapHeader
      in g\<lparr>m_Payload := take n (m_Payload g) @ replicate (n - length (m_Payload g)) CHR 0x00\<rparr>)"

definition publish_header :: "nat \<Rightarrow> segment \<Rightarrow> segment" where
  "publish_header bytes g = g\<lparr>m_MaxPayloadBufferSize := of_nat (bytes - sizeof_MemoryMapHeader), m_ReadOffset := 0, m_WriteOffset := 0\<rparr>"

definition upd_segment :: "nat \<Rightarrow> (segment \<Rightarrow> segment) \<Rightarrow> machine \<Rightarrow> machine" where
  "upd_segment i f mc = mc\<lparr>mc_Segments := (mc_Segments mc)[i := f (mc_Segments mc ! i)]\<rparr>"

definition SharedMemory_size :: nat where
  "SharedMemory_size = 10 * 1024 * 1024"

definition SharedMemory_ctor :: "string \<Rightarrow> memory_type \<Rightarrow> nat \<Rightarrow> machine \<Rightarrow> SharedMemory \<times> machine" where
  "SharedMemory_ctor name type bytes mc =
     (let semaphoreName = name @ ''_Semaphore'';
          (semaphore, mc1) = open_or_create_semaphore semaphoreName 1 mc;
          mc2 = (if type = Publisher then mc1\<lparr>mc_Memory := (mc_Memory mc1)(name := None)\<rparr> else mc1);
          (memory, mc3) = open_or_create_memory name mc2;
          mc4 = upd_segment memory (truncate_segment bytes) mc3;
          mc5 = (if type = Publisher then upd_segment memory (publish_header bytes) mc4 else mc4)
      in (\<lparr>m_SharedMemoryName = name, m_SemaphoreName = semaphoreName, m_SharedMemory = memory,
            m_InterprocessNamedSemaphore = semaphore\<rparr>, mc5))"

definition SharedMemoryPublisher_ctor :: "string \<Rightarrow> machine \<Rightarrow> SharedMemory \<times> machine" where
  "SharedMemoryPublisher_ctor name mc = SharedMemory_ctor name Publisher SharedMemory_size mc"

definition SharedMemoryConsumer_ctor :: "string \<Rightarrow> machine \<Rightarrow> SharedMemory \<times> machine" where
  "SharedMemoryConsumer_ctor name mc = SharedMemory_ctor name Consumer SharedMemory_size mc"

definition SharedMemory_dtor :: "SharedMemory \<Rightarrow> machine \<Rightarrow> machine" where
  "SharedMemory_dtor sm mc = mc\<lparr>mc_Semaphores := (mc_Semaphores mc)(m_SemaphoreName sm := None)\<rparr>"

definition SharedMemoryPublisher_dtor :: "SharedMemory \<Rightarrow> machine \<Rightarrow> machine" where
  "SharedMemoryPublisher_dtor sm mc =
     SharedMemory_dtor sm (mc\<lparr>mc_Memory := (mc_Memory mc)(m_SharedMemoryName sm := None)\<rparr>)"

text \<open>A wait takes one from the count, or ends after its time when nobody has posted.\<close>

definition SharedMemory_Wait :: "SharedMemory \<Rightarrow> machine \<Rightarrow> machine \<times> bool" where
  "SharedMemory_Wait sm mc =
     (let i = m_InterprocessNamedSemaphore sm
      in if 0 < mc_Counts mc ! i then (mc\<lparr>mc_Counts := (mc_Counts mc)[i := mc_Counts mc ! i - 1]\<rparr>, True) else (mc, False))"

definition SharedMemory_Notify :: "SharedMemory \<Rightarrow> machine \<Rightarrow> machine" where
  "SharedMemory_Notify sm mc =
     (let i = m_InterprocessNamedSemaphore sm in mc\<lparr>mc_Counts := (mc_Counts mc)[i := mc_Counts mc ! i + 1]\<rparr>)"

text \<open>
  One read of the consumer: the value it returns is always zero; the log line has the last message
  and the rate, which comes from the count.
\<close>

definition SharedMemoryConsumer_Read :: "SharedMemory \<Rightarrow> machine \<Rightarrow> (machine \<times> nat \<times> (nat \<times> string) list) option" where
  "SharedMemoryConsumer_Read sm mc =
     (case SharedMemory_Wait sm mc of (mc1, signalled) \<Rightarrow>
        if signalled then
          (case Read_messages (mc_Segments mc1 ! m_SharedMemory sm) of
             None \<Rightarrow> Some (mc1, 0, [])
           | Some (Read_all g counter lastMsg) \<Rightarrow> Some (upd_segment (m_SharedMemory sm) (\<lambda>_. g) mc1, 0, [(counter, lastMsg)])
           | Some (Read_stops g) \<Rightarrow> Some (upd_segment (m_SharedMemory sm) (\<lambda>_. g) mc1, 0, [])
           | Some Read_outside \<Rightarrow> None)
        else Some (mc1, 0, []))"

text \<open>The two programs: rounds of 25000 numbers and a notification; a read per round of the loop.\<close>

fun publish_numbers :: "nat \<Rightarrow> SharedMemory \<Rightarrow> u64 \<times> machine \<Rightarrow> (u64 \<times> machine) option" where
  "publish_numbers 0 sm (n, mc) = Some (n, mc)"
| "publish_numbers (Suc k) sm (n, mc) =
     (case SharedMemoryPublisher_Write (dec_nat (unat (n + 1))) (mc_Segments mc ! m_SharedMemory sm) of
        None \<Rightarrow> None
      | Some g \<Rightarrow> publish_numbers k sm (n + 1, upd_segment (m_SharedMemory sm) (\<lambda>_. g) mc))"

definition publisher_round :: "SharedMemory \<Rightarrow> u64 \<times> machine \<Rightarrow> (u64 \<times> machine) option" where
  "publisher_round sm s = map_option (\<lambda>(n, mc). (n, SharedMemory_Notify sm mc)) (publish_numbers 25000 sm s)"

datatype memory_event = Publisher_round | Consumer_round

text \<open>The two processes in some order of their rounds, with the log of the consumer.\<close>

fun memory_run :: "SharedMemory \<Rightarrow> SharedMemory \<Rightarrow> memory_event list \<Rightarrow> u64 \<times> machine \<Rightarrow> ((u64 \<times> machine) \<times> (nat \<times> string) list) option" where
  "memory_run p c [] s = Some (s, [])"
| "memory_run p c (Publisher_round # es) s = (case publisher_round p s of None \<Rightarrow> None | Some s1 \<Rightarrow> memory_run p c es s1)"
| "memory_run p c (Consumer_round # es) s =
     (case SharedMemoryConsumer_Read c (snd s) of
        None \<Rightarrow> None
      | Some (mc1, r, log) \<Rightarrow> map_option (\<lambda>(s2, logs). (s2, log @ logs)) (memory_run p c es (fst s, mc1)))"


section \<open>Taking turns\<close>

lemma publish_numbers_holds:
  assumes "holds (mc_Segments mc ! i) ms" and "ms \<noteq> []" and "m_SharedMemory sm = i" and "i < length (mc_Segments mc)"
    and "unat (m_WriteOffset (mc_Segments mc ! i)) + 28 * k \<le> unat (m_MaxPayloadBufferSize (mc_Segments mc ! i))"
  shows "\<exists>g. publish_numbers k sm (n, mc) = Some (n + of_nat k, upd_segment i (\<lambda>_. g) mc) \<and>
    holds g (ms @ map (\<lambda>j. dec_nat (unat (n + of_nat (Suc j)))) [0..<k]) \<and>
    m_MaxPayloadBufferSize g = m_MaxPayloadBufferSize (mc_Segments mc ! i)"
  using assms
proof (induction k arbitrary: n mc ms)
  case 0
  then show ?case by (intro exI [of _ "mc_Segments mc ! i"]) (simp add: upd_segment_def)
next
  case (Suc k)
  let ?g = "mc_Segments mc ! i" let ?m = "dec_nat (unat (n + 1))"
  have l: "length ?m \<le> 20" by (rule length_dec_u64)
  have room: "unat (m_WriteOffset ?g) + 8 + length ?m \<le> unat (m_MaxPayloadBufferSize ?g)" using Suc.prems(5) l by simp
  then have fits: "8 + length ?m \<le> unat (m_MaxPayloadBufferSize ?g)" by simp
  from room have "\<not> Write_full ?m ?g" using Write_full_iff [OF Suc.prems(1) fits] Suc.prems(2) by simp
  then have w: "SharedMemoryPublisher_Write ?m ?g = Write_message ?m ?g" by (simp add: SharedMemoryPublisher_Write_def)
  from Write_message_holds [OF Suc.prems(1) room] obtain g1 where
    g1: "Write_message ?m ?g = Some g1" "holds g1 (ms @ [?m])" "m_MaxPayloadBufferSize g1 = m_MaxPayloadBufferSize ?g"
      "unat (m_WriteOffset g1) = unat (m_WriteOffset ?g) + 8 + length ?m" by blast
  let ?mc = "upd_segment i (\<lambda>_. g1) mc"
  have s: "mc_Segments ?mc ! i = g1" "i < length (mc_Segments ?mc)" using Suc.prems(4) by (simp_all add: upd_segment_def)
  have "unat (m_WriteOffset g1) + 28 * k \<le> unat (m_MaxPayloadBufferSize g1)" using g1(3,4) l Suc.prems(5) by simp
  from Suc.IH [of ?mc "ms @ [?m]" "n + 1", unfolded s(1), OF g1(2) _ Suc.prems(3) s(2) this] obtain g where
    g: "publish_numbers k sm (n + 1, ?mc) = Some (n + 1 + of_nat k, upd_segment i (\<lambda>_. g) ?mc)"
      "holds g ((ms @ [?m]) @ map (\<lambda>j. dec_nat (unat (n + 1 + of_nat (Suc j)))) [0..<k])"
      "m_MaxPayloadBufferSize g = m_MaxPayloadBufferSize g1" by auto
  have "map (\<lambda>j. dec_nat (unat (n + of_nat (Suc j)))) [0..<Suc k] =
      ?m # map (\<lambda>j. dec_nat (unat (n + 1 + of_nat (Suc j)))) [0..<k]"
    by (simp add: map_upt_Suc algebra_simps del: upt_Suc)
  moreover have "upd_segment i (\<lambda>_. g) ?mc = upd_segment i (\<lambda>_. g) mc" by (simp add: upd_segment_def)
  ultimately show ?case using g g1 w Suc.prems(3) by (intro exI [of _ g]) (simp add: algebra_simps)
qed


lemma publish_round_holds:
  assumes h: "holds (mc_Segments mc ! i) []" and m: "m_SharedMemory sm = i" and i: "i < length (mc_Segments mc)"
    and room: "28 * Suc k \<le> unat (m_MaxPayloadBufferSize (mc_Segments mc ! i))"
  shows "\<exists>g. publish_numbers (Suc k) sm (n, mc) = Some (n + of_nat (Suc k), upd_segment i (\<lambda>_. g) mc) \<and>
    holds g (map (\<lambda>j. dec_nat (unat (n + of_nat (Suc j)))) [0..<Suc k]) \<and>
    m_MaxPayloadBufferSize g = m_MaxPayloadBufferSize (mc_Segments mc ! i)"
proof -
  let ?g = "mc_Segments mc ! i" let ?m = "dec_nat (unat (n + 1))"
  have l: "length ?m \<le> 20" by (rule length_dec_u64)
  with room have fits: "8 + length ?m \<le> unat (m_MaxPayloadBufferSize ?g)" by simp
  with holds_reset [OF h] obtain g1 where g1: "Write_message ?m (?g\<lparr>m_ReadOffset := 0, m_WriteOffset := 0\<rparr>) = Some g1" "holds g1 [?m]"
    "m_MaxPayloadBufferSize g1 = m_MaxPayloadBufferSize ?g" "unat (m_WriteOffset g1) = 8 + length ?m"
    using Write_message_holds [OF holds_reset [OF h], of ?m] by auto
  have w: "SharedMemoryPublisher_Write ?m ?g = Some g1"
    using Write_full_iff [OF h fits] g1(1) by (simp add: SharedMemoryPublisher_Write_def)
  let ?mc = "upd_segment i (\<lambda>_. g1) mc"
  have s: "mc_Segments ?mc ! i = g1" "i < length (mc_Segments ?mc)" using i by (simp_all add: upd_segment_def)
  have "unat (m_WriteOffset g1) + 28 * k \<le> unat (m_MaxPayloadBufferSize g1)" using g1(3,4) l room by simp
  from publish_numbers_holds [of ?mc i "[?m]" sm k "n + 1", unfolded s(1), OF g1(2) _ m s(2) this] obtain g where
    g: "publish_numbers k sm (n + 1, ?mc) = Some (n + 1 + of_nat k, upd_segment i (\<lambda>_. g) ?mc)"
      "holds g ([?m] @ map (\<lambda>j. dec_nat (unat (n + 1 + of_nat (Suc j)))) [0..<k])"
      "m_MaxPayloadBufferSize g = m_MaxPayloadBufferSize g1" by auto
  have "map (\<lambda>j. dec_nat (unat (n + of_nat (Suc j)))) [0..<Suc k] =
      [?m] @ map (\<lambda>j. dec_nat (unat (n + 1 + of_nat (Suc j)))) [0..<k]"
    by (simp add: map_upt_Suc algebra_simps del: upt_Suc)
  moreover have "upd_segment i (\<lambda>_. g) ?mc = upd_segment i (\<lambda>_. g) mc" by (simp add: upd_segment_def)
  ultimately show ?thesis using g g1(3) w m by (intro exI [of _ g]) (simp add: algebra_simps)
qed

text \<open>Both processes on the one segment and the one semaphore, everything read.\<close>

definition all_read :: "machine \<Rightarrow> bool" where
  "all_read mc \<longleftrightarrow>
     (\<exists>g c. mc_Segments mc = [g] \<and> mc_Counts mc = [c] \<and> holds g [] \<and> m_MaxPayloadBufferSize g = of_nat (SharedMemory_size - sizeof_MemoryMapHeader))"

lemma one_turn:
  assumes "all_read mc" and "m_SharedMemory p = 0" "m_InterprocessNamedSemaphore p = 0"
    "m_SharedMemory c = 0" "m_InterprocessNamedSemaphore c = 0"
  shows "\<exists>mc1 mc2. publisher_round p (n, mc) = Some (n + 25000, mc1) \<and>
    SharedMemoryConsumer_Read c mc1 = Some (mc2, 0, [(25000, dec_nat (unat (n + 25000)))]) \<and> all_read mc2"
proof -
  let ?max = "of_nat (SharedMemory_size - sizeof_MemoryMapHeader) :: u64" and ?ms = "map (\<lambda>j. dec_nat (unat (n + of_nat (Suc j)))) [0..<Suc 24999]"
  obtain g k where mc: "mc_Segments mc = [g]" "mc_Counts mc = [k]" "holds g []" "m_MaxPayloadBufferSize g = ?max"
    using assms(1) by (auto simp: all_read_def)
  have "28 * Suc 24999 \<le> unat (m_MaxPayloadBufferSize (mc_Segments mc ! 0))"
    by (simp add: mc SharedMemory_size_def sizeof_MemoryMapHeader_def)
  from publish_round_holds [OF _ assms(2) _ this] mc obtain g1 where
    g1: "publish_numbers (Suc 24999) p (n, mc) = Some (n + of_nat (Suc 24999), upd_segment 0 (\<lambda>_. g1) mc)" "holds g1 ?ms"
      "m_MaxPayloadBufferSize g1 = ?max" by auto
  have ne: "?ms \<noteq> []" by simp
  have len: "length ?ms = 25000" by (simp only: length_map length_upt)
  have "last ?ms = dec_nat (unat (n + of_nat (Suc 24999)))" by (simp add: last_map)
  then have last: "last ?ms = dec_nat (unat (n + 25000))" by simp
  let ?mc1 = "SharedMemory_Notify p (upd_segment 0 (\<lambda>_. g1) mc)"
  have p: "publisher_round p (n, mc) = Some (n + 25000, ?mc1)" using g1(1) by (simp add: publisher_round_def)
  have mc1: "mc_Segments ?mc1 = [g1]" "mc_Counts ?mc1 = [k + 1]" using assms(3) mc by (simp_all add: SharedMemory_Notify_def upd_segment_def)
  obtain g2 where g2: "Read_loop 0 g1 = Read_all g2 25000 (dec_nat (unat (n + 25000)))" "holds g2 []" "m_MaxPayloadBufferSize g2 = ?max"
    using Read_loop_holds [OF g1(2) ne, of 0] unfolding len last g1(3) by auto
  have "Read_messages g1 = Some (Read_all g2 25000 (dec_nat (unat (n + 25000))))"
    using holds_Cons g1(2) ne g2(1) by (metis Read_messages_def neq_Nil_conv)
  then have "SharedMemoryConsumer_Read c ?mc1 =
      Some (upd_segment 0 (\<lambda>_. g2) (?mc1\<lparr>mc_Counts := [k]\<rparr>), 0, [(25000, dec_nat (unat (n + 25000)))])"
    using assms(4,5) mc1 by (simp add: SharedMemoryConsumer_Read_def SharedMemory_Wait_def)
  moreover have "all_read (upd_segment 0 (\<lambda>_. g2) (?mc1\<lparr>mc_Counts := [k]\<rparr>))"
    using g2 mc1 by (simp add: all_read_def upd_segment_def)
  ultimately show ?thesis using p by blast
qed

definition no_objects :: machine where
  "no_objects = \<lparr>mc_Segments = [], mc_Memory = Map.empty, mc_Counts = [], mc_Semaphores = Map.empty\<rparr>"

lemmas ctor_simps = SharedMemoryPublisher_ctor_def SharedMemoryConsumer_ctor_def SharedMemory_ctor_def open_or_create_semaphore_def
  open_or_create_memory_def upd_segment_def truncate_segment_def publish_header_def Let_def no_objects_def

text \<open>
  C36: A consumer that starts after the publisher and reads after each of its rounds counts all 25000
  numbers of every round and logs the last one, over any number of rounds.
\<close>

theorem shared_memory_turns:
  assumes "SharedMemoryPublisher_ctor name no_objects = (p, mc1)" and "SharedMemoryConsumer_ctor name mc1 = (c, mc2)"
  shows "\<exists>s. memory_run p c (concat (replicate k [Publisher_round, Consumer_round])) (0, mc2) =
    Some (s, map (\<lambda>r. (25000, dec_nat (unat (of_nat (25000 * Suc r) :: u64)))) [0..<k])"
proof -
  have ids: "m_SharedMemory p = 0" "m_InterprocessNamedSemaphore p = 0" "m_SharedMemory c = 0" "m_InterprocessNamedSemaphore c = 0"
    using assms by (auto simp: ctor_simps)
  have start: "all_read mc2"
    using assms by (auto simp: ctor_simps all_read_def holds_def frames_def SharedMemory_size_def sizeof_MemoryMapHeader_def)
  have "\<exists>s. memory_run p c (concat (replicate k [Publisher_round, Consumer_round])) (n, mc) =
    Some (s, map (\<lambda>r. (25000, dec_nat (unat (n + of_nat (25000 * Suc r))))) [0..<k])" if "all_read mc" for n mc
    using that
  proof (induction k arbitrary: n mc)
    case (Suc k)
    from one_turn [OF Suc.prems ids, of n] obtain mc1 mc2 where t: "publisher_round p (n, mc) = Some (n + 25000, mc1)"
      "SharedMemoryConsumer_Read c mc1 = Some (mc2, 0, [(25000, dec_nat (unat (n + 25000)))])" "all_read mc2" by blast
    have "map (\<lambda>r. (25000 :: nat, dec_nat (unat (n + of_nat (25000 * Suc r))))) [0..<Suc k] =
        (25000, dec_nat (unat (n + 25000))) # map (\<lambda>r. (25000, dec_nat (unat (n + 25000 + of_nat (25000 * Suc r))))) [0..<k]"
      by (simp add: map_upt_Suc algebra_simps del: upt_Suc)
    with t Suc.IH [OF t(3), of "n + 25000"] show ?case by auto
  qed simp
  from this [OF start, of 0] show ?thesis by simp
qed


lemma run_example:
  "map (\<lambda>r. (25000 :: nat, dec_nat (unat (of_nat (25000 * Suc r) :: u64)))) [0..<3] =
    [(25000, ''25000''), (25000, ''50000''), (25000, ''75000'')]"
  by (simp add: upt_rec unat_of_nat dec_nat.simps digit_char_def char_of_def bit_0)

theorem shared_memory_turns_witness:
  "\<exists>p mc1 c mc2 s. SharedMemoryPublisher_ctor ''SharedMemoryTest'' no_objects = (p, mc1) \<and>
    SharedMemoryConsumer_ctor ''SharedMemoryTest'' mc1 = (c, mc2) \<and>
    memory_run p c (concat (replicate 3 [Publisher_round, Consumer_round])) (0, mc2) =
      Some (s, [(25000, ''25000''), (25000, ''50000''), (25000, ''75000'')])"
proof -
  obtain p mc1 where p: "SharedMemoryPublisher_ctor ''SharedMemoryTest'' no_objects = (p, mc1)" by fastforce
  obtain c mc2 where c: "SharedMemoryConsumer_ctor ''SharedMemoryTest'' mc1 = (c, mc2)" by fastforce
  from shared_memory_turns [OF p c, of 3] p c show ?thesis unfolding run_example by blast
qed

section \<open>Starting early, starting late\<close>

text \<open>What a round leaves as it is: the names, and the segments and counts of others.\<close>

definition objects :: "machine \<Rightarrow> (string \<rightharpoonup> nat) \<times> (string \<rightharpoonup> nat) \<times> nat \<times> nat" where
  "objects mc = (mc_Memory mc, mc_Semaphores mc, length (mc_Segments mc), length (mc_Counts mc))"

lemma publish_numbers_keeps:
  assumes "publish_numbers k p s = Some s'"
  shows "objects (snd s') = objects (snd s)" and "mc_Counts (snd s') = mc_Counts (snd s)"
    and "m_SharedMemory p \<noteq> i \<Longrightarrow> mc_Segments (snd s') ! i = mc_Segments (snd s) ! i"
proof -
  have "objects (snd s') = objects (snd s) \<and> mc_Counts (snd s') = mc_Counts (snd s) \<and>
      (m_SharedMemory p \<noteq> i \<longrightarrow> mc_Segments (snd s') ! i = mc_Segments (snd s) ! i)"
    using assms
  proof (induction k p s rule: publish_numbers.induct)
    case (2 k sm n mc)
    then obtain g where g: "SharedMemoryPublisher_Write (dec_nat (unat (n + 1))) (mc_Segments mc ! m_SharedMemory sm) = Some g"
      and r: "publish_numbers k sm (n + 1, upd_segment (m_SharedMemory sm) (\<lambda>_. g) mc) = Some s'" by (auto split: option.splits)
    from "2.IH" [OF g r] show ?case by (simp add: upd_segment_def objects_def)
  qed simp
  then show "objects (snd s') = objects (snd s)" "mc_Counts (snd s') = mc_Counts (snd s)"
    "m_SharedMemory p \<noteq> i \<Longrightarrow> mc_Segments (snd s') ! i = mc_Segments (snd s) ! i" by simp_all
qed

lemma publisher_round_keeps:
  assumes "publisher_round p s = Some s'"
  shows "objects (snd s') = objects (snd s)"
    and "m_SharedMemory p \<noteq> i \<Longrightarrow> mc_Segments (snd s') ! i = mc_Segments (snd s) ! i"
    and "m_InterprocessNamedSemaphore p \<noteq> i \<Longrightarrow> mc_Counts (snd s') ! i = mc_Counts (snd s) ! i"
proof -
  obtain s1 where s1: "publish_numbers 25000 p s = Some s1" "s' = (fst s1, SharedMemory_Notify p (snd s1))"
    using assms by (auto simp: publisher_round_def)
  note k = publish_numbers_keeps [OF s1(1)]
  show "objects (snd s') = objects (snd s)" using k(1) s1(2) by (simp add: SharedMemory_Notify_def objects_def Let_def)
  show "m_SharedMemory p \<noteq> i \<Longrightarrow> mc_Segments (snd s') ! i = mc_Segments (snd s) ! i"
    using k(3) s1(2) by (simp add: SharedMemory_Notify_def Let_def)
  show "m_InterprocessNamedSemaphore p \<noteq> i \<Longrightarrow> mc_Counts (snd s') ! i = mc_Counts (snd s) ! i"
    using k(2) s1(2) by (simp add: SharedMemory_Notify_def Let_def)
qed

lemma Consumer_Read_keeps:
  assumes "SharedMemoryConsumer_Read c mc = Some (mc', r, log)"
  shows "objects mc' = objects mc"
    and "m_InterprocessNamedSemaphore c < length (mc_Counts mc) \<Longrightarrow>
      length log + mc_Counts mc' ! m_InterprocessNamedSemaphore c \<le> mc_Counts mc ! m_InterprocessNamedSemaphore c"
  using assms
  by (auto simp: SharedMemoryConsumer_Read_def SharedMemory_Wait_def upd_segment_def objects_def Let_def
      split: if_splits option.splits read_result.splits)

lemma no_messages_no_log:
  assumes "m_SharedMemory p \<noteq> m_SharedMemory c" and "memory_run p c es s = Some (s', logs)"
    and "m_ReadOffset (mc_Segments (snd s) ! m_SharedMemory c) = m_WriteOffset (mc_Segments (snd s) ! m_SharedMemory c)"
  shows "logs = []"
  using assms
proof (induction p c es s arbitrary: logs rule: memory_run.induct)
  case (2 p c es s)
  then obtain s1 where s1: "publisher_round p s = Some s1" "memory_run p c es s1 = Some (s', logs)" by (auto split: option.splits)
  with "2.IH" [OF s1(1) "2.prems"(1) s1(2)] publisher_round_keeps(2) [OF s1(1) "2.prems"(1)] "2.prems"(3) show ?case by simp
next
  case (3 p c es s)
  let ?mc = "fst (SharedMemory_Wait c (snd s))"
  have w: "mc_Segments ?mc = mc_Segments (snd s)" by (simp add: SharedMemory_Wait_def Let_def)
  with "3.prems"(3) have r: "SharedMemoryConsumer_Read c (snd s) = Some (?mc, 0, [])"
    by (simp add: SharedMemoryConsumer_Read_def Read_messages_def case_prod_unfold)
  with "3.prems"(2) obtain logs' where "memory_run p c es (fst s, ?mc) = Some (s', logs')" "logs = logs'" by auto
  with "3.IH" [OF r refl refl "3.prems"(1), of logs'] w "3.prems"(3) show ?case by simp
qed simp

text \<open>
  The publisher removes the name of the segment when it starts: a consumer that started before it
  keeps a segment of its own and gets no message, in whatever order the two run.
\<close>

theorem early_consumer_hears_nothing:
  assumes "SharedMemoryConsumer_ctor name no_objects = (c, mc1)" and "SharedMemoryPublisher_ctor name mc1 = (p, mc2)"
    and "memory_run p c es (0, mc2) = Some (s, logs)"
  shows "logs = []"
proof (rule no_messages_no_log [OF _ assms(3)])
  show "m_SharedMemory p \<noteq> m_SharedMemory c" using assms(1,2) by (auto simp: ctor_simps)
  show "m_ReadOffset (mc_Segments (snd (0, mc2)) ! m_SharedMemory c) = m_WriteOffset (mc_Segments (snd (0, mc2)) ! m_SharedMemory c)"
    using assms(1,2) by (auto simp: ctor_simps)
qed

lemma run_from_0:
  "m_SharedMemory p \<noteq> m_SharedMemory c \<Longrightarrow> es = [Consumer_round] \<Longrightarrow>
   m_ReadOffset (mc_Segments mc ! m_SharedMemory c) = m_WriteOffset (mc_Segments mc ! m_SharedMemory c) \<Longrightarrow>
   \<exists>s. memory_run p c es (0, mc) = Some (s, [])"
  by (simp add: SharedMemoryConsumer_Read_def SharedMemory_Wait_def Read_messages_def Let_def)

theorem early_consumer_hears_nothing_witness:
  "\<exists>c mc1 p mc2 s logs. SharedMemoryConsumer_ctor ''m'' no_objects = (c, mc1) \<and> SharedMemoryPublisher_ctor ''m'' mc1 = (p, mc2) \<and>
    memory_run p c [Consumer_round] (0, mc2) = Some (s, logs) \<and> logs = []"
proof -
  obtain c mc1 where c: "SharedMemoryConsumer_ctor ''m'' no_objects = (c, mc1)" by fastforce
  obtain p mc2 where p: "SharedMemoryPublisher_ctor ''m'' mc1 = (p, mc2)" by fastforce
  have "\<exists>s. memory_run p c [Consumer_round] (0, mc2) = Some (s, [])"
    by (rule run_from_0) (use c p in \<open>auto simp: ctor_simps\<close>)
  then obtain s logs where r: "memory_run p c [Consumer_round] (0, mc2) = Some (s, logs)" by blast
  from early_consumer_hears_nothing [OF c p r] c p r show ?thesis by blast
qed

text \<open>
  A consumer that ends removes the name of the semaphore: the next one waits for a semaphore of its
  own, which the publisher does not post, and logs at most once.
\<close>

lemma counted_reads:
  assumes "m_InterprocessNamedSemaphore p \<noteq> m_InterprocessNamedSemaphore c" and "memory_run p c es s = Some (s', logs)"
    and "m_InterprocessNamedSemaphore c < length (mc_Counts (snd s))"
  shows "length logs \<le> mc_Counts (snd s) ! m_InterprocessNamedSemaphore c"
  using assms
proof (induction p c es s arbitrary: logs rule: memory_run.induct)
  case (2 p c es s)
  then obtain s1 where s1: "publisher_round p s = Some s1" "memory_run p c es s1 = Some (s', logs)" by (auto split: option.splits)
  have "length (mc_Counts (snd s1)) = length (mc_Counts (snd s))" using publisher_round_keeps(1) [OF s1(1)] by (simp add: objects_def)
  with "2.IH" [OF s1(1) "2.prems"(1) s1(2)] publisher_round_keeps(3) [OF s1(1) "2.prems"(1)] "2.prems"(3) show ?case by simp
next
  case (3 p c es s)
  let ?i = "m_InterprocessNamedSemaphore c"
  from "3.prems"(2) obtain mc1 r log logs' where
    r: "SharedMemoryConsumer_Read c (snd s) = Some (mc1, r, log)" "memory_run p c es (fst s, mc1) = Some (s', logs')" "logs = log @ logs'"
    by (auto split: option.splits prod.splits)
  have "length (mc_Counts mc1) = length (mc_Counts (snd s))" using Consumer_Read_keeps(1) [OF r(1)] by (simp add: objects_def)
  with "3.IH" [OF r(1) refl refl "3.prems"(1), of logs'] Consumer_Read_keeps(2) [OF r(1) "3.prems"(3)] r(2,3) "3.prems"(3) show ?case by simp
qed simp

lemma memory_run_keeps: "memory_run p c es s = Some (s', logs) \<Longrightarrow> objects (snd s') = objects (snd s)"
proof (induction p c es s arbitrary: logs rule: memory_run.induct)
  case (2 p c es s)
  then obtain s1 where s1: "publisher_round p s = Some s1" "memory_run p c es s1 = Some (s', logs)" by (auto split: option.splits)
  with "2.IH" [OF s1(1) s1(2)] publisher_round_keeps(1) [OF s1(1)] show ?case by simp
next
  case (3 p c es s)
  then obtain mc1 r log logs' where
    r: "SharedMemoryConsumer_Read c (snd s) = Some (mc1, r, log)" "memory_run p c es (fst s, mc1) = Some (s', logs')" "logs = log @ logs'"
    by (auto split: option.splits prod.splits)
  with "3.IH" [OF r(1) refl refl r(2)] Consumer_Read_keeps(1) [OF r(1)] show ?case by simp
qed simp

theorem next_consumer_starves:
  assumes "SharedMemoryPublisher_ctor name no_objects = (p, mc1)" and "SharedMemoryConsumer_ctor name mc1 = (c1, mc2)"
    and "memory_run p c1 es1 (0, mc2) = Some ((n, mc3), logs1)"
    and "SharedMemoryConsumer_ctor name (SharedMemory_dtor c1 mc3) = (c2, mc4)"
    and "memory_run p c2 es2 (n, mc4) = Some (s, logs2)"
  shows "length logs2 \<le> 1"
proof -
  have p: "m_InterprocessNamedSemaphore p = 0" and c1: "m_SemaphoreName c1 = name @ ''_Semaphore''" and len: "length (mc_Counts mc2) = 1"
    using assms(1,2) by (auto simp: ctor_simps)
  have "length (mc_Counts mc3) = 1" using memory_run_keeps [OF assms(3)] len by (simp add: objects_def)
  then have c2: "m_InterprocessNamedSemaphore c2 = 1" "mc_Counts mc4 ! 1 = 1" "length (mc_Counts mc4) = 2"
    using assms(4) c1 by (auto simp: ctor_simps SharedMemory_dtor_def nth_append split: option.splits)
  from counted_reads [OF _ assms(5)] p c2 show ?thesis by simp
qed


lemma turns_once:
  assumes "SharedMemoryPublisher_ctor name no_objects = (p, mc1)" and "SharedMemoryConsumer_ctor name mc1 = (c, mc2)"
  shows "\<exists>s. memory_run p c [Publisher_round, Consumer_round] (0, mc2) = Some (s, [(25000, dec_nat (unat (25000 :: u64)))])"
proof -
  have ids: "m_SharedMemory p = 0" "m_InterprocessNamedSemaphore p = 0" "m_SharedMemory c = 0" "m_InterprocessNamedSemaphore c = 0"
    using assms by (auto simp: ctor_simps)
  have "all_read mc2"
    using assms by (auto simp: ctor_simps all_read_def holds_def frames_def SharedMemory_size_def sizeof_MemoryMapHeader_def)
  from one_turn [OF this ids, of 0] show ?thesis by auto
qed

theorem next_consumer_starves_witness:
  "\<exists>p mc1 c1 mc2 n mc3 c2 mc4 s logs. SharedMemoryPublisher_ctor ''m'' no_objects = (p, mc1) \<and> SharedMemoryConsumer_ctor ''m'' mc1 = (c1, mc2) \<and>
    memory_run p c1 [Publisher_round, Consumer_round] (0, mc2) = Some ((n, mc3), [(25000, dec_nat (unat (25000 :: u64)))]) \<and>
    SharedMemoryConsumer_ctor ''m'' (SharedMemory_dtor c1 mc3) = (c2, mc4) \<and>
    memory_run p c2 [] (n, mc4) = Some (s, logs) \<and> length logs \<le> 1"
proof -
  obtain p mc1 where p: "SharedMemoryPublisher_ctor ''m'' no_objects = (p, mc1)" by fastforce
  obtain c1 mc2 where c1: "SharedMemoryConsumer_ctor ''m'' mc1 = (c1, mc2)" by fastforce
  obtain n mc3 where r1: "memory_run p c1 [Publisher_round, Consumer_round] (0, mc2) = Some ((n, mc3), [(25000, dec_nat (unat (25000 :: u64)))])"
    using turns_once [OF p c1] by (metis surj_pair)
  obtain c2 mc4 where c2: "SharedMemoryConsumer_ctor ''m'' (SharedMemory_dtor c1 mc3) = (c2, mc4)" by fastforce
  obtain s logs where r2: "memory_run p c2 [] (n, mc4) = Some (s, logs)" by simp
  from next_consumer_starves [OF p c1 r1 c2 r2] p c1 r1 c2 r2 show ?thesis by blast
qed

end
