(* ===== verification/SharedMemoryRace.thy ===== *)
theory SharedMemoryRace
  imports SharedMemory
begin

text \<open>
  The publisher and the consumer of \<open>share_memory\<close> on the segment at the same time: neither takes
  the semaphore while it uses the offsets. Every statement of the two that reads or writes a word
  of the header is a step of its own.
\<close>

section \<open>Steps\<close>

datatype publisher_at = P_idle | P_zero_read string | P_zero_write string | P_message string

datatype consumer_at = C_idle | C_loop | C_message nat | C_advance nat | C_test | C_outside

record sharing =
  sh_Segment :: segment
  sh_Publisher :: publisher_at
  sh_Consumer :: consumer_at

inductive publisher_step :: "sharing \<Rightarrow> sharing \<Rightarrow> bool" where
  begin_write: "sh_Publisher s = P_idle \<Longrightarrow>
    publisher_step s (s\<lparr>sh_Publisher := (if Write_full m (sh_Segment s) then P_zero_read m else P_message m)\<rparr>)"
| zero_read: "sh_Publisher s = P_zero_read m \<Longrightarrow>
    publisher_step s (s\<lparr>sh_Segment := (sh_Segment s)\<lparr>m_ReadOffset := 0\<rparr>, sh_Publisher := P_zero_write m\<rparr>)"
| zero_write: "sh_Publisher s = P_zero_write m \<Longrightarrow>
    publisher_step s (s\<lparr>sh_Segment := (sh_Segment s)\<lparr>m_WriteOffset := 0\<rparr>, sh_Publisher := P_message m\<rparr>)"
| message: "sh_Publisher s = P_message m \<Longrightarrow> Write_message m (sh_Segment s) = Some g \<Longrightarrow>
    publisher_step s (s\<lparr>sh_Segment := g, sh_Publisher := P_idle\<rparr>)"

text \<open>
  The pointer to the message is taken before its size is looked at, and its size is read again for
  the new offset.
\<close>

inductive consumer_step :: "sharing \<Rightarrow> sharing \<Rightarrow> bool" where
  start: "sh_Consumer s = C_idle \<Longrightarrow> m_ReadOffset (sh_Segment s) \<noteq> m_WriteOffset (sh_Segment s) \<Longrightarrow>
    consumer_step s (s\<lparr>sh_Consumer := C_loop\<rparr>)"
| point: "sh_Consumer s = C_loop \<Longrightarrow>
    consumer_step s (s\<lparr>sh_Consumer := C_message (unat (m_ReadOffset (sh_Segment s)))\<rparr>)"
| take_message: "sh_Consumer s = C_message off \<Longrightarrow> inside (off + sizeof_MemoryMsg) (sh_Segment s) \<Longrightarrow>
    m_Size off (m_Payload (sh_Segment s)) < m_MaxPayloadBufferSize (sh_Segment s) \<Longrightarrow>
    inside (off + sizeof_MemoryMsg + unat (m_Size off (m_Payload (sh_Segment s)))) (sh_Segment s) \<Longrightarrow>
    consumer_step s (s\<lparr>sh_Consumer := C_advance off\<rparr>)"
| stop: "sh_Consumer s = C_message off \<Longrightarrow> inside (off + sizeof_MemoryMsg) (sh_Segment s) \<Longrightarrow>
    \<not> m_Size off (m_Payload (sh_Segment s)) < m_MaxPayloadBufferSize (sh_Segment s) \<Longrightarrow>
    consumer_step s (s\<lparr>sh_Consumer := C_idle\<rparr>)"
| leave: "sh_Consumer s = C_message off \<Longrightarrow>
    \<not> inside (off + sizeof_MemoryMsg) (sh_Segment s) \<or>
      m_Size off (m_Payload (sh_Segment s)) < m_MaxPayloadBufferSize (sh_Segment s) \<and>
      \<not> inside (off + sizeof_MemoryMsg + unat (m_Size off (m_Payload (sh_Segment s)))) (sh_Segment s) \<Longrightarrow>
    consumer_step s (s\<lparr>sh_Consumer := C_outside\<rparr>)"
| advance: "sh_Consumer s = C_advance off \<Longrightarrow>
    consumer_step s (s\<lparr>sh_Segment := (sh_Segment s)\<lparr>m_ReadOffset :=
        m_ReadOffset (sh_Segment s) + (of_nat sizeof_MemoryMsg + m_Size off (m_Payload (sh_Segment s)))\<rparr>, sh_Consumer := C_test\<rparr>)"
| again: "sh_Consumer s = C_test \<Longrightarrow> m_WriteOffset (sh_Segment s) \<noteq> m_ReadOffset (sh_Segment s) \<Longrightarrow>
    consumer_step s (s\<lparr>sh_Consumer := C_loop\<rparr>)"
| ready: "sh_Consumer s = C_test \<Longrightarrow> m_WriteOffset (sh_Segment s) = m_ReadOffset (sh_Segment s) \<Longrightarrow>
    consumer_step s (s\<lparr>sh_Consumer := C_idle\<rparr>)"

definition sharing_step :: "sharing \<Rightarrow> sharing \<Rightarrow> bool" where
  "sharing_step s s' \<longleftrightarrow> publisher_step s s' \<or> consumer_step s s'"

section \<open>A reader that is overtaken\<close>

text \<open>Behind the write offset the test for the end never holds: the offsets move apart.\<close>

lemma Read_loop_overtaken:
  "m_WriteOffset g < m_ReadOffset g \<Longrightarrow> Read_loop counter g \<noteq> Read_all g' n m"
proof (induction counter g rule: Read_loop.induct)
  case (1 counter g)
  let ?off = "unat (m_ReadOffset g)" let ?size = "m_Size ?off (m_Payload g)"
  let ?g1 = "g\<lparr>m_ReadOffset := m_ReadOffset g + (of_nat sizeof_MemoryMsg + ?size)\<rparr>"
  show ?case
  proof (cases "inside (?off + sizeof_MemoryMsg) g \<and> ?size < m_MaxPayloadBufferSize g \<and> inside (?off + sizeof_MemoryMsg + unat ?size) g")
    case False
    then show ?thesis by (subst Read_loop.simps) (auto simp: Let_def)
  next
    case True
    then have "?off + 8 + unat ?size < 2 ^ 64" by (simp add: inside_def sizeof_MemoryMsg_def)
    from unat_advance_word [OF this] have "unat (m_ReadOffset ?g1) = ?off + 8 + unat ?size" by (simp add: sizeof_MemoryMsg_def)
    with "1.prems" have lt: "m_WriteOffset ?g1 < m_ReadOffset ?g1" by (simp add: word_less_nat_alt)
    then have ne: "m_WriteOffset ?g1 \<noteq> m_ReadOffset ?g1" by (rule less_imp_neq)
    from "1.IH" [OF refl _ refl _ _ refl refl ne lt] True
    have "Read_loop (Suc counter) ?g1 \<noteq> Read_all g' n m" by blast
    with True ne show ?thesis by (subst Read_loop.simps) (simp add: Let_def)
  qed
qed

text \<open>
  The consumer in the middle of a message; the publisher after a reset, about to write its message;
  the consumer after it has added the size of its message to the new offset.
\<close>

definition caught :: "sharing \<Rightarrow> sharing" where
  "caught s = s\<lparr>sh_Consumer := C_advance (unat (m_ReadOffset (sh_Segment s)))\<rparr>"

definition after_reset :: "string \<Rightarrow> sharing \<Rightarrow> sharing" where
  "after_reset m s = s\<lparr>sh_Segment := (sh_Segment s)\<lparr>m_ReadOffset := 0, m_WriteOffset := 0\<rparr>, sh_Publisher := P_message m\<rparr>"

definition overtaken :: "string \<Rightarrow> sharing \<Rightarrow> sharing" where
  "overtaken m1 s = s\<lparr>sh_Segment := (sh_Segment s)\<lparr>m_ReadOffset := 8 + of_nat (length m1)\<rparr>, sh_Consumer := C_loop\<rparr>"

lemma caught_holds:
  assumes h: "holds (sh_Segment s) (m1 # ms)" and c: "sh_Consumer s = C_idle"
  shows "consumer_step\<^sup>*\<^sup>* s (caught s) \<and>
    m_Size (unat (m_ReadOffset (sh_Segment s))) (m_Payload (sh_Segment s)) = of_nat (length m1) \<and> 8 + length m1 < 2 ^ 63"
proof -
  let ?g = "sh_Segment s" let ?off = "unat (m_ReadOffset ?g)" let ?p = "m_Payload ?g"
  have g: "unat (m_WriteOffset ?g) \<le> unat (m_MaxPayloadBufferSize ?g)" "unat (m_MaxPayloadBufferSize ?g) \<le> length ?p" "length ?p < 2 ^ 63"
    "unat (m_WriteOffset ?g) = ?off + (8 + length m1 + length (frames ms))"
    "take (length (framed m1 @ frames ms)) (drop ?off ?p) = framed m1 @ frames ms"
    using h unfolding holds_def frames_simps length_append length_framed by blast+
  have lt: "length m1 < 2 ^ 64" "8 + length m1 < 2 ^ 63" using g(1-4) by simp_all
  have sz: "m_Size ?off ?p = of_nat (length m1)" by (rule size_of_frame(1) [OF g(5) lt(1)])
  have um: "unat (of_nat (length m1) :: u64) = length m1" using lt(1) by (simp add: unat_of_nat)
  have ins: "inside (?off + sizeof_MemoryMsg) ?g" "inside (?off + sizeof_MemoryMsg + length m1) ?g"
    using g(1-4) by (simp_all add: inside_def sizeof_MemoryMsg_def)
  have less: "of_nat (length m1) < m_MaxPayloadBufferSize ?g" using g(1,4) by (simp add: word_less_nat_alt um)
  have "consumer_step s (s\<lparr>sh_Consumer := C_loop\<rparr>)" using start [OF c] holds_Cons [OF h] by simp
  moreover have "consumer_step (s\<lparr>sh_Consumer := C_loop\<rparr>) (s\<lparr>sh_Consumer := C_message ?off\<rparr>)"
    using point [of "s\<lparr>sh_Consumer := C_loop\<rparr>"] by simp
  moreover have "consumer_step (s\<lparr>sh_Consumer := C_message ?off\<rparr>) (caught s)"
    using take_message [of "s\<lparr>sh_Consumer := C_message ?off\<rparr>" ?off] ins less by (simp add: caught_def sz um)
  ultimately have "consumer_step\<^sup>*\<^sup>* s (caught s)" by (meson r_into_rtranclp rtranclp.rtrancl_into_rtrancl)
  with sz lt(2) show ?thesis by simp
qed

lemma reset_steps:
  assumes "Write_full m (sh_Segment s)" and "sh_Publisher s = P_idle"
  shows "(publisher_step ^^ 3) s (after_reset m s)"
proof -
  let ?a = "s\<lparr>sh_Publisher := P_zero_read m\<rparr>"
  let ?b = "s\<lparr>sh_Segment := (sh_Segment s)\<lparr>m_ReadOffset := 0\<rparr>, sh_Publisher := P_zero_write m\<rparr>"
  have "publisher_step s ?a" using begin_write [OF assms(2), of m] assms(1) by simp
  moreover have "publisher_step ?a ?b" using zero_read [of ?a m] by simp
  moreover have "publisher_step ?b (after_reset m s)" using zero_write [of ?b m] by (simp add: after_reset_def)
  ultimately show ?thesis unfolding numeral_3_eq_3 by (blast intro: relpowp_Suc_I relpowp_0_I)
qed

lemma advance_steps:
  assumes "sh_Consumer s = C_advance off" and "m_Size off (m_Payload (sh_Segment s)) = of_nat (length m1)"
    and "m_ReadOffset (sh_Segment s) = 0" and "m_WriteOffset (sh_Segment s) = 0" and "8 + length m1 < 2 ^ 63"
  shows "(consumer_step ^^ 2) s (overtaken m1 s) \<and> m_WriteOffset (sh_Segment (overtaken m1 s)) < m_ReadOffset (sh_Segment (overtaken m1 s))"
proof -
  let ?a = "s\<lparr>sh_Segment := (sh_Segment s)\<lparr>m_ReadOffset := 8 + of_nat (length m1)\<rparr>, sh_Consumer := C_test\<rparr>"
  have "unat (8 + of_nat (length m1) :: u64) = 8 + length m1" using unat_advance [of 0 "length m1"] assms(5) by simp
  then have lt: "(0 :: u64) < 8 + of_nat (length m1)" by (simp add: word_less_nat_alt)
  have "consumer_step s ?a" using advance [OF assms(1)] assms(2,3) by (simp add: sizeof_MemoryMsg_def)
  moreover have "consumer_step ?a (overtaken m1 s)"
    using again [of ?a] less_imp_neq [OF lt] assms(4) by (simp add: overtaken_def)
  ultimately have "(consumer_step ^^ 2) s (overtaken m1 s)" unfolding numeral_2_eq_2 by (blast intro: relpowp_Suc_I relpowp_0_I)
  with lt assms(4) show ?thesis by (simp add: overtaken_def)
qed

lemma Write_message_reader:
  "Write_message m g = Some g' \<Longrightarrow> Write_message m (g\<lparr>m_ReadOffset := r\<rparr>) = Some (g'\<lparr>m_ReadOffset := r\<rparr>)"
  by (auto simp: Write_message_def inside_def Let_def split: if_splits)

text \<open>
  C37: A message is unread, and the publisher writes one that fits into the segment but not behind
  the others, while the consumer is in the middle of the first message. The publisher resets both
  offsets under the consumer, which adds the size of its message to the new offset and is behind
  the end of the messages: however long it reads on, it does not come to the end as it should, but
  leaves the segment or meets a size that cannot be. It stays so when the publisher has finished
  its write, if the new message is shorter than the one the consumer was in.
\<close>

theorem shared_memory_overtaken:
  fixes m :: string
  assumes "holds (sh_Segment s) (m1 # ms)" and "sh_Publisher s = P_idle" and "sh_Consumer s = C_idle"
    and "8 + length m \<le> unat (m_MaxPayloadBufferSize (sh_Segment s))"
    and "unat (m_WriteOffset (sh_Segment s)) + 8 + length m > unat (m_MaxPayloadBufferSize (sh_Segment s))"
    and "s' = overtaken m1 (after_reset m (caught s))"
  shows "consumer_step\<^sup>*\<^sup>* s (caught s) \<and> (publisher_step ^^ 3) (caught s) (after_reset m (caught s)) \<and>
    (consumer_step ^^ 2) (after_reset m (caught s)) s' \<and> (\<forall>counter g n l. Read_loop counter (sh_Segment s') \<noteq> Read_all g n l) \<and>
    (\<exists>g'. publisher_step s' (s'\<lparr>sh_Segment := g', sh_Publisher := P_idle\<rparr>) \<and> Write_message m (sh_Segment s') = Some g' \<and>
       (length m < length m1 \<longrightarrow> (\<forall>counter g n l. Read_loop counter g' \<noteq> Read_all g n l)))"
proof -
  let ?g = "sh_Segment s" let ?r = "after_reset m (caught s)"
  note c = caught_holds [OF assms(1,3)]
  have full: "Write_full m (sh_Segment (caught s))"
    using Write_full_iff [OF assms(1,4)] assms(5) by (simp add: caught_def)
  have p: "(publisher_step ^^ 3) (caught s) ?r" by (rule reset_steps [OF full]) (simp add: caught_def assms(2))
  have a: "(consumer_step ^^ 2) ?r s'" "m_WriteOffset (sh_Segment s') < m_ReadOffset (sh_Segment s')"
    using advance_steps [of ?r "unat (m_ReadOffset ?g)" m1] c by (simp_all add: assms(6) after_reset_def caught_def)
  obtain g0 where g0: "Write_message m (?g\<lparr>m_ReadOffset := 0, m_WriteOffset := 0\<rparr>) = Some g0" "unat (m_WriteOffset g0) = 8 + length m"
    using Write_message_holds [OF holds_reset [OF assms(1)], of m] assms(4) by auto
  let ?g' = "g0\<lparr>m_ReadOffset := 8 + of_nat (length m1)\<rparr>"
  have w: "Write_message m (sh_Segment s') = Some ?g'"
    using Write_message_reader [OF g0(1), of "8 + of_nat (length m1)"] by (simp add: assms(6) overtaken_def after_reset_def caught_def)
  have st: "publisher_step s' (s'\<lparr>sh_Segment := ?g', sh_Publisher := P_idle\<rparr>)"
    by (rule message [OF _ w]) (simp add: assms(6) overtaken_def after_reset_def)
  have "unat (8 + of_nat (length m1) :: u64) = 8 + length m1" using unat_advance [of 0 "length m1"] c by simp
  then have "m_WriteOffset ?g' < m_ReadOffset ?g'" if "length m < length m1" using g0(2) that by (simp add: word_less_nat_alt)
  with Read_loop_overtaken have "length m < length m1 \<longrightarrow> (\<forall>counter g n l. Read_loop counter ?g' \<noteq> Read_all g n l)" by blast
  moreover have "\<forall>counter g n l. Read_loop counter (sh_Segment s') \<noteq> Read_all g n l" using Read_loop_overtaken [OF a(2)] by blast
  ultimately show ?thesis using c p a(1) w st by blast
qed

text \<open>A segment of 24 bytes with one message, and a shorter one that does not fit behind it.\<close>

theorem shared_memory_overtaken_witness:
  "\<exists>s s' :: sharing. holds (sh_Segment s) [''22'', ''4''] \<and> s' = overtaken ''22'' (after_reset ''1'' (caught s)) \<and>
    (publisher_step ^^ 3) (caught s) (after_reset ''1'' (caught s)) \<and> (consumer_step ^^ 2) (after_reset ''1'' (caught s)) s' \<and>
    (\<exists>g'. publisher_step s' (s'\<lparr>sh_Segment := g', sh_Publisher := P_idle\<rparr>) \<and>
       (\<forall>counter g n l. Read_loop counter g' \<noteq> Read_all g n l))"
proof -
  let ?g = "\<lparr>m_MaxPayloadBufferSize = 24, m_WriteOffset = 19, m_ReadOffset = 0, m_Payload = framed ''22'' @ framed ''4'' @ replicate 5 CHR 0x00\<rparr>"
  let ?s = "\<lparr>sh_Segment = ?g, sh_Publisher = P_idle, sh_Consumer = C_idle\<rparr>"
  let ?s' = "overtaken ''22'' (after_reset ''1'' (caught ?s))"
  have h: "holds (sh_Segment ?s) [''22'', ''4'']" by (simp add: holds_def)
  note o = shared_memory_overtaken [OF h, where m = "''1''" and s' = ?s', simplified]
  from o h show ?thesis by (intro exI [of _ ?s] exI [of _ ?s']) auto
qed

end
