(* ===== verification/Spec2Isabelle.thy ===== *)
theory Spec2Isabelle
  imports ServerRun ReferenceMarket PriceTime EngineThreads Containers MarketProgram TcpProps WsPrograms AtomicQueueProgram LockFreeProgram
    EchoPrograms SmallPrograms SaxProgram NewLoggerProgram SharedMemoryPrograms SharedMemoryRace
begin

text \<open>
  A model of the moboware libraries (C++, under \<open>src/src/lib\<close>) and what it shows of them.

  \<^bold>\<open>The program.\<close> An application reads a JSON configuration and starts web socket channels; a
  channel hands every buffer it receives to its modules. The main module is a matching engine: it
  keeps one engine per instrument, reads order messages from the buffers, matches orders by price
  and time and answers over the channel. Everything runs on the threads of one service. Beside it
  stand the market data feeds of two exchanges with a program that keeps them connected, two
  generations of socket servers, sessions and clients, timers, a logger, the containers they use,
  and the example programs of \<open>src/playground\<close> around them.

  \<^bold>\<open>The theories.\<close>
  \<^item> \<open>Prelude\<close>: machine integers (\<open>u16\<close>, \<open>u64\<close>), exceptions as values (\<open>throws\<close>, \<open>bind_e\<close>),
    searches in lists, decimal numbers, and the locales \<open>step_invariant\<close> and \<open>step_refinement\<close>
    that carry one-step facts over runs.
  \<^item> \<open>StdMap\<close>: \<open>std::map\<close> over a comparison, with its laws in the locale \<open>strict_compare\<close>.
  \<^item> \<open>Json\<close>: the interface of the JSON library, as a parameter, and an instance to compute with.
  \<^item> \<open>OrderData\<close>, \<open>OrderLevel\<close>, \<open>OrderBook\<close>: requests, replies and their texts
    (\<open>order_data.h\<close>, \<open>.cpp\<close>), the queue of one price (\<open>order_level\<close>), one side of a book
    (\<open>order_book\<close>).
  \<^item> \<open>Matching\<close>, \<open>MatchingEngine\<close>, \<open>EngineProps\<close>: the matching loop of \<open>matching_engine.cpp\<close>,
    its specification \<open>match_lists\<close> on two lists of orders, the requests, and their properties:
    refinement, uncrossed books, conservation of volume, what an amend and a cancel do. A cancel can
    leave an empty level, and the properties of the matching after it say so: \<open>engine_ok\<close> is the
    invariant of every reachable engine, \<open>engine_full\<close> that no level is empty.
  \<^item> \<open>ReferenceEngine\<close>: the rules of the market as an engine on two lists of orders
    (\<open>lists_request\<close>), which the engine of the program follows over any sequence of requests
    (\<open>engine_run_refines\<close>) that does not cancel the only order of a price.
    \<open>ReferenceMarket\<close> puts one such engine per instrument behind the network: from its
    configuration on the module follows it over any history of buffers.
    \<open>PriceTime\<close>: priority of price and time as a sweep over the orders of the other side
    (\<open>sweep\<close>), and how an empty level at the head of a side stops the matching.
  \<^item> \<open>EngineThreads\<close>: the requests of an engine on several threads, statement by statement under its
    mutex (\<open>engine_step\<close>), which come down to one request after the other.
  \<^item> \<open>OrderEventProcessor\<close>, \<open>MatchingEngineModule\<close>, \<open>ModuleProps\<close>: reading a buffer and calling
    the handler of the request (interface \<open>order_handler\<close>), the module with its engines, and what
    holds of every buffer that can arrive.
  \<^item> \<open>Channels\<close>: \<open>application.cpp\<close>, \<open>channel_base.cpp\<close>, \<open>web_socket_channel.cpp\<close> and the small
    modules: configuration, start and delivery.
  \<^item> \<open>Logger\<close>, \<open>LoggerThread\<close>: levels, lines and the queue of \<open>logger.hpp\<close>, and its thread with
    the wait, the notifications and the end: the log is the lines that passed, as far as they were
    written. \<open>NewLoggerProgram\<close> is the program \<open>new_logger\<close> on top of it.
  \<^item> \<open>Fifo\<close>, \<open>RingBuffer\<close>, \<open>LockLessRingBuffer\<close>, \<open>Containers\<close>: the containers of
    \<open>common\<close>. \<open>Fifo\<close> states what a queue promises (locale \<open>fifo\<close>); the two ring buffers are
    interpreted in it, and \<open>ll_step\<close> is the relation of the interleaved threads of the second.
  \<^item> \<open>Exchange\<close>, \<open>MarketData\<close>, \<open>FeedProps\<close>: the stream parsers of \<open>exchanges\<close> as handlers of
    the events of a SAX parser, the session handlers and feeds, the data handler of the example
    program, and what is delivered for a message (locales \<open>sax_invariant\<close>, \<open>level_side\<close>).
  \<^item> \<open>MarketProgram\<close>: the feeds of \<open>market_data_feed/main.cpp\<close> and the timer that connects them
    again.
  \<^item> \<open>Sockets\<close>, \<open>SocketProps\<close>: the servers and sessions of \<open>socket\<close>: the byte stream of a session
    from its socket through its ring buffer to a callback that takes bytes through \<open>ReadBuffer\<close>
    (\<open>session_run\<close>), and what becomes of the sessions of a server.
  \<^item> \<open>SocketClients\<close>: the clients of \<open>socket\<close>, its ping timer and the sizes of the buffers.
  \<^item> \<open>SocketLife\<close>, \<open>SocketLifeInv\<close>, \<open>SocketLifeProps\<close>, \<open>SocketLifeWs\<close>: the lifetime of the sessions of
    \<open>socket\<close>. Sessions are objects of a store that live as long as the map of the server holds them;
    the waits on them and the handlers that are ready are part of the state, and a handler of a
    destroyed session has no result. \<open>live_reach\<close> and \<open>wl_reach\<close> are the states reached; the locale
    \<open>closed_handler\<close> is what the proofs need of the handler for a closed session, which is
    interpreted for TCP and for TLS.
  \<^item> \<open>Timers\<close>: \<open>timer.cpp\<close> with the steps of a timer as the relation \<open>timer_step\<close>, in which
    the rest of the program may change the state in between; and \<open>service.cpp\<close>: what its threads
    do with an exception, and a run of handlers on them (\<open>Service_exec\<close>).
  \<^item> \<open>TcpLib\<close>, \<open>TcpProps\<close>: \<open>session.cpp\<close>, \<open>tcp_server.cpp\<close> and \<open>tcp_client.cpp\<close> of \<open>common\<close>:
    the frames on the wire, the list of sessions over any sequence of events, and the pings.
  \<^item> \<open>WebSocketLib\<close>, \<open>WebSocketRun\<close>: the library \<open>web_socket\<close> the channels use. Its sessions are
    objects of a store that live as long as the map of the server holds them, and the handlers
    they wait for are events; \<open>ws_reach\<close> is the set of the states reached, \<open>ws_inv\<close> their
    invariant, and the locale \<open>data_callback\<close> what the server needs of the function that takes
    its data. A session records what was written on its stream (\<open>ws_Written\<close>).
  \<^item> \<open>SocketPrograms\<close>, \<open>WsPrograms\<close>: the programs \<open>tcp_server\<close>, \<open>ssl_server\<close>, \<open>tcp_client\<close>,
    \<open>ssl_client\<close>, \<open>web_socket_client\<close> and \<open>web_socket_server\<close>: session handlers, the handlers their
    threads run (\<open>main_Run\<close>), the timers that send, with the bytes they put on the wire, those of a
    failed write included (locales \<open>silent_server\<close>, \<open>sending_client\<close>).
  \<^item> \<open>QueueElements\<close>, \<open>AtomicQueueProgram\<close>, \<open>LockFreeProgram\<close>: the programs \<open>atomic_queue\<close> and
    \<open>lockfree_ringbuffer\<close>: the elements in memory, the interleaved producers and consumer of the
    first (\<open>aq_step\<close>), and the operations of the second over \<open>LockLessRingBuffer\<close>, up to the wrap
    of its counters and across it.
  \<^item> \<open>EchoPrograms\<close>: the client and the server \<open>boost_asio_ssl\<close>: one connection as the relation
    \<open>echo_step\<close>, its invariant, and the measure by which the reply comes. The sessions of the
    server share nothing but the library, and only one connection is followed.
  \<^item> \<open>SharedMemory\<close>, \<open>SharedMemoryPrograms\<close>, \<open>SharedMemoryRace\<close>: the publisher and the consumer of
    \<open>test/share_memory\<close>: the messages in the segment (\<open>holds\<close> relates it to the list of them), the
    named objects of both processes, and both on the segment at the same time.
  \<^item> \<open>SmallPrograms\<close>, \<open>SaxProgram\<close>: the programs \<open>eqvilent\<close>, \<open>meta_programming\<close> and
    \<open>lohmann_sax_parsing\<close>.
  \<^item> \<open>ServerRun\<close>: server, channel, modules and service together (the interpretation \<open>channel\<close> of
    \<open>data_callback\<close>): what one frame leads to on the stream of its sender, what stays true of a
    running server, what one bad frame does, and how two clients that leave together make the server
    use a destroyed session.

  \<^bold>\<open>Correspondence.\<close> A definition has the name of the function it models, with the class in front
  (\<open>OrderBook_Insert\<close> is \<open>OrderBook::Insert\<close>); a record has the members of its class. State is
  passed and returned. An exception is an \<open>Inl\<close>. Undefined behaviour (\<open>memcpy\<close> on overlapping
  memory, a write outside the storage of a vector) is \<open>None\<close>, and theorems say when it happens.
  Integers have their width where it can matter; \<open>std::string\<close> is a list of characters.

  \<^bold>\<open>Termination and bounds.\<close> Every loop of the model is a terminating function: the matching loop
  ends because each round trades away an order (a measure on the orders in the books, which
  \<open>matching_ends\<close> turns into a bound); no fuel is used. The loop that erases from the map it runs
  over ends with a measure on what is left of the map. A timer, which never ends by itself, is a
  step relation; so are the echo connection, for which a measure bounds the steps, the queue program,
  the engine under its mutex (\<open>call_finishes\<close>: every call can be brought to its end) and the segment in
  shared memory. A run of handlers is over the list of those that run. The one function of the source that never returns, the constant
  \<open>find\<close> of \<open>unordered_fast_map\<close>, is a partial function with no value. The capacities of
  the sources (5120 characters of a log line, 500 trades of the average, 20 levels of a snapshot)
  appear as they are; container theorems hold for every capacity they name.

  \<^bold>\<open>Parameters.\<close> The JSON library (\<open>json_api\<close>), the SAX parser (a function from a text to its
  events), floating point numbers (\<open>double_api\<close>), formatting and the file system of the logger,
  the clock, the resolver, the queue of \<open>atomic_queue\<close> (\<open>queue_api\<close>, first in, first out:
  \<open>queue_laws\<close>), and the outcome of every call of the I/O library are arguments. Of the
  I/O library its documentation is used: a wait that is cancelled completes with an error, the
  handler of a destroyed object is called with an error, a read of a web socket fails only when
  its stream is not open any more, an exception of a handler leaves the \<open>run\<close> of its thread, and
  a failed connect leaves the socket open. A handler is one step; the threads interleave handlers.

  \<^bold>\<open>Not modelled.\<close> Certificates and the set-up of TLS contexts (data and calls of that library),
  the wait and signal of the lock-less queue, handlers of the servers that run at the same moment on
  both threads (the requests of an engine are modelled so, the list of sessions is not: it is used
  without a lock), the programs \<open>template\<close> and \<open>clock\<close> (they print a fixed line or readings of
  clocks), tests and benchmarks other than \<open>share_memory\<close>. The file \<open>bitstamp/binance_stream_parser.hpp\<close> is an unused copy of the parser of
  binance, and \<open>bitstamp/orderbook_levels_snapshot_parser.hpp\<close> one whose calls are commented out.

  \<^bold>\<open>What is left.\<close> Handlers of the servers that run at the same moment; the wake-ups of the consumer
  of the lock-less queue.
\<close>

end
